(* ===== verification/Rbtc_Prelude.thy ===== *)
theory Rbtc_Prelude
  imports
    Main
    "HOL-Library.Word"
    "HOL-Library.Finite_Map"
    "HOL-Library.List_Lexorder"
begin

text \<open>
  Shared vocabulary of the development: the names of Rust's integer types, the
  \<open>Result\<close> type with its \<open>?\<close> operator, Rust's checked and saturating
  arithmetic, little-endian byte strings, the byte-cursor reader used by the
  record decoders, and the state-and-error plumbing for code that mutates a
  store through a shared reference.

  \<open>usize\<close> is read as \<open>nat\<close>: every \<open>usize\<close> of the modelled code is a length or an
  index of an allocated vector, and where the code saturates a \<open>usize\<close> the model
  writes the bound out.
\<close>

unbundle bit_operations_syntax

type_synonym u8 = "8 word"
type_synonym u32 = "32 word"
type_synonym u64 = "64 word"
type_synonym i32 = "32 word"
type_synonym i64 = "64 word"
type_synonym u256 = "256 word"
type_synonym hash256 = "256 word"
type_synonym bytes = "8 word list"

named_theorems checked_arith \<open>what a successful checked operation computes\<close>
named_theorems le_simps \<open>little-endian encoding and decoding\<close>
named_theorems res_simps \<open>inversion of the result combinators\<close>


section \<open>Results\<close>

text \<open>\<open>Result<T, E>\<close> is the sum \<open>'e + 'a\<close>; \<open>Err\<close> is the left injection.\<close>

abbreviation Ok :: "'a \<Rightarrow> 'e + 'a" where
  "Ok \<equiv> Inr"

abbreviation Err :: "'e \<Rightarrow> 'e + 'a" where
  "Err \<equiv> Inl"

text \<open>The \<open>?\<close> operator: continue with the value, return early with the error.\<close>

definition bind_res :: "'e + 'a \<Rightarrow> ('a \<Rightarrow> 'e + 'b) \<Rightarrow> 'e + 'b" where
  "bind_res r f = (case r of Inl e \<Rightarrow> Inl e | Inr x \<Rightarrow> f x)"

definition map_err :: "('e \<Rightarrow> 'f) \<Rightarrow> 'e + 'a \<Rightarrow> 'f + 'a" where
  "map_err g r = (case r of Inl e \<Rightarrow> Inl (g e) | Inr x \<Rightarrow> Inr x)"

definition ok_or :: "'a option \<Rightarrow> 'e \<Rightarrow> 'e + 'a" where
  "ok_or v e = (case v of None \<Rightarrow> Inl e | Some x \<Rightarrow> Inr x)"

definition guard_res :: "bool \<Rightarrow> 'e \<Rightarrow> 'e + unit" where
  "guard_res b e = (if b then Inr () else Inl e)"

text \<open>\<open>Iterator::try_fold\<close>, and \<open>collect::<Result<Vec<_>, _>>\<close>.\<close>

fun try_fold :: "('s \<Rightarrow> 'a \<Rightarrow> 'e + 's) \<Rightarrow> 's \<Rightarrow> 'a list \<Rightarrow> 'e + 's" where
  "try_fold f s [] = Inr s"
| "try_fold f s (x # xs) = bind_res (f s x) (\<lambda>s'. try_fold f s' xs)"

fun collect_res :: "('a \<Rightarrow> 'e + 'b) \<Rightarrow> 'a list \<Rightarrow> 'e + 'b list" where
  "collect_res f [] = Inr []"
| "collect_res f (x # xs) =
     bind_res (f x) (\<lambda>y. bind_res (collect_res f xs) (\<lambda>ys. Inr (y # ys)))"

lemma bind_res_simps [simp]:
  "bind_res (Inl e) f = Inl e"
  "bind_res (Inr x) f = f x"
  by (simp_all add: bind_res_def)

lemma bind_res_eq_Inr [res_simps]:
  "bind_res r f = Inr y \<longleftrightarrow> (\<exists>x. r = Inr x \<and> f x = Inr y)"
  by (cases r) auto

lemma bind_res_eq_Inl [res_simps]:
  "bind_res r f = Inl e \<longleftrightarrow> r = Inl e \<or> (\<exists>x. r = Inr x \<and> f x = Inl e)"
  by (cases r) auto

lemma bind_res_assoc: "bind_res (bind_res r f) g = bind_res r (\<lambda>x. bind_res (f x) g)"
  by (cases r) auto

lemma map_err_simps [simp]:
  "map_err g (Inl e) = Inl (g e)"
  "map_err g (Inr x) = Inr x"
  by (simp_all add: map_err_def)

lemma map_err_eq_Inr [res_simps]: "map_err g r = Inr x \<longleftrightarrow> r = Inr x"
  by (cases r) auto

lemma map_err_eq_Inl [res_simps]: "map_err g r = Inl e \<longleftrightarrow> (\<exists>d. r = Inl d \<and> e = g d)"
  by (cases r) auto

lemma ok_or_simps [simp]:
  "ok_or None e = Inl e"
  "ok_or (Some x) e = Inr x"
  by (simp_all add: ok_or_def)

lemma ok_or_eq_Inr [res_simps]: "ok_or v e = Inr x \<longleftrightarrow> v = Some x"
  by (cases v) auto

lemma ok_or_eq_Inl [res_simps]: "ok_or v e = Inl d \<longleftrightarrow> v = None \<and> d = e"
  by (cases v) auto

lemma guard_res_eq_Inr [res_simps]: "guard_res b e = Inr u \<longleftrightarrow> b"
  by (simp add: guard_res_def)

lemma guard_res_eq_Inl [res_simps]: "guard_res b e = Inl d \<longleftrightarrow> \<not> b \<and> d = e"
  by (auto simp: guard_res_def)

lemma guard_res_simps [simp]:
  "guard_res True e = Inr ()"
  "guard_res False e = Inl e"
  by (simp_all add: guard_res_def)

lemma collect_res_Inr: "(\<And>x. x \<in> set xs \<Longrightarrow> f x = Inr (g x)) \<Longrightarrow> collect_res f xs = Inr (map g xs)"
  by (induction xs) auto

lemma collect_res_length: "collect_res f xs = Inr ys \<Longrightarrow> length ys = length xs"
  by (induction xs arbitrary: ys) (auto simp: res_simps)

lemma try_fold_append:
  "try_fold f s (xs @ ys) = bind_res (try_fold f s xs) (\<lambda>s'. try_fold f s' ys)"
  by (induction xs arbitrary: s) (auto simp: bind_res_assoc)


text \<open>
  A call that may panic or not return gives \<open>('e + 'a) option\<close>: \<open>None\<close> is the panic.
  \<open>bind_call\<close> is \<open>?\<close> on such a call and \<open>expect\<close> a failed \<open>Option::expect\<close>.
\<close>

definition bind_call :: "('e + 'a) option \<Rightarrow> ('a \<Rightarrow> ('e + 'b) option) \<Rightarrow> ('e + 'b) option" where
  "bind_call c f = (case c of None \<Rightarrow> None | Some (Inl e) \<Rightarrow> Some (Inl e) | Some (Inr x) \<Rightarrow> f x)"

definition expect :: "'a option \<Rightarrow> ('e + 'a) option" where
  "expect v = map_option Inr v"

lemma bind_call_simps [simp]:
  "bind_call None f = None"
  "bind_call (Some (Inl e)) f = Some (Inl e)"
  "bind_call (Some (Inr x)) f = f x"
  by (simp_all add: bind_call_def)

lemma expect_simps [simp]:
  "expect None = None"
  "expect (Some x) = Some (Inr x)"
  by (simp_all add: expect_def)

lemma bind_call_Inr [res_simps]:
  "bind_call c f = Some (Inr y) \<longleftrightarrow> (\<exists>x. c = Some (Inr x) \<and> f x = Some (Inr y))"
  by (auto simp: bind_call_def split: option.splits sum.splits)

lemma bind_call_Inl [res_simps]:
  "bind_call c f = Some (Inl e) \<longleftrightarrow> c = Some (Inl e) \<or> (\<exists>x. c = Some (Inr x) \<and> f x = Some (Inl e))"
  by (auto simp: bind_call_def split: option.splits sum.splits)

lemma bind_call_None [res_simps]:
  "bind_call c f = None \<longleftrightarrow> c = None \<or> (\<exists>x. c = Some (Inr x) \<and> f x = None)"
  by (auto simp: bind_call_def split: option.splits sum.splits)

lemma expect_eq [res_simps]:
  "expect v = Some (Inr x) \<longleftrightarrow> v = Some x"
  "expect v = None \<longleftrightarrow> v = None"
  "expect v \<noteq> Some (Inl e)"
  by (auto simp: expect_def)


section \<open>Checked and saturating arithmetic\<close>

definition checked_add :: "'a::len word \<Rightarrow> 'a word \<Rightarrow> 'a word option" where
  "checked_add a b = (if unat a + unat b < 2 ^ LENGTH('a) then Some (a + b) else None)"

definition checked_sub :: "'a::len word \<Rightarrow> 'a word \<Rightarrow> 'a word option" where
  "checked_sub a b = (if b \<le> a then Some (a - b) else None)"

definition checked_mul :: "'a::len word \<Rightarrow> 'a word \<Rightarrow> 'a word option" where
  "checked_mul a b = (if unat a * unat b < 2 ^ LENGTH('a) then Some (a * b) else None)"

definition saturating_add :: "'a::len word \<Rightarrow> 'a word \<Rightarrow> 'a word" where
  "saturating_add a b = (if unat a + unat b < 2 ^ LENGTH('a) then a + b else - 1)"

definition saturating_sub :: "'a::len word \<Rightarrow> 'a word \<Rightarrow> 'a word" where
  "saturating_sub a b = (if b \<le> a then a - b else 0)"

definition saturating_mul :: "'a::len word \<Rightarrow> 'a word \<Rightarrow> 'a word" where
  "saturating_mul a b = (if unat a * unat b < 2 ^ LENGTH('a) then a * b else - 1)"

text \<open>\<open>usize::saturating_add\<close> on a 64-bit target.\<close>

definition usize_max :: nat where
  "usize_max = 2 ^ 64 - 1"

definition usize_saturating_add :: "nat \<Rightarrow> nat \<Rightarrow> nat" where
  "usize_saturating_add a b = min (a + b) usize_max"

definition usize_saturating_mul :: "nat \<Rightarrow> nat \<Rightarrow> nat" where
  "usize_saturating_mul a b = min (a * b) usize_max"

definition usize_checked_add :: "nat \<Rightarrow> nat \<Rightarrow> nat option" where
  "usize_checked_add a b = (if a + b \<le> usize_max then Some (a + b) else None)"

definition usize_checked_mul :: "nat \<Rightarrow> nat \<Rightarrow> nat option" where
  "usize_checked_mul a b = (if a * b \<le> usize_max then Some (a * b) else None)"

text \<open>\<open>u32::try_from\<close> of a length.\<close>

definition u32_try_from :: "nat \<Rightarrow> u32 option" where
  "u32_try_from n = (if n < 2 ^ 32 then Some (word_of_nat n) else None)"

lemma unat_minus_1 [simp]: "unat (- 1 :: 'a::len word) = 2 ^ LENGTH('a) - 1"
  by (simp add: unsigned_minus_1_eq_mask mask_eq_exp_minus_1)

lemma checked_add_Some [checked_arith]:
  "checked_add a b = Some c \<longleftrightarrow> c = a + b \<and> unat c = unat a + unat b"
  for a b c :: "'a::len word"
proof -
  have "unat (a + b) = unat a + unat b \<longleftrightarrow> unat a + unat b < 2 ^ LENGTH('a)"
    using unsigned_less [of "a + b", where ?'a = nat]
    by (metis mod_less unat_word_ariths(1))
  then show ?thesis by (auto simp: checked_add_def)
qed

lemma checked_add_eq_iff: "checked_add a b = Some c \<longleftrightarrow> unat c = unat a + unat b"
  for a b c :: "'a::len word"
proof
  assume "unat c = unat a + unat b"
  moreover have "unat c < 2 ^ LENGTH('a)" by (rule unsigned_less)
  ultimately have "unat (a + b) = unat c" by (simp add: unat_word_ariths)
  then have "c = a + b" by (simp add: word_unat_eq_iff)
  with \<open>unat c = unat a + unat b\<close> show "checked_add a b = Some c" by (simp add: checked_add_Some)
next
  assume "checked_add a b = Some c"
  then show "unat c = unat a + unat b" unfolding checked_add_Some by (rule conjunct2)
qed

lemma checked_add_None [checked_arith]:
  "checked_add a b = None \<longleftrightarrow> 2 ^ LENGTH('a) \<le> unat a + unat b"
  for a b :: "'a::len word"
  by (auto simp: checked_add_def)

lemma checked_sub_Some [checked_arith]:
  "checked_sub a b = Some c \<longleftrightarrow> b \<le> a \<and> c = a - b"
  by (auto simp: checked_sub_def)

lemma checked_sub_None [checked_arith]: "checked_sub a b = None \<longleftrightarrow> a < b"
  by (auto simp: checked_sub_def not_le)

lemma unat_sub_le: "b \<le> a \<Longrightarrow> unat (a - b) = unat a - unat b"
  for a b :: "'a::len word"
  by (rule unat_sub)

lemma checked_mul_Some [checked_arith]:
  "checked_mul a b = Some c \<longleftrightarrow> c = a * b \<and> unat c = unat a * unat b"
  for a b c :: "'a::len word"
proof -
  have "unat (a * b) = unat a * unat b \<longleftrightarrow> unat a * unat b < 2 ^ LENGTH('a)"
    using unsigned_less [of "a * b", where ?'a = nat]
    by (metis mod_less unat_word_ariths(2))
  then show ?thesis by (auto simp: checked_mul_def)
qed

lemma unat_saturating_add:
  "unat (saturating_add a b) = min (unat a + unat b) (2 ^ LENGTH('a) - 1)"
  for a b :: "'a::len word"
  by (auto simp: saturating_add_def unat_word_ariths min_def)

lemma unat_saturating_sub: "unat (saturating_sub a b) = unat a - unat b"
  for a b :: "'a::len word"
  by (auto simp: saturating_sub_def unat_sub word_le_nat_alt)

lemma unat_saturating_mul:
  "unat (saturating_mul a b) = min (unat a * unat b) (2 ^ LENGTH('a) - 1)"
  for a b :: "'a::len word"
proof (cases "unat a * unat b < 2 ^ LENGTH('a)")
  case True
  then have "unat (a * b) = unat a * unat b"
    by (simp add: unat_word_ariths)
  moreover have "unat a * unat b \<le> 2 ^ LENGTH('a) - 1"
    using True by linarith
  ultimately show ?thesis using True by (simp add: saturating_mul_def)
next
  case False
  then have "2 ^ LENGTH('a) - 1 \<le> unat a * unat b" by linarith
  with False show ?thesis by (simp add: saturating_mul_def min_absorb2)
qed

lemma usize_checked_Some [checked_arith]:
  "usize_checked_add a b = Some c \<longleftrightarrow> c = a + b \<and> c \<le> usize_max"
  "usize_checked_mul a b = Some d \<longleftrightarrow> d = a * b \<and> d \<le> usize_max"
  by (auto simp: usize_checked_add_def usize_checked_mul_def)

lemma u32_try_from_Some [checked_arith]:
  "u32_try_from n = Some w \<longleftrightarrow> n < 2 ^ 32 \<and> w = word_of_nat n"
  by (auto simp: u32_try_from_def)

lemma u32_try_from_None [checked_arith]: "u32_try_from n = None \<longleftrightarrow> 2 ^ 32 \<le> n"
  by (auto simp: u32_try_from_def)

lemma unat_word_of_nat_u32: "n < 2 ^ 32 \<Longrightarrow> unat (word_of_nat n :: u32) = n"
  by (simp add: unat_of_nat take_bit_nat_eq_self)


section \<open>Little-endian byte strings\<close>

text \<open>
  \<open>to_le_bytes\<close> of an \<open>8 * n\<close>-bit integer gives \<open>n\<close> bytes, least significant
  first; \<open>from_le_bytes\<close> reads them back.
\<close>

fun le_bytes :: "nat \<Rightarrow> nat \<Rightarrow> bytes" where
  "le_bytes 0 x = []"
| "le_bytes (Suc n) x = word_of_nat (x mod 256) # le_bytes n (x div 256)"

fun le_nat :: "bytes \<Rightarrow> nat" where
  "le_nat [] = 0"
| "le_nat (b # bs) = unat b + 256 * le_nat bs"

definition u32_to_le :: "u32 \<Rightarrow> bytes" where
  "u32_to_le w = le_bytes 4 (unat w)"

definition u64_to_le :: "u64 \<Rightarrow> bytes" where
  "u64_to_le w = le_bytes 8 (unat w)"

definition u32_from_le :: "bytes \<Rightarrow> u32" where
  "u32_from_le bs = word_of_nat (le_nat bs)"

definition u64_from_le :: "bytes \<Rightarrow> u64" where
  "u64_from_le bs = word_of_nat (le_nat bs)"

text \<open>
  A 256-bit hash is the number its conventional hexadecimal form denotes; its
  in-memory byte array is the little-endian form of that number.
\<close>

definition hash_to_bytes :: "hash256 \<Rightarrow> bytes" where
  "hash_to_bytes h = le_bytes 32 (unat h)"

definition hash_from_bytes :: "bytes \<Rightarrow> hash256" where
  "hash_from_bytes bs = word_of_nat (le_nat bs)"

lemma length_le_bytes [simp]: "length (le_bytes n x) = n"
  by (induction n arbitrary: x) auto

lemma unat_byte_mod: "unat (word_of_nat (x mod 256) :: u8) = x mod 256"
  by (simp add: unat_of_nat take_bit_eq_mod)

lemma le_nat_le_bytes: "le_nat (le_bytes n x) = x mod 256 ^ n"
proof (induction n arbitrary: x)
  case (Suc n)
  show ?case
    by (simp add: Suc.IH unat_byte_mod mod_mult2_eq)
qed simp

lemma le_nat_less: "le_nat bs < 256 ^ length bs"
proof (induction bs)
  case (Cons b bs)
  have "unat b < 256" using unsigned_less [of b, where ?'a = nat] by simp
  with Cons.IH have "unat b + 256 * le_nat bs < 256 + 256 * (256 ^ length bs - 1)"
    by (simp add: less_eq_Suc_le)
  also have "\<dots> = 256 ^ length (b # bs)"
    by (simp add: algebra_simps)
  finally show ?case by simp
qed simp

lemma le_bytes_le_nat: "le_bytes (length bs) (le_nat bs) = bs"
proof (induction bs)
  case (Cons b bs)
  have b: "unat b < 256" using unsigned_less [of b, where ?'a = nat] by simp
  then have "(unat b + 256 * le_nat bs) mod 256 = unat b"
    and "(unat b + 256 * le_nat bs) div 256 = le_nat bs"
    by (simp_all add: div_add1_eq)
  with Cons.IH show ?case by simp
qed simp

lemma u32_le_length [simp, le_simps]: "length (u32_to_le w) = 4"
  by (simp add: u32_to_le_def)

lemma u64_le_length [simp, le_simps]: "length (u64_to_le w) = 8"
  by (simp add: u64_to_le_def)

lemma hash_bytes_length [simp, le_simps]: "length (hash_to_bytes h) = 32"
  by (simp add: hash_to_bytes_def)

lemma unat_mod_pow256:
  "LENGTH('a) = 8 * n \<Longrightarrow> unat (w :: 'a::len word) mod 256 ^ n = unat w"
proof -
  assume "LENGTH('a) = 8 * n"
  then have "(2::nat) ^ LENGTH('a) = 256 ^ n"
    by (simp add: power_mult)
  with unsigned_less [of w, where ?'a = nat] show ?thesis by simp
qed

lemma u32_from_to_le [simp, le_simps]: "u32_from_le (u32_to_le w) = w"
proof -
  have "unat w mod 256 ^ 4 = unat w" by (rule unat_mod_pow256) simp
  then show ?thesis by (simp add: u32_from_le_def u32_to_le_def le_nat_le_bytes)
qed

lemma u64_from_to_le [simp, le_simps]: "u64_from_le (u64_to_le w) = w"
proof -
  have "unat w mod 256 ^ 8 = unat w" by (rule unat_mod_pow256) simp
  then show ?thesis by (simp add: u64_from_le_def u64_to_le_def le_nat_le_bytes)
qed

lemma hash_from_to_bytes [simp, le_simps]: "hash_from_bytes (hash_to_bytes h) = h"
proof -
  have "unat h mod 256 ^ 32 = unat h" by (rule unat_mod_pow256) simp
  then show ?thesis by (simp add: hash_from_bytes_def hash_to_bytes_def le_nat_le_bytes)
qed

lemma unat_word_of_le_nat:
  assumes "LENGTH('a) = 8 * length bs"
  shows "unat (word_of_nat (le_nat bs) :: 'a::len word) = le_nat bs"
proof -
  have "(2::nat) ^ LENGTH('a) = 256 ^ length bs"
    using assms by (simp add: power_mult)
  with le_nat_less [of bs] have "le_nat bs < 2 ^ LENGTH('a)"
    by simp
  then show ?thesis by (simp add: unat_of_nat take_bit_nat_eq_self)
qed

lemma u32_to_from_le [le_simps]: "length bs = 4 \<Longrightarrow> u32_to_le (u32_from_le bs) = bs"
  using unat_word_of_le_nat [where 'a = 32, of bs] le_bytes_le_nat [of bs]
  by (simp add: u32_to_le_def u32_from_le_def)

lemma u64_to_from_le [le_simps]: "length bs = 8 \<Longrightarrow> u64_to_le (u64_from_le bs) = bs"
  using unat_word_of_le_nat [where 'a = 64, of bs] le_bytes_le_nat [of bs]
  by (simp add: u64_to_le_def u64_from_le_def)

lemma hash_to_from_bytes [le_simps]:
  "length bs = 32 \<Longrightarrow> hash_to_bytes (hash_from_bytes bs) = bs"
  using unat_word_of_le_nat [where 'a = 256, of bs] le_bytes_le_nat [of bs]
  by (simp add: hash_to_bytes_def hash_from_bytes_def)

lemma u32_to_le_inject [simp, le_simps]: "u32_to_le a = u32_to_le b \<longleftrightarrow> a = b"
  by (metis u32_from_to_le)

lemma u64_to_le_inject [simp, le_simps]: "u64_to_le a = u64_to_le b \<longleftrightarrow> a = b"
  by (metis u64_from_to_le)

lemma hash_to_bytes_inject [simp, le_simps]: "hash_to_bytes a = hash_to_bytes b \<longleftrightarrow> a = b"
  by (metis hash_from_to_bytes)


section \<open>Reading a record with a cursor\<close>

text \<open>The slice \<open>bytes[cursor..cursor + n]\<close>, \<open>None\<close> out of range.\<close>

definition slice :: "bytes \<Rightarrow> nat \<Rightarrow> nat \<Rightarrow> bytes option" where
  "slice bs cursor n =
     (if cursor + n \<le> length bs then Some (take n (drop cursor bs)) else None)"

lemma slice_append [simp]:
  "slice (pre @ mid @ post) (length pre) (length mid) = Some mid"
  by (simp add: slice_def)

lemma slice_appendI:
  "bs = pre @ mid @ post \<Longrightarrow> c = length pre \<Longrightarrow> n = length mid \<Longrightarrow> slice bs c n = Some mid"
  by simp

lemma slice_Some_length: "slice bs c n = Some x \<Longrightarrow> length x = n \<and> c + n \<le> length bs"
  by (auto simp: slice_def split: if_splits)

lemma slice_Some_take:
  "slice bs c n = Some x \<Longrightarrow> take (c + n) bs = take c bs @ x"
  by (auto simp: slice_def take_add split: if_splits)

lemma slice_eq_None: "slice bs c n = None \<longleftrightarrow> length bs < c + n"
  by (auto simp: slice_def)


section \<open>Slices\<close>

text \<open>\<open>slice::chunks\<close>. Rust panics for a chunk size of zero.\<close>

function chunks :: "nat \<Rightarrow> 'a list \<Rightarrow> 'a list list" where
  "chunks n xs = (if xs = [] \<or> n = 0 then [] else take n xs # chunks n (drop n xs))"
  by pat_completeness auto
termination
  by (relation "measure (\<lambda>(n, xs). length xs)") auto

declare chunks.simps [simp del]

lemma concat_chunks [simp]: "0 < n \<Longrightarrow> concat (chunks n xs) = xs"
  by (induction n xs rule: chunks.induct) (subst chunks.simps, auto)

lemma chunks_Nil [simp]: "chunks n [] = []"
  by (simp add: chunks.simps)

lemma collect_res_concat:
  assumes "\<And>x. x \<in> set (concat xss) \<Longrightarrow> f x = Inr (g x)"
  shows "collect_res (collect_res f) xss = Inr (map (map g) xss)"
  using assms by (intro collect_res_Inr) auto


section \<open>Operations on a shared store\<close>

text \<open>
  A method that takes \<open>&self\<close>, mutates through interior mutability and returns a
  \<open>Result\<close> is a function from the state to a result and the state left behind,
  which is there on the error path too.
\<close>

type_synonym ('s, 'e, 'a) st = "'s \<Rightarrow> ('e + 'a) \<times> 's"

definition st_ret :: "'a \<Rightarrow> ('s, 'e, 'a) st" where
  "st_ret x = (\<lambda>s. (Inr x, s))"

definition st_err :: "'e \<Rightarrow> ('s, 'e, 'a) st" where
  "st_err e = (\<lambda>s. (Inl e, s))"

definition st_bind :: "('s, 'e, 'a) st \<Rightarrow> ('a \<Rightarrow> ('s, 'e, 'b) st) \<Rightarrow> ('s, 'e, 'b) st" where
  "st_bind m f = (\<lambda>s. case m s of (Inl e, s') \<Rightarrow> (Inl e, s') | (Inr x, s') \<Rightarrow> f x s')"

definition st_lift :: "'e + 'a \<Rightarrow> ('s, 'e, 'a) st" where
  "st_lift r = (\<lambda>s. (r, s))"

definition st_map_err :: "('e \<Rightarrow> 'f) \<Rightarrow> ('s, 'e, 'a) st \<Rightarrow> ('s, 'f, 'a) st" where
  "st_map_err g m = (\<lambda>s. case m s of (r, s') \<Rightarrow> (map_err g r, s'))"

fun st_fold :: "('b \<Rightarrow> 'a \<Rightarrow> ('s, 'e, 'b) st) \<Rightarrow> 'b \<Rightarrow> 'a list \<Rightarrow> ('s, 'e, 'b) st" where
  "st_fold f b [] = st_ret b"
| "st_fold f b (x # xs) = st_bind (f b x) (\<lambda>b'. st_fold f b' xs)"

lemma st_ret_apply [simp]: "st_ret x s = (Inr x, s)"
  by (simp add: st_ret_def)

lemma st_err_apply [simp]: "st_err e s = (Inl e, s)"
  by (simp add: st_err_def)

lemma st_lift_apply [simp]: "st_lift r s = (r, s)"
  by (simp add: st_lift_def)

lemma st_bind_Inl: "m s = (Inl e, s') \<Longrightarrow> st_bind m f s = (Inl e, s')"
  by (simp add: st_bind_def)

lemma st_bind_Inr: "m s = (Inr x, s') \<Longrightarrow> st_bind m f s = f x s'"
  by (simp add: st_bind_def)

lemma st_bind_simps [simp]:
  "st_bind (st_ret x) f = f x"
  "st_bind (st_err e) f = st_err e"
  by (auto simp: st_bind_def)

lemma st_bind_lift [simp]:
  "st_bind (st_lift (Inr x)) f = f x"
  "st_bind (st_lift (Inl e)) f = st_err e"
  by (auto simp: st_bind_def)

lemma st_bind_eq_Inr [res_simps]:
  "st_bind m f s = (Inr y, t) \<longleftrightarrow> (\<exists>x s'. m s = (Inr x, s') \<and> f x s' = (Inr y, t))"
  by (auto simp: st_bind_def split: prod.splits sum.splits)

lemma st_bind_eq_Inl [res_simps]:
  "st_bind m f s = (Inl e, t) \<longleftrightarrow>
     m s = (Inl e, t) \<or> (\<exists>x s'. m s = (Inr x, s') \<and> f x s' = (Inl e, t))"
  by (auto simp: st_bind_def split: prod.splits sum.splits)

lemma st_map_err_eq_Inr [res_simps]: "st_map_err g m s = (Inr y, t) \<longleftrightarrow> m s = (Inr y, t)"
  by (auto simp: st_map_err_def res_simps split: prod.splits)

lemma st_map_err_eq_Inl [res_simps]:
  "st_map_err g m s = (Inl e, t) \<longleftrightarrow> (\<exists>d. m s = (Inl d, t) \<and> e = g d)"
  by (auto simp: st_map_err_def res_simps split: prod.splits)

text \<open>What every step of a sequence keeps, the sequence keeps.\<close>

lemma st_bind_invariant:
  assumes "m s = (r, s1) \<Longrightarrow> P s1"
    and "\<And>x s1 r t. m s = (Inr x, s1) \<Longrightarrow> f x s1 = (r, t) \<Longrightarrow> P t"
    and "\<And>e s1. m s = (Inl e, s1) \<Longrightarrow> P s1"
    and "st_bind m f s = (q, t)"
  shows "P t"
  using assms by (auto simp: st_bind_def split: prod.splits sum.splits)

text \<open>The same with panics: \<open>None\<close> is a run that does not return.\<close>

type_synonym ('s, 'e, 'a) pst = "'s \<Rightarrow> (('e + 'a) \<times> 's) option"

definition pst_ret :: "'a \<Rightarrow> ('s, 'e, 'a) pst" where
  "pst_ret x = (\<lambda>s. Some (Inr x, s))"

definition pst_err :: "'e \<Rightarrow> ('s, 'e, 'a) pst" where
  "pst_err e = (\<lambda>s. Some (Inl e, s))"

definition pst_bind :: "('s, 'e, 'a) pst \<Rightarrow> ('a \<Rightarrow> ('s, 'e, 'b) pst) \<Rightarrow> ('s, 'e, 'b) pst" where
  "pst_bind m f = (\<lambda>s. case m s of
     None \<Rightarrow> None | Some (Inl e, s') \<Rightarrow> Some (Inl e, s') | Some (Inr x, s') \<Rightarrow> f x s')"

definition pst_lift :: "'e + 'a \<Rightarrow> ('s, 'e, 'a) pst" where
  "pst_lift r = (\<lambda>s. Some (r, s))"

definition pst_expect :: "'a option \<Rightarrow> ('s, 'e, 'a) pst" where
  "pst_expect v = (\<lambda>s. map_option (\<lambda>x. (Inr x, s)) v)"

definition pst_of :: "('e \<Rightarrow> 'f) \<Rightarrow> ('s, 'e, 'a) st \<Rightarrow> ('s, 'f, 'a) pst" where
  "pst_of g m = (\<lambda>s. Some (map_err g (fst (m s)), snd (m s)))"

definition pst_call :: "('e + 'a) option \<Rightarrow> ('s, 'e, 'a) pst" where
  "pst_call v = (\<lambda>s. map_option (\<lambda>r. (r, s)) v)"

text \<open>\<open>match m { Ok(x) => f(x), Err(e) => g(e) }\<close>.\<close>

definition pst_match ::
  "('s, 'e, 'a) pst \<Rightarrow> ('a \<Rightarrow> ('s, 'f, 'b) pst) \<Rightarrow> ('e \<Rightarrow> ('s, 'f, 'b) pst) \<Rightarrow> ('s, 'f, 'b) pst" where
  "pst_match m f g = (\<lambda>s. case m s of
     None \<Rightarrow> None | Some (Inl e, s') \<Rightarrow> g e s' | Some (Inr x, s') \<Rightarrow> f x s')"

lemma pst_match_step:
  "m s = None \<Longrightarrow> pst_match m f g s = None"
  "m s = Some (Inl e, s') \<Longrightarrow> pst_match m f g s = g e s'"
  "m s = Some (Inr x, s') \<Longrightarrow> pst_match m f g s = f x s'"
  by (simp_all add: pst_match_def)

lemma pst_simps [simp]:
  "pst_ret x s = Some (Inr x, s)"
  "pst_err e s = Some (Inl e, s)"
  "pst_lift r s = Some (r, s)"
  "pst_expect (Some x) s = Some (Inr x, s)"
  "pst_expect None s = None"
  "pst_call None s = None"
  "pst_call (Some r) s = Some (r, s)"
  by (simp_all add: pst_ret_def pst_err_def pst_lift_def pst_expect_def pst_call_def)

lemma pst_match_simps [simp]:
  "pst_match (pst_lift (Inr x)) f g = f x"
  "pst_match (pst_lift (Inl e)) f g = g e"
  "pst_match (pst_call (Some (Inr x))) f g = f x"
  "pst_match (pst_call (Some (Inl e))) f g = g e"
  "pst_match (pst_call None) f g s = None"
  by (simp_all add: pst_match_def fun_eq_iff)

lemma pst_bind_simps [simp]:
  "pst_bind (pst_ret x) f = f x"
  "pst_bind (pst_err e) f = pst_err e"
  "pst_bind (pst_lift (Inr x)) f = f x"
  "pst_bind (pst_lift (Inl e)) f = pst_err e"
  "pst_bind (pst_expect (Some x)) f = f x"
  "pst_bind (pst_expect None) f s = None"
  by (simp_all add: pst_bind_def fun_eq_iff)

lemma pst_bind_step:
  "m s = None \<Longrightarrow> pst_bind m f s = None"
  "m s = Some (Inl e, s') \<Longrightarrow> pst_bind m f s = Some (Inl e, s')"
  "m s = Some (Inr x, s') \<Longrightarrow> pst_bind m f s = f x s'"
  by (simp_all add: pst_bind_def)

lemma pst_bind_eq_Inr [res_simps]:
  "pst_bind m f s = Some (Inr y, t) \<longleftrightarrow> (\<exists>x s'. m s = Some (Inr x, s') \<and> f x s' = Some (Inr y, t))"
  by (auto simp: pst_bind_def split: option.splits prod.splits sum.splits)

lemma pst_bind_eq_Inl [res_simps]:
  "pst_bind m f s = Some (Inl e, t) \<longleftrightarrow>
     m s = Some (Inl e, t) \<or> (\<exists>x s'. m s = Some (Inr x, s') \<and> f x s' = Some (Inl e, t))"
  by (auto simp: pst_bind_def split: option.splits prod.splits sum.splits)

section \<open>Evaluation\<close>

text \<open>
  Equations by which the simplifier evaluates the definitions above on concrete
  inputs without ever counting up to a power of two.
\<close>

lemma word_add_less_iff: "a + b < a \<longleftrightarrow> \<not> unat a + unat b < 2 ^ LENGTH('a)"
  for a b :: "'a::len word"
proof (cases "unat a + unat b < 2 ^ LENGTH('a)")
  case True
  then have "unat (a + b) = unat a + unat b" by (simp add: unat_word_ariths)
  with True show ?thesis by (simp add: word_less_nat_alt)
next
  case False
  have "unat a < 2 ^ LENGTH('a)" "unat b < 2 ^ LENGTH('a)"
    using unsigned_less [where ?'a = nat] by auto
  then have "unat a + unat b - 2 ^ LENGTH('a) < 2 ^ LENGTH('a)" by linarith
  then have "unat (a + b) = unat a + unat b - 2 ^ LENGTH('a)"
    unfolding unat_word_ariths using False by (simp add: not_less le_mod_geq)
  with False \<open>unat b < 2 ^ LENGTH('a)\<close> show ?thesis
    unfolding word_less_nat_alt by linarith
qed

lemma checked_add_code [code]: "checked_add a b = (if a + b < a then None else Some (a + b))"
  by (simp add: checked_add_def word_add_less_iff)

lemma saturating_add_code [code]: "saturating_add a b = (if a + b < a then - 1 else a + b)"
  by (simp add: saturating_add_def word_add_less_iff)

lemma mul_bound_uint: "unat a * unat b < 2 ^ LENGTH('a) \<longleftrightarrow> uint a * uint b < 2 ^ LENGTH('a)"
  for a b :: "'a::len word"
proof -
  have "unat a * unat b < 2 ^ LENGTH('a) \<longleftrightarrow> int (unat a * unat b) < int (2 ^ LENGTH('a))"
    by (simp only: of_nat_less_iff)
  then show ?thesis by simp
qed

lemma checked_mul_code [code]:
  "checked_mul a b = (if uint a * uint b < 2 ^ LENGTH('a) then Some (a * b) else None)"
  for a b :: "'a::len word"
  by (simp only: checked_mul_def mul_bound_uint)

lemma saturating_mul_code [code]:
  "saturating_mul a b = (if uint a * uint b < 2 ^ LENGTH('a) then a * b else - 1)"
  for a b :: "'a::len word"
  by (simp only: saturating_mul_def mul_bound_uint)

lemma usize_saturating_code [code]:
  "usize_saturating_add a b = (if int a + int b < 18446744073709551615 then a + b else usize_max)"
  "usize_saturating_mul a b = (if int a * int b < 18446744073709551615 then a * b else usize_max)"
  by (auto simp: usize_saturating_add_def usize_saturating_mul_def usize_max_def min_def
      simp flip: of_nat_add of_nat_mult)

lemma usize_checked_code [code]:
  "usize_checked_add a b = (if int a + int b < 18446744073709551616 then Some (a + b) else None)"
  "usize_checked_mul a b = (if int a * int b < 18446744073709551616 then Some (a * b) else None)"
  by (auto simp: usize_checked_add_def usize_checked_mul_def usize_max_def simp flip: of_nat_add of_nat_mult)

lemma u32_try_from_code [code]:
  "u32_try_from n = (if int n < 4294967296 then Some (word_of_nat n) else None)"
  by (simp add: u32_try_from_def)

fun le_bytes_int :: "nat \<Rightarrow> int \<Rightarrow> bytes" where
  "le_bytes_int 0 x = []"
| "le_bytes_int (Suc n) x = word_of_int (x mod 256) # le_bytes_int n (x div 256)"

fun le_int :: "bytes \<Rightarrow> int" where
  "le_int [] = 0"
| "le_int (b # bs) = uint b + 256 * le_int bs"

lemma le_bytes_int: "le_bytes_int n (int x) = le_bytes n x"
proof (induction n arbitrary: x)
  case (Suc n)
  have "int x mod 256 = int (x mod 256)" "int x div 256 = int (x div 256)"
    by (simp_all add: zmod_int zdiv_int)
  then show ?case using Suc.IH [of "x div 256"] by simp
qed simp

lemma le_int: "le_int bs = int (le_nat bs)"
  by (induction bs) simp_all

lemma le_codes [code]:
  "u32_to_le w = le_bytes_int 4 (uint w)"
  "u64_to_le v = le_bytes_int 8 (uint v)"
  "hash_to_bytes h = le_bytes_int 32 (uint h)"
  "u32_from_le bs = word_of_int (le_int bs)"
  "u64_from_le bs = word_of_int (le_int bs)"
  "hash_from_bytes bs = word_of_int (le_int bs)"
  by (simp_all add: u32_to_le_def u64_to_le_def hash_to_bytes_def u32_from_le_def u64_from_le_def
      hash_from_bytes_def le_int flip: le_bytes_int)

end
