(* ===== verification/Bitcoin_Lib.thy ===== *)
theory Bitcoin_Lib
  imports Rbtc_Prelude
begin

text \<open>
  The data types rBTC takes from the \<open>bitcoin\<close> crate, and the crate functions the
  modelled code calls. The crate and the C++ script interpreter behind
  \<open>bitcoinconsensus\<close> are not part of rBTC's own sources: every function of theirs is
  a field of the record \<open>bitcoin_lib\<close>, which the definitions of the development
  take as an argument. What a theorem relies on of such a function is a hypothesis
  of that theorem.
\<close>

datatype network = Bitcoin | Testnet | Testnet4 | Signet | Regtest

text \<open>\<open>bitcoin::block::Header\<close>.\<close>

record header =
  h_version :: i32
  prev_blockhash :: hash256
  merkle_root :: hash256
  h_time :: u32
  h_bits :: u32
  h_nonce :: u32

text \<open>\<open>bitcoin::OutPoint\<close>, \<open>TxIn\<close>, \<open>TxOut\<close>, \<open>Transaction\<close> and \<open>Block\<close>.\<close>

record outpoint =
  op_txid :: hash256
  op_vout :: u32

record txin =
  previous_output :: outpoint
  script_sig :: bytes
  in_sequence :: u32
  witness :: "bytes list"

record txout =
  txo_value :: u64
  txo_script :: bytes

record transaction =
  tx_version :: i32
  tx_lock_time :: u32
  tx_input :: "txin list"
  tx_output :: "txout list"

record block =
  b_header :: header
  txdata :: "transaction list"

text \<open>\<open>bitcoin::consensus::Params\<close>, the fields the code reads.\<close>

record chain_params =
  p_network :: network
  pow_target_spacing :: u64
  pow_target_timespan :: u64
  allow_min_difficulty_blocks :: bool
  no_pow_retargeting :: bool
  max_attainable_target :: u256

text \<open>
  \<open>Script::instructions\<close> yields instructions until it ends or fails to parse; a
  failed step is \<open>None\<close>.
\<close>

datatype instruction = PushBytes bytes | Op u8

text \<open>The error codes of the script interpreter and of \<open>Header::validate_pow\<close>.\<close>

type_synonym core_error = nat
type_synonym pow_error = nat

record bitcoin_lib =
  params_new :: "network \<Rightarrow> chain_params"
  difficulty_adjustment_interval :: "chain_params \<Rightarrow> u64"
  genesis_header :: "network \<Rightarrow> header"
  block_hash :: "header \<Rightarrow> hash256"
  target_from_compact :: "u32 \<Rightarrow> u256"
  target_to_work :: "u256 \<Rightarrow> u256"
  target_to_compact :: "u256 \<Rightarrow> u32"
  validate_pow :: "header \<Rightarrow> u256 \<Rightarrow> pow_error + unit"
  from_next_work_required :: "u32 \<Rightarrow> u64 \<Rightarrow> chain_params \<Rightarrow> u32"
  compute_txid :: "transaction \<Rightarrow> hash256"
  base_size :: "transaction \<Rightarrow> nat"
  tx_is_coinbase :: "transaction \<Rightarrow> bool"
  outpoint_is_null :: "outpoint \<Rightarrow> bool"
  lock_time_is_height :: "u32 \<Rightarrow> bool"
  sequence_is_relative :: "u32 \<Rightarrow> bool"
  sequence_is_height :: "u32 \<Rightarrow> bool"
  script_instructions :: "bytes \<Rightarrow> instruction option list"
  script_is_p2sh :: "bytes \<Rightarrow> bool"
  script_is_push_only :: "bytes \<Rightarrow> bool"
  script_is_op_return :: "bytes \<Rightarrow> bool"
  script_is_witness_program :: "bytes \<Rightarrow> bool"
  script_witness_version :: "bytes \<Rightarrow> nat option"
  block_weight :: "block \<Rightarrow> u64"
  lib_check_witness_commitment :: "block \<Rightarrow> bool"
  sha256d :: "bytes \<Rightarrow> hash256"
  verify_scripts_with_flags ::
    "transaction \<Rightarrow> (u64 \<times> bytes) list \<Rightarrow> u32 \<Rightarrow> (nat option \<times> core_error) + unit"
  network_magic :: "network \<Rightarrow> bytes"
  consensus_serialize_bytes :: "bytes \<Rightarrow> bytes"
  public_key_from_slice :: "bytes \<Rightarrow> bool"
  public_key_serialize_uncompressed :: "bytes \<Rightarrow> bytes"
  script_consensus_decode :: "bytes \<Rightarrow> (bytes \<times> nat) option"
  witness_consensus_decode :: "bytes \<Rightarrow> (bytes list \<times> nat) option"
  merkle_calculate_root :: "hash256 list \<Rightarrow> hash256 option"

text \<open>
  A small concrete library. It stands in for the crate where a theorem's
  hypotheses are shown to hold together: block and transaction identifiers are read
  off the nonce and the lock time, every proof of work and every script passes, and
  one public key is known to the curve library.
\<close>

definition sample_point :: bytes where
  "sample_point = replicate 32 9"

definition sample_lib :: bitcoin_lib where
  "sample_lib =
     \<lparr>params_new = (\<lambda>n. \<lparr>p_network = n, pow_target_spacing = 600, pow_target_timespan = 1209600,
          allow_min_difficulty_blocks = False, no_pow_retargeting = False, max_attainable_target = 1000\<rparr>),
      difficulty_adjustment_interval = (\<lambda>_. 2016),
      genesis_header = (\<lambda>_. \<lparr>h_version = 1, prev_blockhash = 0, merkle_root = 0, h_time = 1000,
          h_bits = 5, h_nonce = 0\<rparr>),
      block_hash = (\<lambda>h. ucast (h_nonce h) + 1),
      target_from_compact = ucast,
      target_to_work = (\<lambda>t. t),
      target_to_compact = ucast,
      validate_pow = (\<lambda>_ _. Inr ()),
      from_next_work_required = (\<lambda>bits _ _. bits),
      compute_txid = (\<lambda>tx. ucast (tx_lock_time tx) + 1),
      base_size = (\<lambda>tx. 60 * length (tx_input tx) + 34 * length (tx_output tx)),
      tx_is_coinbase = (\<lambda>tx. case tx_input tx of
          [i] \<Rightarrow> op_txid (previous_output i) = 0 \<and> op_vout (previous_output i) = - 1 | _ \<Rightarrow> False),
      outpoint_is_null = (\<lambda>p. op_txid p = 0 \<and> op_vout p = - 1),
      lock_time_is_height = (\<lambda>n. n < 500000000),
      sequence_is_relative = (\<lambda>n. n AND 0x80000000 = 0),
      sequence_is_height = (\<lambda>n. n AND 0x00400000 = 0),
      script_instructions = map (\<lambda>b. Some (Op b)),
      script_is_p2sh = (\<lambda>b. length b = 23 \<and> take 2 b = [0xA9, 0x14] \<and> last b = 0x87),
      script_is_push_only = list_all (\<lambda>b. b \<le> 0x60),
      script_is_op_return = (\<lambda>b. take 1 b = [0x6A]),
      script_is_witness_program = (\<lambda>_. False),
      script_witness_version = (\<lambda>_. None),
      block_weight = (\<lambda>b. 4 * word_of_nat (length (txdata b))),
      lib_check_witness_commitment = (\<lambda>_. True),
      sha256d = hash_from_bytes,
      verify_scripts_with_flags = (\<lambda>_ _ _. Inr ()),
      network_magic = (\<lambda>_. [0xF9, 0xBE, 0xB4, 0xD9]),
      consensus_serialize_bytes = (\<lambda>b. word_of_nat (length b) # b),
      public_key_from_slice = (\<lambda>k. k = 0x04 # sample_point @ replicate 32 0 \<or> k = 0x02 # sample_point),
      public_key_serialize_uncompressed = (\<lambda>_. 0x04 # sample_point @ replicate 32 0),
      script_consensus_decode = (\<lambda>b. case b of [] \<Rightarrow> None
          | n # rest \<Rightarrow> if unat n \<le> length rest then Some (take (unat n) rest, Suc (unat n)) else None),
      witness_consensus_decode = (\<lambda>b. case b of [] \<Rightarrow> None | n # _ \<Rightarrow> Some ([], 1)),
      merkle_calculate_root = (\<lambda>hs. case hs of [] \<Rightarrow> None | h # _ \<Rightarrow> Some h)\<rparr>"

lemmas sample_lib_simps = bitcoin_lib.select_convs

end
