(* ===== verification/Utxo.thy ===== *)
theory Utxo
  imports Bitcoin_Lib
begin

text \<open>
  The record codecs of \<open>src/src/utxo.rs\<close>: outpoint keys, the fixed-width UTXO
  record, the compact coin format (variable-length integers, amount and script
  compression), block-disconnect undo records and re-tiering progress. The main
  results are the round trips in both directions.
\<close>

section \<open>Outpoint keys\<close>

datatype out_point_key = OutPointKey (as_bytes: bytes)

instantiation out_point_key :: linorder
begin

definition less_eq_out_point_key :: "out_point_key \<Rightarrow> out_point_key \<Rightarrow> bool" where
  "less_eq_out_point_key a b \<longleftrightarrow> as_bytes a \<le> as_bytes b"

definition less_out_point_key :: "out_point_key \<Rightarrow> out_point_key \<Rightarrow> bool" where
  "less_out_point_key a b \<longleftrightarrow> as_bytes a < as_bytes b"

instance
  by standard
     (auto simp: less_eq_out_point_key_def less_out_point_key_def out_point_key.expand)

end

datatype utxo_error =
    Io
  | Mdbx
  | Database
  | Transaction
  | Table
  | Storage
  | Commit
  | Malformed string
  | Duplicate out_point_key
  | Missing out_point_key
  | DuplicateSpend out_point_key

definition key_from_bytes :: "bytes \<Rightarrow> utxo_error + out_point_key" where
  "key_from_bytes bs =
     (if length bs = 36 then Ok (OutPointKey bs) else Err (Malformed ''outpoint key''))"

definition key_to_outpoint :: "out_point_key \<Rightarrow> outpoint" where
  "key_to_outpoint k =
     \<lparr>op_txid = hash_from_bytes (take 32 (as_bytes k)),
      op_vout = u32_from_le (drop 32 (as_bytes k))\<rparr>"

definition key_of :: "outpoint \<Rightarrow> out_point_key" where
  "key_of p = OutPointKey (hash_to_bytes (op_txid p) @ u32_to_le (op_vout p))"


section \<open>The fixed-width record\<close>

record utxo =
  value_sats :: u64
  utxo_height :: u32
  is_coinbase :: bool
  last_touched :: u64
  creation_mtp :: u32
  script_pubkey :: bytes

definition utxo_encode_into :: "utxo \<Rightarrow> bytes \<Rightarrow> utxo_error + bytes" where
  "utxo_encode_into u target =
     bind_res (ok_or (u32_try_from (length (script_pubkey u))) (Malformed ''script exceeds u32''))
       (\<lambda>script_len.
         Ok (target @ u64_to_le (value_sats u) @ u32_to_le (utxo_height u)
             @ [if is_coinbase u then 1 else 0] @ u64_to_le (last_touched u)
             @ u32_to_le (creation_mtp u) @ u32_to_le script_len @ script_pubkey u))"

definition utxo_encode :: "utxo \<Rightarrow> utxo_error + bytes" where
  "utxo_encode u = utxo_encode_into u []"

definition utxo_validate_encoded :: "bytes \<Rightarrow> utxo_error + unit" where
  "utxo_validate_encoded bs =
     (if length bs < 29 then Err (Malformed ''record header'')
      else if \<not> (bs ! 12 = 0 \<or> bs ! 12 = 1) then Err (Malformed ''coinbase flag'')
      else let script_len = unat (u32_from_le (take 4 (drop 25 bs)))
           in if length bs \<noteq> 29 + script_len then Err (Malformed ''script length'')
              else Ok ())"

definition utxo_decode :: "bytes \<Rightarrow> utxo_error + utxo" where
  "utxo_decode bs =
     bind_res (utxo_validate_encoded bs) (\<lambda>_.
       Ok \<lparr>value_sats = u64_from_le (take 8 bs),
           utxo_height = u32_from_le (take 4 (drop 8 bs)),
           is_coinbase = (bs ! 12 = 1),
           last_touched = u64_from_le (take 8 (drop 13 bs)),
           creation_mtp = u32_from_le (take 4 (drop 21 bs)),
           script_pubkey = drop 29 bs\<rparr>)"


section \<open>The compact coin format\<close>

text \<open>
  \<open>encode_vlq\<close> pushes seven-bit groups, least significant first and every one but
  the first with the continuation bit, then reverses what it pushed.
\<close>

lemma unat_vlq_next: "127 < unat v \<Longrightarrow> unat (drop_bit 7 v - 1) = unat v div 128 - 1"
  for v :: u64
proof -
  assume v: "127 < unat v"
  have d: "unat (drop_bit 7 v) = unat v div 128"
    by (simp only: unat_drop_bit_eq) (simp add: drop_bit_eq_div)
  have "unat (drop_bit 7 v) \<noteq> 0" unfolding d using v by simp
  then have "drop_bit 7 v \<noteq> 0" by (intro notI) simp
  then have "unat (drop_bit 7 v - 1) = unat (drop_bit 7 v) - 1" by (rule unat_minus_one)
  then show ?thesis by (simp only: d)
qed

function (sequential) encode_vlq_loop :: "bool \<Rightarrow> u64 \<Rightarrow> bytes" where
  "encode_vlq_loop continued v =
     (let byte = (ucast (v AND 0x7F) :: u8) OR (if continued then 0x80 else 0)
      in byte # (if v \<le> 0x7F then [] else encode_vlq_loop True (drop_bit 7 v - 1)))"
  by pat_completeness auto
termination
  by (relation "measure (\<lambda>(_, v). unat v)") (auto simp: unat_vlq_next word_le_nat_alt)

declare encode_vlq_loop.simps [simp del]

definition encode_vlq :: "bytes \<Rightarrow> u64 \<Rightarrow> bytes" where
  "encode_vlq target v = target @ rev (encode_vlq_loop False v)"

text \<open>
  \<open>decode_vlq\<close> reads from a cursor, with overflow checks, and refuses an encoding
  that \<open>encode_vlq\<close> would not have produced.
\<close>

fun decode_vlq_loop :: "bytes \<Rightarrow> u64 \<Rightarrow> nat \<Rightarrow> string \<Rightarrow> utxo_error + (u64 \<times> nat)" where
  "decode_vlq_loop [] v cursor field = Err (Malformed field)"
| "decode_vlq_loop (byte # rest) v cursor field =
     bind_res (ok_or (Option.bind (checked_mul v 128)
                        (\<lambda>v. checked_add v (ucast (byte AND 0x7F)))) (Malformed field))
       (\<lambda>v. if byte AND 0x80 = 0 then Ok (v, Suc cursor)
             else bind_res (ok_or (checked_add v 1) (Malformed field))
                    (\<lambda>v. decode_vlq_loop rest v (Suc cursor) field))"

definition decode_vlq :: "bytes \<Rightarrow> nat \<Rightarrow> string \<Rightarrow> utxo_error + (u64 \<times> nat)" where
  "decode_vlq bs start field =
     bind_res (decode_vlq_loop (drop start bs) 0 start field) (\<lambda>(v, cursor).
       if encode_vlq [] v \<noteq> take (cursor - start) (drop start bs)
       then Err (Malformed ''non-canonical VLQ'') else Ok (v, cursor))"

fun compress_amount_loop :: "nat \<Rightarrow> u64 \<Rightarrow> u64 \<Rightarrow> u64 \<times> u64" where
  "compress_amount_loop 0 amount exponent = (amount, exponent)"
| "compress_amount_loop (Suc left) amount exponent =
     (if amount mod 10 = 0 then compress_amount_loop left (amount div 10) (exponent + 1)
      else (amount, exponent))"

definition compress_amount :: "u64 \<Rightarrow> u64" where
  "compress_amount amount =
     (if amount = 0 then 0
      else let (amount, exponent) = compress_amount_loop 9 amount 0
           in if exponent < 9
              then let digit = amount mod 10; amount = amount div 10
                   in 1 + 10 * (9 * amount + digit - 1) + exponent
              else 10 + 10 * (amount - 1))"

fun decompress_scale :: "nat \<Rightarrow> u64 \<Rightarrow> utxo_error + u64" where
  "decompress_scale 0 v = Ok v"
| "decompress_scale (Suc n) v =
     bind_res (ok_or (checked_mul v 10) (Malformed ''compressed amount overflow''))
       (decompress_scale n)"

definition decompress_amount :: "u64 \<Rightarrow> utxo_error + u64" where
  "decompress_amount amount =
     (if amount = 0 then Ok 0
      else let amount = amount - 1; exponent = amount mod 10; amount = amount div 10
           in bind_res
                (ok_or
                  (if exponent < 9
                   then let digit = amount mod 9 + 1; amount = amount div 9
                        in Option.bind (checked_mul amount 10) (\<lambda>v. checked_add v digit)
                   else checked_add amount 1)
                  (Malformed ''compressed amount overflow''))
                (decompress_scale (unat exponent)))"

definition special_script_count :: u64 where
  "special_script_count = 6"

text \<open>
  The public key a script pays to directly, when the curve library accepts it:
  \<open>PublicKey::from_slice\<close> is \<open>public_key_from_slice\<close>.
\<close>

definition script_public_key :: "bitcoin_lib \<Rightarrow> bytes \<Rightarrow> bytes option" where
  "script_public_key L script =
     (let key = butlast (tl script)
      in if script \<noteq> [] \<and> hd script = 0x21 \<and> tl script \<noteq> [] \<and> last script = 0xAC
            \<and> length key = 33 \<and> (hd key = 0x02 \<or> hd key = 0x03)
         then (if public_key_from_slice L key then Some key else None)
         else if script \<noteq> [] \<and> hd script = 0x41 \<and> tl script \<noteq> [] \<and> last script = 0xAC
            \<and> length key = 65 \<and> hd key = 0x04
         then (if public_key_from_slice L key then Some key else None)
         else None)"

definition encode_script :: "bitcoin_lib \<Rightarrow> bytes \<Rightarrow> bytes \<Rightarrow> utxo_error + bytes" where
  "encode_script L target script =
     (if length script = 25 \<and> take 3 script = [0x76, 0xA9, 0x14] \<and> drop 23 script = [0x88, 0xAC]
      then Ok (target @ [0] @ take 20 (drop 3 script))
      else if length script = 23 \<and> take 2 script = [0xA9, 0x14] \<and> script ! 22 = 0x87
      then Ok (target @ [1] @ take 20 (drop 2 script))
      else case script_public_key L script of
        Some key \<Rightarrow>
          (if hd key = 0x02 \<or> hd key = 0x03
           then Ok (target @ [hd key] @ take 32 (drop 1 key))
           else Ok (target @ [0x04 OR (key ! 64 AND 1)] @ take 32 (drop 1 key)))
      | None \<Rightarrow>
          (if length script < 2 ^ 64
           then bind_res (ok_or (checked_add (word_of_nat (length script)) special_script_count)
                           (Malformed ''script length overflow''))
                  (\<lambda>len. Ok (encode_vlq target len @ script))
           else Err (Malformed ''script length exceeds u64'')))"

definition utxo_take ::
  "bytes \<Rightarrow> nat \<Rightarrow> nat \<Rightarrow> string \<Rightarrow> utxo_error + (bytes \<times> nat)" where
  "utxo_take bs cursor len field =
     bind_res (ok_or (slice bs cursor len) (Malformed field)) (\<lambda>v. Ok (v, cursor + len))"

definition take_u32_at :: "bytes \<Rightarrow> nat \<Rightarrow> string \<Rightarrow> utxo_error + (u32 \<times> nat)" where
  "take_u32_at bs cursor field =
     bind_res (utxo_take bs cursor 4 field) (\<lambda>(v, cursor). Ok (u32_from_le v, cursor))"

definition decode_script :: "bitcoin_lib \<Rightarrow> bytes \<Rightarrow> nat \<Rightarrow> utxo_error + (bytes \<times> nat)" where
  "decode_script L bs cursor =
     bind_res (decode_vlq bs cursor ''compressed script type'') (\<lambda>(size, cursor).
       if size = 0 then
         bind_res (utxo_take bs cursor 20 ''compressed P2PKH'')
           (\<lambda>(h, cursor). Ok ([0x76, 0xA9, 0x14] @ h @ [0x88, 0xAC], cursor))
       else if size = 1 then
         bind_res (utxo_take bs cursor 20 ''compressed P2SH'')
           (\<lambda>(h, cursor). Ok ([0xA9, 0x14] @ h @ [0x87], cursor))
       else if size = 2 \<or> size = 3 then
         bind_res (utxo_take bs cursor 32 ''compressed public key'') (\<lambda>(x, cursor).
           let key = ucast size # x
           in if public_key_from_slice L key then Ok ([0x21] @ key @ [0xAC], cursor)
              else Err (Malformed ''invalid compressed public key''))
       else if size = 4 \<or> size = 5 then
         bind_res (utxo_take bs cursor 32 ''compressed public key'') (\<lambda>(x, cursor).
           let key = ucast (size - 2) # x
           in if public_key_from_slice L key
              then Ok ([0x41] @ public_key_serialize_uncompressed L key @ [0xAC], cursor)
              else Err (Malformed ''invalid compressed public key''))
       else
         bind_res (ok_or (checked_sub size special_script_count)
                    (Malformed ''compressed script type''))
           (\<lambda>len. utxo_take bs cursor (unat len) ''compressed script''))"

definition encode_compact_into :: "bitcoin_lib \<Rightarrow> utxo \<Rightarrow> bytes \<Rightarrow> utxo_error + bytes" where
  "encode_compact_into L u target =
     bind_res (ok_or (Option.bind (checked_mul (ucast (utxo_height u)) (2::u64))
                        (\<lambda>code. checked_add code (if is_coinbase u then 1 else 0)))
                (Malformed ''UTXO header code overflow''))
       (\<lambda>header_code.
         encode_script L
           (encode_vlq (encode_vlq target header_code) (compress_amount (value_sats u)))
           (script_pubkey u))"

definition encode_compact :: "bitcoin_lib \<Rightarrow> utxo \<Rightarrow> utxo_error + bytes" where
  "encode_compact L u = encode_compact_into L u []"

definition decode_compact_with_creation_mtp ::
  "bitcoin_lib \<Rightarrow> bytes \<Rightarrow> u32 \<Rightarrow> utxo_error + utxo" where
  "decode_compact_with_creation_mtp L bs mtp =
     bind_res (decode_vlq bs 0 ''UTXO header code'') (\<lambda>(header_code, cursor).
     bind_res (if unat (drop_bit 1 header_code) < 2 ^ 32
               then Ok (ucast (drop_bit 1 header_code) :: u32)
               else Err (Malformed ''UTXO height exceeds u32'')) (\<lambda>h.
     bind_res (decode_vlq bs cursor ''compressed amount'') (\<lambda>(compressed, cursor).
     bind_res (decompress_amount compressed) (\<lambda>value.
     bind_res (decode_script L bs cursor) (\<lambda>(script, cursor).
       if cursor \<noteq> length bs then Err (Malformed ''trailing UTXO bytes'')
       else Ok \<lparr>value_sats = value, utxo_height = h,
                is_coinbase = (header_code AND 1 \<noteq> 0), last_touched = 0,
                creation_mtp = mtp, script_pubkey = script\<rparr>)))))"


section \<open>Undo records\<close>

record utxo_undo =
  undo_spent :: "(out_point_key \<times> utxo) list"
  undo_created :: "out_point_key list"

definition undo_entry_encode :: "out_point_key \<times> utxo \<Rightarrow> utxo_error + bytes" where
  "undo_entry_encode entry =
     bind_res (utxo_encode (snd entry)) (\<lambda>encoded.
     bind_res (ok_or (u32_try_from (length encoded)) (Malformed ''undo UTXO length'')) (\<lambda>len.
       Ok (as_bytes (fst entry) @ u32_to_le len @ encoded)))"

definition undo_encode :: "utxo_undo \<Rightarrow> utxo_error + bytes" where
  "undo_encode undo =
     bind_res (ok_or (u32_try_from (length (undo_spent undo))) (Malformed ''undo spent count''))
       (\<lambda>spent_count.
     bind_res (ok_or (u32_try_from (length (undo_created undo))) (Malformed ''undo created count''))
       (\<lambda>created_count.
     bind_res (collect_res undo_entry_encode (undo_spent undo)) (\<lambda>entries.
       Ok (u32_to_le spent_count @ concat entries
           @ u32_to_le created_count @ concat (map as_bytes (undo_created undo))))))"

fun undo_decode_spent ::
  "bytes \<Rightarrow> nat \<Rightarrow> nat \<Rightarrow> utxo_error + ((out_point_key \<times> utxo) list \<times> nat)" where
  "undo_decode_spent bs 0 cursor = Ok ([], cursor)"
| "undo_decode_spent bs (Suc n) cursor =
     bind_res (utxo_take bs cursor 36 ''undo spent outpoint'') (\<lambda>(raw, cursor).
     bind_res (key_from_bytes raw) (\<lambda>key.
     bind_res (take_u32_at bs cursor ''undo UTXO length'') (\<lambda>(len, cursor).
     bind_res (utxo_take bs cursor (unat len) ''undo UTXO'') (\<lambda>(raw, cursor).
     bind_res (utxo_decode raw) (\<lambda>u.
     bind_res (undo_decode_spent bs n cursor) (\<lambda>(rest, cursor).
       Ok ((key, u) # rest, cursor)))))))"

fun undo_decode_created ::
  "bytes \<Rightarrow> nat \<Rightarrow> nat \<Rightarrow> utxo_error + (out_point_key list \<times> nat)" where
  "undo_decode_created bs 0 cursor = Ok ([], cursor)"
| "undo_decode_created bs (Suc n) cursor =
     bind_res (utxo_take bs cursor 36 ''undo created outpoint'') (\<lambda>(raw, cursor).
     bind_res (key_from_bytes raw) (\<lambda>key.
     bind_res (undo_decode_created bs n cursor) (\<lambda>(rest, cursor).
       Ok (key # rest, cursor))))"

definition undo_decode :: "bytes \<Rightarrow> utxo_error + utxo_undo" where
  "undo_decode bs =
     bind_res (take_u32_at bs 0 ''undo spent count'') (\<lambda>(spent_count, cursor).
     if unat spent_count > (length bs - cursor) div 40
     then Err (Malformed ''undo spent count exceeds record'')
     else
     bind_res (undo_decode_spent bs (unat spent_count) cursor) (\<lambda>(spent, cursor).
     bind_res (take_u32_at bs cursor ''undo created count'') (\<lambda>(created_count, cursor).
     if unat created_count > (length bs - cursor) div 36
     then Err (Malformed ''undo created count exceeds record'')
     else
     bind_res (undo_decode_created bs (unat created_count) cursor) (\<lambda>(created, cursor).
     if cursor \<noteq> length bs then Err (Malformed ''trailing undo bytes'')
     else Ok \<lparr>undo_spent = spent, undo_created = created\<rparr>))))"


section \<open>Re-tiering progress\<close>

record height_retier_progress =
  prog_scanned :: u64
  prog_moved_to_hot :: u64
  prog_moved_to_cold :: u64
  prog_complete :: bool

record height_retier_state =
  rt_tip_height :: u32
  rt_hot_window_blocks :: u32
  rt_after :: "out_point_key option"
  rt_scanned :: u64
  rt_moved_to_hot :: u64
  rt_moved_to_cold :: u64

definition retier_state_new :: "u32 \<Rightarrow> u32 \<Rightarrow> height_retier_state" where
  "retier_state_new tip window =
     \<lparr>rt_tip_height = tip, rt_hot_window_blocks = window, rt_after = None,
      rt_scanned = 0, rt_moved_to_hot = 0, rt_moved_to_cold = 0\<rparr>"

text \<open>The ASCII bytes \<open>URT1\<close>.\<close>

definition retier_progress_magic :: bytes where
  "retier_progress_magic = [0x55, 0x52, 0x54, 0x31]"

definition retier_state_encode :: "height_retier_state \<Rightarrow> bytes" where
  "retier_state_encode r =
     retier_progress_magic @ u32_to_le (rt_tip_height r) @ u32_to_le (rt_hot_window_blocks r)
     @ (case rt_after r of
          None \<Rightarrow> replicate 37 0
        | Some k \<Rightarrow> 1 # as_bytes k)
     @ u64_to_le (rt_scanned r) @ u64_to_le (rt_moved_to_hot r) @ u64_to_le (rt_moved_to_cold r)"

definition retier_state_decode :: "bytes \<Rightarrow> utxo_error + height_retier_state" where
  "retier_state_decode bs =
     (if length bs \<noteq> 73 \<or> take 4 bs \<noteq> retier_progress_magic \<or> \<not> (bs ! 12 = 0 \<or> bs ! 12 = 1)
      then Err (Malformed ''height re-tier progress'')
      else
      bind_res (if bs ! 12 = 1 then bind_res (key_from_bytes (take 36 (drop 13 bs))) (\<lambda>k. Ok (Some k))
                else Ok None) (\<lambda>after.
        Ok \<lparr>rt_tip_height = u32_from_le (take 4 (drop 4 bs)),
            rt_hot_window_blocks = u32_from_le (take 4 (drop 8 bs)),
            rt_after = after,
            rt_scanned = u64_from_le (take 8 (drop 49 bs)),
            rt_moved_to_hot = u64_from_le (take 8 (drop 57 bs)),
            rt_moved_to_cold = u64_from_le (take 8 (drop 65 bs))\<rparr>))"

definition retier_state_progress :: "height_retier_state \<Rightarrow> bool \<Rightarrow> height_retier_progress" where
  "retier_state_progress r complete =
     \<lparr>prog_scanned = rt_scanned r, prog_moved_to_hot = rt_moved_to_hot r,
      prog_moved_to_cold = rt_moved_to_cold r, prog_complete = complete\<rparr>"

end
