(* ===== verification/Utxo_Codec.thy ===== *)
theory Utxo_Codec
  imports Utxo
begin

text \<open>
  What the codecs of \<open>Utxo\<close> guarantee: every record that encodes decodes to itself,
  every byte string that decodes is the encoding of what it decodes to, and the
  variable-length integers, amounts and scripts of the compact format survive a
  round trip.
\<close>

section \<open>Outpoint keys\<close>

text \<open>Keys as the code builds them: 36 bytes.\<close>

definition valid_key :: "out_point_key \<Rightarrow> bool" where
  "valid_key k \<longleftrightarrow> length (as_bytes k) = 36"

lemma valid_key_of [simp]: "valid_key (key_of p)"
  by (simp add: valid_key_def key_of_def)

lemma key_to_outpoint_key_of [simp]: "key_to_outpoint (key_of p) = p"
  by (simp add: key_to_outpoint_def key_of_def)

lemma key_of_key_to_outpoint: "valid_key k \<Longrightarrow> key_of (key_to_outpoint k) = k"
  by (cases k) (simp add: valid_key_def key_to_outpoint_def key_of_def u32_to_from_le hash_to_from_bytes)

lemma key_of_inject [simp]: "key_of p = key_of q \<longleftrightarrow> p = q"
  by (metis key_to_outpoint_key_of)

lemma key_from_bytes_as_bytes [simp]: "valid_key k \<Longrightarrow> key_from_bytes (as_bytes k) = Ok k"
  by (simp add: key_from_bytes_def valid_key_def)

lemma key_from_bytes_Inr [res_simps]:
  "key_from_bytes bs = Inr k \<longleftrightarrow> length bs = 36 \<and> k = OutPointKey bs"
  by (auto simp: key_from_bytes_def)


section \<open>The fixed-width record\<close>

lemma utxo_encode_Inr [res_simps]:
  "utxo_encode u = Inr bs \<longleftrightarrow>
     length (script_pubkey u) < 2 ^ 32
     \<and> bs = u64_to_le (value_sats u) @ u32_to_le (utxo_height u)
         @ [if is_coinbase u then 1 else 0] @ u64_to_le (last_touched u)
         @ u32_to_le (creation_mtp u) @ u32_to_le (word_of_nat (length (script_pubkey u)))
         @ script_pubkey u"
  by (auto simp: utxo_encode_def utxo_encode_into_def res_simps checked_arith)

lemma length_utxo_encode:
  "utxo_encode u = Inr bs \<Longrightarrow> length bs = 29 + length (script_pubkey u)"
  by (simp add: res_simps)

lemma record_parts:
  assumes "bs = A @ B @ [c] @ C @ D @ E @ S"
    and "length A = 8" "length B = 4" "length C = 8" "length D = 4" "length E = 4"
  shows "take 8 bs = A" "take 4 (drop 8 bs) = B" "bs ! 12 = c" "take 8 (drop 13 bs) = C"
    "take 4 (drop 21 bs) = D" "take 4 (drop 25 bs) = E" "drop 29 bs = S"
  using assms by (simp_all add: nth_append)

lemma utxo_validate_encoded_OkI:
  assumes "unat (u32_from_le (take 4 (drop 25 bs))) = n" "bs ! 12 = (if c then 1 else 0)"
    and "length bs = 29 + n"
  shows "utxo_validate_encoded bs = Inr ()"
  unfolding utxo_validate_encoded_def Let_def assms(1,2) using assms(3) by simp

lemma utxo_decode_encode:
  assumes "utxo_encode u = Inr bs"
  shows "utxo_decode bs = Inr u"
proof -
  have len: "length (script_pubkey u) < 2 ^ 32"
    and bs: "bs = u64_to_le (value_sats u) @ u32_to_le (utxo_height u)
         @ [if is_coinbase u then 1 else 0] @ u64_to_le (last_touched u)
         @ u32_to_le (creation_mtp u) @ u32_to_le (word_of_nat (length (script_pubkey u)))
         @ script_pubkey u"
    using assms by (simp_all only: utxo_encode_Inr)
  note parts = record_parts [OF bs, simplified]
  have "utxo_validate_encoded bs = Inr ()"
    by (rule utxo_validate_encoded_OkI [of _ "length (script_pubkey u)" "is_coinbase u"])
       (simp_all add: parts(6) unat_word_of_nat_u32 [OF len] length_utxo_encode [OF assms],
        simp add: bs nth_append)
  then have "utxo_decode bs = Inr \<lparr>value_sats = value_sats u, utxo_height = utxo_height u,
      is_coinbase = is_coinbase u, last_touched = last_touched u,
      creation_mtp = creation_mtp u, script_pubkey = script_pubkey u\<rparr>"
    by (simp only: utxo_decode_def bind_res_simps(2) parts le_simps) simp
  also have "\<dots> = Inr u" by (cases u) (simp only: utxo.select_convs)
  finally show ?thesis .
qed

lemma utxo_validate_encoded_Inr:
  "utxo_validate_encoded bs = Inr () \<longleftrightarrow>
     29 \<le> length bs \<and> (bs ! 12 = 0 \<or> bs ! 12 = 1)
     \<and> length bs = 29 + unat (u32_from_le (take 4 (drop 25 bs)))"
  unfolding utxo_validate_encoded_def Let_def not_less [symmetric]
  by (simp only: sum.distinct split: if_split) blast

lemma utxo_decode_Inr_fields:
  assumes "utxo_decode bs = Inr u"
  shows "29 \<le> length bs" "bs ! 12 = (if is_coinbase u then 1 else 0)"
    "length bs = 29 + unat (u32_from_le (take 4 (drop 25 bs)))"
    "script_pubkey u = drop 29 bs"
    "value_sats u = u64_from_le (take 8 bs)"
    "utxo_height u = u32_from_le (take 4 (drop 8 bs))"
    "last_touched u = u64_from_le (take 8 (drop 13 bs))"
    "creation_mtp u = u32_from_le (take 4 (drop 21 bs))"
proof -
  from assms have v: "utxo_validate_encoded bs = Inr ()"
    and u: "u = \<lparr>value_sats = u64_from_le (take 8 bs), utxo_height = u32_from_le (take 4 (drop 8 bs)),
      is_coinbase = (bs ! 12 = 1), last_touched = u64_from_le (take 8 (drop 13 bs)),
      creation_mtp = u32_from_le (take 4 (drop 21 bs)), script_pubkey = drop 29 bs\<rparr>"
    by (auto simp only: utxo_decode_def bind_res_eq_Inr sum.inject) simp
  from v show "29 \<le> length bs" "length bs = 29 + unat (u32_from_le (take 4 (drop 25 bs)))"
    by (simp_all only: utxo_validate_encoded_Inr)
  from v have "bs ! 12 = 0 \<or> bs ! 12 = 1" by (simp only: utxo_validate_encoded_Inr)
  then show "bs ! 12 = (if is_coinbase u then 1 else 0)" unfolding u by auto
  show "script_pubkey u = drop 29 bs" "value_sats u = u64_from_le (take 8 bs)"
    "utxo_height u = u32_from_le (take 4 (drop 8 bs))"
    "last_touched u = u64_from_le (take 8 (drop 13 bs))"
    "creation_mtp u = u32_from_le (take 4 (drop 21 bs))"
    by (simp_all only: u utxo.select_convs)
qed

lemma split_record:
  assumes "29 \<le> length bs"
  shows "bs = take 8 bs @ take 4 (drop 8 bs) @ [bs ! 12] @ take 8 (drop 13 bs)
               @ take 4 (drop 21 bs) @ take 4 (drop 25 bs) @ drop 29 bs"
proof -
  have "bs = take 8 bs @ drop 8 bs" by simp
  also have "drop 8 bs = take 4 (drop 8 bs) @ drop 12 bs"
    using append_take_drop_id [of 4 "drop 8 bs"] by simp
  also have "drop 12 bs = [bs ! 12] @ drop 13 bs"
    using assms Cons_nth_drop_Suc [of 12 bs] by simp
  also have "drop 13 bs = take 8 (drop 13 bs) @ drop 21 bs"
    using append_take_drop_id [of 8 "drop 13 bs"] by simp
  also have "drop 21 bs = take 4 (drop 21 bs) @ drop 25 bs"
    using append_take_drop_id [of 4 "drop 21 bs"] by simp
  also have "drop 25 bs = take 4 (drop 25 bs) @ drop 29 bs"
    using append_take_drop_id [of 4 "drop 25 bs"] by simp
  finally show ?thesis by simp
qed

lemma utxo_encode_decode:
  assumes "utxo_decode bs = Inr u"
  shows "utxo_encode u = Inr bs"
proof -
  note f = utxo_decode_Inr_fields [OF assms]
  let ?n = "u32_from_le (take 4 (drop 25 bs))"
  have n: "length (drop 29 bs) = unat ?n"
    unfolding length_drop using f(3) by linarith
  have bound: "unat ?n < 2 ^ 32"
    using unsigned_less [of ?n, where ?'a = nat] by simp
  have eqs: "u64_to_le (value_sats u) = take 8 bs" "u32_to_le (utxo_height u) = take 4 (drop 8 bs)"
    "u64_to_le (last_touched u) = take 8 (drop 13 bs)"
    "u32_to_le (creation_mtp u) = take 4 (drop 21 bs)"
    "u32_to_le (word_of_nat (unat ?n)) = take 4 (drop 25 bs)"
    unfolding f(5-8) using f(1) by (simp_all add: u32_to_from_le u64_to_from_le)
  have "bs = u64_to_le (value_sats u) @ u32_to_le (utxo_height u)
         @ [if is_coinbase u then 1 else 0] @ u64_to_le (last_touched u)
         @ u32_to_le (creation_mtp u) @ u32_to_le (word_of_nat (unat ?n)) @ drop 29 bs"
    by (rule trans [OF split_record [OF f(1)]]) (simp only: eqs f(2))
  with bound show ?thesis
    unfolding utxo_encode_Inr f(4) n by (rule conjI)
qed


section \<open>Variable-length integers\<close>

lemma c7: "(0x7F :: 'a::len word) = mask 7" "(0x80 :: 'a word) = push_bit 7 1"
  by (simp_all add: mask_eq_exp_minus_1)

lemma vlq_byte_low:
  "ucast (((ucast (v AND 0x7F) :: u8) OR (if c then 0x80 else 0)) AND 0x7F) = (v AND 0x7F)"
  for v :: u64
  unfolding c7 by (rule bit_eqI) (auto simp: bit_simps simp del: push_bit_of_1)

lemma vlq_byte_high:
  "((ucast (v AND 0x7F) :: u8) OR (if c then 0x80 else 0)) AND 0x80 = (if c then 0x80 else 0)"
  for v :: u64
  unfolding c7 by (rule bit_eqI) (auto simp: bit_simps simp del: push_bit_of_1)

lemma unat_and_7F: "unat (v AND 0x7F) = unat v mod 128" for v :: u64
proof -
  have "v AND 0x7F = take_bit 7 v" by (simp add: take_bit_eq_mask mask_eq_exp_minus_1)
  then show ?thesis by (simp only: unsigned_take_bit_eq) (simp add: take_bit_eq_mod)
qed

lemma vlq_accumulate:
  assumes w: "unat w = unat v div 128"
  shows "Option.bind (checked_mul w 128) (\<lambda>x. checked_add x (v AND 0x7F)) = Some (v :: u64)"
proof -
  have lt: "unat v < 2 ^ 64" using unsigned_less [of v, where ?'a = nat] by simp
  have "unat w * 128 \<le> unat v" unfolding w by simp
  with lt have m: "checked_mul w 128 = Some (w * 128)" by (simp add: checked_mul_def)
  then have um: "unat (w * 128) = unat w * 128" by (simp add: checked_arith)
  have sum: "unat (w * 128) + unat (v AND 0x7F) = unat v"
    unfolding um w unat_and_7F by simp
  with lt have "checked_add (w * 128) (v AND 0x7F) = Some (w * 128 + (v AND 0x7F))"
    by (simp add: checked_add_def)
  moreover from this have "unat (w * 128 + (v AND 0x7F)) = unat v"
    using sum by (simp add: checked_arith)
  then have "w * 128 + (v AND 0x7F) = v" by (rule word_unat_eq_iff [THEN iffD2])
  ultimately show ?thesis using m by simp
qed

lemma decode_vlq_loop_group:
  assumes "unat w = unat v div 128"
  shows "decode_vlq_loop (((ucast (v AND 0x7F) :: u8) OR (if c then 0x80 else 0)) # rest) w cursor field =
    (if \<not> c then Inr (v, Suc cursor)
     else bind_res (ok_or (checked_add v 1) (Malformed field))
            (\<lambda>v. decode_vlq_loop rest v (Suc cursor) field))"
  using vlq_accumulate [OF assms]
  by (simp only: decode_vlq_loop.simps vlq_byte_low vlq_byte_high) simp

lemma decode_vlq_loop_continued:
  "unat v + 1 < 2 ^ 64 \<Longrightarrow>
   decode_vlq_loop (rev (encode_vlq_loop True v) @ rest) 0 cursor field =
   decode_vlq_loop rest (v + 1) (cursor + length (encode_vlq_loop True v)) field"
proof (induction "True" v arbitrary: rest cursor rule: encode_vlq_loop.induct)
  case (1 v)
  have add: "checked_add v 1 = Some (v + 1)"
    using "1.prems" by (simp add: checked_add_def)
  show ?case
  proof (cases "v \<le> 0x7F")
    case True
    then have "unat (0 :: u64) = unat v div 128" by (simp add: word_le_nat_alt)
    from decode_vlq_loop_group [OF this, where c = True] True add show ?thesis
      by (simp add: encode_vlq_loop.simps [of True v])
  next
    case False
    then have v: "127 < unat v" by (simp add: word_le_nat_alt not_le)
    let ?w = "drop_bit 7 v - 1"
    have w: "unat ?w = unat v div 128 - 1" by (rule unat_vlq_next [OF v])
    then have w1: "unat ?w + 1 = unat v div 128" using v by simp
    then have lt: "unat ?w + 1 < 2 ^ 64"
      using unsigned_less [of v, where ?'a = nat] by simp
    have "unat (drop_bit 7 v) = unat v div 128"
      by (simp only: unat_drop_bit_eq) (simp add: drop_bit_eq_div)
    note group = decode_vlq_loop_group [OF this, where c = True]
    show ?thesis
      using "1.hyps" [OF refl False lt] group add False
      by (simp add: encode_vlq_loop.simps [of True v])
  qed
qed

lemma decode_vlq_encode_loop:
  "decode_vlq_loop (rev (encode_vlq_loop False v) @ rest) 0 cursor field =
   Inr (v, cursor + length (encode_vlq_loop False v))"
proof (cases "v \<le> 0x7F")
  case True
  then have "unat (0 :: u64) = unat v div 128" by (simp add: word_le_nat_alt)
  from decode_vlq_loop_group [OF this, where c = False] True show ?thesis
    by (simp add: encode_vlq_loop.simps [of False v])
next
  case False
  then have v: "127 < unat v" by (simp add: word_le_nat_alt not_le)
  let ?w = "drop_bit 7 v - 1"
  have w: "unat ?w = unat v div 128 - 1" by (rule unat_vlq_next [OF v])
  then have lt: "unat ?w + 1 < 2 ^ 64"
    using v unsigned_less [of v, where ?'a = nat] by simp
  have "unat (drop_bit 7 v) = unat v div 128"
    by (simp only: unat_drop_bit_eq) (simp add: drop_bit_eq_div)
  note group = decode_vlq_loop_group [OF this, where c = False]
  show ?thesis
    using decode_vlq_loop_continued [OF lt] group False
    by (simp add: encode_vlq_loop.simps [of False v])
qed

lemma decode_vlq_encode_vlq:
  "decode_vlq (pre @ encode_vlq [] v @ rest) (length pre) field =
   Inr (v, length pre + length (encode_vlq [] v))"
  by (simp add: decode_vlq_def encode_vlq_def decode_vlq_encode_loop)

lemma decode_vlq_canonical:
  assumes "decode_vlq bs start field = Inr (v, cursor)"
  shows "start < cursor" "cursor \<le> length bs" "take (cursor - start) (drop start bs) = encode_vlq [] v"
proof -
  have loop: "decode_vlq_loop rest w c field = Inr (v, cursor) \<Longrightarrow> c < cursor \<and> cursor \<le> c + length rest"
    for rest w c
  proof (induction rest arbitrary: w c)
    case (Cons b rest)
    then show ?case by (fastforce simp: res_simps split: if_splits)
  qed simp
  from assms have "decode_vlq_loop (drop start bs) 0 start field = Inr (v, cursor)"
    and eq: "encode_vlq [] v = take (cursor - start) (drop start bs)"
    by (auto simp: decode_vlq_def res_simps split: if_splits)
  from loop [OF this(1)] have *: "start < cursor" "cursor \<le> start + length (drop start bs)" by auto
  then show "start < cursor" by simp
  with * show "cursor \<le> length bs" by (cases "start \<le> length bs") auto
  show "take (cursor - start) (drop start bs) = encode_vlq [] v" using eq by simp
qed


section \<open>Amounts\<close>


lemma unat_mod10: "unat (a mod 10) = unat a mod 10" "unat (a div 10) = unat a div 10"
  for a :: u64
  by (simp_all add: unat_mod_distrib unat_div_distrib)

lemma compress_amount_loop_spec:
  assumes "compress_amount_loop left a e = (a', e')" and "unat e + left < 2 ^ 64"
  shows "\<exists>k \<le> left. unat e' = unat e + k \<and> unat a = unat a' * 10 ^ k
          \<and> (k < left \<longrightarrow> unat a' mod 10 \<noteq> 0)"
  using assms
proof (induction left arbitrary: a e)
  case 0
  then show ?case by simp
next
  case (Suc left)
  show ?case
  proof (cases "a mod 10 = 0")
    case True
    then have a10: "unat a mod 10 = 0" by (metis unat_0 unat_mod10(1))
    have e1: "unat (e + 1) = unat e + 1"
      using Suc.prems(2) by (simp add: unat_word_ariths)
    from True Suc.prems have "compress_amount_loop left (a div 10) (e + 1) = (a', e')" by simp
    from Suc.IH [OF this] Suc.prems(2) e1 obtain k where
      "k \<le> left" "unat e' = unat e + 1 + k" "unat a div 10 = unat a' * 10 ^ k"
      "k < left \<longrightarrow> unat a' mod 10 \<noteq> 0"
      by (auto simp: unat_mod10)
    moreover have "unat a = 10 * (unat a div 10)" using a10 by auto
    ultimately show ?thesis by (intro exI [of _ "Suc k"]) simp
  next
    case False
    then have "unat a mod 10 \<noteq> 0" by (metis unat_mod10(1) word_unat_eq_iff unat_0)
    with False Suc.prems show ?thesis by (intro exI [of _ 0]) simp
  qed
qed

lemma decompress_scale_ok:
  "unat v * 10 ^ n = unat w \<Longrightarrow> decompress_scale n v = Inr w"
proof (induction n arbitrary: v)
  case 0
  then show ?case by (simp add: word_unat_eq_iff)
next
  case (Suc n)
  have "unat v * 10 \<le> unat v * 10 ^ Suc n" by simp
  also have "\<dots> < 2 ^ 64"
    using Suc.prems unsigned_less [of w, where ?'a = nat] by simp
  finally have m: "checked_mul v 10 = Some (v * 10)" by (simp add: checked_mul_def)
  then have "unat (v * 10) = unat v * 10" by (simp add: checked_arith)
  with Suc.prems have "unat (v * 10) * 10 ^ n = unat w" by simp
  from Suc.IH [OF this] m show ?case by simp
qed

lemma unat_mod9: "unat (a mod 9) = unat a mod 9" "unat (a div 9) = unat a div 9"
  for a :: u64
  by (simp_all add: unat_mod_distrib unat_div_distrib)

lemma base_split: "r < b \<Longrightarrow> (b * n + r) mod b = r \<and> (b * n + r) div b = n"
  for b n r :: nat
  by (simp only: mod_mult_self4 div_mult_self4) simp

lemma decompress_amount_digit:
  assumes c: "unat c = 1 + 10 * (9 * q + d) + e" and e: "e < 9" and d: "d < 9"
    and w: "(q * 10 + d + 1) * 10 ^ e = unat w"
  shows "decompress_amount c = Inr w"
proof -
  let ?x = "c - 1"
  have "c \<noteq> 0" using c by (intro notI) simp
  then have x: "unat ?x = 10 * (9 * q + d) + e" using c by (simp add: unat_minus_one)
  have ex: "unat (?x mod 10) = e" and am: "unat (?x div 10) = 9 * q + d"
    unfolding unat_mod10 x using base_split [of e 10 "9 * q + d"] e by simp_all
  have dg: "unat (?x div 10 mod 9) = d" and q: "unat (?x div 10 div 9) = q"
    unfolding unat_mod9 am using base_split [of d 9 q] d by simp_all
  have bound: "q * 10 + d + 1 < 2 ^ 64"
  proof -
    have "q * 10 + d + 1 \<le> (q * 10 + d + 1) * 10 ^ e"
      using mult_le_mono2 [of 1 "10 ^ e" "q * 10 + d + 1"] by simp
    also have "\<dots> < 2 ^ 64" using w unsigned_less [of w, where ?'a = nat] by simp
    finally show ?thesis .
  qed
  have m: "checked_mul (?x div 10 div 9) 10 = Some (?x div 10 div 9 * 10)"
    using bound by (simp add: checked_mul_def q)
  then have um: "unat (?x div 10 div 9 * 10) = q * 10" by (simp add: checked_arith q)
  have d1: "unat (?x div 10 mod 9 + 1) = d + 1"
    using d dg by (simp add: unat_word_ariths)
  have a: "checked_add (?x div 10 div 9 * 10) (?x div 10 mod 9 + 1)
      = Some (?x div 10 div 9 * 10 + (?x div 10 mod 9 + 1))"
    using bound by (simp add: checked_add_def um d1)
  then have ua: "unat (?x div 10 div 9 * 10 + (?x div 10 mod 9 + 1)) = q * 10 + d + 1"
    by (simp add: checked_arith um d1)
  have lt: "?x mod 10 < 9" using ex e by (simp add: word_less_nat_alt)
  show ?thesis
    using decompress_scale_ok [of _ e w] ua w
    unfolding decompress_amount_def Let_def
    by (simp only: \<open>c \<noteq> 0\<close> lt if_True if_False m bind.bind_lunit a ok_or_simps bind_res_simps ex)
qed

lemma decompress_amount_round:
  assumes c: "unat c = 10 + 10 * a" and w: "(a + 1) * 10 ^ 9 = unat w"
  shows "decompress_amount c = Inr w"
proof -
  let ?x = "c - 1"
  have "c \<noteq> 0" using c by (intro notI) simp
  then have x: "unat ?x = 10 * a + 9" using c by (simp add: unat_minus_one)
  have ex: "unat (?x mod 10) = 9" and am: "unat (?x div 10) = a"
    unfolding unat_mod10 x using base_split [of 9 10 a] by simp_all
  have "a + 1 < 2 ^ 64" using c unsigned_less [of c, where ?'a = nat] by simp
  then have s: "checked_add (?x div 10) 1 = Some (?x div 10 + 1)"
    by (simp add: checked_add_def am)
  then have us: "unat (?x div 10 + 1) = a + 1" by (simp add: checked_arith am)
  have lt: "\<not> ?x mod 10 < 9" using ex by (simp add: word_less_nat_alt)
  show ?thesis
    using decompress_scale_ok [of _ 9 w] us w
    unfolding decompress_amount_def Let_def
    by (simp only: \<open>c \<noteq> 0\<close> lt if_True if_False s ok_or_simps bind_res_simps ex)
qed

lemma unat_compressed:
  "unat s < 2 ^ 60 \<Longrightarrow> unat e \<le> 9 \<Longrightarrow> unat (1 + 10 * s + e) = 1 + 10 * unat s + unat e"
  "unat s < 2 ^ 60 \<Longrightarrow> unat (10 + 10 * s) = 10 + 10 * unat s"
  for s e :: u64
  by (simp_all add: unat_word_ariths)

lemma decompress_compress_amount:
  assumes max: "unat a \<le> 2100000000000000"
  shows "decompress_amount (compress_amount a) = Inr a"
proof (cases "a = 0")
  case True
  then show ?thesis by (simp add: compress_amount_def decompress_amount_def)
next
  case False
  obtain a' e' where l: "compress_amount_loop 9 a 0 = (a', e')" by fastforce
  from compress_amount_loop_spec [OF l] obtain k where
    k: "k \<le> 9" "unat e' = k" "unat a = unat a' * 10 ^ k" "k < 9 \<longrightarrow> unat a' mod 10 \<noteq> 0"
    by auto
  have "unat a \<noteq> 0" using False by (simp add: unat_eq_zero)
  then have pos: "0 < unat a'" using k(3) by (intro gr0I) simp
  have le: "unat a' \<le> unat a" using k(3) by simp
  show ?thesis
  proof (cases "k < 9")
    case True
    let ?q = "unat a' div 10" and ?d = "unat a' mod 10 - 1"
    have d: "?d < 9" "unat a' mod 10 = ?d + 1" using k(4) True by simp_all
    have split: "?q * 10 + ?d + 1 = unat a'" using d(2) by simp
    have lt: "e' < 9" using k(2) True by (simp add: word_less_nat_alt)
    let ?s = "9 * (a' div 10) + a' mod 10 - 1"
    have "unat (9 * (a' div 10)) = 9 * ?q"
      using le max by (simp add: unat_word_ariths unat_mod10)
    then have s0: "unat (9 * (a' div 10) + a' mod 10) = 9 * ?q + ?d + 1"
      using le max d by (simp add: unat_word_ariths unat_mod10)
    then have "9 * (a' div 10) + a' mod 10 \<noteq> 0" by (intro notI) simp
    then have s: "unat ?s = 9 * ?q + ?d" using s0 by (simp add: unat_minus_one)
    have "unat (1 + 10 * ?s + e') = 1 + 10 * (9 * ?q + ?d) + k"
    proof -
      have "unat ?s < 2 ^ 60" unfolding s using le max d(1) by simp
      moreover have "unat e' \<le> 9" using k(1,2) by simp
      ultimately show ?thesis using unat_compressed(1) [of ?s e'] s k(2) by (simp only:)
    qed
    then have "decompress_amount (1 + 10 * ?s + e') = Inr a"
      by (rule decompress_amount_digit [OF _ True d(1)]) (simp only: split k(3))
    then show ?thesis
      using False l lt by (simp add: compress_amount_def Let_def)
  next
    case k9: False
    then have "k = 9" using k(1) by simp
    then have nlt: "\<not> e' < 9" using k(2) by (simp add: word_less_nat_alt)
    have "a' \<noteq> 0" using pos by (intro notI) simp
    then have "unat (a' - 1) = unat a' - 1" by (rule unat_minus_one)
    then have "unat (10 + 10 * (a' - 1)) = 10 + 10 * (unat a' - 1)"
      using unat_compressed(2) [of "a' - 1"] le max by simp
    then have "decompress_amount (10 + 10 * (a' - 1)) = Inr a"
      by (rule decompress_amount_round) (use pos k(3) \<open>k = 9\<close> in simp)
    then show ?thesis
      using False l nlt by (simp add: compress_amount_def Let_def)
  qed
qed


section \<open>Compressed scripts and coins\<close>

definition public_key_codec :: "bitcoin_lib \<Rightarrow> bool" where
  "public_key_codec L \<longleftrightarrow>
     (\<forall>key. length key = 65 \<and> hd key = 0x04 \<and> public_key_from_slice L key \<longrightarrow>
        public_key_from_slice L ((0x02 OR (key ! 64 AND 1)) # take 32 (drop 1 key))
        \<and> public_key_serialize_uncompressed L ((0x02 OR (key ! 64 AND 1)) # take 32 (drop 1 key)) = key)"

lemma encode_script_target:
  "encode_script L target script = bind_res (encode_script L [] script) (\<lambda>bs. Ok (target @ bs))"
  by (cases "script_public_key L script")
     (simp_all add: encode_script_def encode_vlq_def split: if_splits,
      simp_all add: bind_res_assoc)

lemma encode_vlq_small: "v \<le> 0x7F \<Longrightarrow> encode_vlq [] v = [ucast v]"
proof -
  assume v: "v \<le> 0x7F"
  then have "unat (v AND 0x7F) = unat v" unfolding unat_and_7F by (simp add: word_le_nat_alt)
  then have "v AND 0x7F = v" by (rule word_unat_eq_iff [THEN iffD2])
  with v show ?thesis by (simp add: encode_vlq_def encode_vlq_loop.simps)
qed

lemma decode_vlq_small:
  assumes "v \<le> 0x7F"
  shows "decode_vlq (pre @ ucast v # rest) (length pre) field = Inr (v, Suc (length pre))"
  using decode_vlq_encode_vlq [of pre v rest field] encode_vlq_small [OF assms] by simp

lemma utxo_take_append:
  "utxo_take (pre @ mid @ post) (length pre) (length mid) field = Inr (mid, length pre + length mid)"
  by (simp add: utxo_take_def)

lemma utxo_take_appendI:
  assumes "bs = pre @ mid @ post" "c = length pre" "n = length mid"
  shows "utxo_take bs c n field = Inr (mid, c + n)"
  using utxo_take_append [of pre mid post field] assms by simp

lemma decode_script_kind:
  fixes v :: u64
  assumes "v \<le> 5"
  shows "decode_script L (pre @ (ucast v # mid) @ post) (length pre) =
    (if v = 0 then
         bind_res (utxo_take (pre @ (ucast v # mid) @ post) (Suc (length pre)) 20 ''compressed P2PKH'')
           (\<lambda>(h, cursor). Ok ([0x76, 0xA9, 0x14] @ h @ [0x88, 0xAC], cursor))
       else if v = 1 then
         bind_res (utxo_take (pre @ (ucast v # mid) @ post) (Suc (length pre)) 20 ''compressed P2SH'')
           (\<lambda>(h, cursor). Ok ([0xA9, 0x14] @ h @ [0x87], cursor))
       else if v = 2 \<or> v = 3 then
         bind_res (utxo_take (pre @ (ucast v # mid) @ post) (Suc (length pre)) 32 ''compressed public key'') (\<lambda>(x, cursor).
           let key = ucast v # x
           in if public_key_from_slice L key then Ok ([0x21] @ key @ [0xAC], cursor)
              else Err (Malformed ''invalid compressed public key''))
       else
         bind_res (utxo_take (pre @ (ucast v # mid) @ post) (Suc (length pre)) 32 ''compressed public key'') (\<lambda>(x, cursor).
           let key = ucast (v - 2) # x
           in if public_key_from_slice L key
              then Ok ([0x41] @ public_key_serialize_uncompressed L key @ [0xAC], cursor)
              else Err (Malformed ''invalid compressed public key'')))"
proof -
  have v7: "v \<le> 0x7F" using assms by (rule order_trans) simp
  have "unat v \<le> 5" using assms by (simp add: word_le_nat_alt)
  then have "unat v \<in> {0, 1, 2, 3, 4, 5}" by auto
  then have five: "v = 0 \<or> v = 1 \<or> v = 2 \<or> v = 3 \<or> v = 4 \<or> v = 5"
    by (auto simp: word_unat_eq_iff)
  show ?thesis
    using decode_vlq_small [OF v7, of pre "mid @ post"] five
    by (simp add: decode_script_def split del: if_split) (auto simp: Let_def)
qed

lemma script_public_key_Some:
  assumes "script_public_key L script = Some key"
  shows "public_key_from_slice L key
    \<and> (length key = 33 \<and> (hd key = 2 \<or> hd key = 3) \<and> script = 0x21 # key @ [0xAC]
       \<or> length key = 65 \<and> hd key = 4 \<and> script = 0x41 # key @ [0xAC])"
proof -
  have "script = a # butlast (tl script) @ [b]"
    if "script \<noteq> []" "tl script \<noteq> []" "hd script = a" "last script = b" for a b
    using that by (cases script) (auto simp: append_butlast_last_id split: if_splits)
  with assms show ?thesis
    by (auto simp: script_public_key_def Let_def split: if_splits)
qed

lemma drop_split: "drop n xs = take k (drop n xs) @ drop (n + k) xs"
  by (metis append_take_drop_id drop_drop add.commute)

lemma p2pkh_parts:
  assumes "length script = 25" "take 3 script = a" "drop 23 script = b"
  shows "script = a @ take 20 (drop 3 script) @ b"
  using assms append_take_drop_id [of 3 script] drop_split [of 3 script 20] by simp

lemma p2sh_parts:
  assumes "length script = 23" "take 2 script = a" "script ! 22 = b"
  shows "script = a @ take 20 (drop 2 script) @ [b]"
proof -
  have "drop 22 script = [b]"
    using assms Cons_nth_drop_Suc [of 22 script] by simp
  with assms append_take_drop_id [of 2 script] drop_split [of 2 script 20] show ?thesis by simp
qed

lemma decode_script_p2pkh:
  assumes "length h = 20"
  shows "decode_script L (pre @ (0 # h) @ post) (length pre)
     = Inr ([0x76, 0xA9, 0x14] @ h @ [0x88, 0xAC], length pre + 21)"
proof -
  have "utxo_take (pre @ (0 # h) @ post) (Suc (length pre)) 20 f = Inr (h, Suc (length pre) + 20)" for f
    by (rule utxo_take_appendI [where pre = "pre @ [0]" and post = post]) (use assms in auto)
  with decode_script_kind [of 0 L pre h post] show ?thesis by simp
qed

lemma decode_script_p2sh:
  assumes "length h = 20"
  shows "decode_script L (pre @ (1 # h) @ post) (length pre)
     = Inr ([0xA9, 0x14] @ h @ [0x87], length pre + 21)"
proof -
  have "utxo_take (pre @ (1 # h) @ post) (Suc (length pre)) 20 f = Inr (h, Suc (length pre) + 20)" for f
    by (rule utxo_take_appendI [where pre = "pre @ [1]" and post = post]) (use assms in auto)
  with decode_script_kind [of 1 L pre h post] show ?thesis by simp
qed

lemma decode_script_p2pk:
  assumes "length x = 32" "t = 2 \<or> t = 3" "public_key_from_slice L (t # x)"
  shows "decode_script L (pre @ (t # x) @ post) (length pre)
     = Inr ([0x21] @ (t # x) @ [0xAC], length pre + 33)"
proof -
  have "utxo_take (pre @ (t # x) @ post) (Suc (length pre)) 32 f = Inr (x, Suc (length pre) + 32)" for f
    by (rule utxo_take_appendI [where pre = "pre @ [t]" and post = post]) (use assms in auto)
  with decode_script_kind [of 2 L pre x post] decode_script_kind [of 3 L pre x post] assms(2,3)
  show ?thesis by auto
qed

lemma decode_script_p2pk_uncompressed:
  assumes "length x = 32" "t = 2 \<or> t = 3" "public_key_from_slice L (t # x)"
  shows "decode_script L (pre @ ((t + 2) # x) @ post) (length pre)
     = Inr ([0x41] @ public_key_serialize_uncompressed L (t # x) @ [0xAC], length pre + 33)"
proof -
  have "utxo_take (pre @ ((t + 2) # x) @ post) (Suc (length pre)) 32 f
      = Inr (x, Suc (length pre) + 32)" for f
    by (rule utxo_take_appendI [where pre = "pre @ [t + 2]" and post = post]) (use assms in auto)
  with decode_script_kind [of 4 L pre x post] decode_script_kind [of 5 L pre x post] assms(2,3)
  show ?thesis by auto
qed

lemma decode_script_raw:
  assumes "checked_add (word_of_nat (length script)) special_script_count = Some len"
    and "length script < 2 ^ 64"
  shows "decode_script L (pre @ (encode_vlq [] len @ script) @ post) (length pre)
     = Inr (script, length pre + length (encode_vlq [] len @ script))"
proof -
  let ?bs = "pre @ (encode_vlq [] len @ script) @ post"
  have size: "unat (word_of_nat (length script) :: u64) = length script"
    using assms(2) by (simp add: unat_of_nat take_bit_nat_eq_self)
  have len: "unat len = length script + 6" "len = word_of_nat (length script) + 6"
    using assms(1) size by (auto simp: checked_add_Some special_script_count_def)
  have big: "\<not> unat len \<le> 5" using len by simp
  then have kinds: "len \<noteq> 0" "len \<noteq> 1" "len \<noteq> 2" "len \<noteq> 3" "len \<noteq> 4" "len \<noteq> 5"
    by auto
  have "6 \<le> len" using len(1) by (simp add: word_le_nat_alt)
  then have "checked_sub len special_script_count = Some (word_of_nat (length script))"
    using len(2) by (simp add: checked_sub_Some special_script_count_def)
  moreover have "utxo_take ?bs (length pre + length (encode_vlq [] len)) (length script) f
      = Inr (script, length pre + length (encode_vlq [] len) + length script)" for f
    by (rule utxo_take_appendI [where pre = "pre @ encode_vlq [] len" and post = post]) auto
  moreover have "decode_vlq ?bs (length pre) f = Inr (len, length pre + length (encode_vlq [] len))" for f
    using decode_vlq_encode_vlq [of pre len "script @ post" f] by simp
  ultimately show ?thesis
    using kinds size by (simp add: decode_script_def)
qed

lemma and_1_cases: "(y :: u8) AND 1 = 0 \<or> y AND 1 = 1"
  by (cases "even y") (simp_all add: and_one_eq mod_2_eq_odd)

lemma decode_script_encode_script:
  assumes L: "public_key_codec L" and enc: "encode_script L [] script = Inr bs"
  shows "decode_script L (pre @ bs @ post) (length pre) = Inr (script, length pre + length bs)"
proof -
  consider
      (p2pkh) "length script = 25" "take 3 script = [0x76, 0xA9, 0x14]" "drop 23 script = [0x88, 0xAC]"
        "bs = 0 # take 20 (drop 3 script)"
    | (p2sh) "length script = 23" "take 2 script = [0xA9, 0x14]" "script ! 22 = 0x87"
        "bs = 1 # take 20 (drop 2 script)"
    | (key) key where "script_public_key L script = Some key"
        "bs = (if hd key = 2 \<or> hd key = 3 then hd key # take 32 (drop 1 key)
               else (4 OR (key ! 64 AND 1)) # take 32 (drop 1 key))"
    | (raw) len where "checked_add (word_of_nat (length script)) special_script_count = Some len"
        "length script < 2 ^ 64" "bs = encode_vlq [] len @ script"
    using enc
    by (simp add: encode_script_def split: if_splits option.splits) (auto simp: res_simps)
  then show ?thesis
  proof cases
    case p2pkh
    then show ?thesis
      using decode_script_p2pkh [of "take 20 (drop 3 script)" L pre post] p2pkh_parts [OF p2pkh(1-3)]
      by simp
  next
    case p2sh
    then show ?thesis
      using decode_script_p2sh [of "take 20 (drop 2 script)" L pre post] p2sh_parts [OF p2sh(1-3)]
      by simp
  next
    case (key key)
    note k = script_public_key_Some [OF key(1)]
    show ?thesis
    proof (cases "hd key = 2 \<or> hd key = 3")
      case True
      with k have "length key = 33" "script = 0x21 # key @ [0xAC]" by auto
      moreover from this obtain x where "key = hd key # x" by (cases key) auto
      ultimately show ?thesis
        using decode_script_p2pk [of "tl key" "hd key" L pre post] True k key(2)
        by (cases key) auto
    next
      case False
      with k have u: "length key = 65" "hd key = 4" "script = 0x41 # key @ [0xAC]" by auto
      let ?t = "0x02 OR (key ! 64 AND 1) :: u8"
      have "public_key_from_slice L (?t # take 32 (drop 1 key))"
        "public_key_serialize_uncompressed L (?t # take 32 (drop 1 key)) = key"
        using L k u unfolding public_key_codec_def by blast+
      moreover have "?t = 2 \<or> ?t = 3" "4 OR (key ! 64 AND 1) = ?t + 2"
        using and_1_cases [of "key ! 64"] by auto
      ultimately show ?thesis
        using decode_script_p2pk_uncompressed [of "take 32 (drop 1 key)" ?t L pre post] False u key(2)
        by simp
    qed
  next
    case (raw len)
    then show ?thesis using decode_script_raw [OF raw(1,2), of L pre post] by simp
  qed
qed

lemma encode_vlq_target: "encode_vlq target v = target @ encode_vlq [] v"
  by (simp add: encode_vlq_def)

lemma header_code:
  fixes h :: u32
  assumes "code = ucast h * 2 + (if cb then 1 else 0 :: u64)"
  shows "unat code = 2 * unat h + (if cb then 1 else 0)" "unat (drop_bit 1 code) = unat h"
    "ucast (drop_bit 1 code) = h" "(code AND 1 \<noteq> 0) = cb"
proof -
  have h: "unat h < 2 ^ 32" using unsigned_less [of h, where ?'a = nat] by simp
  have uh: "unat (ucast h :: u64) = unat h" using h by (simp only: unsigned_ucast_eq) (simp add: take_bit_nat_eq_self)
  show code: "unat code = 2 * unat h + (if cb then 1 else 0)"
    using h uh by (auto simp: assms unat_word_ariths)
  show d: "unat (drop_bit 1 code) = unat h"
    by (simp only: unat_drop_bit_eq) (simp add: drop_bit_eq_div code)
  then have "drop_bit 1 code = ucast h" using uh by (simp add: word_unat_eq_iff)
  moreover have "ucast (ucast h :: u64) = h"
    by (rule bit_eqI) (simp add: bit_simps)
  ultimately show "ucast (drop_bit 1 code) = h" by simp
  have "odd code \<longleftrightarrow> odd (unat code)" by (simp add: bit_unsigned_iff flip: bit_0)
  then show "(code AND 1 \<noteq> 0) = cb"
    by (cases cb) (simp_all add: and_one_eq mod_2_eq_odd code)
qed

text \<open>
  C26. The compact coin format is a faithful code: for amounts up to the money supply, and given
  that the curve library recovers an uncompressed key from its compressed form, decoding an encoded
  coin gives back its value, height, coinbase flag and script, with the creation time the caller
  supplies.
\<close>

theorem decode_encode_compact:
  assumes "public_key_codec L" "unat (value_sats u) \<le> 2100000000000000"
    and enc: "encode_compact L u = Inr bs"
  shows "decode_compact_with_creation_mtp L bs mtp = Inr (u\<lparr>last_touched := 0, creation_mtp := mtp\<rparr>)"
proof -
  obtain code tail where code: "code = ucast (utxo_height u) * 2 + (if is_coinbase u then 1 else 0 :: u64)"
    and tail: "encode_script L [] (script_pubkey u) = Inr tail"
    and bs: "bs = encode_vlq [] code @ encode_vlq [] (compress_amount (value_sats u)) @ tail"
    using enc
    by (auto simp: encode_compact_def encode_compact_into_def res_simps checked_arith bind_eq_Some_conv
          encode_script_target [of L "_ @ _"] encode_vlq_target [of "encode_vlq _ _"])
  have a: "decode_vlq bs 0 f = Inr (code, length (encode_vlq [] code))" for f
    using decode_vlq_encode_vlq [of "[]" code "encode_vlq [] (compress_amount (value_sats u)) @ tail" f]
    by (simp add: bs)
  have b: "decode_vlq bs (length (encode_vlq [] code)) f = Inr (compress_amount (value_sats u),
      length (encode_vlq [] code) + length (encode_vlq [] (compress_amount (value_sats u))))" for f
    using decode_vlq_encode_vlq [of "encode_vlq [] code" "compress_amount (value_sats u)" tail f]
    by (simp add: bs)
  have c: "decode_script L bs (length (encode_vlq [] code) + length (encode_vlq [] (compress_amount (value_sats u))))
      = Inr (script_pubkey u, length bs)"
    using decode_script_encode_script [OF assms(1) tail,
        of "encode_vlq [] code @ encode_vlq [] (compress_amount (value_sats u))" "[]"]
    by (simp add: bs)
  have h: "unat (drop_bit 1 code) < 2 ^ 32"
    using header_code(2) [OF code] unsigned_less [of "utxo_height u", where ?'a = nat] by simp
  show ?thesis
    unfolding decode_compact_with_creation_mtp_def a b c
      decompress_compress_amount [OF assms(2)]
      bind_res_simps prod.case if_P [OF h] header_code(3,4) [OF code]
    by (simp add: b c decompress_compress_amount [OF assms(2)])
qed


section \<open>Undo records and re-tiering progress\<close>

lemma take_u32_at_append:
  "take_u32_at (pre @ u32_to_le w @ post) (length pre) field = Inr (w, length pre + 4)"
  using utxo_take_append [of pre "u32_to_le w" post field]
  by (simp add: take_u32_at_def)

lemma length_as_bytes_valid: "valid_key k \<Longrightarrow> length (as_bytes k) = 36"
  by (simp add: valid_key_def)

definition undo_wf :: "utxo_undo \<Rightarrow> bool" where
  "undo_wf undo \<longleftrightarrow> (\<forall>e \<in> set (undo_spent undo). valid_key (fst e))
     \<and> (\<forall>k \<in> set (undo_created undo). valid_key k)"

lemma undo_entry_encode_Inr:
  "undo_entry_encode e = Inr bs \<Longrightarrow>
     \<exists>enc. utxo_encode (snd e) = Inr enc \<and> length enc < 2 ^ 32
       \<and> bs = as_bytes (fst e) @ u32_to_le (word_of_nat (length enc)) @ enc"
  by (auto simp: undo_entry_encode_def res_simps checked_arith)

lemma undo_entry_encode_length:
  "undo_entry_encode e = Inr bs \<Longrightarrow> valid_key (fst e) \<Longrightarrow> 40 \<le> length bs"
  by (auto dest!: undo_entry_encode_Inr simp: valid_key_def)

lemma undo_decode_spent_entry:
  assumes e: "undo_entry_encode e = Inr bs" and k: "valid_key (fst e)"
  shows "undo_decode_spent (pre @ bs @ post) (Suc n) (length pre) =
     bind_res (undo_decode_spent (pre @ bs @ post) n (length pre + length bs))
       (\<lambda>(rest, cursor). Ok (e # rest, cursor))"
proof -
  from undo_entry_encode_Inr [OF e] obtain enc where enc: "utxo_encode (snd e) = Inr enc"
    and len: "length enc < 2 ^ 32"
    and bs: "bs = as_bytes (fst e) @ u32_to_le (word_of_nat (length enc)) @ enc" by blast
  let ?bs = "pre @ bs @ post"
  have kl: "length (as_bytes (fst e)) = 36" using k by (simp add: valid_key_def)
  have ul: "unat (word_of_nat (length enc) :: u32) = length enc"
    by (rule unat_word_of_nat_u32 [OF len])
  have a: "utxo_take ?bs (length pre) 36 f = Inr (as_bytes (fst e), length pre + 36)" for f
    by (rule utxo_take_appendI [where pre = pre]) (auto simp: bs kl)
  have b: "take_u32_at ?bs (length pre + 36) f = Inr (word_of_nat (length enc), length pre + 36 + 4)" for f
    using take_u32_at_append [of "pre @ as_bytes (fst e)" "word_of_nat (length enc)" "enc @ post" f]
    by (simp add: bs kl)
  have c: "utxo_take ?bs (length pre + 36 + 4) (length enc) f = Inr (enc, length pre + length bs)" for f
    using utxo_take_append [of "pre @ as_bytes (fst e) @ u32_to_le (word_of_nat (length enc))" enc post f]
    by (simp add: bs kl add.assoc)
  show ?thesis
    unfolding undo_decode_spent.simps a b bind_res_simps prod.case ul c
      key_from_bytes_as_bytes [OF k] utxo_decode_encode [OF enc]
    by simp
qed

lemma undo_decode_spent_encode:
  assumes "collect_res undo_entry_encode es = Inr bss" "\<forall>e \<in> set es. valid_key (fst e)"
  shows "undo_decode_spent (pre @ concat bss @ post) (length es) (length pre)
     = Inr (es, length pre + length (concat bss))"
  using assms
proof (induction es arbitrary: bss pre)
  case (Cons e es)
  from Cons.prems(1) obtain bs rest where bs: "undo_entry_encode e = Inr bs"
    and rest: "collect_res undo_entry_encode es = Inr rest" "bss = bs # rest"
    by (auto simp: res_simps)
  with Cons.IH [of rest "pre @ bs"] Cons.prems(2)
    undo_decode_spent_entry [OF bs, of pre "concat rest @ post" "length es"]
  show ?case by (simp add: add.assoc)
qed simp

lemma undo_decode_created_encode:
  assumes "\<forall>k \<in> set ks. valid_key k"
  shows "undo_decode_created (pre @ concat (map as_bytes ks) @ post) (length ks) (length pre)
     = Inr (ks, length pre + 36 * length ks)"
  using assms
proof (induction ks arbitrary: pre)
  case (Cons k ks)
  have kl: "length (as_bytes k) = 36" using Cons.prems by (simp add: valid_key_def)
  have "utxo_take (pre @ as_bytes k @ concat (map as_bytes ks) @ post) (length pre) 36 f
      = Inr (as_bytes k, length pre + 36)" for f
    by (rule utxo_take_appendI [where pre = pre]) (auto simp: kl)
  with Cons.IH [of "pre @ as_bytes k"] Cons.prems key_from_bytes_as_bytes [of k] kl
  show ?case by (simp add: add.commute)
qed simp

lemma length_concat_entries:
  "collect_res undo_entry_encode es = Inr bss \<Longrightarrow> \<forall>e \<in> set es. valid_key (fst e)
     \<Longrightarrow> 40 * length es \<le> length (concat bss)"
proof (induction es arbitrary: bss)
  case (Cons e es)
  then obtain bs rest where "undo_entry_encode e = Inr bs"
    "collect_res undo_entry_encode es = Inr rest" "bss = bs # rest"
    by (auto simp: res_simps)
  with Cons.IH [of rest] Cons.prems(2) undo_entry_encode_length [of e bs] show ?case by simp
qed simp

lemma length_concat_keys:
  "\<forall>k \<in> set ks. valid_key k \<Longrightarrow> length (concat (map as_bytes ks)) = 36 * length ks"
  by (induction ks) (auto simp: valid_key_def)

text \<open>An encoded undo record decodes to itself.\<close>

lemma undo_decode_encode:
  assumes "undo_wf undo" "undo_encode undo = Inr bs"
  shows "undo_decode bs = Inr undo"
proof -
  from assms(2) obtain bss where
    n: "length (undo_spent undo) < 2 ^ 32" "length (undo_created undo) < 2 ^ 32"
    and bss: "collect_res undo_entry_encode (undo_spent undo) = Inr bss"
    and bs: "bs = u32_to_le (word_of_nat (length (undo_spent undo))) @ concat bss
       @ u32_to_le (word_of_nat (length (undo_created undo))) @ concat (map as_bytes (undo_created undo))"
    by (auto simp: undo_encode_def res_simps checked_arith)
  let ?s = "word_of_nat (length (undo_spent undo)) :: u32"
  let ?c = "word_of_nat (length (undo_created undo)) :: u32"
  let ?cs = "concat (map as_bytes (undo_created undo))"
  from assms(1) have ks: "\<forall>e \<in> set (undo_spent undo). valid_key (fst e)"
    and kc: "\<forall>k \<in> set (undo_created undo). valid_key k"
    by (auto simp: undo_wf_def)
  have u: "unat ?s = length (undo_spent undo)" "unat ?c = length (undo_created undo)"
    using n by (simp_all only: unat_word_of_nat_u32)
  have len: "length bs = 4 + length (concat bss) + 4 + 36 * length (undo_created undo)"
    unfolding bs length_append length_concat_keys [OF kc] by simp
  have a: "take_u32_at bs 0 f = Inr (?s, 4)" for f
    using take_u32_at_append [of "[]" ?s "concat bss @ u32_to_le ?c @ ?cs" f] by (simp add: bs)
  have b: "undo_decode_spent bs (length (undo_spent undo)) 4
      = Inr (undo_spent undo, 4 + length (concat bss))"
    using undo_decode_spent_encode [OF bss ks, of "u32_to_le ?s" "u32_to_le ?c @ ?cs"]
    by (simp add: bs)
  have c: "take_u32_at bs (4 + length (concat bss)) f = Inr (?c, 4 + length (concat bss) + 4)" for f
    using take_u32_at_append [of "u32_to_le ?s @ concat bss" ?c ?cs f] by (simp add: bs)
  have d: "undo_decode_created bs (length (undo_created undo)) (4 + length (concat bss) + 4)
      = Inr (undo_created undo, length bs)"
    using undo_decode_created_encode [OF kc, of "u32_to_le ?s @ concat bss @ u32_to_le ?c" "[]"] len
    by (simp add: bs)
  have small: "\<not> length (undo_spent undo) > (length bs - 4) div 40"
    "\<not> length (undo_created undo) > (length bs - (4 + length (concat bss) + 4)) div 36"
    using length_concat_entries [OF bss ks] len by auto
  show ?thesis
    unfolding undo_decode_def a bind_res_simps prod.case u if_not_P [OF small(1)] b c if_not_P [OF small(2)] d
    by simp
qed

text \<open>So does a re-tiering progress record.\<close>

lemma retier_state_decode_encode:
  assumes "\<forall>k. rt_after r = Some k \<longrightarrow> valid_key k"
  shows "retier_state_decode (retier_state_encode r) = Inr r"
proof (cases "rt_after r")
  case None
  then show ?thesis
    by (cases r) (simp add: retier_state_decode_def retier_state_encode_def retier_progress_magic_def
        nth_append)
next
  case (Some k)
  with assms have "length (as_bytes k) = 36" "key_from_bytes (as_bytes k) = Inr k"
    by (simp_all add: valid_key_def key_from_bytes_as_bytes)
  with Some show ?thesis
    by (cases r) (simp add: retier_state_decode_def retier_state_encode_def retier_progress_magic_def
        nth_append)
qed

lemma sample_public_key_codec: "public_key_codec sample_lib"
proof -
  have "(0x02 OR ((0x04 # sample_point @ replicate 32 0) ! 64 AND 1)) # take 32 (drop 1 (0x04 # sample_point @ replicate 32 0))
      = (0x02 :: u8) # sample_point"
    by code_simp
  moreover have "length (0x02 # sample_point) \<noteq> 65" by code_simp
  ultimately show ?thesis unfolding public_key_codec_def sample_lib_def sample_lib_simps by metis
qed

theorem decode_encode_compact_witness:
  "\<exists>bs. encode_compact sample_lib
      \<lparr>value_sats = 1250000000, utxo_height = 7, is_coinbase = True, last_touched = 3, creation_mtp = 4,
       script_pubkey = [0x41, 0x04] @ sample_point @ replicate 32 0 @ [0xAC]\<rparr> = Inr bs
    \<and> length bs < 40
    \<and> decode_compact_with_creation_mtp sample_lib bs 99 = Inr
      \<lparr>value_sats = 1250000000, utxo_height = 7, is_coinbase = True, last_touched = 0, creation_mtp = 99,
       script_pubkey = [0x41, 0x04] @ sample_point @ replicate 32 0 @ [0xAC]\<rparr>"
proof -
  let ?u = "\<lparr>value_sats = 1250000000, utxo_height = 7, is_coinbase = True, last_touched = 3, creation_mtp = 4,
       script_pubkey = [0x41, 0x04] @ sample_point @ replicate 32 0 @ [0xAC]\<rparr>"
  have "encode_script sample_lib [] (script_pubkey ?u) = Inr (0x04 # sample_point)"
    by code_simp
  then have "encode_compact sample_lib ?u
      = Inr (encode_vlq (encode_vlq [] 15) (compress_amount 1250000000) @ 0x04 # sample_point)"
    unfolding encode_compact_def encode_compact_into_def
    by (simp add: encode_script_target [of sample_lib "encode_vlq _ _"] checked_mul_def checked_add_def)
  moreover have "length (encode_vlq (encode_vlq [] 15) (compress_amount 1250000000) @ 0x04 # sample_point) < 40"
    by code_simp
  ultimately obtain bs where "encode_compact sample_lib ?u = Inr bs" "length bs < 40" by blast
  with decode_encode_compact [OF sample_public_key_codec, of ?u bs 99] show ?thesis by simp
qed

end
