(* ===== verification/Utxo_Interface.thy ===== *)
theory Utxo_Interface
  imports Utxo_Codec
begin

text \<open>
  The contract of the trait \<open>UtxoStore\<close> of \<open>src/src/utxo.rs\<close>. A coin view is the
  abstract state every store promises to implement; \<open>coins_apply\<close> and
  \<open>coins_undo\<close> say what the two mutations mean on it, errors included. The record
  \<open>utxo_ops\<close> is the method table a generic \<open>S: UtxoStore\<close> stands for, and the
  locale \<open>utxo_store\<close> states the laws its clients rely on.
\<close>

section \<open>Coin views\<close>

type_synonym coins = "out_point_key \<Rightarrow> utxo option"
type_synonym coin_row = "out_point_key \<times> utxo"

text \<open>The spent coins in order, or the first error.\<close>

fun coins_spend ::
  "coins \<Rightarrow> out_point_key set \<Rightarrow> out_point_key list \<Rightarrow> utxo_error + coin_row list" where
  "coins_spend v seen [] = Ok []"
| "coins_spend v seen (k # ks) =
     (if k \<in> seen then Err (DuplicateSpend k)
      else bind_res (ok_or (v k) (Missing k)) (\<lambda>u.
           bind_res (coins_spend v (insert k seen) ks) (\<lambda>us. Ok ((k, u) # us))))"

text \<open>A created outpoint is new: not created twice, and absent unless the same mutation spends it.\<close>

fun coins_create ::
  "coins \<Rightarrow> out_point_key set \<Rightarrow> out_point_key set \<Rightarrow> coin_row list \<Rightarrow> utxo_error + unit" where
  "coins_create v spent seen [] = Ok ()"
| "coins_create v spent seen ((k, u) # rows) =
     (if k \<in> seen \<or> k \<notin> spent \<and> v k \<noteq> None then Err (Duplicate k)
      else coins_create v spent (insert k seen) rows)"

definition coins_after :: "coins \<Rightarrow> out_point_key list \<Rightarrow> coin_row list \<Rightarrow> coins" where
  "coins_after v spent created = (v |` (- set spent)) ++ map_of created"

definition coins_apply ::
  "coins \<Rightarrow> out_point_key list \<Rightarrow> coin_row list \<Rightarrow> utxo_error + (utxo_undo \<times> coins)" where
  "coins_apply v spent created =
     bind_res (coins_spend v {} spent) (\<lambda>undo_spent.
     bind_res (coins_create v (set spent) {} created) (\<lambda>_.
       Ok (\<lparr>undo_spent = undo_spent, undo_created = map fst created\<rparr>,
           coins_after v spent created)))"

definition coins_undo :: "coins \<Rightarrow> utxo_undo \<Rightarrow> coins" where
  "coins_undo v undo = (v |` (- set (undo_created undo))) ++ map_of (undo_spent undo)"

lemma coins_spend_cong:
  "(\<And>k. k \<notin> seen \<Longrightarrow> v k = v' k) \<Longrightarrow> coins_spend v seen ks = coins_spend v' seen ks"
proof (induction v seen ks rule: coins_spend.induct)
  case (2 v seen k ks)
  then show ?case by (cases "v' k") auto
qed simp

lemma coins_spend_Inr_iff:
  "coins_spend v seen ks = Inr us \<longleftrightarrow>
     distinct ks \<and> set ks \<inter> seen = {} \<and> map fst us = ks \<and> (\<forall>(k, u) \<in> set us. v k = Some u)"
proof (induction ks arbitrary: seen us)
  case (Cons k ks)
  show ?case
  proof (cases us)
    case Nil
    then show ?thesis by (auto simp: res_simps)
  next
    case (Cons r us')
    show ?thesis
      unfolding coins_spend.simps
      by (cases r) (auto simp: res_simps Cons.IH Cons \<open>us = r # us'\<close>)
  qed
qed auto

lemma coins_create_Inr_iff:
  "coins_create v spent seen rows = Inr () \<longleftrightarrow>
     distinct (map fst rows) \<and> fst ` set rows \<inter> seen = {}
     \<and> (\<forall>k \<in> fst ` set rows. k \<in> spent \<or> v k = None)"
  by (induction v spent seen rows rule: coins_create.induct) auto

lemma map_of_spent:
  "\<forall>(k, u) \<in> set us. v k = Some u \<Longrightarrow> map_of us k = (if k \<in> fst ` set us then v k else None)"
  by (induction us) auto

lemma coins_apply_Inr_iff:
  "coins_apply v spent created = Inr (undo, v') \<longleftrightarrow>
     distinct spent \<and> map fst (undo_spent undo) = spent
     \<and> (\<forall>(k, u) \<in> set (undo_spent undo). v k = Some u)
     \<and> undo_created undo = map fst created \<and> distinct (map fst created)
     \<and> (\<forall>k \<in> fst ` set created. k \<in> set spent \<or> v k = None)
     \<and> v' = coins_after v spent created"
  by (cases undo) (auto simp: coins_apply_def res_simps coins_spend_Inr_iff coins_create_Inr_iff)

text \<open>Undoing a successful mutation restores the view it started from.\<close>

lemma coins_undo_apply:
  assumes "coins_apply v spent created = Inr (undo, v')"
  shows "coins_undo v' undo = v"
proof
  fix k
  note a = assms [unfolded coins_apply_Inr_iff]
  then have m: "map_of (undo_spent undo) k = (if k \<in> set spent then v k else None)"
    using map_of_spent [of "undo_spent undo" v k] by auto
  have c: "map_of created k = None \<longleftrightarrow> k \<notin> set (undo_created undo)"
    using a by (simp add: map_of_eq_None_iff)
  show "coins_undo v' undo k = v k"
  proof (cases "k \<in> set spent")
    case True
    then have "k \<in> fst ` set (undo_spent undo)" using a by (metis image_set)
    with a obtain u where "v k = Some u" by auto
    with True m show ?thesis by (simp add: coins_undo_def map_add_def)
  next
    case False
    with m have n: "map_of (undo_spent undo) k = None" by simp
    show ?thesis
    proof (cases "k \<in> set (undo_created undo)")
      case True
      with False a have "v k = None" by auto
      with True n show ?thesis by (simp add: coins_undo_def map_add_def)
    next
      case no: False
      with c False a n show ?thesis
        by (simp add: coins_undo_def coins_after_def map_add_def)
    qed
  qed
qed

lemma coins_apply_spent_gone:
  assumes "coins_apply v spent created = Inr (undo, v')" "k \<in> set spent" "k \<notin> fst ` set created"
  shows "v' k = None"
proof -
  have "v' = coins_after v spent created" using assms(1) unfolding coins_apply_Inr_iff by blast
  moreover have "map_of created k = None" using assms(3) by (simp add: map_of_eq_None_iff)
  ultimately show ?thesis using assms(2) by (simp add: coins_after_def map_add_def)
qed

lemma coins_apply_undo_distinct:
  "coins_apply v spent created = Inr (undo, v') \<Longrightarrow> distinct (map fst (undo_spent undo))"
  unfolding coins_apply_Inr_iff by metis

text \<open>What can be stored: real outpoints and scripts whose length fits the record format.\<close>

definition row_ok :: "coin_row \<Rightarrow> bool" where
  "row_ok r \<longleftrightarrow> valid_key (fst r) \<and> length (script_pubkey (snd r)) < 2 ^ 32"

definition coins_ok :: "coins \<Rightarrow> bool" where
  "coins_ok v \<longleftrightarrow> (\<forall>k u. v k = Some u \<longrightarrow> row_ok (k, u))"

lemma coins_ok_after:
  "coins_ok v \<Longrightarrow> \<forall>r \<in> set created. row_ok r \<Longrightarrow> coins_ok (coins_after v spent created)"
  by (auto simp: coins_ok_def coins_after_def map_add_def restrict_map_def
      split: option.splits if_splits dest!: map_of_SomeD)

lemma row_ok_encode: "row_ok (k, u) \<Longrightarrow> \<exists>bs. utxo_encode u = Inr bs"
  by (auto simp: row_ok_def utxo_encode_def utxo_encode_into_def u32_try_from_def)


section \<open>The trait\<close>

record 'st utxo_ops =
  ops_get :: "out_point_key \<Rightarrow> ('st, utxo_error, utxo option) st"
  ops_apply_with_undo :: "out_point_key list \<Rightarrow> coin_row list \<Rightarrow> ('st, utxo_error, utxo_undo) st"
  ops_apply_with_undo_fresh_outputs ::
    "out_point_key list \<Rightarrow> coin_row list \<Rightarrow> ('st, utxo_error, utxo_undo) st"
  ops_apply_with_undo_fresh_outputs_from_prevouts ::
    "out_point_key list \<Rightarrow> utxo list \<Rightarrow> coin_row list \<Rightarrow> ('st, utxo_error, utxo_undo) st"
  ops_undo :: "utxo_undo \<Rightarrow> u64 \<Rightarrow> u64 \<Rightarrow> ('st, utxo_error, unit) st"

text \<open>The default \<open>get_many\<close>: one \<open>get\<close> per outpoint, in order.\<close>

fun ops_get_many ::
  "'st utxo_ops \<Rightarrow> out_point_key list \<Rightarrow> ('st, utxo_error, (out_point_key \<times> utxo option) list) st" where
  "ops_get_many ops [] = st_ret []"
| "ops_get_many ops (k # ks) =
     st_bind (ops_get ops k) (\<lambda>u. st_bind (ops_get_many ops ks) (\<lambda>rest. st_ret ((k, u) # rest)))"

definition ops_apply ::
  "'st utxo_ops \<Rightarrow> out_point_key list \<Rightarrow> coin_row list \<Rightarrow> ('st, utxo_error, unit) st" where
  "ops_apply ops spent created = st_bind (ops_apply_with_undo ops spent created) (\<lambda>_. st_ret ())"

text \<open>
  The laws. \<open>known s\<close> are the keys the store has already looked up: a caller of
  \<open>apply_with_undo_fresh_outputs_from_prevouts\<close> has read every spent coin before.
  The outcome of a mutation is that of \<open>coins_apply\<close> on the view, and a failed
  mutation leaves the view as it was. A reader promises only the first two laws: the
  views through which blocks are prepared refuse every mutation.
\<close>

definition implements ::
  "('st \<Rightarrow> bool) \<Rightarrow> ('st \<Rightarrow> coins) \<Rightarrow> ('st \<Rightarrow> out_point_key set) \<Rightarrow> 'st
     \<Rightarrow> utxo_error + (utxo_undo \<times> coins) \<Rightarrow> (utxo_error + utxo_undo) \<times> 'st \<Rightarrow> bool" where
  "implements sound view known s spec out \<longleftrightarrow>
     sound (snd out) \<and> known s \<subseteq> known (snd out)
     \<and> (case spec of
          Inl e \<Rightarrow> fst out = Inl e \<and> view (snd out) = view s
        | Inr (undo, v) \<Rightarrow> fst out = Inr undo \<and> view (snd out) = v)"

locale utxo_reader =
  fixes ops :: "'st utxo_ops"
    and sound :: "'st \<Rightarrow> bool"
    and view :: "'st \<Rightarrow> coins"
    and known :: "'st \<Rightarrow> out_point_key set"
  assumes view_ok: "sound s \<Longrightarrow> coins_ok (view s)"
    and get_law: "sound s \<Longrightarrow> \<exists>s'. ops_get ops k s = (Inr (view s k), s') \<and> sound s'
        \<and> view s' = view s \<and> insert k (known s) \<subseteq> known s'"

locale utxo_store = utxo_reader ops sound view known
  for ops :: "'st utxo_ops" and sound :: "'st \<Rightarrow> bool" and view :: "'st \<Rightarrow> coins"
    and known :: "'st \<Rightarrow> out_point_key set" +
  assumes apply_law: "sound s \<Longrightarrow> \<forall>r \<in> set created. row_ok r \<Longrightarrow>
        implements sound view known s (coins_apply (view s) spent created)
          (ops_apply_with_undo ops spent created s)"
    and fresh_law: "sound s \<Longrightarrow> \<forall>r \<in> set created. row_ok r \<Longrightarrow>
        \<forall>r \<in> set created. fst r \<in> set spent \<or> view s (fst r) = None \<Longrightarrow>
        implements sound view known s (coins_apply (view s) spent created)
          (ops_apply_with_undo_fresh_outputs ops spent created s)"
    and prevouts_law: "sound s \<Longrightarrow> \<forall>r \<in> set created. row_ok r \<Longrightarrow>
        \<forall>r \<in> set created. fst r \<in> set spent \<or> view s (fst r) = None \<Longrightarrow>
        set spent \<subseteq> known s \<Longrightarrow> map (view s) spent = map Some prevouts \<Longrightarrow>
        implements sound view known s (coins_apply (view s) spent created)
          (ops_apply_with_undo_fresh_outputs_from_prevouts ops spent prevouts created s)"
    and undo_law: "sound s \<Longrightarrow> \<forall>r \<in> set (undo_spent undo). row_ok r \<Longrightarrow>
        distinct (map fst (undo_spent undo)) \<Longrightarrow>
        \<forall>k \<in> fst ` set (undo_spent undo). view s k = None \<Longrightarrow>
        \<exists>s'. ops_undo ops undo now window s = (Inr (), s') \<and> sound s'
          \<and> view s' = coins_undo (view s) undo \<and> known s \<subseteq> known s'"

context utxo_reader
begin

lemma getE:
  assumes "sound s"
  obtains s' where "ops_get ops k s = (Inr (view s k), s')" "sound s'" "view s' = view s"
    "insert k (known s) \<subseteq> known s'"
  using get_law [OF assms] by blast

lemma get_many_ok:
  assumes "sound s"
  shows "\<exists>s'. ops_get_many ops ks s = (Inr (map (\<lambda>k. (k, view s k)) ks), s') \<and> sound s'
    \<and> view s' = view s \<and> set ks \<union> known s \<subseteq> known s'"
  using assms
proof (induction ks arbitrary: s)
  case (Cons k ks)
  obtain s1 where g: "ops_get ops k s = (Inr (view s k), s1)" "sound s1" "view s1 = view s"
    "insert k (known s) \<subseteq> known s1" using getE [OF Cons.prems] .
  from Cons.IH [OF g(2)] obtain s2 where
    "ops_get_many ops ks s1 = (Inr (map (\<lambda>k. (k, view s1 k)) ks), s2)" "sound s2" "view s2 = view s1"
    "set ks \<union> known s1 \<subseteq> known s2" by blast
  with g show ?case by (auto simp: st_bind_Inr)
qed simp

end

context utxo_store
begin

text \<open>A successful mutation followed by its undo gives back the same coins.\<close>

lemma apply_then_undo:
  assumes s: "sound s" and rows: "\<forall>r \<in> set created. row_ok r"
    and run: "ops_apply_with_undo ops spent created s = (Inr undo, s')"
    and fresh: "set spent \<inter> fst ` set created = {}"
  shows "\<exists>s''. ops_undo ops undo now window s' = (Inr (), s'') \<and> sound s'' \<and> view s'' = view s"
proof -
  from apply_law [OF s rows, of spent] run obtain v' where
    spec: "coins_apply (view s) spent created = Inr (undo, v')" and s': "sound s'" "view s' = v'"
    by (auto simp: implements_def split: sum.splits)
  have spent: "map fst (undo_spent undo) = spent" "\<forall>(k, u) \<in> set (undo_spent undo). view s k = Some u"
    using spec unfolding coins_apply_Inr_iff by blast+
  have ok: "\<forall>r \<in> set (undo_spent undo). row_ok r"
    using view_ok [OF s] spent(2) by (auto simp: coins_ok_def)
  have "\<forall>k \<in> fst ` set (undo_spent undo). view s' k = None"
  proof
    fix k assume "k \<in> fst ` set (undo_spent undo)"
    then have "k \<in> set spent" using spent(1) by (metis image_set)
    then show "view s' k = None"
      unfolding s'(2) using coins_apply_spent_gone [OF spec] fresh by blast
  qed
  from undo_law [OF s'(1) ok coins_apply_undo_distinct [OF spec] this, of now window]
  show ?thesis using coins_undo_apply [OF spec] s'(2) by auto
qed

end

end
