(* ===== verification/Utxo_Store.thy ===== *)
theory Utxo_Store
  imports Utxo_Interface
begin

text \<open>
  The durable UTXO store of \<open>src/src/utxo.rs\<close>: two physical tables of encoded
  records (hot and cold), the atomic mutations over them, their undo, the moves
  between the tiers, and the snapshot readers. A redb table is a finite map from
  byte strings to byte strings; a write transaction that returns an error is
  dropped, so the tables stay as they were. Storage failures of the database
  engine itself are not modelled.
\<close>

section \<open>Tables and transactions\<close>

type_synonym table = "(bytes, bytes) fmap"

record utxo_tables =
  hot :: table
  cold :: table
  retier_row :: "bytes option"

text \<open>
  A database file holds the tables that were created in it. Opening a table creates it empty if it is
  missing and keeps its rows otherwise. The progress table has a single row.
\<close>

record utxo_file =
  hot_table :: "table option"
  cold_table :: "table option"
  retier_progress_table :: "bytes option option"

definition new_file :: utxo_file where
  "new_file = \<lparr>hot_table = None, cold_table = None, retier_progress_table = None\<rparr>"

definition from_database :: "utxo_file \<Rightarrow> utxo_tables" where
  "from_database db =
     \<lparr>hot = (case hot_table db of None \<Rightarrow> fmempty | Some t \<Rightarrow> t),
      cold = (case cold_table db of None \<Rightarrow> fmempty | Some t \<Rightarrow> t),
      retier_row = (case retier_progress_table db of None \<Rightarrow> None | Some row \<Rightarrow> row)\<rparr>"

definition write_transaction :: "('s \<Rightarrow> 'e + ('a \<times> 's)) \<Rightarrow> ('s, 'e, 'a) st" where
  "write_transaction body s =
     (case body s of Inl e \<Rightarrow> (Inl e, s) | Inr (x, s') \<Rightarrow> (Inr x, s'))"

lemma write_transaction_Inr [res_simps]:
  "write_transaction f s = (Inr x, s') \<longleftrightarrow> f s = Inr (x, s')"
  by (auto simp: write_transaction_def split: sum.splits)

lemma write_transaction_Inl [res_simps]:
  "write_transaction f s = (Inl e, s') \<longleftrightarrow> f s = Inl e \<and> s' = s"
  by (auto simp: write_transaction_def split: sum.splits)

text \<open>The rows of a table in key order, as \<open>Table::iter\<close> yields them.\<close>

definition table_rows :: "table \<Rightarrow> (bytes \<times> bytes) list" where
  "table_rows t = map (\<lambda>k. (k, the (fmlookup t k))) (sorted_list_of_fset (fmdom t))"


section \<open>Reading\<close>

definition decode_row :: "bytes option \<Rightarrow> utxo_error + utxo option" where
  "decode_row row =
     (case row of None \<Rightarrow> Ok None | Some v \<Rightarrow> bind_res (utxo_decode v) (\<lambda>u. Ok (Some u)))"

definition store_get :: "utxo_tables \<Rightarrow> out_point_key \<Rightarrow> utxo_error + utxo option" where
  "store_get s k =
     (case fmlookup (hot s) (as_bytes k) of
        Some v \<Rightarrow> decode_row (Some v)
      | None \<Rightarrow> decode_row (fmlookup (cold s) (as_bytes k)))"

definition get_many_serial ::
  "utxo_tables \<Rightarrow> out_point_key list \<Rightarrow> utxo_error + (out_point_key \<times> utxo option) list" where
  "get_many_serial s outpoints =
     collect_res (\<lambda>k. bind_res (store_get s k) (\<lambda>u. Ok (k, u))) outpoints"

definition get_many_sorted_serial ::
  "utxo_tables \<Rightarrow> (out_point_key \<times> nat) list
     \<Rightarrow> utxo_error + (nat \<times> out_point_key \<times> utxo option) list" where
  "get_many_sorted_serial s outpoints =
     collect_res (\<lambda>(k, i). bind_res (store_get s k) (\<lambda>u. Ok (i, k, u))) outpoints"

definition min_parallel_prefetch_keys :: nat where
  "min_parallel_prefetch_keys = 4096"

definition div_ceil :: "nat \<Rightarrow> nat \<Rightarrow> nat" where
  "div_ceil n d = (n + d - 1) div d"

text \<open>
  \<open>get_many\<close> on a machine with the given parallelism: below two workers the
  serial reader, otherwise chunks of the sorted keys read by the workers, joined
  in chunk order and sorted back to the caller's order.
\<close>

definition get_many ::
  "nat \<Rightarrow> utxo_tables \<Rightarrow> out_point_key list
     \<Rightarrow> utxo_error + (out_point_key \<times> utxo option) list" where
  "get_many available_workers s outpoints =
     (let workers = min available_workers (div_ceil (length outpoints) min_parallel_prefetch_keys)
      in if workers \<le> 1 then get_many_serial s outpoints
         else let sorted = sort_key fst (zip outpoints [0..<length outpoints]);
                  chunk_size = div_ceil (length sorted) workers
              in bind_res (collect_res (get_many_sorted_serial s) (chunks chunk_size sorted))
                   (\<lambda>prefetched. Ok (map snd (sort_key fst (concat prefetched)))))"


section \<open>Mutations\<close>

fun spend_rows ::
  "bool \<Rightarrow> out_point_key set \<Rightarrow> out_point_key list \<Rightarrow> utxo_tables
     \<Rightarrow> utxo_error + ((out_point_key \<times> utxo) list \<times> utxo_tables)" where
  "spend_rows cold_is_empty seen [] s = Ok ([], s)"
| "spend_rows cold_is_empty seen (k # ks) s =
     (if k \<in> seen then Err (DuplicateSpend k)
      else
      bind_res
        (case fmlookup (hot s) (as_bytes k) of
           Some v \<Rightarrow>
             (if \<not> cold_is_empty \<and> fmlookup (cold s) (as_bytes k) \<noteq> None
              then Err (Malformed ''outpoint in both tiers'')
              else bind_res (utxo_decode v) (\<lambda>u. Ok (u, s\<lparr>hot := fmdrop (as_bytes k) (hot s)\<rparr>)))
         | None \<Rightarrow>
             (if cold_is_empty then Err (Missing k)
              else case fmlookup (cold s) (as_bytes k) of
                     None \<Rightarrow> Err (Missing k)
                   | Some v \<Rightarrow>
                       bind_res (utxo_decode v)
                         (\<lambda>u. Ok (u, s\<lparr>cold := fmdrop (as_bytes k) (cold s)\<rparr>))))
        (\<lambda>(previous, s).
           bind_res (spend_rows cold_is_empty (insert k seen) ks s)
             (\<lambda>(undo_spent, s). Ok ((k, previous) # undo_spent, s))))"

fun create_rows ::
  "bool \<Rightarrow> out_point_key set \<Rightarrow> out_point_key set \<Rightarrow> (out_point_key \<times> utxo) list \<Rightarrow> utxo_tables
     \<Rightarrow> utxo_error + utxo_tables" where
  "create_rows cold_is_empty seen_spent seen [] s = Ok s"
| "create_rows cold_is_empty seen_spent seen ((k, u) # rows) s =
     (if k \<in> seen then Err (Duplicate k)
      else if \<not> cold_is_empty \<and> fmlookup (cold s) (as_bytes k) \<noteq> None then Err (Duplicate k)
      else
      bind_res (utxo_encode u) (\<lambda>v.
        if fmlookup (hot s) (as_bytes k) \<noteq> None \<and> k \<notin> seen_spent then Err (Duplicate k)
        else create_rows cold_is_empty seen_spent (insert k seen) rows
               (s\<lparr>hot := fmupd (as_bytes k) v (hot s)\<rparr>)))"

definition apply_with_undo_transaction ::
  "out_point_key list \<Rightarrow> (out_point_key \<times> utxo) list \<Rightarrow> utxo_tables
     \<Rightarrow> utxo_error + (utxo_undo \<times> utxo_tables)" where
  "apply_with_undo_transaction spent created s =
     (let cold_is_empty = (fmdom (cold s) = {||})
      in bind_res (spend_rows cold_is_empty {} spent s) (\<lambda>(undo_spent, s).
         bind_res (create_rows cold_is_empty (set spent) {} created s) (\<lambda>s.
           Ok (\<lparr>undo_spent = undo_spent, undo_created = map fst created\<rparr>, s))))"

definition store_apply_with_undo ::
  "out_point_key list \<Rightarrow> (out_point_key \<times> utxo) list \<Rightarrow> (utxo_tables, utxo_error, utxo_undo) st" where
  "store_apply_with_undo spent created =
     write_transaction (apply_with_undo_transaction spent created)"

definition put_row :: "u64 \<Rightarrow> out_point_key \<Rightarrow> utxo \<Rightarrow> utxo_tables \<Rightarrow> utxo_error + utxo_tables" where
  "put_row cutoff k u s =
     bind_res (utxo_encode u) (\<lambda>v.
       Ok (if last_touched u < cutoff then s\<lparr>cold := fmupd (as_bytes k) v (cold s)\<rparr>
           else s\<lparr>hot := fmupd (as_bytes k) v (hot s)\<rparr>))"

definition drop_row :: "out_point_key \<Rightarrow> utxo_tables \<Rightarrow> utxo_tables" where
  "drop_row k s =
     s\<lparr>hot := fmdrop (as_bytes k) (hot s), cold := fmdrop (as_bytes k) (cold s)\<rparr>"

definition undo_transaction ::
  "utxo_undo \<Rightarrow> u64 \<Rightarrow> u64 \<Rightarrow> utxo_tables \<Rightarrow> utxo_error + (unit \<times> utxo_tables)" where
  "undo_transaction undo now hot_window_secs s =
     (let cutoff = saturating_sub now hot_window_secs; recreated = set (undo_created undo)
      in bind_res
           (try_fold (\<lambda>_ (k, _).
              if k \<notin> recreated
                 \<and> (fmlookup (hot s) (as_bytes k) \<noteq> None \<or> fmlookup (cold s) (as_bytes k) \<noteq> None)
              then Err (Duplicate k) else Ok ()) () (undo_spent undo))
           (\<lambda>_. bind_res
              (try_fold (\<lambda>s (k, u). put_row cutoff k u s)
                 (fold drop_row (undo_created undo) s) (undo_spent undo))
              (\<lambda>s. Ok ((), s))))"

definition store_undo ::
  "utxo_undo \<Rightarrow> u64 \<Rightarrow> u64 \<Rightarrow> (utxo_tables, utxo_error, unit) st" where
  "store_undo undo now hot_window_secs = write_transaction (undo_transaction undo now hot_window_secs)"


section \<open>Ageing\<close>

definition aged_keys :: "u64 \<Rightarrow> table \<Rightarrow> utxo_error + bytes list" where
  "aged_keys cutoff t =
     bind_res (collect_res (\<lambda>(k, v). bind_res (utxo_decode v)
                 (\<lambda>u. Ok (if last_touched u < cutoff then [k] else []))) (table_rows t))
       (\<lambda>keys. Ok (concat keys))"

definition move_to_cold :: "bytes \<Rightarrow> u64 \<times> utxo_tables \<Rightarrow> u64 \<times> utxo_tables" where
  "move_to_cold k = (\<lambda>(moved, s).
     case fmlookup (hot s) k of
       None \<Rightarrow> (moved, s)
     | Some v \<Rightarrow> (moved + 1, s\<lparr>hot := fmdrop k (hot s), cold := fmupd k v (cold s)\<rparr>))"

definition age_to_cold :: "u64 \<Rightarrow> u64 \<Rightarrow> (utxo_tables, utxo_error, u64) st" where
  "age_to_cold now hot_window_secs =
     write_transaction (\<lambda>s.
       bind_res (aged_keys (saturating_sub now hot_window_secs) (hot s))
         (\<lambda>keys. Ok (fold move_to_cold keys (0, s))))"


section \<open>Snapshots\<close>

definition insert_entry ::
  "(out_point_key, utxo) fmap \<Rightarrow> bytes \<times> bytes \<Rightarrow> utxo_error + (out_point_key, utxo) fmap" where
  "insert_entry entries = (\<lambda>(k, v).
     bind_res (key_from_bytes k) (\<lambda>key.
     bind_res (utxo_decode v) (\<lambda>u.
       if fmlookup entries key \<noteq> None then Err (Malformed ''outpoint in both tiers'')
       else Ok (fmupd key u entries))))"

definition snapshot_entries :: "utxo_tables \<Rightarrow> utxo_error + (out_point_key, utxo) fmap" where
  "snapshot_entries s = try_fold insert_entry fmempty (table_rows (hot s) @ table_rows (cold s))"

text \<open>The rows of a key range: from \<open>start\<close> on, and below \<open>bound\<close> where there is one.\<close>

definition range_rows :: "bytes \<Rightarrow> bytes option \<Rightarrow> table \<Rightarrow> (bytes \<times> bytes) list" where
  "range_rows start bound t =
     filter (\<lambda>(k, _). start \<le> k \<and> (case bound of None \<Rightarrow> True | Some e \<Rightarrow> k < e)) (table_rows t)"

definition shard_bounds :: "u8 \<Rightarrow> nat \<Rightarrow> bytes \<times> bytes option" where
  "shard_bounds shard shard_count =
     (let start_prefix = (if shard_count = 16 then push_bit 4 shard else shard);
          next_prefix = (if shard_count = 16
                         then if shard \<noteq> 15 then Some (push_bit 4 (shard + 1)) else None
                         else if shard \<noteq> 255 then Some (shard + 1) else None)
      in (start_prefix # replicate 35 0,
          map_option (\<lambda>p. p # replicate 35 0) next_prefix))"

definition fmap_entries :: "('a::linorder, 'b) fmap \<Rightarrow> ('a \<times> 'b) list" where
  "fmap_entries m = map (\<lambda>k. (k, the (fmlookup m k))) (sorted_list_of_fset (fmdom m))"

definition snapshot_shard_entries ::
  "utxo_tables \<Rightarrow> u8 \<Rightarrow> nat \<Rightarrow> utxo_error + (out_point_key \<times> utxo) list" where
  "snapshot_shard_entries s shard shard_count =
     (if \<not> (shard_count = 16 \<or> shard_count = 256) \<or> shard_count \<le> unat shard
      then Err (Malformed ''invalid UTXO snapshot shard'')
      else
      let (start, bound) = shard_bounds shard shard_count
      in bind_res (try_fold insert_entry fmempty
                     (range_rows start bound (hot s) @ range_rows start bound (cold s)))
           (\<lambda>entries. Ok (fmap_entries entries)))"

text \<open>
  Both page readers merge the two tables' iterators. \<open>next_row\<close> skips the rows
  up to the exclusive cursor; \<open>merge_page\<close> is the loop, with what it does with
  a chosen row as the argument \<open>push\<close>.
\<close>

type_synonym row = "bytes \<times> bytes"

definition iter_rows :: "out_point_key option \<Rightarrow> table \<Rightarrow> row list" where
  "iter_rows after t =
     (case after of None \<Rightarrow> table_rows t | Some k \<Rightarrow> range_rows (as_bytes k) None t)"

definition next_row :: "out_point_key option \<Rightarrow> row list \<Rightarrow> row option \<times> row list" where
  "next_row after rows =
     (case dropWhile (\<lambda>(k, _). \<not> (case after of None \<Rightarrow> True | Some a \<Rightarrow> as_bytes a < k)) rows of
        [] \<Rightarrow> (None, [])
      | r # rs \<Rightarrow> (Some r, rs))"

fun merge_page ::
  "(row \<Rightarrow> bool \<Rightarrow> utxo_error + 'a) \<Rightarrow> out_point_key option \<Rightarrow> nat
     \<Rightarrow> row option \<times> row list \<Rightarrow> row option \<times> row list \<Rightarrow> utxo_error + 'a list" where
  "merge_page push after 0 hs cs = Ok []"
| "merge_page push after (Suc n) (None, hs) (None, cs) = Ok []"
| "merge_page push after (Suc n) (Some h, hs) (None, cs) =
     bind_res (push h True) (\<lambda>x.
     bind_res (merge_page push after n (next_row after hs) (None, cs)) (\<lambda>xs. Ok (x # xs)))"
| "merge_page push after (Suc n) (None, hs) (Some c, cs) =
     bind_res (push c False) (\<lambda>x.
     bind_res (merge_page push after n (None, hs) (next_row after cs)) (\<lambda>xs. Ok (x # xs)))"
| "merge_page push after (Suc n) (Some h, hs) (Some c, cs) =
     (if fst h < fst c then
        bind_res (push h True) (\<lambda>x.
        bind_res (merge_page push after n (next_row after hs) (Some c, cs)) (\<lambda>xs. Ok (x # xs)))
      else if fst c < fst h then
        bind_res (push c False) (\<lambda>x.
        bind_res (merge_page push after n (Some h, hs) (next_row after cs)) (\<lambda>xs. Ok (x # xs)))
      else Err (Malformed ''outpoint in both tiers''))"

definition snapshot_page ::
  "utxo_tables \<Rightarrow> out_point_key option \<Rightarrow> nat \<Rightarrow> utxo_error + (out_point_key \<times> utxo) list" where
  "snapshot_page s after limit =
     (if limit = 0 then Ok []
      else merge_page
             (\<lambda>(k, v) _. bind_res (key_from_bytes k) (\<lambda>key. bind_res (utxo_decode v) (\<lambda>u. Ok (key, u))))
             after limit
             (next_row after (iter_rows after (hot s))) (next_row after (iter_rows after (cold s))))"


section \<open>Re-tiering by height\<close>

definition retier_row_step ::
  "u32 \<Rightarrow> u32 \<Rightarrow> height_retier_state \<times> utxo_tables \<Rightarrow> row \<times> bool
     \<Rightarrow> utxo_error + (height_retier_state \<times> utxo_tables)" where
  "retier_row_step tip_height hot_window_blocks = (\<lambda>(state, s) ((key, encoded), is_hot).
     bind_res (utxo_decode encoded) (\<lambda>u.
     bind_res (ok_or (checked_sub tip_height (utxo_height u))
                (Malformed ''UTXO creation height exceeds re-tier tip'')) (\<lambda>age.
       let should_be_hot = (age \<le> hot_window_blocks)
       in if is_hot \<and> \<not> should_be_hot then
            (if fmlookup (cold s) key \<noteq> None then Err (Malformed ''outpoint in both tiers'')
             else bind_res (ok_or (checked_add (rt_moved_to_cold state) 1)
                              (Malformed ''height re-tier cold count overflow''))
                    (\<lambda>n. Ok (state\<lparr>rt_moved_to_cold := n\<rparr>,
                             s\<lparr>hot := fmdrop key (hot s), cold := fmupd key encoded (cold s)\<rparr>)))
          else if \<not> is_hot \<and> should_be_hot then
            (if fmlookup (hot s) key \<noteq> None then Err (Malformed ''outpoint in both tiers'')
             else bind_res (ok_or (checked_add (rt_moved_to_hot state) 1)
                              (Malformed ''height re-tier hot count overflow''))
                    (\<lambda>n. Ok (state\<lparr>rt_moved_to_hot := n\<rparr>,
                             s\<lparr>cold := fmdrop key (cold s), hot := fmupd key encoded (hot s)\<rparr>)))
          else Ok (state, s))))"

definition retier_load :: "u32 \<Rightarrow> u32 \<Rightarrow> utxo_tables \<Rightarrow> utxo_error + height_retier_state" where
  "retier_load tip_height hot_window_blocks s =
     (case retier_row s of
        None \<Rightarrow> Ok (retier_state_new tip_height hot_window_blocks)
      | Some encoded \<Rightarrow>
          bind_res (retier_state_decode encoded) (\<lambda>state.
            Ok (if rt_tip_height state = tip_height \<and> rt_hot_window_blocks state = hot_window_blocks
                then state else retier_state_new tip_height hot_window_blocks)))"

definition retier_page :: "out_point_key option \<Rightarrow> nat \<Rightarrow> utxo_tables \<Rightarrow> utxo_error + (row \<times> bool) list" where
  "retier_page after scan_limit s =
     merge_page (\<lambda>r is_hot. Ok (r, is_hot)) after scan_limit
       (next_row after (iter_rows after (hot s))) (next_row after (iter_rows after (cold s)))"

definition retier_finish ::
  "nat \<Rightarrow> (row \<times> bool) list \<Rightarrow> height_retier_state \<times> utxo_tables
     \<Rightarrow> utxo_error + (height_retier_progress \<times> utxo_tables)" where
  "retier_finish scan_limit page = (\<lambda>(state, s).
     bind_res (ok_or (checked_add (rt_scanned state) (word_of_nat (length page)))
                (Malformed ''height re-tier scan count overflow'')) (\<lambda>scanned.
     bind_res (key_from_bytes (fst (fst (last page)))) (\<lambda>after.
       let state = state\<lparr>rt_scanned := scanned, rt_after := Some after\<rparr>;
           complete = (length page < scan_limit)
       in Ok (retier_state_progress state complete,
              s\<lparr>retier_row := (if complete then None else Some (retier_state_encode state))\<rparr>))))"

definition retier_by_height_batch ::
  "u32 \<Rightarrow> u32 \<Rightarrow> nat \<Rightarrow> (utxo_tables, utxo_error, height_retier_progress) st" where
  "retier_by_height_batch tip_height hot_window_blocks scan_limit =
     (if scan_limit = 0 then st_err (Malformed ''height re-tier scan limit'')
      else write_transaction (\<lambda>s.
        bind_res (retier_load tip_height hot_window_blocks s) (\<lambda>state.
        bind_res (retier_page (rt_after state) scan_limit s) (\<lambda>page.
          if page = [] then Ok (retier_state_progress state True, s\<lparr>retier_row := None\<rparr>)
          else bind_res (try_fold (retier_row_step tip_height hot_window_blocks) (state, s) page)
                 (retier_finish scan_limit page)))))"


section \<open>Replacing and loading the set\<close>

definition tables_empty_transaction :: "utxo_tables \<Rightarrow> bool" where
  "tables_empty_transaction s \<longleftrightarrow> fmdom (hot s) = {||} \<and> fmdom (cold s) = {||}"

definition replace_all_transaction ::
  "(out_point_key, utxo) fmap \<Rightarrow> u64 \<Rightarrow> u64 \<Rightarrow> utxo_tables \<Rightarrow> utxo_error + (unit \<times> utxo_tables)" where
  "replace_all_transaction entries now hot_window_secs s =
     bind_res
       (try_fold (\<lambda>s (k, u). put_row (saturating_sub now hot_window_secs) k u s)
          (s\<lparr>hot := fmempty, cold := fmempty\<rparr>) (fmap_entries entries))
       (\<lambda>s. Ok ((), s))"

definition replace_all ::
  "(out_point_key, utxo) fmap \<Rightarrow> u64 \<Rightarrow> u64 \<Rightarrow> (utxo_tables, utxo_error, unit) st" where
  "replace_all entries now hot_window_secs =
     write_transaction (replace_all_transaction entries now hot_window_secs)"

record tier_stats =
  stats_hot :: nat
  stats_cold :: nat

definition store_tier_stats :: "utxo_tables \<Rightarrow> tier_stats" where
  "store_tier_stats s = \<lparr>stats_hot = fcard (fmdom (hot s)), stats_cold = fcard (fmdom (cold s))\<rparr>"

text \<open>The bytes \<open>update_utxo_set_digest\<close> feeds to the running hash for one record.\<close>

definition utxo_set_digest_bytes :: "bytes \<Rightarrow> utxo \<Rightarrow> bytes" where
  "utxo_set_digest_bytes k u =
     k @ u64_to_le (value_sats u) @ u32_to_le (utxo_height u) @ [if is_coinbase u then 1 else 0]
     @ u32_to_le (creation_mtp u) @ u32_to_le (word_of_nat (length (script_pubkey u)))
     @ script_pubkey u"

text \<open>
  The streaming loader: \<open>records\<close> and \<open>utxo_set\<close> are what the two running SHA-256
  states have absorbed.
\<close>

record snapshot_load =
  ld_previous :: "out_point_key option"
  ld_count :: u64
  ld_records_bytes :: u64
  ld_records :: bytes
  ld_utxo_set :: bytes
  ld_tables :: utxo_tables

definition load_snapshot_entry ::
  "u64 \<Rightarrow> u64 \<Rightarrow> u64 \<Rightarrow> snapshot_load \<Rightarrow> utxo_error + (out_point_key \<times> utxo)
     \<Rightarrow> utxo_error + snapshot_load" where
  "load_snapshot_entry expected_count expected_records_bytes cutoff ld entry =
     bind_res entry (\<lambda>(k, u).
       if (case ld_previous ld of None \<Rightarrow> False | Some p \<Rightarrow> k \<le> p)
       then Err (Malformed ''snapshot outpoints are not strictly ordered'')
       else
       bind_res (utxo_encode u) (\<lambda>encoded.
       bind_res (put_row cutoff k u (ld_tables ld)) (\<lambda>s.
       bind_res (ok_or (checked_add (ld_count ld) 1)
                  (Malformed ''snapshot UTXO count overflow'')) (\<lambda>count.
       bind_res (ok_or (checked_add (ld_records_bytes ld) (word_of_nat (36 + length encoded)))
                  (Malformed ''snapshot records length overflow'')) (\<lambda>records_bytes.
         if expected_count < count then Err (Malformed ''snapshot exceeds authenticated UTXO count'')
         else if expected_records_bytes < records_bytes
         then Err (Malformed ''snapshot exceeds authenticated records length'')
         else Ok \<lparr>ld_previous = Some k, ld_count = count, ld_records_bytes = records_bytes,
                  ld_records = ld_records ld @ as_bytes k @ encoded,
                  ld_utxo_set = ld_utxo_set ld @ utxo_set_digest_bytes (as_bytes k) u,
                  ld_tables = s\<rparr>)))))"

definition insert_snapshot_entries_transaction ::
  "(bytes \<Rightarrow> bytes) \<Rightarrow> (utxo_error + (out_point_key \<times> utxo)) list \<Rightarrow> u64 \<Rightarrow> u64 \<Rightarrow> u64 \<Rightarrow> u64
     \<Rightarrow> utxo_tables \<Rightarrow> utxo_error + ((u64 \<times> u64 \<times> bytes \<times> bytes) \<times> utxo_tables)" where
  "insert_snapshot_entries_transaction sha256 entries expected_count expected_records_bytes
       now hot_window_secs s =
     bind_res
       (try_fold (load_snapshot_entry expected_count expected_records_bytes
                    (saturating_sub now hot_window_secs))
          \<lparr>ld_previous = None, ld_count = 0, ld_records_bytes = 0, ld_records = [],
           ld_utxo_set = [], ld_tables = s\<rparr> entries)
       (\<lambda>ld. Ok ((ld_count ld, ld_records_bytes ld, sha256 (ld_records ld), sha256 (ld_utxo_set ld)),
                 ld_tables ld))"


section \<open>Committing a validated net transition\<close>

definition remove_validated ::
  "bool \<Rightarrow> out_point_key \<Rightarrow> utxo_tables \<Rightarrow> utxo_error + utxo_tables" where
  "remove_validated cold_is_empty k s =
     (if fmlookup (hot s) (as_bytes k) \<noteq> None then
        (if \<not> cold_is_empty \<and> fmlookup (cold s) (as_bytes k) \<noteq> None
         then Err (Malformed ''outpoint in both tiers'')
         else Ok (s\<lparr>hot := fmdrop (as_bytes k) (hot s)\<rparr>))
      else if cold_is_empty \<or> fmlookup (cold s) (as_bytes k) = None then Err (Missing k)
      else Ok (s\<lparr>cold := fmdrop (as_bytes k) (cold s)\<rparr>))"

definition insert_validated ::
  "bool \<Rightarrow> out_point_key \<Rightarrow> utxo \<Rightarrow> bool \<Rightarrow> utxo_tables \<Rightarrow> utxo_error + utxo_tables" where
  "insert_validated cold_is_empty k u replaces_spent s =
     (if \<not> cold_is_empty \<and> fmlookup (cold s) (as_bytes k) \<noteq> None then Err (Duplicate k)
      else
      bind_res (utxo_encode u) (\<lambda>v.
        if fmlookup (hot s) (as_bytes k) \<noteq> None \<and> \<not> replaces_spent then Err (Duplicate k)
        else Ok (s\<lparr>hot := fmupd (as_bytes k) v (hot s)\<rparr>)))"

fun merge_validated ::
  "bool \<Rightarrow> out_point_key list \<Rightarrow> (out_point_key \<times> utxo) list \<Rightarrow> utxo_tables
     \<Rightarrow> utxo_error + utxo_tables" where
  "merge_validated ce [] [] s = Ok s"
| "merge_validated ce (k # ks) [] s =
     bind_res (remove_validated ce k s) (merge_validated ce ks [])"
| "merge_validated ce [] ((c, u) # cs) s =
     bind_res (insert_validated ce c u False s) (merge_validated ce [] cs)"
| "merge_validated ce (k # ks) ((c, u) # cs) s =
     (if k < c then bind_res (remove_validated ce k s) (merge_validated ce ks ((c, u) # cs))
      else if k = c then
        bind_res (remove_validated ce k s) (\<lambda>s.
        bind_res (insert_validated ce c u True s) (merge_validated ce ks cs))
      else bind_res (insert_validated ce c u False s) (merge_validated ce (k # ks) cs))"

definition apply_validated_changes_transaction ::
  "out_point_key list \<Rightarrow> (out_point_key \<times> utxo) list \<Rightarrow> utxo_tables \<Rightarrow> utxo_error + utxo_tables" where
  "apply_validated_changes_transaction spent created s =
     merge_validated (fmdom (cold s) = {||}) spent created s"

end
