(* ===== verification/Utxo_Store_Refine.thy ===== *)
theory Utxo_Store_Refine
  imports Utxo_Store
begin

text \<open>
  The two-tier store implements the coin view. \<open>store_inv\<close> says that an outpoint
  lies in at most one tier and that every row decodes; \<open>store_view\<close> is what a
  lookup finds. Every mutation refines its abstract counterpart and keeps the
  invariant, the moves between the tiers are invisible in the view, and the
  snapshot readers return exactly the view.
\<close>

section \<open>What the tables hold\<close>

definition tier_lookup :: "utxo_tables \<Rightarrow> bytes \<Rightarrow> bytes option" where
  "tier_lookup s k = (case fmlookup (hot s) k of Some v \<Rightarrow> Some v | None \<Rightarrow> fmlookup (cold s) k)"

definition decoded :: "bytes option \<Rightarrow> utxo option" where
  "decoded row = (case row of None \<Rightarrow> None
     | Some v \<Rightarrow> (case utxo_decode v of Inl _ \<Rightarrow> None | Inr u \<Rightarrow> Some u))"

definition store_view :: "utxo_tables \<Rightarrow> coins" where
  "store_view s k = decoded (tier_lookup s (as_bytes k))"

definition store_inv :: "utxo_tables \<Rightarrow> bool" where
  "store_inv s \<longleftrightarrow>
     (\<forall>k. fmlookup (hot s) k = None \<or> fmlookup (cold s) k = None)
     \<and> (\<forall>k v. tier_lookup s k = Some v \<longrightarrow> length k = 36 \<and> (\<exists>u. utxo_decode v = Inr u))"

lemma store_inv_disjoint:
  "store_inv s \<Longrightarrow> fmlookup (hot s) k = Some v \<Longrightarrow> fmlookup (cold s) k = None"
  unfolding store_inv_def by (metis option.distinct(1))

lemma store_inv_decode:
  "store_inv s \<Longrightarrow> tier_lookup s k = Some v \<Longrightarrow> length k = 36 \<and> (\<exists>u. utxo_decode v = Inr u)"
  by (simp add: store_inv_def)

lemma tier_lookup_simps [simp]:
  "fmlookup (hot s) k = Some v \<Longrightarrow> tier_lookup s k = Some v"
  "fmlookup (hot s) k = None \<Longrightarrow> tier_lookup s k = fmlookup (cold s) k"
  by (simp_all add: tier_lookup_def)

lemma decoded_simps [simp]:
  "decoded None = None"
  "utxo_decode v = Inr u \<Longrightarrow> decoded (Some v) = Some u"
  by (simp_all add: decoded_def)

lemma store_view_None:
  "store_inv s \<Longrightarrow> store_view s k = None \<longleftrightarrow> tier_lookup s (as_bytes k) = None"
  using store_inv_decode [of s "as_bytes k"]
  by (cases "tier_lookup s (as_bytes k)") (auto simp: store_view_def)

lemma store_view_None_rows:
  "store_inv s \<Longrightarrow> store_view s k = None \<longleftrightarrow>
     fmlookup (hot s) (as_bytes k) = None \<and> fmlookup (cold s) (as_bytes k) = None"
  by (auto simp: store_view_None tier_lookup_def split: option.splits)

lemma as_bytes_inject [simp]: "as_bytes k = as_bytes k' \<longleftrightarrow> k = k'"
  by (cases k; cases k') simp

lemma store_inv_empty: "store_inv (from_database new_file)" "store_view (from_database new_file) = (\<lambda>_. None)"
  by (auto simp: store_inv_def from_database_def new_file_def tier_lookup_def store_view_def)

lemma decoded_row_ok:
  assumes "utxo_decode v = Inr u"
  shows "length (script_pubkey u) < 2 ^ 32"
proof -
  have "length (script_pubkey u) = unat (u32_from_le (take 4 (drop 25 v)))"
    unfolding utxo_decode_Inr_fields(4) [OF assms] length_drop
    using utxo_decode_Inr_fields(3) [OF assms] by linarith
  also have "\<dots> < 2 ^ 32"
    using unsigned_less [of "u32_from_le (take 4 (drop 25 v))", where ?'a = nat] by simp
  finally show ?thesis .
qed

lemma store_view_SomeD:
  "store_view s k = Some u \<Longrightarrow> \<exists>v. tier_lookup s (as_bytes k) = Some v \<and> utxo_decode v = Inr u"
  by (auto simp: store_view_def decoded_def split: option.splits sum.splits)

lemma store_coins_ok: "store_inv s \<Longrightarrow> coins_ok (store_view s)"
  by (auto simp: coins_ok_def row_ok_def valid_key_def
      dest!: store_view_SomeD dest: store_inv_decode decoded_row_ok)

lemma finite_store_view: "finite (dom (store_view s))"
proof -
  have "dom (store_view s) \<subseteq> OutPointKey ` (fset (fmdom (hot s)) \<union> fset (fmdom (cold s)))"
  proof
    fix k assume "k \<in> dom (store_view s)"
    then have "as_bytes k \<in> fset (fmdom (hot s)) \<union> fset (fmdom (cold s))"
      by (auto simp: store_view_def decoded_def tier_lookup_def fmlookup_dom_iff split: option.splits)
    then show "k \<in> OutPointKey ` (fset (fmdom (hot s)) \<union> fset (fmdom (cold s)))"
      by (metis image_eqI out_point_key.exhaust_sel)
  qed
  then show ?thesis by (rule finite_subset) simp
qed

lemma drop_row_lookup:
  "tier_lookup (drop_row k s) b = (if b = as_bytes k then None else tier_lookup s b)"
  by (auto simp: drop_row_def tier_lookup_def split: option.splits)

lemma store_inv_drop_row: "store_inv s \<Longrightarrow> store_inv (drop_row k s)"
  by (auto simp: store_inv_def drop_row_lookup) (auto simp: drop_row_def)

lemma store_view_drop_row: "store_view (drop_row k s) = (store_view s)(k := None)"
  by (auto simp: store_view_def drop_row_lookup fun_eq_iff)

lemma fold_drop_row:
  "store_inv s \<Longrightarrow> store_inv (fold drop_row ks s)
     \<and> store_view (fold drop_row ks s) = store_view s |` (- set ks)"
proof (induction ks arbitrary: s)
  case (Cons k ks)
  have "(store_view s)(k := None) |` (- set ks) = store_view s |` (- set (k # ks))"
    by (auto simp: restrict_map_def fun_eq_iff)
  with Cons.IH [OF store_inv_drop_row [OF Cons.prems, of k]] show ?case
    by (simp only: store_view_drop_row fold_Cons o_apply)
qed (simp add: restrict_map_def)

lemma fold_drop_row_frame:
  "retier_row (fold drop_row ks s) = retier_row s"
  "fmdom (cold s) = {||} \<Longrightarrow> fmdom (cold (fold drop_row ks s)) = {||}"
  by (induction ks arbitrary: s) (auto simp: drop_row_def)

text \<open>Writing one row into either tier, once the outpoint is in neither.\<close>

lemma put_rows:
  assumes s: "store_inv s" and absent: "store_view s k = None"
    and u: "valid_key k" "utxo_encode u = Inr v"
  shows "store_inv (s\<lparr>hot := fmupd (as_bytes k) v (hot s)\<rparr>)"
    "store_view (s\<lparr>hot := fmupd (as_bytes k) v (hot s)\<rparr>) = (store_view s)(k \<mapsto> u)"
    "store_inv (s\<lparr>cold := fmupd (as_bytes k) v (cold s)\<rparr>)"
    "store_view (s\<lparr>cold := fmupd (as_bytes k) v (cold s)\<rparr>) = (store_view s)(k \<mapsto> u)"
proof -
  have n: "fmlookup (hot s) (as_bytes k) = None" "fmlookup (cold s) (as_bytes k) = None"
    using absent store_view_None_rows [OF s] by auto
  have d: "utxo_decode v = Inr u" by (rule utxo_decode_encode [OF u(2)])
  have h: "tier_lookup (s\<lparr>hot := fmupd (as_bytes k) v (hot s)\<rparr>) b =
      (if b = as_bytes k then Some v else tier_lookup s b)" for b
    by (auto simp: tier_lookup_def split: option.splits)
  have c: "tier_lookup (s\<lparr>cold := fmupd (as_bytes k) v (cold s)\<rparr>) b =
      (if b = as_bytes k then Some v else tier_lookup s b)" for b
    using n by (auto simp: tier_lookup_def split: option.splits)
  have dis: "fmlookup (hot s) b = None \<or> fmlookup (cold s) b = None" for b
    using s by (auto simp: store_inv_def)
  show "store_inv (s\<lparr>hot := fmupd (as_bytes k) v (hot s)\<rparr>)"
    using s n d u(1) dis unfolding store_inv_def h by (auto simp: valid_key_def)
  show "store_inv (s\<lparr>cold := fmupd (as_bytes k) v (cold s)\<rparr>)"
    using s n d u(1) dis unfolding store_inv_def c by (auto simp: valid_key_def)
  show "store_view (s\<lparr>hot := fmupd (as_bytes k) v (hot s)\<rparr>) = (store_view s)(k \<mapsto> u)"
    using d by (auto simp: store_view_def h fun_eq_iff)
  show "store_view (s\<lparr>cold := fmupd (as_bytes k) v (cold s)\<rparr>) = (store_view s)(k \<mapsto> u)"
    using d by (auto simp: store_view_def c fun_eq_iff)
qed

lemma put_row_ok:
  assumes "store_inv s" "store_view s k = None" "row_ok (k, u)"
  shows "\<exists>s'. put_row cutoff k u s = Inr s' \<and> store_inv s' \<and> store_view s' = (store_view s)(k \<mapsto> u)
    \<and> retier_row s' = retier_row s"
proof -
  from row_ok_encode [OF assms(3)] obtain v where v: "utxo_encode u = Inr v" ..
  from assms(3) have k: "valid_key k" by (simp add: row_ok_def)
  show ?thesis using put_rows [OF assms(1,2) k v] v by (auto simp: put_row_def)
qed

lemma map_upd_add_map_of:
  "k \<notin> fst ` set rows \<Longrightarrow> v(k \<mapsto> u) ++ map_of rows = v ++ map_of ((k, u) # rows)"
  using map_of_eq_None_iff [of rows k] by (auto simp: map_add_def fun_eq_iff split: option.split)

lemma put_rows_fold:
  assumes "store_inv s" "\<forall>r \<in> set rows. row_ok r" "distinct (map fst rows)"
    "\<forall>k \<in> fst ` set rows. store_view s k = None"
  shows "\<exists>s'. try_fold (\<lambda>s (k, u). put_row cutoff k u s) s rows = Inr s' \<and> store_inv s'
    \<and> store_view s' = store_view s ++ map_of rows \<and> retier_row s' = retier_row s"
  using assms
proof (induction rows arbitrary: s)
  case (Cons r rows)
  obtain k u where r: "r = (k, u)" by force
  from put_row_ok [of s k u cutoff] Cons.prems r obtain s1 where
    s1: "put_row cutoff k u s = Inr s1" "store_inv s1" "store_view s1 = (store_view s)(k \<mapsto> u)"
      "retier_row s1 = retier_row s"
    by auto
  have "\<forall>k' \<in> fst ` set rows. store_view s1 k' = None"
    using Cons.prems(3,4) r s1(3) by auto
  from Cons.IH [OF s1(2) _ _ this] Cons.prems(2,3) obtain s2 where
    s2: "try_fold (\<lambda>s (k, u). put_row cutoff k u s) s1 rows = Inr s2" "store_inv s2"
      "store_view s2 = store_view s1 ++ map_of rows" "retier_row s2 = retier_row s1" by auto
  have "k \<notin> fst ` set rows" using Cons.prems(3) r by auto
  then have "store_view s2 = store_view s ++ map_of (r # rows)"
    unfolding r s2(3) s1(3) by (rule map_upd_add_map_of)
  with s1 s2 show ?case by (simp add: r del: map_of.simps)
qed simp

section \<open>The mutations refine the coin view\<close>

lemma store_get_view: "store_inv s \<Longrightarrow> store_get s k = Inr (store_view s k)"
  using store_inv_decode [of s "as_bytes k"]
  by (cases "fmlookup (hot s) (as_bytes k)"; cases "fmlookup (cold s) (as_bytes k)")
     (auto simp: store_get_def decode_row_def store_view_def)

lemma spend_row:
  assumes s: "store_inv s" and ce: "ce \<longrightarrow> fmdom (cold s) = {||}"
  shows "(case fmlookup (hot s) (as_bytes k) of
           Some v \<Rightarrow>
             (if \<not> ce \<and> fmlookup (cold s) (as_bytes k) \<noteq> None
              then Err (Malformed ''outpoint in both tiers'')
              else bind_res (utxo_decode v) (\<lambda>u. Ok (u, s\<lparr>hot := fmdrop (as_bytes k) (hot s)\<rparr>)))
         | None \<Rightarrow>
             (if ce then Err (Missing k)
              else case fmlookup (cold s) (as_bytes k) of
                     None \<Rightarrow> Err (Missing k)
                   | Some v \<Rightarrow>
                       bind_res (utxo_decode v)
                         (\<lambda>u. Ok (u, s\<lparr>cold := fmdrop (as_bytes k) (cold s)\<rparr>))))
     = bind_res (ok_or (store_view s k) (Missing k)) (\<lambda>u. Ok (u, drop_row k s))"
proof (cases "fmlookup (hot s) (as_bytes k)")
  case (Some v)
  with s have c: "fmlookup (cold s) (as_bytes k) = None" by (rule store_inv_disjoint)
  then have "fmdrop (as_bytes k) (cold s) = cold s"
    by (intro fmap_ext) auto
  moreover from store_inv_decode [OF s, of "as_bytes k" v] Some
  obtain u where "utxo_decode v = Inr u" by auto
  ultimately show ?thesis using Some c by (simp add: store_view_def drop_row_def)
next
  case None
  then have h: "fmdrop (as_bytes k) (hot s) = hot s"
    by (intro fmap_ext) auto
  show ?thesis
  proof (cases "fmlookup (cold s) (as_bytes k)")
    case None
    with \<open>fmlookup (hot s) (as_bytes k) = None\<close> show ?thesis by (simp add: store_view_def)
  next
    case (Some v)
    then have "\<not> ce" using ce by (metis fempty_iff fmdomI)
    moreover from store_inv_decode [OF s, of "as_bytes k" v] Some None
    obtain u where "utxo_decode v = Inr u" by auto
    ultimately show ?thesis using Some None h by (simp add: store_view_def drop_row_def)
  qed
qed

lemma spend_rows_spec:
  assumes "store_inv s" "ce \<longrightarrow> fmdom (cold s) = {||}"
  shows "spend_rows ce seen ks s
    = bind_res (coins_spend (store_view s) seen ks) (\<lambda>us. Ok (us, fold drop_row ks s))"
  using assms
proof (induction ks arbitrary: s seen)
  case (Cons k ks)
  show ?case
  proof (cases "k \<in> seen")
    case False
    note row = spend_row [OF Cons.prems, of k]
    have ce: "ce \<longrightarrow> fmdom (cold (drop_row k s)) = {||}"
      using Cons.prems(2) by (auto simp: drop_row_def)
    have cong: "coins_spend (store_view (drop_row k s)) (insert k seen) ks
        = coins_spend (store_view s) (insert k seen) ks"
      by (rule coins_spend_cong) (simp add: store_view_drop_row)
    note IH = Cons.IH [OF store_inv_drop_row [OF Cons.prems(1), of k] ce, of "insert k seen"]
    show ?thesis
      unfolding spend_rows.simps row coins_spend.simps if_not_P [OF False]
      by (cases "store_view s k") (simp_all add: IH cong bind_res_assoc)
  qed simp
qed simp

lemma create_rows_spec:
  assumes "store_inv s" "ce \<longrightarrow> fmdom (cold s) = {||}" "\<forall>r \<in> set rows. row_ok r"
    and "\<And>k. k \<notin> seen \<Longrightarrow> store_view s k = (if k \<in> spent then None else v k)"
  shows "case coins_create v spent seen rows of
      Inl e \<Rightarrow> create_rows ce spent seen rows s = Inl e
    | Inr _ \<Rightarrow> \<exists>s'. create_rows ce spent seen rows s = Inr s' \<and> store_inv s'
        \<and> store_view s' = store_view s ++ map_of rows \<and> retier_row s' = retier_row s"
  using assms
proof (induction rows arbitrary: s seen)
  case (Cons r rows)
  obtain k u where r: "r = (k, u)" by force
  show ?case
  proof (cases "k \<in> seen")
    case False
    have vk: "store_view s k = (if k \<in> spent then None else v k)" using Cons.prems(4) False .
    have cold_None: "fmlookup (cold s) b = None" if ce for b
      using Cons.prems(2) that by (metis fempty_iff fmdomI not_None_eq)
    from Cons.prems(3) r have "row_ok (k, u)" by auto
    with row_ok_encode obtain e where e: "utxo_encode u = Inr e" by blast
    have valid: "valid_key k" using \<open>row_ok (k, u)\<close> by (simp add: row_ok_def)
    show ?thesis
    proof (cases "store_view s k")
      case (Some w)
      then have "k \<notin> spent" "v k \<noteq> None" using vk by (auto split: if_splits)
      moreover have "fmlookup (hot s) (as_bytes k) \<noteq> None \<or> fmlookup (cold s) (as_bytes k) \<noteq> None"
        using Some store_view_None_rows [OF Cons.prems(1), of k] by auto
      ultimately show ?thesis using False e cold_None by (auto simp: r)
    next
      case None
      then have rows: "fmlookup (hot s) (as_bytes k) = None" "fmlookup (cold s) (as_bytes k) = None"
        using store_view_None_rows [OF Cons.prems(1)] by auto
      let ?s = "s\<lparr>hot := fmupd (as_bytes k) e (hot s)\<rparr>"
      note p = put_rows(1,2) [OF Cons.prems(1) None valid e]
      have vw: "store_view ?s k' = (if k' \<in> spent then None else v k')" if "k' \<notin> insert k seen" for k'
        using that Cons.prems(4) [of k'] p(2) by auto
      have IH: "case coins_create v spent (insert k seen) rows of
          Inl e \<Rightarrow> create_rows ce spent (insert k seen) rows ?s = Inl e
        | Inr _ \<Rightarrow> \<exists>s'. create_rows ce spent (insert k seen) rows ?s = Inr s' \<and> store_inv s'
            \<and> store_view s' = store_view ?s ++ map_of rows \<and> retier_row s' = retier_row ?s"
        by (rule Cons.IH [OF p(1) _ _ vw]) (use Cons.prems(2,3) in auto)
      have nd: "\<not> (k \<in> seen \<or> k \<notin> spent \<and> v k \<noteq> None)" using vk None False by (auto split: if_splits)
      have step: "create_rows ce spent seen ((k, u) # rows) s = create_rows ce spent (insert k seen) rows ?s"
        using rows False e by simp
      show ?thesis
      proof (cases "coins_create v spent (insert k seen) rows")
        case (Inl err)
        with IH show ?thesis unfolding r step coins_create.simps if_not_P [OF nd] by simp
      next
        case (Inr unit)
        then have "k \<notin> fst ` set rows"
          using coins_create_Inr_iff [of v spent "insert k seen" rows] by auto
        then have m: "store_view ?s ++ map_of rows = store_view s ++ map_of ((k, u) # rows)"
          unfolding p(2) by (rule map_upd_add_map_of)
        show ?thesis
          using IH Inr unfolding r step coins_create.simps if_not_P [OF nd] m
          by (simp del: map_of.simps)
      qed
    qed
  qed (simp add: r)
qed simp

lemma apply_with_undo_transaction_spec:
  assumes s: "store_inv s" and rows: "\<forall>r \<in> set created. row_ok r"
  shows "case coins_apply (store_view s) spent created of
      Inl e \<Rightarrow> apply_with_undo_transaction spent created s = Inl e
    | Inr (undo, v) \<Rightarrow> \<exists>s'. apply_with_undo_transaction spent created s = Inr (undo, s') \<and> store_inv s'
        \<and> store_view s' = v \<and> retier_row s' = retier_row s"
proof -
  let ?ce = "fmdom (cold s) = {||}"
  let ?s = "fold drop_row spent s"
  note spend = spend_rows_spec [OF s, of ?ce "{}" spent]
  have d: "store_inv ?s" "store_view ?s = store_view s |` (- set spent)"
    using fold_drop_row [OF s] by auto
  have ce: "?ce \<longrightarrow> fmdom (cold ?s) = {||}" by (simp add: fold_drop_row_frame)
  have rr: "retier_row ?s = retier_row s" by (rule fold_drop_row_frame)
  have "store_view ?s k = (if k \<in> set spent then None else store_view s k)" for k
    using d(2) by simp
  from create_rows_spec [OF d(1) ce rows, of "{}" "set spent" "store_view s"] this
  have create: "case coins_create (store_view s) (set spent) {} created of
      Inl e \<Rightarrow> create_rows ?ce (set spent) {} created ?s = Inl e
    | Inr _ \<Rightarrow> \<exists>s'. create_rows ?ce (set spent) {} created ?s = Inr s' \<and> store_inv s'
        \<and> store_view s' = store_view ?s ++ map_of created \<and> retier_row s' = retier_row ?s"
    by blast
  show ?thesis
    using create spend rr d(2)
    by (cases "coins_spend (store_view s) {} spent";
        cases "coins_create (store_view s) (set spent) {} created")
       (auto simp: apply_with_undo_transaction_def coins_apply_def coins_after_def Let_def)
qed

lemma undo_transaction_spec:
  assumes s: "store_inv s" and rows: "\<forall>r \<in> set (undo_spent undo). row_ok r"
    and dist: "distinct (map fst (undo_spent undo))"
    and absent: "\<forall>k \<in> fst ` set (undo_spent undo). k \<in> set (undo_created undo) \<or> store_view s k = None"
  shows "\<exists>s'. undo_transaction undo now window s = Inr ((), s') \<and> store_inv s'
    \<and> store_view s' = coins_undo (store_view s) undo \<and> retier_row s' = retier_row s"
proof -
  let ?s = "fold drop_row (undo_created undo) s"
  have "try_fold (\<lambda>_ (k, _).
          if k \<notin> set (undo_created undo)
             \<and> (fmlookup (hot s) (as_bytes k) \<noteq> None \<or> fmlookup (cold s) (as_bytes k) \<noteq> None)
          then Err (Duplicate k) else Ok ()) () rows = Ok ()"
    if "set rows \<subseteq> set (undo_spent undo)" for rows
    using that
  proof (induction rows)
    case (Cons r rows)
    then have "fst r \<in> fst ` set (undo_spent undo)" by auto
    with absent have "fst r \<in> set (undo_created undo) \<or> store_view s (fst r) = None"
      by (rule bspec)
    with Cons store_view_None_rows [OF s, of "fst r"] show ?case by (auto split: prod.splits)
  qed simp
  then have check: "try_fold (\<lambda>_ (k, _).
          if k \<notin> set (undo_created undo)
             \<and> (fmlookup (hot s) (as_bytes k) \<noteq> None \<or> fmlookup (cold s) (as_bytes k) \<noteq> None)
          then Err (Duplicate k) else Ok ()) () (undo_spent undo) = Ok ()" by simp
  have d: "store_inv ?s" "store_view ?s = store_view s |` (- set (undo_created undo))"
    using fold_drop_row [OF s] by auto
  have rr: "retier_row ?s = retier_row s" by (rule fold_drop_row_frame)
  have "\<forall>k \<in> fst ` set (undo_spent undo). store_view ?s k = None"
    using absent d(2) by (auto simp: restrict_map_def)
  from put_rows_fold [OF d(1) rows dist this, of "saturating_sub now window"] check d(2)
  show ?thesis by (auto simp: undo_transaction_def coins_undo_def Let_def rr)
qed

section \<open>The method table\<close>

definition store_ops :: "utxo_tables utxo_ops" where
  "store_ops =
     \<lparr>ops_get = (\<lambda>k s. (store_get s k, s)),
      ops_apply_with_undo = store_apply_with_undo,
      ops_apply_with_undo_fresh_outputs = store_apply_with_undo,
      ops_apply_with_undo_fresh_outputs_from_prevouts =
        (\<lambda>spent prevouts created. store_apply_with_undo spent created),
      ops_undo = store_undo\<rparr>"

lemma store_apply_implements:
  assumes "store_inv s" "\<forall>r \<in> set created. row_ok r"
  shows "implements store_inv store_view (\<lambda>_. UNIV) s (coins_apply (store_view s) spent created)
    (store_apply_with_undo spent created s)"
  using apply_with_undo_transaction_spec [OF assms, of spent] assms(1)
  by (auto simp: implements_def store_apply_with_undo_def write_transaction_def split: sum.splits)

lemma store_undo_ok:
  assumes "store_inv s" "\<forall>r \<in> set (undo_spent undo). row_ok r"
    "distinct (map fst (undo_spent undo))"
    "\<forall>k \<in> fst ` set (undo_spent undo). k \<in> set (undo_created undo) \<or> store_view s k = None"
  shows "\<exists>s'. store_undo undo now window s = (Inr (), s') \<and> store_inv s'
    \<and> store_view s' = coins_undo (store_view s) undo"
  using undo_transaction_spec [OF assms, of now window]
  by (auto simp: store_undo_def write_transaction_def)

interpretation redb: utxo_store store_ops store_inv store_view "\<lambda>_. UNIV"
proof
  fix s :: utxo_tables and undo :: utxo_undo and now window :: u64
  assume "store_inv s" "\<forall>r \<in> set (undo_spent undo). row_ok r"
    "distinct (map fst (undo_spent undo))" "\<forall>k \<in> fst ` set (undo_spent undo). store_view s k = None"
  then show "\<exists>s'. ops_undo store_ops undo now window s = (Inr (), s') \<and> store_inv s'
      \<and> store_view s' = coins_undo (store_view s) undo \<and> UNIV \<subseteq> (UNIV :: out_point_key set)"
    using store_undo_ok [of s undo now window] by (auto simp: store_ops_def)
qed (simp_all add: store_coins_ok store_get_view store_ops_def store_apply_implements)

section \<open>Rows of a table\<close>

lemma table_rows_keys: "map fst (table_rows t) = sorted_list_of_fset (fmdom t)"
  by (simp add: table_rows_def comp_def)

lemma set_table_rows: "set (table_rows t) = {(k, v). fmlookup t k = Some v}"
  by (auto simp: table_rows_def fmlookup_dom_iff image_iff)

lemma sorted_table_rows: "sorted_wrt (<) (map fst (table_rows t))"
  unfolding table_rows_keys sorted_list_of_fset.rep_eq
  by (rule strict_sorted_list_of_set)

section \<open>Moves between the tiers\<close>

lemma same_tiers:
  assumes "store_inv s" "\<And>b. tier_lookup s' b = tier_lookup s b"
    "\<And>b. fmlookup (hot s') b = None \<or> fmlookup (cold s') b = None"
  shows "store_inv s'" "store_view s' = store_view s"
  using assms by (auto simp: store_inv_def store_view_def fun_eq_iff)

lemma demote_row:
  assumes s: "store_inv s" and h: "fmlookup (hot s) k = Some v"
  defines "s' \<equiv> s\<lparr>hot := fmdrop k (hot s), cold := fmupd k v (cold s)\<rparr>"
  shows "store_inv s'" "store_view s' = store_view s" "\<And>b. tier_lookup s' b = tier_lookup s b"
proof -
  have c: "fmlookup (cold s) k = None" by (rule store_inv_disjoint [OF s h])
  show t: "tier_lookup s' b = tier_lookup s b" for b
    using h by (auto simp: s'_def tier_lookup_def split: option.splits)
  have "fmlookup (hot s) b = None \<or> fmlookup (cold s) b = None" for b
    using s by (simp add: store_inv_def)
  then have "fmlookup (hot s') b = None \<or> fmlookup (cold s') b = None" for b
    using c by (auto simp: s'_def)
  from same_tiers [OF s t this] show "store_inv s'" "store_view s' = store_view s" .
qed

lemma promote_row:
  assumes s: "store_inv s" and c: "fmlookup (cold s) k = Some v"
  defines "s' \<equiv> s\<lparr>cold := fmdrop k (cold s), hot := fmupd k v (hot s)\<rparr>"
  shows "store_inv s'" "store_view s' = store_view s" "\<And>b. tier_lookup s' b = tier_lookup s b"
proof -
  have h: "fmlookup (hot s) k = None"
    using store_inv_disjoint [OF s] c by (cases "fmlookup (hot s) k") fastforce+
  show t: "tier_lookup s' b = tier_lookup s b" for b
    using h c by (auto simp: s'_def tier_lookup_def split: option.splits)
  have "fmlookup (hot s) b = None \<or> fmlookup (cold s) b = None" for b
    using s by (simp add: store_inv_def)
  then have "fmlookup (hot s') b = None \<or> fmlookup (cold s') b = None" for b
    by (auto simp: s'_def)
  from same_tiers [OF s t this] show "store_inv s'" "store_view s' = store_view s" .
qed

lemma move_to_cold_fold:
  assumes "store_inv s"
  shows "store_inv (snd (fold move_to_cold ks (n, s)))
    \<and> store_view (snd (fold move_to_cold ks (n, s))) = store_view s
    \<and> (\<forall>b. fmlookup (hot (snd (fold move_to_cold ks (n, s)))) b
          = (if b \<in> set ks then None else fmlookup (hot s) b))"
  using assms
proof (induction ks arbitrary: n s)
  case (Cons k ks)
  show ?case
  proof (cases "fmlookup (hot s) k")
    case None
    with Cons show ?thesis by (auto simp: move_to_cold_def)
  next
    case (Some v)
    note d = demote_row [OF Cons.prems Some]
    show ?thesis
      using Cons.IH [OF d(1), of "n + 1"] d(2) by (auto simp: move_to_cold_def Some)
  qed
qed simp

definition young :: "u64 \<Rightarrow> bytes \<Rightarrow> bool" where
  "young cutoff v \<longleftrightarrow> (case utxo_decode v of Inl _ \<Rightarrow> False | Inr u \<Rightarrow> cutoff \<le> last_touched u)"

lemma aged_keys_ok:
  assumes "\<And>k v. fmlookup t k = Some v \<Longrightarrow> \<exists>u. utxo_decode v = Inr u"
  shows "\<exists>ks. aged_keys cutoff t = Inr ks
    \<and> set ks = {k. \<exists>v. fmlookup t k = Some v \<and> \<not> young cutoff v}"
proof -
  let ?g = "\<lambda>(k, v). if young cutoff v then [] else [k]"
  have "collect_res (\<lambda>(k, v). bind_res (utxo_decode v)
          (\<lambda>u. Ok (if last_touched u < cutoff then [k] else []))) (table_rows t)
      = Inr (map ?g (table_rows t))"
  proof (rule collect_res_Inr)
    fix r assume r: "r \<in> set (table_rows t)"
    obtain k v where kv: "r = (k, v)" by force
    with r have "fmlookup t k = Some v" by (simp add: set_table_rows)
    from assms [OF this] show "(case r of (k, v) \<Rightarrow> bind_res (utxo_decode v)
          (\<lambda>u. Ok (if last_touched u < cutoff then [k] else []))) = Inr (?g r)"
      by (auto simp: kv young_def not_le not_less)
  qed
  moreover have "set (concat (map ?g (table_rows t))) = {k. \<exists>v. fmlookup t k = Some v \<and> \<not> young cutoff v}"
    by (auto simp: set_table_rows split: if_splits)
  ultimately show ?thesis by (auto simp: aged_keys_def)
qed

text \<open>
  Ageing always succeeds, changes no coin and keeps the invariant; afterwards the hot table
  holds exactly the rows touched since the cutoff.
\<close>

theorem age_to_cold_correct:
  assumes "store_inv s"
  shows "\<exists>n s'. age_to_cold now window s = (Inr n, s') \<and> store_inv s' \<and> store_view s' = store_view s
    \<and> (\<forall>b. fmlookup (hot s') b
        = Option.bind (fmlookup (hot s) b)
            (\<lambda>v. if young (saturating_sub now window) v then Some v else None))"
proof -
  let ?c = "saturating_sub now window"
  have dec: "\<exists>u. utxo_decode v = Inr u" if "fmlookup (hot s) k = Some v" for k v
    using store_inv_decode [OF assms, of k v] that by simp
  obtain ks where
    ks: "aged_keys ?c (hot s) = Inr ks" "set ks = {k. \<exists>v. fmlookup (hot s) k = Some v \<and> \<not> young ?c v}"
    using aged_keys_ok [of "hot s" ?c] dec by blast
  obtain n s' where f: "fold move_to_cold ks (0, s) = (n, s')" by force
  note m = move_to_cold_fold [OF assms, of ks 0, unfolded f snd_conv]
  have "fmlookup (hot s') b = Option.bind (fmlookup (hot s) b) (\<lambda>v. if young ?c v then Some v else None)" for b
    using m ks(2) by (cases "fmlookup (hot s) b") auto
  with m show ?thesis by (auto simp: age_to_cold_def write_transaction_def ks(1) f)
qed

section \<open>The merge of the two tables\<close>

fun merge_rows :: "row list \<Rightarrow> row list \<Rightarrow> (row \<times> bool) list" where
  "merge_rows [] cs = map (\<lambda>c. (c, False)) cs"
| "merge_rows hs [] = map (\<lambda>h. (h, True)) hs"
| "merge_rows (h # hs) (c # cs) =
     (if fst h < fst c then (h, True) # merge_rows hs (c # cs)
      else (c, False) # merge_rows (h # hs) cs)"

definition beyond :: "out_point_key option \<Rightarrow> row \<Rightarrow> bool" where
  "beyond after r \<longleftrightarrow> (case after of None \<Rightarrow> True | Some a \<Rightarrow> as_bytes a < fst r)"

fun pending :: "out_point_key option \<Rightarrow> row option \<times> row list \<Rightarrow> row list" where
  "pending after (None, rows) = []"
| "pending after (Some r, rows) = r # filter (beyond after) rows"

lemma pending_next_row [simp]: "pending after (next_row after rows) = filter (beyond after) rows"
proof -
  have "(\<lambda>(k, _ :: bytes). \<not> (case after of None \<Rightarrow> True | Some a \<Rightarrow> as_bytes a < k)) = (\<lambda>r. \<not> beyond after r)"
    by (auto simp: beyond_def fun_eq_iff split: option.splits)
  then have n: "next_row after rows = (case dropWhile (\<lambda>r. \<not> beyond after r) rows of
      [] \<Rightarrow> (None, []) | r # rs \<Rightarrow> (Some r, rs))"
    by (simp add: next_row_def)
  show ?thesis unfolding n
    by (induction rows) auto
qed

lemma merge_rows_Nil2: "merge_rows hs [] = map (\<lambda>h. (h, True)) hs"
  by (cases hs) auto

lemma merge_page_spec:
  assumes "fst ` set (pending after H) \<inter> fst ` set (pending after C) = {}"
  shows "merge_page push after n H C
    = collect_res (\<lambda>(r, b). push r b) (take n (merge_rows (pending after H) (pending after C)))"
  using assms
proof (induction push after n H C rule: merge_page.induct)
  case (3 push after n h hs cs)
  then show ?case by (simp add: merge_rows_Nil2)
next
  case (5 push after n h hs c cs)
  then have "fst h \<noteq> fst c" by auto
  then consider "fst h < fst c" | "fst c < fst h" "\<not> fst h < fst c" by force
  then show ?case
  proof cases
    case 1
    then show ?thesis using 5 by auto
  next
    case 2
    then show ?thesis using 5 by auto
  qed
qed simp_all

lemma set_merge_rows:
  "set (merge_rows hs cs) = (\<lambda>h. (h, True)) ` set hs \<union> (\<lambda>c. (c, False)) ` set cs"
  by (induction hs cs rule: merge_rows.induct) auto

lemma sorted_merge_rows:
  assumes "sorted_wrt (<) (map fst hs)" "sorted_wrt (<) (map fst cs)"
    "fst ` set hs \<inter> fst ` set cs = {}"
  shows "sorted_wrt (<) (map (fst \<circ> fst) (merge_rows hs cs))"
  using assms
proof (induction hs cs rule: merge_rows.induct)
  case (3 h hs c cs)
  then have "fst h \<noteq> fst c" by auto
  then consider "fst h < fst c" | "fst c < fst h" "\<not> fst h < fst c" by force
  then show ?case
  proof cases
    case 1
    have "\<forall>x \<in> set (merge_rows hs (c # cs)). fst h < (fst \<circ> fst) x"
      unfolding set_merge_rows using 3(3,4) 1 by (auto intro: order.strict_trans)
    with 3 1 show ?thesis by simp
  next
    case 2
    have "\<forall>x \<in> set (merge_rows (h # hs) cs). fst c < (fst \<circ> fst) x"
      unfolding set_merge_rows using 3(3,4) 2 by (auto intro: order.strict_trans)
    with 3 2 show ?thesis by simp
  qed
qed (simp_all add: comp_def)

text \<open>All rows of both tables past a cursor, in key order, with the tier each is in.\<close>

definition rows_after :: "out_point_key option \<Rightarrow> utxo_tables \<Rightarrow> (row \<times> bool) list" where
  "rows_after after s =
     merge_rows (filter (beyond after) (iter_rows after (hot s)))
       (filter (beyond after) (iter_rows after (cold s)))"

lemma set_iter_rows:
  "set (filter (beyond after) (iter_rows after t)) = {r. beyond after r \<and> fmlookup t (fst r) = Some (snd r)}"
  by (cases after) (auto simp: iter_rows_def range_rows_def set_table_rows beyond_def)

lemma sorted_filter_rows: "sorted_wrt (<) (map fst xs) \<Longrightarrow> sorted_wrt (<) (map fst (filter P xs))"
  by (induction xs) auto

lemma sorted_iter_rows: "sorted_wrt (<) (map fst (filter P (iter_rows after t)))"
  by (cases after) (auto simp: iter_rows_def range_rows_def intro!: sorted_filter_rows sorted_table_rows)

lemma set_rows_after:
  "set (rows_after after s) = {((k, v), b). beyond after (k, v)
     \<and> fmlookup (if b then hot s else cold s) k = Some v}"
  unfolding rows_after_def set_merge_rows set_iter_rows by auto

lemma rows_disjoint:
  assumes "store_inv s"
  shows "fst ` set (filter (beyond after) (iter_rows after (hot s)))
    \<inter> fst ` set (filter (beyond after) (iter_rows after (cold s))) = {}"
  unfolding set_iter_rows using store_inv_disjoint [OF assms] by fastforce

lemma sorted_rows_after: "store_inv s \<Longrightarrow> sorted_wrt (<) (map (fst \<circ> fst) (rows_after after s))"
  unfolding rows_after_def by (intro sorted_merge_rows sorted_iter_rows rows_disjoint)

lemma merge_page_rows:
  assumes "store_inv s"
  shows "merge_page push after n (next_row after (iter_rows after (hot s)))
      (next_row after (iter_rows after (cold s)))
    = collect_res (\<lambda>(r, b). push r b) (take n (rows_after after s))"
  using merge_page_spec [of after "next_row after (iter_rows after (hot s))"
      "next_row after (iter_rows after (cold s))" push n] rows_disjoint [OF assms, of after]
  by (simp add: rows_after_def)

section \<open>Snapshot readers\<close>

definition coin_of_row :: "row \<Rightarrow> coin_row" where
  "coin_of_row r = (OutPointKey (fst r), the (decoded (Some (snd r))))"

lemma decode_coin_row:
  assumes "store_inv s" "tier_lookup s k = Some v"
  shows "bind_res (key_from_bytes k) (\<lambda>key. bind_res (utxo_decode v) (\<lambda>u. Ok (key, u)))
      = Inr (coin_of_row (k, v))"
    "store_view s (OutPointKey k) = Some (snd (coin_of_row (k, v)))"
  using store_inv_decode [OF assms] assms(2)
  by (auto simp: key_from_bytes_def coin_of_row_def store_view_def)

lemma tier_lookup_row:
  "store_inv s \<Longrightarrow> tier_lookup s k = Some v \<longleftrightarrow> (\<exists>b. fmlookup (if b then hot s else cold s) k = Some v)"
  using store_inv_disjoint [of s k] by (auto simp: tier_lookup_def split: option.splits if_splits)

lemma rows_after_lookup:
  assumes "store_inv s" "((k, v), b) \<in> set (rows_after after s)"
  shows "tier_lookup s k = Some v" "beyond after (k, v)" "fmlookup (if b then hot s else cold s) k = Some v"
proof -
  show "beyond after (k, v)" and l: "fmlookup (if b then hot s else cold s) k = Some v"
    using assms(2) by (simp_all add: set_rows_after)
  then show "tier_lookup s k = Some v"
    using tier_lookup_row [OF assms(1)] by blast
qed

definition coins_after_key :: "coins \<Rightarrow> out_point_key option \<Rightarrow> coin_row set" where
  "coins_after_key v after = {(k, u). v k = Some u \<and> (\<forall>a. after = Some a \<longrightarrow> a < k)}"

lemma coin_list_ok:
  assumes s: "store_inv s"
  shows "set (map (coin_of_row \<circ> fst) (rows_after after s)) = coins_after_key (store_view s) after"
    "sorted_wrt (<) (map fst (map (coin_of_row \<circ> fst) (rows_after after s)))"
proof -
  show "set (map (coin_of_row \<circ> fst) (rows_after after s)) = coins_after_key (store_view s) after"
  proof (intro set_eqI iffI)
    fix r assume "r \<in> set (map (coin_of_row \<circ> fst) (rows_after after s))"
    then obtain k v where r: "r = coin_of_row (k, v)" "beyond after (k, v)" and t: "tier_lookup s k = Some v"
      using rows_after_lookup [OF s] by fastforce
    show "r \<in> coins_after_key (store_view s) after"
      using decode_coin_row(2) [OF s t] r
      by (auto simp: coins_after_key_def coin_of_row_def beyond_def less_out_point_key_def split: option.splits)
  next
    fix r assume "r \<in> coins_after_key (store_view s) after"
    then obtain k u where r: "r = (k, u)" "store_view s k = Some u" "\<forall>a. after = Some a \<longrightarrow> a < k"
      by (auto simp: coins_after_key_def)
    then obtain v where v: "tier_lookup s (as_bytes k) = Some v" "utxo_decode v = Inr u"
      using store_view_SomeD by blast
    then obtain b where b: "fmlookup (if b then hot s else cold s) (as_bytes k) = Some v"
      using tier_lookup_row [OF s] by blast
    have "((as_bytes k, v), b) \<in> set (rows_after after s)"
      using b r(3) by (auto simp: set_rows_after beyond_def less_out_point_key_def split: option.splits)
    moreover have "coin_of_row (as_bytes k, v) = r" using v(2) r(1) by (simp add: coin_of_row_def)
    ultimately show "r \<in> set (map (coin_of_row \<circ> fst) (rows_after after s))"
      by (auto simp: image_iff intro!: bexI [of _ "((as_bytes k, v), b)"])
  qed
  have "sorted_wrt (<) (map OutPointKey (map (fst \<circ> fst) (rows_after after s)))"
    using sorted_rows_after [OF s, of after] unfolding sorted_wrt_map less_out_point_key_def by simp
  then show "sorted_wrt (<) (map fst (map (coin_of_row \<circ> fst) (rows_after after s)))"
    by (simp add: comp_def coin_of_row_def)
qed

lemma snapshot_page_rows:
  assumes s: "store_inv s"
  shows "snapshot_page s after limit = Inr (take limit (map (coin_of_row \<circ> fst) (rows_after after s)))"
proof (cases "limit = 0")
  case False
  have "collect_res (\<lambda>(r, b). (\<lambda>(k, v) _. bind_res (key_from_bytes k)
          (\<lambda>key. bind_res (utxo_decode v) (\<lambda>u. Ok (key, u)))) r b) (take limit (rows_after after s))
      = Inr (map (coin_of_row \<circ> fst) (take limit (rows_after after s)))"
  proof (rule collect_res_Inr)
    fix x assume "x \<in> set (take limit (rows_after after s))"
    then have "x \<in> set (rows_after after s)" by (rule in_set_takeD)
    then obtain k v b where x: "x = ((k, v), b)" and "tier_lookup s k = Some v"
      using rows_after_lookup [OF s] by (metis prod.exhaust)
    from decode_coin_row(1) [OF s this(2)] x
    show "(case x of (r, b) \<Rightarrow> (\<lambda>(k, v) _. bind_res (key_from_bytes k)
          (\<lambda>key. bind_res (utxo_decode v) (\<lambda>u. Ok (key, u)))) r b) = Inr ((coin_of_row \<circ> fst) x)"
      by simp
  qed
  with False show ?thesis
    unfolding snapshot_page_def merge_page_rows [OF s] take_map by simp
qed (simp add: snapshot_page_def)

text \<open>
  C25. A snapshot page is the first \<open>limit\<close> coins past the cursor in strict key order, over both
  tiers together, and it is never an error on a well-formed store.
\<close>

theorem snapshot_page_correct:
  assumes "store_inv s"
  shows "\<exists>entries. snapshot_page s after limit = Inr (take limit entries)
    \<and> sorted_wrt (<) (map fst entries) \<and> set entries = coins_after_key (store_view s) after"
  using snapshot_page_rows [OF assms] coin_list_ok [OF assms] by metis

lemma insert_entry_fold:
  assumes s: "store_inv s" and rows: "\<forall>(k, v) \<in> set rows. tier_lookup s k = Some v"
    and "distinct (map fst rows)" "\<forall>k \<in> fst ` set rows. fmlookup m (OutPointKey k) = None"
  shows "\<exists>m'. try_fold insert_entry m rows = Inr m'
    \<and> (\<forall>k. fmlookup m' k = (if as_bytes k \<in> fst ` set rows then store_view s k else fmlookup m k))"
  using assms(2-)
proof (induction rows arbitrary: m)
  case (Cons r rows)
  obtain k v where r: "r = (k, v)" by force
  with Cons.prems(1) have t: "tier_lookup s k = Some v" by simp
  from store_inv_decode [OF s t] obtain u where d: "length k = 36" "utxo_decode v = Inr u" by blast
  have u: "store_view s (OutPointKey k) = Some u" using t d by (simp add: store_view_def)
  let ?m = "fmupd (OutPointKey k) u m"
  have step: "insert_entry m r = Inr ?m"
    using d Cons.prems(3) by (simp add: insert_entry_def r key_from_bytes_def)
  have "\<forall>k' \<in> fst ` set rows. fmlookup ?m (OutPointKey k') = None"
    using Cons.prems(2,3) r by auto
  with Cons.IH [of ?m] Cons.prems(1,2) obtain m' where
    m': "try_fold insert_entry ?m rows = Inr m'"
    "\<forall>k. fmlookup m' k = (if as_bytes k \<in> fst ` set rows then store_view s k else fmlookup ?m k)"
    by auto
  have "fmlookup m' k' = (if as_bytes k' \<in> fst ` set (r # rows) then store_view s k' else fmlookup m k')" for k'
    using m'(2) u r by (cases k') auto
  with m'(1) step show ?case by auto
qed simp

lemma distinct_both_rows:
  assumes "store_inv s"
  shows "distinct (map fst (filter P (table_rows (hot s)) @ filter Q (table_rows (cold s))))"
proof -
  have "distinct (map fst (filter P (table_rows t)))" for t P
    by (intro strict_sorted_iff [THEN iffD1, THEN conjunct2] sorted_filter_rows sorted_table_rows)
  moreover have "fst ` set (filter P (table_rows (hot s))) \<inter> fst ` set (filter Q (table_rows (cold s))) = {}"
    using store_inv_disjoint [OF assms] by (fastforce simp: set_table_rows)
  ultimately show ?thesis by simp
qed

lemma both_rows_lookup:
  assumes "store_inv s"
  shows "\<forall>(k, v) \<in> set (filter P (table_rows (hot s)) @ filter Q (table_rows (cold s))). tier_lookup s k = Some v"
  using tier_lookup_row [OF assms] by (auto simp: set_table_rows)

text \<open>
  The snapshot map of a well-formed store is its coin view.
\<close>

theorem snapshot_entries_correct:
  assumes s: "store_inv s"
  shows "\<exists>m. snapshot_entries s = Inr m \<and> fmlookup m = store_view s"
proof -
  let ?rows = "table_rows (hot s) @ table_rows (cold s)"
  from insert_entry_fold [OF s both_rows_lookup [OF s, of "\<lambda>_. True" "\<lambda>_. True"]
      distinct_both_rows [OF s, of "\<lambda>_. True" "\<lambda>_. True"], of fmempty]
  obtain m where m: "snapshot_entries s = Inr m"
    "\<forall>k. fmlookup m k = (if as_bytes k \<in> fst ` set ?rows then store_view s k else None)"
    by (auto simp: snapshot_entries_def)
  have keys: "fst ` set (table_rows t) = {k. fmlookup t k \<noteq> None}" for t
    by (force simp: set_table_rows)
  have "store_view s k = None" if "as_bytes k \<notin> fst ` set ?rows" for k
    using that store_view_None_rows [OF s, of k] by (simp only: set_append image_Un keys) simp
  with m show ?thesis by (auto simp: fun_eq_iff)
qed

section \<open>Re-tiering by height\<close>

text \<open>The tier a row belongs to: its coin is at most the window below the tip.\<close>

definition belongs_hot :: "u32 \<Rightarrow> u32 \<Rightarrow> bytes \<Rightarrow> bool" where
  "belongs_hot tip window v \<longleftrightarrow>
     (case utxo_decode v of Inl _ \<Rightarrow> False | Inr u \<Rightarrow> tip - utxo_height u \<le> window)"

lemma retier_row_step_ok:
  assumes s: "store_inv s" and row: "fmlookup (if b then hot s else cold s) k = Some v"
    and run: "retier_row_step tip window (st, s) ((k, v), b) = Inr (st', s')"
  shows "store_inv s' \<and> store_view s' = store_view s \<and> (\<forall>j. tier_lookup s' j = tier_lookup s j)
    \<and> (\<forall>j. j \<noteq> k \<longrightarrow> fmlookup (hot s') j = fmlookup (hot s) j \<and> fmlookup (cold s') j = fmlookup (cold s) j)
    \<and> (fmlookup (hot s') k \<noteq> None \<longleftrightarrow> belongs_hot tip window v)
    \<and> rt_tip_height st' = rt_tip_height st \<and> rt_hot_window_blocks st' = rt_hot_window_blocks st"
proof -
  from run obtain u where u: "utxo_decode v = Inr u"
    by (auto simp: retier_row_step_def res_simps)
  then have bh: "belongs_hot tip window v \<longleftrightarrow> tip - utxo_height u \<le> window"
    by (simp add: belongs_hot_def)
  show ?thesis
  proof (cases b)
    case True
    with row have h: "fmlookup (hot s) k = Some v" by simp
    show ?thesis
    proof (cases "belongs_hot tip window v")
      case True
      with run \<open>b\<close> u bh s h show ?thesis
        by (auto simp: retier_row_step_def res_simps checked_arith Let_def)
    next
      case False
      with run \<open>b\<close> u bh have "s' = s\<lparr>hot := fmdrop k (hot s), cold := fmupd k v (cold s)\<rparr>"
        "rt_tip_height st' = rt_tip_height st" "rt_hot_window_blocks st' = rt_hot_window_blocks st"
        by (auto simp: retier_row_step_def res_simps checked_arith Let_def split: if_splits)
      with demote_row [OF s h] False show ?thesis by simp
    qed
  next
    case nb: False
    with row have c: "fmlookup (cold s) k = Some v" by simp
    then have h: "fmlookup (hot s) k = None"
      using store_inv_disjoint [OF s, of k] by (cases "fmlookup (hot s) k") auto
    show ?thesis
    proof (cases "belongs_hot tip window v")
      case True
      with run nb u bh have "s' = s\<lparr>cold := fmdrop k (cold s), hot := fmupd k v (hot s)\<rparr>"
        "rt_tip_height st' = rt_tip_height st" "rt_hot_window_blocks st' = rt_hot_window_blocks st"
        by (auto simp: retier_row_step_def res_simps checked_arith Let_def split: if_splits)
      with promote_row [OF s c] True show ?thesis by simp
    next
      case False
      with run nb u bh s h show ?thesis
        by (auto simp: retier_row_step_def res_simps checked_arith Let_def)
    qed
  qed
qed

lemma retier_fold_ok:
  assumes "store_inv s" "\<forall>((k, v), b) \<in> set page. fmlookup (if b then hot s else cold s) k = Some v"
    "distinct (map (fst \<circ> fst) page)"
    "try_fold (retier_row_step tip window) (st, s) page = Inr (st', s')"
  shows "store_inv s' \<and> store_view s' = store_view s \<and> (\<forall>j. tier_lookup s' j = tier_lookup s j)
    \<and> (\<forall>((k, v), b) \<in> set page. fmlookup (hot s') k \<noteq> None \<longleftrightarrow> belongs_hot tip window v)
    \<and> (\<forall>j. j \<notin> (fst \<circ> fst) ` set page \<longrightarrow> fmlookup (hot s') j = fmlookup (hot s) j)
    \<and> rt_tip_height st' = rt_tip_height st \<and> rt_hot_window_blocks st' = rt_hot_window_blocks st"
  using assms
proof (induction page arbitrary: st s)
  case (Cons r page)
  obtain k v b where r: "r = ((k, v), b)" by (metis prod.exhaust)
  from Cons.prems(4) obtain st1 s1 where step: "retier_row_step tip window (st, s) ((k, v), b) = Inr (st1, s1)"
    and rest: "try_fold (retier_row_step tip window) (st1, s1) page = Inr (st', s')"
    by (auto simp: r res_simps)
  have row: "fmlookup (if b then hot s else cold s) k = Some v" using Cons.prems(2) r by simp
  note o = retier_row_step_ok [OF Cons.prems(1) row step]
  have k: "k \<notin> (fst \<circ> fst) ` set page" using Cons.prems(3) r by simp
  have "fmlookup (if b' then hot s1 else cold s1) k' = Some v'"
    if "((k', v'), b') \<in> set page" for k' v' b'
  proof -
    have "k' \<noteq> k" using k that by force
    moreover have "fmlookup (if b' then hot s else cold s) k' = Some v'"
      using Cons.prems(2) that by auto
    ultimately show ?thesis using o by (auto split: if_splits)
  qed
  then have p: "\<forall>((k, v), b) \<in> set page. fmlookup (if b then hot s1 else cold s1) k = Some v" by blast
  have s1: "store_inv s1" using o by blast
  have d: "distinct (map (fst \<circ> fst) page)" using Cons.prems(3) by (simp add: comp_def)
  note IH = Cons.IH [OF s1 p d rest]
  from IH k have "fmlookup (hot s') k = fmlookup (hot s1) k" by blast
  with IH o show ?case unfolding r by auto
qed simp

text \<open>Every row up to the cursor is in the tier it belongs to.\<close>

definition settled :: "u32 \<Rightarrow> u32 \<Rightarrow> out_point_key option \<Rightarrow> utxo_tables \<Rightarrow> bool" where
  "settled tip window after s \<longleftrightarrow>
     (\<forall>k v. tier_lookup s k = Some v \<longrightarrow> \<not> beyond after (k, v) \<longrightarrow>
        (fmlookup (hot s) k \<noteq> None \<longleftrightarrow> belongs_hot tip window v))"

definition all_settled :: "u32 \<Rightarrow> u32 \<Rightarrow> utxo_tables \<Rightarrow> bool" where
  "all_settled tip window s \<longleftrightarrow>
     (\<forall>k v. tier_lookup s k = Some v \<longrightarrow> (fmlookup (hot s) k \<noteq> None \<longleftrightarrow> belongs_hot tip window v))"

lemma retier_page_eq:
  "store_inv s \<Longrightarrow> retier_page after n s = Inr (take n (rows_after after s))"
proof -
  assume s: "store_inv s"
  have "collect_res (\<lambda>(r, b). (\<lambda>r is_hot. Ok (r, is_hot)) r b) xs = (Inr (map id xs) :: utxo_error + _)"
    for xs :: "(row \<times> bool) list"
    by (rule collect_res_Inr) auto
  then show ?thesis unfolding retier_page_def merge_page_rows [OF s] by simp
qed

lemma sorted_take_last:
  assumes "sorted_wrt (<) (map f xs)" "0 < n" "n \<le> length xs" "x \<in> set xs"
  shows "x \<in> set (take n xs) \<longleftrightarrow> f x \<le> (f (last (take n xs)) :: 'a::linorder)"
proof -
  have xs: "xs = take n xs @ drop n xs" by simp
  have ne: "take n xs \<noteq> []" using assms(2,3) by auto
  have sp: "sorted_wrt (<) (map f (take n xs) @ map f (drop n xs))"
    using assms(1) by (metis xs map_append)
  have lt: "f a < f b" if "a \<in> set (take n xs)" "b \<in> set (drop n xs)" for a b
    using sp that by (auto simp: sorted_wrt_append)
  have "f a \<le> f (last (take n xs))" if "a \<in> set (take n xs)" for a
  proof -
    have "sorted_wrt (<) (map f (butlast (take n xs)) @ [f (last (take n xs))])"
      using sp ne by (metis append_butlast_last_id list.simps(8,9) map_append sorted_wrt_append)
    moreover have "a \<in> set (butlast (take n xs)) \<or> a = last (take n xs)"
      using that ne by (metis append_butlast_last_id in_set_conv_decomp set_ConsD rotate1.simps(2) set_append Un_iff empty_iff empty_set)
    ultimately show ?thesis by (auto simp: sorted_wrt_append)
  qed
  moreover have "f (last (take n xs)) < f b" if "b \<in> set (drop n xs)" for b
    using lt last_in_set [OF ne] that by blast
  moreover have "x \<in> set (take n xs) \<or> x \<in> set (drop n xs)"
    using assms(4) by (metis xs Un_iff set_append)
  ultimately show ?thesis by force
qed

lemma retier_row_frame [simp]:
  "tier_lookup (s\<lparr>retier_row := x\<rparr>) k = tier_lookup s k"
  "store_inv (s\<lparr>retier_row := x\<rparr>) = store_inv s"
  "store_view (s\<lparr>retier_row := x\<rparr>) = store_view s"
proof -
  show t: "tier_lookup (s\<lparr>retier_row := x\<rparr>) k = tier_lookup s k" for k
    by (simp add: tier_lookup_def split: option.split)
  show "store_inv (s\<lparr>retier_row := x\<rparr>) = store_inv s" by (simp add: store_inv_def t)
  show "store_view (s\<lparr>retier_row := x\<rparr>) = store_view s" by (simp add: store_view_def t fun_eq_iff)
qed

lemma retier_load_target:
  "retier_load tip window s = Inr st \<Longrightarrow> rt_tip_height st = tip \<and> rt_hot_window_blocks st = window"
  by (auto simp: retier_load_def retier_state_new_def res_simps split: option.splits if_splits)

lemma page_facts:
  assumes s: "store_inv s"
  shows "\<forall>((k, v), b) \<in> set (take n (rows_after after s)). fmlookup (if b then hot s else cold s) k = Some v"
    "distinct (map (fst \<circ> fst) (take n (rows_after after s)))"
proof -
  show "\<forall>((k, v), b) \<in> set (take n (rows_after after s)). fmlookup (if b then hot s else cold s) k = Some v"
    by (auto simp: set_rows_after dest!: in_set_takeD)
  show "distinct (map (fst \<circ> fst) (take n (rows_after after s)))"
    using sorted_rows_after [OF s, of after] unfolding take_map [symmetric]
    by (intro distinct_take) (simp only: strict_sorted_iff)
qed

lemma row_classified:
  assumes s: "store_inv s" and set: "settled tip window after s"
    and fold: "try_fold (retier_row_step tip window) (st, s) (take n (rows_after after s)) = Inr (st', s')"
    and t: "tier_lookup s' k = Some v"
    and page: "beyond after (k, v) \<Longrightarrow> \<forall>b. ((k, v), b) \<in> set (rows_after after s) \<longrightarrow>
                 ((k, v), b) \<in> set (take n (rows_after after s))"
  shows "fmlookup (hot s') k \<noteq> None \<longleftrightarrow> belongs_hot tip window v"
proof -
  let ?page = "take n (rows_after after s)"
  note f = retier_fold_ok [OF s page_facts [OF s] fold]
  show ?thesis
  proof (cases "beyond after (k, v)")
    case True
    from t f have "tier_lookup s k = Some v" by simp
    with tier_lookup_row [OF s] obtain b where "fmlookup (if b then hot s else cold s) k = Some v" by blast
    with True have "((k, v), b) \<in> set (rows_after after s)" by (simp add: set_rows_after)
    with page [OF True] have "((k, v), b) \<in> set ?page" by blast
    with f show ?thesis by blast
  next
    case False
    have "k \<notin> (fst \<circ> fst) ` set ?page"
    proof
      assume "k \<in> (fst \<circ> fst) ` set ?page"
      then obtain w b where "((k, w), b) \<in> set ?page" by auto
      then have "beyond after (k, w)" using rows_after_lookup(2) [OF s] in_set_takeD by fast
      with False show False by (simp add: beyond_def split: option.splits)
    qed
    with f have "fmlookup (hot s') k = fmlookup (hot s) k" by blast
    moreover from t f have "tier_lookup s k = Some v" by simp
    ultimately show ?thesis using set False by (simp add: settled_def)
  qed
qed

text \<open>
  C23. One re-tiering batch changes no coin. When every row up to the saved cursor is in the tier its
  height gives it, a batch that reports completion leaves every row in that tier, and any other
  batch saves a cursor up to which that holds again, so that interrupted scans resume correctly.
\<close>

theorem retier_batch_correct:
  assumes s: "store_inv s" and load: "retier_load tip window s = Inr st"
    and set: "settled tip window (rt_after st) s"
    and run: "retier_by_height_batch tip window limit s = (Inr progress, s')"
  shows "store_inv s' \<and> store_view s' = store_view s
    \<and> (if prog_complete progress then all_settled tip window s'
       else \<exists>st'. retier_load tip window s' = Inr st' \<and> rt_after st' \<noteq> None
              \<and> settled tip window (rt_after st') s')"
proof -
  let ?rows = "rows_after (rt_after st) s"
  let ?page = "take limit ?rows"
  have lim: "limit \<noteq> 0" using run by (cases "limit = 0") (auto simp: retier_by_height_batch_def)
  show ?thesis
  proof (cases "?page = []")
    case True
    with lim have none: "set ?rows = {}" by simp
    have "\<not> beyond (rt_after st) (k, v)" if "tier_lookup s k = Some v" for k v
      using none that tier_lookup_row [OF s, of k v] by (auto simp: set_rows_after)
    with set have "all_settled tip window s" by (auto simp: all_settled_def settled_def)
    moreover have "s' = s\<lparr>retier_row := None\<rparr>" "prog_complete progress"
      using run True lim
      by (auto simp: retier_by_height_batch_def write_transaction_def load retier_page_eq [OF s]
          retier_state_progress_def)
    ultimately show ?thesis using s by (simp add: all_settled_def)
  next
    case False
    from run False lim obtain st1 s1 scanned a where
      fold: "try_fold (retier_row_step tip window) (st, s) ?page = Inr (st1, s1)"
      and a: "key_from_bytes (fst (fst (last ?page))) = Inr a"
      and comp: "prog_complete progress \<longleftrightarrow> length ?page < limit"
      and s': "s' = s1\<lparr>retier_row := (if length ?page < limit then None
          else Some (retier_state_encode (st1\<lparr>rt_scanned := scanned, rt_after := Some a\<rparr>)))\<rparr>"
      by (auto simp: retier_by_height_batch_def write_transaction_def load retier_page_eq [OF s]
          retier_finish_def res_simps Let_def retier_state_progress_def split: sum.splits)
    note f = retier_fold_ok [OF s page_facts [OF s] fold]
    note classified = row_classified [OF s set fold]
    have "all_settled tip window s'" if "length ?page < limit"
      using classified that by (simp add: all_settled_def s')
    moreover have "settled tip window (Some a) s'" if full: "\<not> length ?page < limit"
    proof -
      have full': "limit \<le> length ?rows" using full by (simp add: min_def split: if_splits)
      have key: "as_bytes a = fst (fst (last ?page))"
        using a by (auto simp: key_from_bytes_def split: if_splits)
      show ?thesis unfolding settled_def
      proof (intro allI impI)
        fix k v
        assume t: "tier_lookup s' k = Some v" and n: "\<not> beyond (Some a) (k, v)"
        have "k \<le> (fst \<circ> fst) (last ?page)" using n by (simp add: beyond_def key not_less)
        then have "\<forall>b. ((k, v), b) \<in> set ?rows \<longrightarrow> ((k, v), b) \<in> set ?page"
          using sorted_take_last [OF sorted_rows_after [OF s] _ full', of "((k, v), _)"] lim by auto
        with classified [of k v] t show "fmlookup (hot s') k \<noteq> None \<longleftrightarrow> belongs_hot tip window v"
          by (simp add: s')
      qed
    qed
    moreover have "retier_load tip window s' = Inr (st1\<lparr>rt_scanned := scanned, rt_after := Some a\<rparr>)"
      if "\<not> length ?page < limit"
    proof -
      have "valid_key a" using a by (auto simp: key_from_bytes_def valid_key_def split: if_splits)
      then show ?thesis
        using that f retier_load_target [OF load]
          retier_state_decode_encode [of "st1\<lparr>rt_scanned := scanned, rt_after := Some a\<rparr>"]
        by (simp add: retier_load_def s')
    qed
    ultimately show ?thesis using f comp by (auto simp: s')
  qed
qed

section \<open>Parallel reads\<close>

lemma get_many_serial_view:
  "store_inv s \<Longrightarrow> get_many_serial s ks = Inr (map (\<lambda>k. (k, store_view s k)) ks)"
  unfolding get_many_serial_def by (rule collect_res_Inr) (simp add: store_get_view)

lemma sort_by_index:
  assumes "set ys = set xs" "distinct (map f ys)" "distinct (map f xs)" "sorted (map f xs)"
  shows "sort_key f ys = (xs :: 'a list)"
proof (rule map_sorted_distinct_set_unique)
  show "inj_on f (set (sort_key f ys) \<union> set xs)" using assms by (simp add: distinct_map)
  show "distinct (map f (sort_key f ys))"
    using assms(2) by (simp add: distinct_map distinct_sort)
qed (use assms in simp_all)

lemma div_ceil_pos: "0 < n \<Longrightarrow> 0 < d \<Longrightarrow> 0 < div_ceil n d"
  by (simp add: div_ceil_def div_greater_zero_iff)

text \<open>
  Whatever the number of workers, the parallel reader returns what the serial one does: every
  requested outpoint, in the caller's order and with its repetitions, with its coin or nothing.
\<close>

theorem get_many_correct:
  assumes s: "store_inv s"
  shows "get_many available_workers s ks = Inr (map (\<lambda>k. (k, store_view s k)) ks)
    \<and> get_many_serial s ks = Inr (map (\<lambda>k. (k, store_view s k)) ks)"
proof -
  let ?n = "length ks"
  let ?w = "min available_workers (div_ceil ?n min_parallel_prefetch_keys)"
  let ?sl = "sort_key fst (zip ks [0..<?n])"
  let ?g = "\<lambda>(k, i). (i, k, store_view s k)"
  have "get_many available_workers s ks = Inr (map (\<lambda>k. (k, store_view s k)) ks)" if w: "\<not> ?w \<le> 1"
  proof -
    have "0 < ?n" using w by (auto simp: div_ceil_def min_parallel_prefetch_keys_def)
    then have "0 < length ?sl" by simp
    then have pos: "0 < div_ceil (length ?sl) ?w" by (intro div_ceil_pos) (use w in linarith)+
    have "collect_res (get_many_sorted_serial s) (chunks (div_ceil (length ?sl) ?w) ?sl)
        = Inr (map (map ?g) (chunks (div_ceil (length ?sl) ?w) ?sl))"
      unfolding get_many_sorted_serial_def
      by (rule collect_res_concat) (auto simp: store_get_view [OF s])
    moreover have "concat (map (map ?g) (chunks (div_ceil (length ?sl) ?w) ?sl)) = map ?g ?sl"
      using pos by (simp flip: map_concat)
    moreover have "sort_key fst (map ?g ?sl) = map ?g (zip ks [0..<?n])"
    proof (rule sort_by_index)
      have idx: "map fst (map ?g xs) = map snd xs" for xs :: "(out_point_key \<times> nat) list" by auto
      show "distinct (map fst (map ?g ?sl))" unfolding idx
        by (simp add: distinct_map distinct_sort set_zip inj_on_def distinct_zipI2) force
      show "distinct (map fst (map ?g (zip ks [0..<?n])))" unfolding idx by simp
      show "sorted (map fst (map ?g (zip ks [0..<?n])))" unfolding idx by simp
    qed simp
    moreover have "map snd (map ?g (zip ks [0..<?n])) = map (\<lambda>k. (k, store_view s k)) ks"
      by (rule nth_equalityI) auto
    ultimately show ?thesis using w by (simp add: get_many_def Let_def)
  qed
  then show ?thesis
    using get_many_serial_view [OF s] by (cases "?w \<le> 1") (auto simp: get_many_def)
qed

section \<open>Replacing the set\<close>

lemma map_of_fmap_entries [simp]: "map_of (fmap_entries m) = fmlookup m"
proof
  fix k
  have "map_of (map (\<lambda>k. (k, the (fmlookup m k))) ks) k = (if k \<in> set ks then Some (the (fmlookup m k)) else None)"
    for ks by (induction ks) auto
  then show "map_of (fmap_entries m) k = fmlookup m k"
    by (auto simp: fmap_entries_def fmlookup_dom_iff)
qed

lemma fmap_entries_keys: "map fst (fmap_entries m) = sorted_list_of_fset (fmdom m)"
  by (simp add: fmap_entries_def comp_def)

lemma set_fmap_entries: "set (fmap_entries m) = {(k, v). fmlookup m k = Some v}"
  by (auto simp: fmap_entries_def fmlookup_dom_iff image_iff)

lemma distinct_fmap_entries: "distinct (map fst (fmap_entries m))"
  by (simp add: fmap_entries_keys sorted_list_of_fset.rep_eq)

text \<open>
  Replacing the set succeeds for every storable map, whatever the tables held and however the
  coins are aged, and leaves exactly that map.
\<close>

theorem replace_all_correct:
  assumes "\<And>k u. fmlookup entries k = Some u \<Longrightarrow> row_ok (k, u)"
  shows "\<exists>s'. replace_all entries now window s = (Inr (), s') \<and> store_inv s' \<and> store_view s' = fmlookup entries"
proof -
  let ?e = "s\<lparr>hot := fmempty, cold := fmempty\<rparr>"
  have e: "store_inv ?e" "store_view ?e = (\<lambda>_. None)"
    by (auto simp: store_inv_def store_view_def tier_lookup_def)
  have "\<forall>r \<in> set (fmap_entries entries). row_ok r"
    using assms by (auto simp: set_fmap_entries)
  from put_rows_fold [OF e(1) this distinct_fmap_entries, of "saturating_sub now window"] e(2)
  show ?thesis by (auto simp: replace_all_def replace_all_transaction_def write_transaction_def)
qed

section \<open>Committing a net transition\<close>

lemma drop_one_tier:
  "store_inv s \<Longrightarrow> fmlookup (hot s) (as_bytes k) \<noteq> None \<Longrightarrow>
     s\<lparr>hot := fmdrop (as_bytes k) (hot s)\<rparr> = drop_row k s"
  "fmlookup (hot s) (as_bytes k) = None \<Longrightarrow> s\<lparr>cold := fmdrop (as_bytes k) (cold s)\<rparr> = drop_row k s"
proof -
  assume "store_inv s" "fmlookup (hot s) (as_bytes k) \<noteq> None"
  then have "fmdrop (as_bytes k) (cold s) = cold s"
    using store_inv_disjoint [of s "as_bytes k"] by (intro fmap_ext) auto
  then show "s\<lparr>hot := fmdrop (as_bytes k) (hot s)\<rparr> = drop_row k s" by (simp add: drop_row_def)
next
  assume "fmlookup (hot s) (as_bytes k) = None"
  then have "fmdrop (as_bytes k) (hot s) = hot s" by (intro fmap_ext) auto
  then show "s\<lparr>cold := fmdrop (as_bytes k) (cold s)\<rparr> = drop_row k s" by (simp add: drop_row_def)
qed

lemma remove_validated_spec:
  assumes s: "store_inv s" and ce: "ce \<longrightarrow> fmdom (cold s) = {||}"
  shows "remove_validated ce k s
    = (if store_view s k = None then Err (Missing k) else Ok (drop_row k s))"
proof -
  have c: "fmlookup (cold s) b = None" if ce for b
    using ce that by (metis fempty_iff fmdomI not_None_eq)
  have d: "fmlookup (cold s) (as_bytes k) = None" if "fmlookup (hot s) (as_bytes k) \<noteq> None"
    using store_inv_disjoint [OF s, of "as_bytes k"] that by auto
  show ?thesis
    unfolding remove_validated_def store_view_None_rows [OF s]
    using c d drop_one_tier(1) [OF s, of k] drop_one_tier(2) [of s k] by auto
qed

lemma insert_validated_spec:
  assumes s: "store_inv s" and ce: "ce \<longrightarrow> fmdom (cold s) = {||}" and r: "row_ok (k, u)"
  shows "store_view s k = None \<Longrightarrow>
      \<exists>s'. insert_validated ce k u b s = Inr s' \<and> store_inv s' \<and> store_view s' = (store_view s)(k \<mapsto> u)
        \<and> cold s' = cold s"
    "store_view s k \<noteq> None \<Longrightarrow> insert_validated ce k u False s = Err (Duplicate k)"
proof -
  have c: "fmlookup (cold s) b = None" if ce for b
    using ce that by (metis fempty_iff fmdomI not_None_eq)
  from row_ok_encode [OF r] obtain v where v: "utxo_encode u = Inr v" ..
  have k: "valid_key k" using r by (simp add: row_ok_def)
  show "\<exists>s'. insert_validated ce k u b s = Inr s' \<and> store_inv s' \<and> store_view s' = (store_view s)(k \<mapsto> u)
        \<and> cold s' = cold s" if "store_view s k = None"
    using put_rows(1,2) [OF s that k v] that v by (simp add: insert_validated_def store_view_None_rows [OF s])
  show "insert_validated ce k u False s = Err (Duplicate k)" if "store_view s k \<noteq> None"
    using that v c by (auto simp: insert_validated_def store_view_None_rows [OF s])
qed

definition transition_ok :: "coins \<Rightarrow> out_point_key list \<Rightarrow> coin_row list \<Rightarrow> bool" where
  "transition_ok v spent created \<longleftrightarrow>
     (\<forall>k \<in> set spent. v k \<noteq> None) \<and> (\<forall>k \<in> fst ` set created. k \<in> set spent \<or> v k = None)"

lemma coins_after_remove: "coins_after v (k # ks) cs = coins_after (v(k := None)) ks cs"
  by (auto simp: coins_after_def map_add_def restrict_map_def fun_eq_iff split: option.split)

lemma coins_after_insert:
  "c \<notin> set ks \<Longrightarrow> c \<notin> fst ` set cs \<Longrightarrow> coins_after v ks ((c, u) # cs) = coins_after (v(c \<mapsto> u)) ks cs"
  using map_of_eq_None_iff [of cs c]
  by (auto simp: coins_after_def map_add_def restrict_map_def fun_eq_iff split: option.split)

definition commits :: "coins \<Rightarrow> out_point_key list \<Rightarrow> coin_row list \<Rightarrow> utxo_error + utxo_tables \<Rightarrow> bool" where
  "commits v ks cs out \<longleftrightarrow>
     (if transition_ok v ks cs
      then \<exists>s'. out = Inr s' \<and> store_inv s' \<and> store_view s' = coins_after v ks cs
      else \<exists>e. out = Inl e)"

lemma commits_remove:
  assumes s: "store_inv s" "ce \<longrightarrow> fmdom (cold s) = {||}" and k: "k \<notin> set ks" "k \<notin> fst ` set cs"
    and f: "store_inv (drop_row k s) \<Longrightarrow> ce \<longrightarrow> fmdom (cold (drop_row k s)) = {||}
        \<Longrightarrow> commits (store_view (drop_row k s)) ks cs (f (drop_row k s))"
  shows "commits (store_view s) (k # ks) cs (bind_res (remove_validated ce k s) f)"
proof (cases "store_view s k")
  case None
  then show ?thesis using remove_validated_spec [OF s, of k] by (auto simp: commits_def transition_ok_def)
next
  case (Some u)
  have "ce \<longrightarrow> fmdom (cold (drop_row k s)) = {||}" using s(2) by (auto simp: drop_row_def)
  note f = f [OF store_inv_drop_row [OF s(1)] this, unfolded store_view_drop_row]
  have "transition_ok (store_view s) (k # ks) cs = transition_ok ((store_view s)(k := None)) ks cs"
    using k Some by (auto simp: transition_ok_def)
  then show ?thesis
    using f Some remove_validated_spec [OF s, of k] by (simp add: commits_def coins_after_remove)
qed

lemma commits_insert:
  assumes s: "store_inv s" "ce \<longrightarrow> fmdom (cold s) = {||}" and r: "row_ok (c, u)"
    and c: "c \<notin> set ks" "c \<notin> fst ` set cs"
    and f: "\<And>s'. store_inv s' \<Longrightarrow> ce \<longrightarrow> fmdom (cold s') = {||} \<Longrightarrow> commits (store_view s') ks cs (f s')"
  shows "commits (store_view s) ks ((c, u) # cs) (bind_res (insert_validated ce c u False s) f)"
proof (cases "store_view s c")
  case (Some w)
  then show ?thesis
    using insert_validated_spec(2) [OF s r] c by (auto simp: commits_def transition_ok_def)
next
  case None
  from insert_validated_spec(1) [OF s r None, of False] obtain s' where
    s': "insert_validated ce c u False s = Inr s'" "store_inv s'" "store_view s' = (store_view s)(c \<mapsto> u)"
      "cold s' = cold s" by blast
  have "transition_ok (store_view s) ks ((c, u) # cs) = transition_ok (store_view s') ks cs"
    using c None by (auto simp: transition_ok_def s'(3))
  moreover have "coins_after (store_view s) ks ((c, u) # cs) = coins_after (store_view s') ks cs"
    unfolding s'(3) by (rule coins_after_insert [OF c])
  ultimately show ?thesis using f [OF s'(2)] s' s(2) by (simp add: commits_def)
qed

lemma commits_replace:
  assumes s: "store_inv s" "ce \<longrightarrow> fmdom (cold s) = {||}" and r: "row_ok (k, u)"
    and k: "k \<notin> set ks" "k \<notin> fst ` set cs"
    and f: "\<And>s'. store_inv s' \<Longrightarrow> ce \<longrightarrow> fmdom (cold s') = {||} \<Longrightarrow> commits (store_view s') ks cs (f s')"
  shows "commits (store_view s) (k # ks) ((k, u) # cs)
    (bind_res (remove_validated ce k s) (\<lambda>s. bind_res (insert_validated ce k u True s) f))"
proof (cases "store_view s k")
  case None
  then show ?thesis using remove_validated_spec [OF s, of k] by (auto simp: commits_def transition_ok_def)
next
  case (Some w)
  let ?d = "drop_row k s"
  have "ce \<longrightarrow> fmdom (cold ?d) = {||}" using s(2) by (auto simp: drop_row_def)
  then have d: "store_inv ?d" "ce \<longrightarrow> fmdom (cold ?d) = {||}" "store_view ?d = (store_view s)(k := None)"
    using s(1) by (simp_all add: store_inv_drop_row store_view_drop_row)
  then have "store_view ?d k = None" by simp
  from insert_validated_spec(1) [OF d(1,2) r this, of True] obtain s' where
    s': "insert_validated ce k u True ?d = Inr s'" "store_inv s'" "store_view s' = (store_view s)(k \<mapsto> u)"
      "cold s' = cold ?d" using d(3) by auto
  have "transition_ok (store_view s) (k # ks) ((k, u) # cs) = transition_ok (store_view s') ks cs"
    using k Some by (auto simp: transition_ok_def s'(3))
  moreover have "coins_after (store_view s) (k # ks) ((k, u) # cs) = coins_after (store_view s') ks cs"
    unfolding s'(3) coins_after_remove coins_after_insert [OF k] by simp
  ultimately show ?thesis
    using f [OF s'(2)] s' d(2) Some remove_validated_spec [OF s, of k] by (simp add: commits_def)
qed

lemma merge_validated_spec:
  assumes "store_inv s" "ce \<longrightarrow> fmdom (cold s) = {||}" "\<forall>r \<in> set cs. row_ok r"
    "sorted_wrt (<) ks" "sorted_wrt (<) (map fst cs)"
  shows "commits (store_view s) ks cs (merge_validated ce ks cs s)"
  using assms
proof (induction ce ks cs s rule: merge_validated.induct)
  case (1 ce s)
  then show ?case by (auto simp: commits_def transition_ok_def coins_after_def restrict_map_def)
next
  case (2 ce k ks s)
  show ?case unfolding merge_validated.simps
    by (rule commits_remove [OF 2(2,3)]) (use 2 in auto)
next
  case (3 ce c u cs s)
  show ?case unfolding merge_validated.simps
    by (rule commits_insert [OF 3(2,3)]) (use 3 in auto)
next
  case (4 ce k ks c u cs s)
  show ?case
  proof (cases k c rule: linorder_cases)
    case less
    have "commits (store_view s) (k # ks) ((c, u) # cs)
        (bind_res (remove_validated ce k s) (merge_validated ce ks ((c, u) # cs)))"
      by (rule commits_remove [OF 4(4,5)]) (use less 4(1,6-) in auto)
    with less show ?thesis by simp
  next
    case equal
    have "commits (store_view s) (c # ks) ((c, u) # cs)
        (bind_res (remove_validated ce c s) (\<lambda>s. bind_res (insert_validated ce c u True s) (merge_validated ce ks cs)))"
      by (rule commits_replace [OF 4(4,5)]) (use equal 4(2,6-) in auto)
    with equal show ?thesis by simp
  next
    case greater
    have "commits (store_view s) (k # ks) ((c, u) # cs)
        (bind_res (insert_validated ce c u False s) (merge_validated ce (k # ks) cs))"
      by (rule commits_insert [OF 4(4,5)]) (use greater 4(3,6-) in auto)
    with greater show ?thesis by auto
  qed
qed

text \<open>
  C24. Committing a sorted net transition in one merged walk has the effect of applying it: it
  succeeds exactly when \<open>apply_with_undo\<close> on the same coins would, and then leaves the same coins.
\<close>

theorem apply_validated_changes_correct:
  assumes s: "store_inv s" and rows: "\<forall>r \<in> set created. row_ok r"
    and sorted: "sorted_wrt (<) spent" "sorted_wrt (<) (map fst created)"
  shows "case coins_apply (store_view s) spent created of
      Inl _ \<Rightarrow> \<exists>e. apply_validated_changes_transaction spent created s = Inl e
    | Inr (_, v) \<Rightarrow> \<exists>s'. apply_validated_changes_transaction spent created s = Inr s'
        \<and> store_inv s' \<and> store_view s' = v"
proof -
  have dist: "distinct spent" "distinct (map fst created)"
    using sorted strict_sorted_iff by blast+
  have c: "commits (store_view s) spent created (apply_validated_changes_transaction spent created s)"
    unfolding apply_validated_changes_transaction_def
    by (rule merge_validated_spec [OF s _ rows sorted]) simp
  have t: "transition_ok (store_view s) spent created \<longleftrightarrow> (\<exists>r. coins_apply (store_view s) spent created = Inr r)"
  proof
    assume t: "transition_ok (store_view s) spent created"
    let ?us = "map (\<lambda>k. (k, the (store_view s k))) spent"
    have "coins_apply (store_view s) spent created
        = Inr (\<lparr>undo_spent = ?us, undo_created = map fst created\<rparr>, coins_after (store_view s) spent created)"
      unfolding coins_apply_Inr_iff using t dist by (auto simp: transition_ok_def comp_def)
    then show "\<exists>r. coins_apply (store_view s) spent created = Inr r" by blast
  next
    assume "\<exists>r. coins_apply (store_view s) spent created = Inr r"
    then obtain undo v where "coins_apply (store_view s) spent created = Inr (undo, v)" by (metis prod.exhaust)
    note a' = coins_apply_Inr_iff [THEN iffD1, OF this]
    then have a: "map fst (undo_spent undo) = spent" "\<forall>(k, u) \<in> set (undo_spent undo). store_view s k = Some u"
      "\<forall>k \<in> fst ` set created. k \<in> set spent \<or> store_view s k = None"
      by simp_all
    from a(1,2) have "\<forall>k \<in> set spent. store_view s k \<noteq> None" by fastforce
    with a(3) show "transition_ok (store_view s) spent created" by (simp add: transition_ok_def)
  qed
  show ?thesis
  proof (cases "coins_apply (store_view s) spent created")
    case (Inl e)
    with t c show ?thesis by (simp add: commits_def)
  next
    case (Inr r)
    obtain undo v where r: "r = (undo, v)" by force
    with Inr have "v = coins_after (store_view s) spent created"
      using coins_apply_Inr_iff [THEN iffD1, of "store_view s" spent created undo v] by simp
    with t c Inr r show ?thesis by (simp add: commits_def)
  qed
qed

section \<open>Loading a snapshot stream\<close>

definition record_bytes :: "coin_row \<Rightarrow> bytes" where
  "record_bytes r = as_bytes (fst r) @ (case utxo_encode (snd r) of Inr bs \<Rightarrow> bs | Inl _ \<Rightarrow> [])"

lemma utxo_encode_row_ok: "utxo_encode u = Inr bs \<Longrightarrow> valid_key k \<Longrightarrow> row_ok (k, u)"
  by (auto simp: row_ok_def utxo_encode_def utxo_encode_into_def res_simps checked_arith)

lemma load_fold:
  assumes "try_fold (load_snapshot_entry ec er cutoff) ld entries = Inr ld'"
    and "store_inv (ld_tables ld)" "\<forall>k u. Inr (k, u) \<in> set entries \<longrightarrow> valid_key k"
    and "\<forall>k. store_view (ld_tables ld) k \<noteq> None \<longrightarrow> (\<exists>p. ld_previous ld = Some p \<and> k \<le> p)"
  shows "\<exists>rows. entries = map Inr rows \<and> sorted_wrt (<) (map fst rows)
    \<and> (\<forall>p. ld_previous ld = Some p \<longrightarrow> (\<forall>r \<in> set rows. p < fst r))
    \<and> unat (ld_count ld') = unat (ld_count ld) + length rows
    \<and> unat (ld_records_bytes ld') = unat (ld_records_bytes ld) + length (concat (map record_bytes rows))
    \<and> ld_records ld' = ld_records ld @ concat (map record_bytes rows)
    \<and> ld_utxo_set ld' = ld_utxo_set ld @ concat (map (\<lambda>r. utxo_set_digest_bytes (as_bytes (fst r)) (snd r)) rows)
    \<and> store_inv (ld_tables ld') \<and> store_view (ld_tables ld') = store_view (ld_tables ld) ++ map_of rows
    \<and> (rows \<noteq> [] \<longrightarrow> ld_count ld' \<le> ec \<and> ld_records_bytes ld' \<le> er)"
  using assms
proof (induction entries arbitrary: ld)
  case (Cons e entries)
  from Cons.prems(1) obtain ld1 where step: "load_snapshot_entry ec er cutoff ld e = Inr ld1"
    and rest: "try_fold (load_snapshot_entry ec er cutoff) ld1 entries = Inr ld'"
    by (auto simp: res_simps)
  from step obtain k u where e: "e = Inr (k, u)" by (cases e) (auto simp: load_snapshot_entry_def)
  from step e obtain enc s1 count bytes where enc: "utxo_encode u = Inr enc"
    and ord: "\<forall>p. ld_previous ld = Some p \<longrightarrow> p < k"
    and put: "put_row cutoff k u (ld_tables ld) = Inr s1"
    and count: "checked_add (ld_count ld) 1 = Some count"
    and bytes: "checked_add (ld_records_bytes ld) (word_of_nat (36 + length enc)) = Some bytes"
    and small: "count \<le> ec" "bytes \<le> er"
    and ld1: "ld1 = \<lparr>ld_previous = Some k, ld_count = count, ld_records_bytes = bytes,
        ld_records = ld_records ld @ as_bytes k @ enc,
        ld_utxo_set = ld_utxo_set ld @ utxo_set_digest_bytes (as_bytes k) u, ld_tables = s1\<rparr>"
    by (auto simp: load_snapshot_entry_def res_simps not_le not_less split: if_splits option.splits)
  have k: "valid_key k" using Cons.prems(3) e by simp
  have row: "row_ok (k, u)" by (rule utxo_encode_row_ok [OF enc k])
  have absent: "store_view (ld_tables ld) k = None"
  proof (rule ccontr)
    assume "store_view (ld_tables ld) k \<noteq> None"
    with Cons.prems(4) obtain p where "ld_previous ld = Some p" "k \<le> p" by blast
    with ord show False by auto
  qed
  from put_row_ok [OF Cons.prems(2) absent row, of cutoff] put
  have s1: "store_inv s1" "store_view s1 = (store_view (ld_tables ld))(k \<mapsto> u)" by auto
  have prev: "\<forall>k'. store_view (ld_tables ld1) k' \<noteq> None \<longrightarrow> (\<exists>p. ld_previous ld1 = Some p \<and> k' \<le> p)"
  proof (intro allI impI)
    fix k' assume "store_view (ld_tables ld1) k' \<noteq> None"
    then have "k' = k \<or> store_view (ld_tables ld) k' \<noteq> None" by (auto simp: ld1 s1(2))
    with Cons.prems(4) ord have "k' \<le> k" by (metis order.strict_implies_order order.trans order_refl)
    then show "\<exists>p. ld_previous ld1 = Some p \<and> k' \<le> p" by (simp add: ld1)
  qed
  have enc_len: "length enc < 2 ^ 33"
    using enc by (auto simp: utxo_encode_def utxo_encode_into_def res_simps checked_arith)
  have w: "unat (word_of_nat (36 + length enc) :: u64) = 36 + length enc"
    unfolding unat_of_nat using enc_len by (simp add: take_bit_nat_eq_self)
  have inc: "unat count = unat (ld_count ld) + 1"
    "unat bytes = unat (ld_records_bytes ld) + (36 + length enc)"
    using conjunct2 [OF checked_add_Some [THEN iffD1, OF count]]
      conjunct2 [OF checked_add_Some [THEN iffD1, OF bytes]] unfolding w by simp_all
  obtain rows where rows: "entries = map Inr rows" "sorted_wrt (<) (map fst rows)"
    "\<forall>r \<in> set rows. k < fst r"
    "unat (ld_count ld') = unat count + length rows"
    "unat (ld_records_bytes ld') = unat bytes + length (concat (map record_bytes rows))"
    "ld_records ld' = ld_records ld1 @ concat (map record_bytes rows)"
    "ld_utxo_set ld' = ld_utxo_set ld1 @ concat (map (\<lambda>r. utxo_set_digest_bytes (as_bytes (fst r)) (snd r)) rows)"
    "store_inv (ld_tables ld')" "store_view (ld_tables ld') = store_view s1 ++ map_of rows"
    "rows \<noteq> [] \<longrightarrow> ld_count ld' \<le> ec \<and> ld_records_bytes ld' \<le> er"
    using Cons.IH [OF rest _ _ prev] Cons.prems(3) s1(1) by (auto simp: ld1)
  have rb: "record_bytes (k, u) = as_bytes k @ enc" by (simp add: record_bytes_def enc)
  have kl: "length (as_bytes k) = 36" using k by (simp add: valid_key_def)
  have "k \<notin> fst ` set rows" using rows(3) by auto
  then have view: "store_view (ld_tables ld') = store_view (ld_tables ld) ++ map_of ((k, u) # rows)"
    unfolding rows(9) s1(2) by (rule map_upd_add_map_of)
  have last: "ld_count ld' \<le> ec \<and> ld_records_bytes ld' \<le> er"
  proof (cases rows)
    case Nil
    then have "ld' = ld1" using rest rows(1) by simp
    with small show ?thesis by (simp add: ld1)
  qed (use rows(10) in simp)
  show ?case
    using rows(1-8) view last inc ord e rb kl
    by (intro exI [of _ "(k, u) # rows"]) (auto simp: ld1 simp del: map_of.simps)
qed simp

text \<open>
  A snapshot stream that loads into empty tables was strictly ordered and free of read errors,
  stays within the authenticated counts, leaves exactly its coins, and is reported with the
  digests of its canonical records and of its consensus fields.
\<close>

theorem insert_snapshot_entries_correct:
  assumes s: "store_inv s" "tables_empty_transaction s"
    and keys: "\<forall>k u. Inr (k, u) \<in> set entries \<longrightarrow> valid_key k"
    and run: "insert_snapshot_entries_transaction sha256 entries expected_count expected_bytes now window s
       = Inr ((count, len, records, utxo_set), s')"
  shows "\<exists>rows. entries = map Inr rows \<and> sorted_wrt (<) (map fst rows)
    \<and> store_inv s' \<and> store_view s' = map_of rows
    \<and> unat count = length rows \<and> count \<le> expected_count
    \<and> unat len = length (concat (map record_bytes rows)) \<and> len \<le> expected_bytes
    \<and> records = sha256 (concat (map record_bytes rows))
    \<and> utxo_set = sha256 (concat (map (\<lambda>r. utxo_set_digest_bytes (as_bytes (fst r)) (snd r)) rows))"
proof -
  have h: "hot s = fmempty" "cold s = fmempty"
    using s(2) by (auto simp: tables_empty_transaction_def intro!: fmap_ext)
      (metis fempty_iff fmdomI not_None_eq)+
  then have empty: "store_view s = (\<lambda>_. None)"
    by (auto simp: store_view_def tier_lookup_def)
  from run obtain ld where
    f: "try_fold (load_snapshot_entry expected_count expected_bytes (saturating_sub now window))
      \<lparr>ld_previous = None, ld_count = 0, ld_records_bytes = 0, ld_records = [], ld_utxo_set = [], ld_tables = s\<rparr>
      entries = Inr ld"
    and out: "count = ld_count ld" "len = ld_records_bytes ld" "records = sha256 (ld_records ld)"
      "utxo_set = sha256 (ld_utxo_set ld)" "s' = ld_tables ld"
    by (auto simp: insert_snapshot_entries_transaction_def res_simps)
  from load_fold [OF f] s(1) keys empty obtain rows where
    r: "entries = map Inr rows" "sorted_wrt (<) (map fst rows)"
      "unat (ld_count ld) = length rows"
      "unat (ld_records_bytes ld) = length (concat (map record_bytes rows))"
      "ld_records ld = concat (map record_bytes rows)"
      "ld_utxo_set ld = concat (map (\<lambda>r. utxo_set_digest_bytes (as_bytes (fst r)) (snd r)) rows)"
      "store_inv (ld_tables ld)" "store_view (ld_tables ld) = map_of rows"
      "rows \<noteq> [] \<longrightarrow> ld_count ld \<le> expected_count \<and> ld_records_bytes ld \<le> expected_bytes"
    by auto
  have "ld_count ld \<le> expected_count \<and> ld_records_bytes ld \<le> expected_bytes"
  proof (cases "rows = []")
    case True
    then have "unat (ld_count ld) = 0" "unat (ld_records_bytes ld) = 0" using r(3,4) by simp_all
    then show ?thesis by (simp add: word_le_nat_alt)
  qed (use r(9) in simp)
  with r(1-8) show ?thesis unfolding out by (intro exI [of _ rows]) simp
qed

section \<open>The contract, written out\<close>

text \<open>
  C5. \<open>apply_with_undo\<close> on the durable store has exactly the outcome of the abstract mutation on
  its coins: the same first error with nothing changed, or the same undo record and the coins
  removed and added, with the tier invariant kept.
\<close>

theorem store_apply_refines:
  assumes "store_inv s" "\<forall>r \<in> set created. row_ok r"
  shows "case coins_apply (store_view s) spent created of
      Inl e \<Rightarrow> store_apply_with_undo spent created s = (Inl e, s)
    | Inr (undo, v) \<Rightarrow> \<exists>s'. store_apply_with_undo spent created s = (Inr undo, s')
        \<and> store_inv s' \<and> store_view s' = v"
  using apply_with_undo_transaction_spec [OF assms, of spent]
  by (auto simp: store_apply_with_undo_def write_transaction_def split: sum.splits)

text \<open>
  C6. Undoing a mutation of the durable store restores its coins, also when the mutation recreated
  an outpoint it spent, and whatever ageing window the undo uses.
\<close>

theorem store_apply_undo:
  assumes s: "store_inv s" and rows: "\<forall>r \<in> set created. row_ok r"
    and run: "store_apply_with_undo spent created s = (Inr undo, s')"
  shows "\<exists>s''. store_undo undo now window s' = (Inr (), s'') \<and> store_inv s'' \<and> store_view s'' = store_view s"
proof -
  from store_apply_implements [OF s rows, of spent] run obtain v where
    spec: "coins_apply (store_view s) spent created = Inr (undo, v)" and s': "store_inv s'" "store_view s' = v"
    by (auto simp: implements_def split: sum.splits)
  note a = coins_apply_Inr_iff [THEN iffD1, OF spec]
  have ok: "\<forall>r \<in> set (undo_spent undo). row_ok r"
    using store_coins_ok [OF s] a by (auto simp: coins_ok_def)
  have m: "map fst (undo_spent undo) = spent" using a by simp
  have sp: "fst ` set (undo_spent undo) = set spent" "undo_created undo = map fst created"
    using a by (simp_all flip: m)
  have "\<forall>k \<in> fst ` set (undo_spent undo). k \<in> set (undo_created undo) \<or> store_view s' k = None"
    unfolding sp s'(2) set_map using coins_apply_spent_gone [OF spec] by metis
  from store_undo_ok [OF s'(1) ok coins_apply_undo_distinct [OF spec] this, of now window]
  show ?thesis using coins_undo_apply [OF spec] s'(2) by auto
qed

section \<open>A concrete store\<close>

text \<open>One coin in each tier, used to exhibit the hypotheses above.\<close>

definition sample_key :: "u8 \<Rightarrow> out_point_key" where
  "sample_key n = OutPointKey (n # replicate 35 0)"

definition sample_coin :: "u64 \<Rightarrow> u32 \<Rightarrow> utxo" where
  "sample_coin touched height =
     \<lparr>value_sats = 5000000000, utxo_height = height, is_coinbase = True, last_touched = touched,
      creation_mtp = 7, script_pubkey = [0x51]\<rparr>"

definition sample_store :: utxo_tables where
  "sample_store =
     snd (store_undo \<lparr>undo_spent = [(sample_key 1, sample_coin 10 1), (sample_key 2, sample_coin 100 9)],
                      undo_created = []\<rparr> 60 10 (from_database new_file))"

lemma sample_key_valid [simp]: "valid_key (sample_key n)"
  by (simp add: sample_key_def valid_key_def)

lemma sample_key_eq [simp]: "sample_key a = sample_key b \<longleftrightarrow> a = b"
  by (simp add: sample_key_def)

lemma sample_key_less: "sample_key a < sample_key b \<longleftrightarrow> a < b"
  by (simp add: sample_key_def less_out_point_key_def)

lemma sample_row_ok [simp]: "row_ok (sample_key n, sample_coin t h)"
  by (simp add: row_ok_def sample_coin_def)

lemma sample_store_ok:
  "store_inv sample_store"
  "store_view sample_store = [sample_key 1 \<mapsto> sample_coin 10 1, sample_key 2 \<mapsto> sample_coin 100 9]"
proof -
  have "\<exists>s'. store_undo \<lparr>undo_spent = [(sample_key 1, sample_coin 10 1), (sample_key 2, sample_coin 100 9)],
        undo_created = []\<rparr> 60 10 (from_database new_file) = (Inr (), s') \<and> store_inv s'
    \<and> store_view s' = coins_undo (store_view (from_database new_file))
        \<lparr>undo_spent = [(sample_key 1, sample_coin 10 1), (sample_key 2, sample_coin 100 9)], undo_created = []\<rparr>"
    by (rule store_undo_ok) (simp_all add: store_inv_empty)
  then show "store_inv sample_store"
    "store_view sample_store = [sample_key 1 \<mapsto> sample_coin 10 1, sample_key 2 \<mapsto> sample_coin 100 9]"
    by (auto simp: sample_store_def coins_undo_def store_inv_empty)
qed

lemma sample_store_tables:
  "sample_store = \<lparr>hot = fmap_of_list [(as_bytes (sample_key 2), projr (utxo_encode (sample_coin 100 9)))],
     cold = fmap_of_list [(as_bytes (sample_key 1), projr (utxo_encode (sample_coin 10 1)))],
     retier_row = None\<rparr>"
  by (simp add: sample_store_def store_undo_def undo_transaction_def write_transaction_def
      from_database_def new_file_def put_row_def sample_coin_def utxo_encode_def utxo_encode_into_def u32_try_from_def
      saturating_sub_def)

lemma sample_decode: "utxo_decode (projr (utxo_encode (sample_coin t h))) = Inr (sample_coin t h)"
proof -
  obtain bs where "utxo_encode (sample_coin t h) = Inr bs"
    using row_ok_encode [OF sample_row_ok] by blast
  then show ?thesis using utxo_decode_encode by simp
qed

theorem store_apply_refines_witness:
  "\<exists>s'. store_apply_with_undo [sample_key 1] [(sample_key 3, sample_coin 101 10)] sample_store
      = (Inr \<lparr>undo_spent = [(sample_key 1, sample_coin 10 1)], undo_created = [sample_key 3]\<rparr>, s')
    \<and> store_inv s' \<and> store_view s' (sample_key 1) = None \<and> store_view s' (sample_key 3) = Some (sample_coin 101 10)"
  using store_apply_refines [OF sample_store_ok(1), of "[(sample_key 3, sample_coin 101 10)]" "[sample_key 1]"]
  by (auto simp: coins_apply_def sample_store_ok(2) coins_after_def)

theorem store_apply_undo_witness:
  "\<exists>undo s' s''. store_apply_with_undo [sample_key 1] [(sample_key 1, sample_coin 101 10)] sample_store = (Inr undo, s')
    \<and> store_undo undo 1000 10 s' = (Inr (), s'') \<and> store_view s'' = store_view sample_store"
proof -
  have "\<exists>undo s'. store_apply_with_undo [sample_key 1] [(sample_key 1, sample_coin 101 10)] sample_store = (Inr undo, s')"
    using store_apply_implements [OF sample_store_ok(1), of "[(sample_key 1, sample_coin 101 10)]" "[sample_key 1]"]
    by (auto simp: implements_def coins_apply_def sample_store_ok(2) prod_eq_iff)
  then obtain undo s' where
    run: "store_apply_with_undo [sample_key 1] [(sample_key 1, sample_coin 101 10)] sample_store = (Inr undo, s')"
    by blast
  from store_apply_undo [OF sample_store_ok(1) _ run, of 1000 10] run show ?thesis by auto
qed

theorem age_to_cold_correct_witness:
  "\<exists>n s'. age_to_cold 2000 100 sample_store = (Inr n, s') \<and> store_view s' = store_view sample_store
     \<and> fmlookup (hot s') (as_bytes (sample_key 2)) = None"
proof -
  have "\<not> young (saturating_sub 2000 100) (projr (utxo_encode (sample_coin 100 9)))"
    by (simp add: young_def sample_decode saturating_sub_def) (simp add: sample_coin_def)
  moreover have "fmlookup (hot sample_store) (as_bytes (sample_key 2)) = Some (projr (utxo_encode (sample_coin 100 9)))"
    by (simp add: sample_store_tables)
  ultimately show ?thesis
    using age_to_cold_correct [OF sample_store_ok(1), of 2000 100] by auto
qed

theorem snapshot_page_correct_witness:
  "\<exists>entries. snapshot_page sample_store (Some (sample_key 1)) 5 = Inr (take 5 entries)
    \<and> set entries = {(sample_key 2, sample_coin 100 9)}"
  using snapshot_page_correct [OF sample_store_ok(1), of "Some (sample_key 1)" 5]
  by (auto simp: coins_after_key_def sample_store_ok(2) sample_key_less split: if_splits) 

theorem snapshot_entries_correct_witness:
  "\<exists>m. snapshot_entries sample_store = Inr m \<and> fmlookup m (sample_key 2) = Some (sample_coin 100 9)"
  using snapshot_entries_correct [OF sample_store_ok(1)] by (auto simp: sample_store_ok(2))

theorem get_many_correct_witness:
  "get_many 8 sample_store [sample_key 2, sample_key 7, sample_key 2]
     = Inr [(sample_key 2, Some (sample_coin 100 9)), (sample_key 7, None), (sample_key 2, Some (sample_coin 100 9))]"
  using get_many_correct [OF sample_store_ok(1), of 8 "[sample_key 2, sample_key 7, sample_key 2]"]
  by (simp add: sample_store_ok(2))

theorem replace_all_correct_witness:
  "\<exists>s'. replace_all (fmap_of_list [(sample_key 5, sample_coin 1 1)]) 100 10 sample_store = (Inr (), s')
    \<and> store_view s' = [sample_key 5 \<mapsto> sample_coin 1 1]"
proof -
  have "row_ok (k, u)" if "fmlookup (fmap_of_list [(sample_key 5, sample_coin 1 1)]) k = Some u" for k u
    using that by (auto split: if_splits)
  with replace_all_correct [of "fmap_of_list [(sample_key 5, sample_coin 1 1)]" 100 10 sample_store]
  show ?thesis by (auto simp: fun_eq_iff)
qed

theorem apply_validated_changes_correct_witness:
  "\<exists>s'. apply_validated_changes_transaction [sample_key 1] [(sample_key 3, sample_coin 101 10)] sample_store = Inr s'
    \<and> store_view s' (sample_key 1) = None \<and> store_view s' (sample_key 3) = Some (sample_coin 101 10)"
  using apply_validated_changes_correct [OF sample_store_ok(1),
      of "[(sample_key 3, sample_coin 101 10)]" "[sample_key 1]"]
  by (auto simp: coins_apply_def sample_store_ok(2) coins_after_def)

theorem retier_batch_correct_witness:
  "\<exists>progress s'. retier_by_height_batch 10 20 5 sample_store = (Inr progress, s')
    \<and> prog_moved_to_hot progress = 1 \<and> store_view s' = store_view sample_store \<and> all_settled 10 20 s'"
proof -
  have "fst (retier_by_height_batch 10 20 5 sample_store)
      = Inr \<lparr>prog_scanned = 2, prog_moved_to_hot = 1, prog_moved_to_cold = 0, prog_complete = True\<rparr>"
    unfolding sample_store_tables by code_simp
  then obtain s' where run: "retier_by_height_batch 10 20 5 sample_store
      = (Inr \<lparr>prog_scanned = 2, prog_moved_to_hot = 1, prog_moved_to_cold = 0, prog_complete = True\<rparr>, s')"
    by (metis prod.collapse)
  have load: "retier_load 10 20 sample_store = Inr (retier_state_new 10 20)"
    by (simp add: retier_load_def sample_store_tables)
  have "settled 10 20 (rt_after (retier_state_new 10 20)) sample_store"
    by (simp add: settled_def retier_state_new_def beyond_def)
  from retier_batch_correct [OF sample_store_ok(1) load this run] run show ?thesis by simp
qed

theorem insert_snapshot_entries_correct_witness:
  "\<exists>count len records utxo_set s'.
     insert_snapshot_entries_transaction (\<lambda>b. b) [Inr (sample_key 1, sample_coin 5 1), Inr (sample_key 2, sample_coin 6 1)]
       2 200 0 0 (from_database new_file) = Inr ((count, len, records, utxo_set), s')
     \<and> unat count = 2 \<and> store_view s' (sample_key 2) = Some (sample_coin 6 1)"
proof -
  let ?run = "insert_snapshot_entries_transaction (\<lambda>b. b)
      [Inr (sample_key 1, sample_coin 5 1), Inr (sample_key 2, sample_coin 6 1)] 2 200 0 0 (from_database new_file)"
  have "\<not> isl ?run" by code_simp
  then obtain count len records utxo_set s' where run: "?run = Inr ((count, len, records, utxo_set), s')"
    by (metis prod.collapse sum.collapse(2))
  have "tables_empty_transaction (from_database new_file)" by (simp add: tables_empty_transaction_def from_database_def new_file_def)
  from insert_snapshot_entries_correct [OF store_inv_empty(1) this _ run] run show ?thesis by (auto simp: Cons_eq_map_conv)
qed

end
