(* ===== verification/Execution_Store.thy ===== *)
theory Execution_Store
  imports Utxo_Store
begin

text \<open>
  The durable execution metadata of \<open>src/src/execution_store.rs\<close>: the active-chain
  tip, the network and consensus identity of the database, the assumed snapshot
  awaiting validation and the validation ceiling. The redb table is a finite map
  from names to byte strings. The operations are steps of a state machine whose
  invariant says that the tip never passes the ceiling.
\<close>

type_synonym meta = "(string, bytes) fmap"

definition genesis_key :: string where "genesis_key = ''genesis''"
definition tip_key :: string where "tip_key = ''tip''"
definition consensus_config_key :: string where "consensus_config_key = ''consensus_config''"
definition assumed_snapshot_base_key :: string where
  "assumed_snapshot_base_key = ''assumed_snapshot_base''"
definition assumed_snapshot_records_key :: string where
  "assumed_snapshot_records_key = ''assumed_snapshot_records_sha256''"
definition assumed_snapshot_count_key :: string where
  "assumed_snapshot_count_key = ''assumed_snapshot_utxo_count''"
definition assumed_snapshot_bytes_key :: string where
  "assumed_snapshot_bytes_key = ''assumed_snapshot_records_bytes''"
definition assumed_snapshot_utxo_set_key :: string where
  "assumed_snapshot_utxo_set_key = ''assumed_snapshot_utxo_set_sha256''"
definition snapshot_origin_key :: string where "snapshot_origin_key = ''snapshot_origin''"
definition validation_target_key :: string where "validation_target_key = ''validation_target''"

lemmas key_defs = genesis_key_def tip_key_def consensus_config_key_def assumed_snapshot_base_key_def
  assumed_snapshot_records_key_def assumed_snapshot_count_key_def assumed_snapshot_bytes_key_def
  assumed_snapshot_utxo_set_key_def snapshot_origin_key_def validation_target_key_def

record execution_tip =
  tip_height :: u32
  tip_hash :: hash256

record assumed_snapshot =
  as_base :: execution_tip
  as_utxo_count :: u64
  as_records_bytes :: u64
  as_records_sha256 :: bytes
  as_utxo_set_sha256 :: bytes

datatype execution_store_error =
    Exec_Malformed string
  | NetworkMismatch hash256 hash256
  | ConsensusConfigMismatch u32
  | NonSequential u32 hash256
  | SnapshotRequiresFreshChainstate
  | AssumedSnapshotChanged
  | ValidationTargetMismatch u32 hash256 u32 hash256
  | ValidationTargetExtensionUnbound
  | ValidationTargetExtensionIncomplete u32 hash256 u32 hash256
  | ValidationTargetExtensionNotForward u32 u32
  | ValidationTargetBehindTip u32 u32
  | ValidationTargetExceeded u32 u32
  | ValidationTargetOnAssumedChainstate

section \<open>Records\<close>

definition exec_decode_hash :: "bytes \<Rightarrow> string \<Rightarrow> execution_store_error + hash256" where
  "exec_decode_hash bs field =
     (if length bs = 32 then Ok (hash_from_bytes bs) else Err (Exec_Malformed field))"

definition exec_encode_tip :: "execution_tip \<Rightarrow> bytes" where
  "exec_encode_tip t = u32_to_le (tip_height t) @ hash_to_bytes (tip_hash t)"

definition exec_decode_tip :: "bytes \<Rightarrow> execution_store_error + execution_tip" where
  "exec_decode_tip bs =
     (if length bs \<noteq> 36 then Err (Exec_Malformed ''execution tip length'')
      else bind_res (exec_decode_hash (drop 4 bs) ''execution tip hash'') (\<lambda>h.
             Ok \<lparr>tip_height = u32_from_le (take 4 bs), tip_hash = h\<rparr>))"

definition decode_u64 :: "bytes \<Rightarrow> string \<Rightarrow> execution_store_error + u64" where
  "decode_u64 bs field =
     (if length bs = 8 then Ok (u64_from_le bs) else Err (Exec_Malformed field))"

definition decode_digest :: "bytes \<Rightarrow> string \<Rightarrow> execution_store_error + bytes" where
  "decode_digest bs field = (if length bs = 32 then Ok bs else Err (Exec_Malformed field))"

definition transpose_res :: "('e + 'a) option \<Rightarrow> 'e + 'a option" where
  "transpose_res v = (case v of None \<Rightarrow> Ok None | Some r \<Rightarrow> bind_res r (\<lambda>x. Ok (Some x)))"

definition decode_assumed_snapshot ::
  "meta \<Rightarrow> execution_store_error + assumed_snapshot option" where
  "decode_assumed_snapshot meta =
     (let base = fmlookup meta assumed_snapshot_base_key;
          digest = fmlookup meta assumed_snapshot_records_key;
          count = fmlookup meta assumed_snapshot_count_key;
          bytes = fmlookup meta assumed_snapshot_bytes_key;
          utxo_set = fmlookup meta assumed_snapshot_utxo_set_key;
          incomplete = Exec_Malformed ''incomplete assumed snapshot identity''
      in if base = None \<and> digest = None \<and> count = None \<and> bytes = None \<and> utxo_set = None
         then Ok None
         else
         bind_res (ok_or base incomplete) (\<lambda>base.
         bind_res (ok_or digest incomplete) (\<lambda>digest.
         bind_res (ok_or count incomplete) (\<lambda>count.
         bind_res (ok_or bytes incomplete) (\<lambda>bytes.
         bind_res (ok_or utxo_set incomplete) (\<lambda>utxo_set.
         bind_res (exec_decode_tip base) (\<lambda>base.
         bind_res (decode_digest digest ''assumed snapshot digest length'') (\<lambda>digest.
         bind_res (decode_u64 count ''assumed snapshot UTXO count'') (\<lambda>count.
         bind_res (decode_u64 bytes ''assumed snapshot records length'') (\<lambda>bytes.
         bind_res (decode_digest utxo_set ''assumed snapshot UTXO-set digest length'') (\<lambda>utxo_set.
           Ok (Some \<lparr>as_base = base, as_utxo_count = count, as_records_bytes = bytes,
                     as_records_sha256 = digest, as_utxo_set_sha256 = utxo_set\<rparr>))))))))))))"

section \<open>Reading\<close>

definition read_tip :: "meta \<Rightarrow> execution_store_error + execution_tip" where
  "read_tip meta =
     bind_res (ok_or (fmlookup meta tip_key) (Exec_Malformed ''missing execution tip'')) exec_decode_tip"

definition read_tip_at :: "string \<Rightarrow> meta \<Rightarrow> execution_store_error + execution_tip option" where
  "read_tip_at k meta = transpose_res (map_option exec_decode_tip (fmlookup meta k))"

definition assumed_snapshot_base :: "meta \<Rightarrow> execution_store_error + execution_tip option" where
  "assumed_snapshot_base meta =
     bind_res (decode_assumed_snapshot meta) (\<lambda>s. Ok (map_option as_base s))"

definition snapshot_origin :: "meta \<Rightarrow> execution_store_error + execution_tip option" where
  "snapshot_origin meta =
     bind_res (read_tip_at snapshot_origin_key meta) (\<lambda>origin.
       case origin of
         None \<Rightarrow> bind_res (decode_assumed_snapshot meta) (\<lambda>s. Ok (map_option as_base s))
       | Some t \<Rightarrow> Ok (Some t))"

definition read_consensus_config :: "meta \<Rightarrow> bytes option" where
  "read_consensus_config meta = fmlookup meta consensus_config_key"

definition validation_target :: "meta \<Rightarrow> execution_store_error + execution_tip option" where
  "validation_target meta = read_tip_at validation_target_key meta"

definition metadata_exists :: "meta \<Rightarrow> bool" where
  "metadata_exists meta \<longleftrightarrow> fmlookup meta genesis_key \<noteq> None"

section \<open>Opening and transitions\<close>

text \<open>
  Opening with the selected network's genesis hash. The result carries
  \<open>new_database\<close>, which \<open>bind_consensus_config\<close> reads later.
\<close>

definition exec_from_database ::
  "hash256 \<Rightarrow> (meta, execution_store_error, bool) st" where
  "exec_from_database expected = write_transaction (\<lambda>meta.
     case fmlookup meta genesis_key of
       Some value \<Rightarrow>
         bind_res (exec_decode_hash value ''genesis hash'') (\<lambda>stored.
           if stored \<noteq> expected then Err (NetworkMismatch stored expected)
           else if fmlookup meta tip_key = None then Err (Exec_Malformed ''missing execution tip'')
           else Ok (False, meta))
     | None \<Rightarrow>
         Ok (True, fmupd tip_key (exec_encode_tip \<lparr>tip_height = 0, tip_hash = expected\<rparr>)
                     (fmupd genesis_key (hash_to_bytes expected) meta)))"

definition bind_validation_target ::
  "execution_tip \<Rightarrow> (meta, execution_store_error, unit) st" where
  "bind_validation_target requested =
     (if tip_height requested = 0 then st_err (Exec_Malformed ''validation target cannot be genesis'')
      else write_transaction (\<lambda>meta.
        bind_res (decode_assumed_snapshot meta) (\<lambda>assumed.
        if assumed \<noteq> None then Err ValidationTargetOnAssumedChainstate
        else
        bind_res (read_tip meta) (\<lambda>tip.
        if tip_height requested < tip_height tip
        then Err (ValidationTargetBehindTip (tip_height requested) (tip_height tip))
        else
        bind_res (validation_target meta) (\<lambda>stored.
        bind_res
          (case stored of
             Some t \<Rightarrow>
               (if t \<noteq> requested
                then Err (ValidationTargetMismatch (tip_height t) (tip_hash t)
                            (tip_height requested) (tip_hash requested))
                else Ok meta)
           | None \<Rightarrow> Ok (fmupd validation_target_key (exec_encode_tip requested) meta))
          (\<lambda>meta.
             if tip_height tip = tip_height requested \<and> tip_hash tip \<noteq> tip_hash requested
             then Err (ValidationTargetMismatch (tip_height tip) (tip_hash tip)
                         (tip_height requested) (tip_hash requested))
             else Ok ((), meta)))))))"

definition extend_validation_target ::
  "execution_tip \<Rightarrow> (meta, execution_store_error, unit) st" where
  "extend_validation_target requested =
     (if tip_height requested = 0 then st_err (Exec_Malformed ''validation target cannot be genesis'')
      else write_transaction (\<lambda>meta.
        bind_res (decode_assumed_snapshot meta) (\<lambda>assumed.
        if assumed \<noteq> None then Err ValidationTargetOnAssumedChainstate
        else
        bind_res (validation_target meta) (\<lambda>stored.
        bind_res (ok_or stored ValidationTargetExtensionUnbound) (\<lambda>stored.
        if requested = stored then Ok ((), meta)
        else if tip_height requested \<le> tip_height stored
        then Err (ValidationTargetExtensionNotForward (tip_height stored) (tip_height requested))
        else
        bind_res (read_tip meta) (\<lambda>tip.
        if tip \<noteq> stored
        then Err (ValidationTargetExtensionIncomplete (tip_height stored) (tip_hash stored)
                    (tip_height tip) (tip_hash tip))
        else Ok ((), fmupd validation_target_key (exec_encode_tip requested) meta)))))))"

definition clear_completed_validation_target ::
  "execution_tip \<Rightarrow> (meta, execution_store_error, unit) st" where
  "clear_completed_validation_target expected = write_transaction (\<lambda>meta.
     bind_res (validation_target meta) (\<lambda>stored.
     bind_res (ok_or stored ValidationTargetExtensionUnbound) (\<lambda>stored.
     bind_res (read_tip_at tip_key meta) (\<lambda>tip.
     bind_res (ok_or tip (Exec_Malformed ''missing execution tip'')) (\<lambda>tip.
       if stored \<noteq> expected \<or> tip \<noteq> expected
       then Err (ValidationTargetMismatch (tip_height stored) (tip_hash stored)
                   (tip_height expected) (tip_hash expected))
       else Ok ((), fmdrop validation_target_key meta))))))"

definition bind_consensus_config ::
  "bool \<Rightarrow> bytes \<Rightarrow> bytes \<Rightarrow> bytes \<Rightarrow> (meta, execution_store_error, unit) st" where
  "bind_consensus_config new_database selected legacy_selected legacy_default =
     (if selected = [] \<or> legacy_selected = [] \<or> legacy_default = []
      then st_err (Exec_Malformed ''empty consensus configuration'')
      else write_transaction (\<lambda>meta.
        bind_res (read_tip meta) (\<lambda>tip.
        let stored = fmlookup meta consensus_config_key;
            compatible = (case stored of
               None \<Rightarrow> (new_database \<and> tip_height tip = 0) \<or> selected = legacy_default
             | Some s \<Rightarrow> s = selected \<or> s = legacy_selected)
        in if \<not> compatible then Err (ConsensusConfigMismatch (tip_height tip))
           else if stored \<noteq> Some selected
           then Ok ((), fmupd consensus_config_key selected meta)
           else Ok ((), meta))))"

definition advance_transaction ::
  "hash256 \<Rightarrow> execution_tip \<Rightarrow> meta \<Rightarrow> execution_store_error + (unit \<times> meta)" where
  "advance_transaction expected_parent next_tip meta =
     bind_res (read_tip meta) (\<lambda>current.
     if tip_hash current \<noteq> expected_parent
        \<or> checked_add (tip_height current) 1 \<noteq> Some (tip_height next_tip)
     then Err (NonSequential (tip_height current) (tip_hash current))
     else
     bind_res (validation_target meta) (\<lambda>target.
     bind_res
       (case target of
          None \<Rightarrow> Ok ()
        | Some target \<Rightarrow>
            (if tip_height target < tip_height next_tip
             then Err (ValidationTargetExceeded (tip_height target) (tip_height next_tip))
             else if tip_height next_tip = tip_height target \<and> tip_hash next_tip \<noteq> tip_hash target
             then Err (ValidationTargetMismatch (tip_height target) (tip_hash target)
                         (tip_height next_tip) (tip_hash next_tip))
             else Ok ()))
       (\<lambda>_. Ok ((), fmupd tip_key (exec_encode_tip next_tip) meta))))"

definition advance :: "hash256 \<Rightarrow> execution_tip \<Rightarrow> (meta, execution_store_error, unit) st" where
  "advance expected_parent next_tip = write_transaction (advance_transaction expected_parent next_tip)"

definition rewind_transaction ::
  "execution_tip \<Rightarrow> execution_tip \<Rightarrow> meta \<Rightarrow> execution_store_error + (unit \<times> meta)" where
  "rewind_transaction expected_current parent meta =
     bind_res (read_tip meta) (\<lambda>current.
     if current \<noteq> expected_current
        \<or> checked_add (tip_height parent) 1 \<noteq> Some (tip_height current)
     then Err (NonSequential (tip_height current) (tip_hash current))
     else Ok ((), fmupd tip_key (exec_encode_tip parent) meta))"

definition rewind :: "execution_tip \<Rightarrow> execution_tip \<Rightarrow> (meta, execution_store_error, unit) st" where
  "rewind expected_current parent = write_transaction (rewind_transaction expected_current parent)"

definition snapshot_marker_keys :: "string list" where
  "snapshot_marker_keys =
     [assumed_snapshot_base_key, assumed_snapshot_records_key, assumed_snapshot_count_key,
      assumed_snapshot_bytes_key, assumed_snapshot_utxo_set_key]"

definition assume_snapshot_transaction ::
  "assumed_snapshot \<Rightarrow> meta \<Rightarrow> execution_store_error + (unit \<times> meta)" where
  "assume_snapshot_transaction snapshot meta =
     (let anchor = as_base snapshot
      in if tip_height anchor = 0 then Err SnapshotRequiresFreshChainstate
         else
         bind_res (read_tip meta) (\<lambda>current.
         bind_res (ok_or (fmlookup meta genesis_key) (Exec_Malformed ''missing genesis hash'')) (\<lambda>g.
         bind_res (exec_decode_hash g ''genesis hash'') (\<lambda>genesis.
         let has_snapshot = list_ex (\<lambda>k. fmlookup meta k \<noteq> None)
               (snapshot_marker_keys @ [snapshot_origin_key, validation_target_key])
         in if tip_height current \<noteq> 0 \<or> tip_hash current \<noteq> genesis \<or> has_snapshot
            then Err SnapshotRequiresFreshChainstate
            else
            Ok ((), fmupd assumed_snapshot_utxo_set_key (as_utxo_set_sha256 snapshot)
                   (fmupd assumed_snapshot_bytes_key (u64_to_le (as_records_bytes snapshot))
                   (fmupd assumed_snapshot_count_key (u64_to_le (as_utxo_count snapshot))
                   (fmupd assumed_snapshot_records_key (as_records_sha256 snapshot)
                   (fmupd snapshot_origin_key (exec_encode_tip anchor)
                   (fmupd assumed_snapshot_base_key (exec_encode_tip anchor)
                   (fmupd tip_key (exec_encode_tip anchor) meta)))))))))))"

definition clear_assumed_snapshot_transaction ::
  "assumed_snapshot \<Rightarrow> meta \<Rightarrow> execution_store_error + (unit \<times> meta)" where
  "clear_assumed_snapshot_transaction expected meta =
     bind_res (decode_assumed_snapshot meta) (\<lambda>stored.
     if stored \<noteq> Some expected then Err AssumedSnapshotChanged
     else
     let meta = (if fmlookup meta snapshot_origin_key = None
                 then fmupd snapshot_origin_key (exec_encode_tip (as_base expected)) meta
                 else meta)
     in Ok ((), fold fmdrop snapshot_marker_keys meta))"

end
