(* ===== verification/Execution_Invariant.thy ===== *)
theory Execution_Invariant
  imports Execution_Store
begin

text \<open>
  The execution metadata as a state machine: what each operation does to the tip,
  the ceiling and the assumed snapshot, the invariant over every reachable
  table, and the inverse pair \<open>advance\<close> and \<open>rewind\<close>.
\<close>

lemma key_neq [simp]:
  "genesis_key \<noteq> tip_key"
  "genesis_key \<noteq> consensus_config_key"
  "genesis_key \<noteq> assumed_snapshot_base_key"
  "genesis_key \<noteq> assumed_snapshot_records_key"
  "genesis_key \<noteq> assumed_snapshot_count_key"
  "genesis_key \<noteq> assumed_snapshot_bytes_key"
  "genesis_key \<noteq> assumed_snapshot_utxo_set_key"
  "genesis_key \<noteq> snapshot_origin_key"
  "genesis_key \<noteq> validation_target_key"
  "tip_key \<noteq> genesis_key"
  "tip_key \<noteq> consensus_config_key"
  "tip_key \<noteq> assumed_snapshot_base_key"
  "tip_key \<noteq> assumed_snapshot_records_key"
  "tip_key \<noteq> assumed_snapshot_count_key"
  "tip_key \<noteq> assumed_snapshot_bytes_key"
  "tip_key \<noteq> assumed_snapshot_utxo_set_key"
  "tip_key \<noteq> snapshot_origin_key"
  "tip_key \<noteq> validation_target_key"
  "consensus_config_key \<noteq> genesis_key"
  "consensus_config_key \<noteq> tip_key"
  "consensus_config_key \<noteq> assumed_snapshot_base_key"
  "consensus_config_key \<noteq> assumed_snapshot_records_key"
  "consensus_config_key \<noteq> assumed_snapshot_count_key"
  "consensus_config_key \<noteq> assumed_snapshot_bytes_key"
  "consensus_config_key \<noteq> assumed_snapshot_utxo_set_key"
  "consensus_config_key \<noteq> snapshot_origin_key"
  "consensus_config_key \<noteq> validation_target_key"
  "assumed_snapshot_base_key \<noteq> genesis_key"
  "assumed_snapshot_base_key \<noteq> tip_key"
  "assumed_snapshot_base_key \<noteq> consensus_config_key"
  "assumed_snapshot_base_key \<noteq> assumed_snapshot_records_key"
  "assumed_snapshot_base_key \<noteq> assumed_snapshot_count_key"
  "assumed_snapshot_base_key \<noteq> assumed_snapshot_bytes_key"
  "assumed_snapshot_base_key \<noteq> assumed_snapshot_utxo_set_key"
  "assumed_snapshot_base_key \<noteq> snapshot_origin_key"
  "assumed_snapshot_base_key \<noteq> validation_target_key"
  "assumed_snapshot_records_key \<noteq> genesis_key"
  "assumed_snapshot_records_key \<noteq> tip_key"
  "assumed_snapshot_records_key \<noteq> consensus_config_key"
  "assumed_snapshot_records_key \<noteq> assumed_snapshot_base_key"
  "assumed_snapshot_records_key \<noteq> assumed_snapshot_count_key"
  "assumed_snapshot_records_key \<noteq> assumed_snapshot_bytes_key"
  "assumed_snapshot_records_key \<noteq> assumed_snapshot_utxo_set_key"
  "assumed_snapshot_records_key \<noteq> snapshot_origin_key"
  "assumed_snapshot_records_key \<noteq> validation_target_key"
  "assumed_snapshot_count_key \<noteq> genesis_key"
  "assumed_snapshot_count_key \<noteq> tip_key"
  "assumed_snapshot_count_key \<noteq> consensus_config_key"
  "assumed_snapshot_count_key \<noteq> assumed_snapshot_base_key"
  "assumed_snapshot_count_key \<noteq> assumed_snapshot_records_key"
  "assumed_snapshot_count_key \<noteq> assumed_snapshot_bytes_key"
  "assumed_snapshot_count_key \<noteq> assumed_snapshot_utxo_set_key"
  "assumed_snapshot_count_key \<noteq> snapshot_origin_key"
  "assumed_snapshot_count_key \<noteq> validation_target_key"
  "assumed_snapshot_bytes_key \<noteq> genesis_key"
  "assumed_snapshot_bytes_key \<noteq> tip_key"
  "assumed_snapshot_bytes_key \<noteq> consensus_config_key"
  "assumed_snapshot_bytes_key \<noteq> assumed_snapshot_base_key"
  "assumed_snapshot_bytes_key \<noteq> assumed_snapshot_records_key"
  "assumed_snapshot_bytes_key \<noteq> assumed_snapshot_count_key"
  "assumed_snapshot_bytes_key \<noteq> assumed_snapshot_utxo_set_key"
  "assumed_snapshot_bytes_key \<noteq> snapshot_origin_key"
  "assumed_snapshot_bytes_key \<noteq> validation_target_key"
  "assumed_snapshot_utxo_set_key \<noteq> genesis_key"
  "assumed_snapshot_utxo_set_key \<noteq> tip_key"
  "assumed_snapshot_utxo_set_key \<noteq> consensus_config_key"
  "assumed_snapshot_utxo_set_key \<noteq> assumed_snapshot_base_key"
  "assumed_snapshot_utxo_set_key \<noteq> assumed_snapshot_records_key"
  "assumed_snapshot_utxo_set_key \<noteq> assumed_snapshot_count_key"
  "assumed_snapshot_utxo_set_key \<noteq> assumed_snapshot_bytes_key"
  "assumed_snapshot_utxo_set_key \<noteq> snapshot_origin_key"
  "assumed_snapshot_utxo_set_key \<noteq> validation_target_key"
  "snapshot_origin_key \<noteq> genesis_key"
  "snapshot_origin_key \<noteq> tip_key"
  "snapshot_origin_key \<noteq> consensus_config_key"
  "snapshot_origin_key \<noteq> assumed_snapshot_base_key"
  "snapshot_origin_key \<noteq> assumed_snapshot_records_key"
  "snapshot_origin_key \<noteq> assumed_snapshot_count_key"
  "snapshot_origin_key \<noteq> assumed_snapshot_bytes_key"
  "snapshot_origin_key \<noteq> assumed_snapshot_utxo_set_key"
  "snapshot_origin_key \<noteq> validation_target_key"
  "validation_target_key \<noteq> genesis_key"
  "validation_target_key \<noteq> tip_key"
  "validation_target_key \<noteq> consensus_config_key"
  "validation_target_key \<noteq> assumed_snapshot_base_key"
  "validation_target_key \<noteq> assumed_snapshot_records_key"
  "validation_target_key \<noteq> assumed_snapshot_count_key"
  "validation_target_key \<noteq> assumed_snapshot_bytes_key"
  "validation_target_key \<noteq> assumed_snapshot_utxo_set_key"
  "validation_target_key \<noteq> snapshot_origin_key"
  by (simp_all add: key_defs)

section \<open>Record round trips\<close>

lemma exec_decode_encode_tip [simp]: "exec_decode_tip (exec_encode_tip t) = Inr t"
  by (simp add: exec_decode_tip_def exec_encode_tip_def exec_decode_hash_def)

lemma exec_encode_decode_tip:
  assumes "exec_decode_tip bs = Inr t"
  shows "exec_encode_tip t = bs"
proof -
  have l: "length bs = 36" and t: "t = \<lparr>tip_height = u32_from_le (take 4 bs), tip_hash = hash_from_bytes (drop 4 bs)\<rparr>"
    using assms by (auto simp: exec_decode_tip_def exec_decode_hash_def res_simps split: if_splits)
  show ?thesis using l by (simp add: t exec_encode_tip_def u32_to_from_le hash_to_from_bytes)
qed

lemma exec_encode_tip_inject [simp]: "exec_encode_tip s = exec_encode_tip t \<longleftrightarrow> s = t"
  by (metis exec_decode_encode_tip sum.inject(2))

section \<open>What each row of the table decides\<close>

lemma read_tip_upd [simp]:
  "read_tip (fmupd tip_key (exec_encode_tip t) meta) = Inr t"
  "k \<noteq> tip_key \<Longrightarrow> read_tip (fmupd k v meta) = read_tip meta"
  "k \<noteq> tip_key \<Longrightarrow> read_tip (fmdrop k meta) = read_tip meta"
  by (simp_all add: read_tip_def)

lemma read_tip_at_upd [simp]:
  "read_tip_at k (fmupd k (exec_encode_tip t) meta) = Inr (Some t)"
  "k \<noteq> j \<Longrightarrow> read_tip_at j (fmupd k v meta) = read_tip_at j meta"
  "k \<noteq> j \<Longrightarrow> read_tip_at j (fmdrop k meta) = read_tip_at j meta"
  "read_tip_at k (fmdrop k meta) = Inr None"
  by (simp_all add: read_tip_at_def transpose_res_def)

lemma decode_assumed_cong:
  "(\<And>k. k \<in> set snapshot_marker_keys \<Longrightarrow> fmlookup m k = fmlookup m' k) \<Longrightarrow>
     decode_assumed_snapshot m = decode_assumed_snapshot m'"
  by (simp add: decode_assumed_snapshot_def snapshot_marker_keys_def)

lemma decode_assumed_frame [simp]:
  "k \<notin> set snapshot_marker_keys \<Longrightarrow> decode_assumed_snapshot (fmupd k v meta) = decode_assumed_snapshot meta"
  "k \<notin> set snapshot_marker_keys \<Longrightarrow> decode_assumed_snapshot (fmdrop k meta) = decode_assumed_snapshot meta"
  by (rule decode_assumed_cong; force)+

lemma marker_keys [simp]:
  "tip_key \<notin> set snapshot_marker_keys" "genesis_key \<notin> set snapshot_marker_keys"
  "consensus_config_key \<notin> set snapshot_marker_keys" "snapshot_origin_key \<notin> set snapshot_marker_keys"
  "validation_target_key \<notin> set snapshot_marker_keys"
  by (simp_all add: snapshot_marker_keys_def)

definition snapshot_wf :: "assumed_snapshot \<Rightarrow> bool" where
  "snapshot_wf s \<longleftrightarrow> length (as_records_sha256 s) = 32 \<and> length (as_utxo_set_sha256 s) = 32"

lemma decode_assumed_written:
  assumes "snapshot_wf s"
  shows "decode_assumed_snapshot
     (fmupd assumed_snapshot_utxo_set_key (as_utxo_set_sha256 s)
       (fmupd assumed_snapshot_bytes_key (u64_to_le (as_records_bytes s))
       (fmupd assumed_snapshot_count_key (u64_to_le (as_utxo_count s))
       (fmupd assumed_snapshot_records_key (as_records_sha256 s)
       (fmupd snapshot_origin_key (exec_encode_tip (as_base s))
       (fmupd assumed_snapshot_base_key (exec_encode_tip (as_base s)) meta)))))) = Inr (Some s)"
  using assms by (cases s) (simp add: decode_assumed_snapshot_def snapshot_wf_def decode_u64_def decode_digest_def)

lemma fold_fmdrop_lookup: "fmlookup (fold fmdrop ks m) k = (if k \<in> set ks then None else fmlookup m k)"
  by (induction ks arbitrary: m) auto

lemma decode_assumed_cleared [simp]: "decode_assumed_snapshot (fold fmdrop snapshot_marker_keys meta) = Inr None"
  by (simp add: decode_assumed_snapshot_def fold_fmdrop_lookup) (simp add: snapshot_marker_keys_def)

lemma read_tip_cleared [simp]:
  "read_tip (fold fmdrop snapshot_marker_keys meta) = read_tip meta"
  "k \<notin> set snapshot_marker_keys \<Longrightarrow> read_tip_at k (fold fmdrop snapshot_marker_keys meta) = read_tip_at k meta"
  by (simp_all add: read_tip_def read_tip_at_def fold_fmdrop_lookup)

section \<open>The invariant\<close>

text \<open>The tip is at or below the ceiling, and at the ceiling it is the ceiling's block.\<close>

definition within_target :: "execution_tip \<Rightarrow> execution_tip option \<Rightarrow> bool" where
  "within_target tip target \<longleftrightarrow>
     (case target of None \<Rightarrow> True
      | Some t \<Rightarrow> tip_height tip \<le> tip_height t \<and> (tip_height tip = tip_height t \<longrightarrow> tip_hash tip = tip_hash t))"

text \<open>What the table says: tip, ceiling and assumed snapshot.\<close>

definition exec_state :: "meta \<Rightarrow> execution_tip \<Rightarrow> execution_tip option \<Rightarrow> assumed_snapshot option \<Rightarrow> bool" where
  "exec_state meta tip target assumed \<longleftrightarrow>
     (\<exists>g. fmlookup meta genesis_key = Some g \<and> length g = 32)
     \<and> read_tip meta = Inr tip \<and> read_tip_at validation_target_key meta = Inr target
     \<and> decode_assumed_snapshot meta = Inr assumed"

definition exec_inv :: "meta \<Rightarrow> bool" where
  "exec_inv meta \<longleftrightarrow>
     (\<exists>tip target assumed. exec_state meta tip target assumed
        \<and> within_target tip target \<and> (assumed \<noteq> None \<longrightarrow> target = None))"

lemma within_target_simps [simp]:
  "within_target tip None"
  "within_target tip (Some t) \<longleftrightarrow>
     tip_height tip \<le> tip_height t \<and> (tip_height tip = tip_height t \<longrightarrow> tip_hash tip = tip_hash t)"
  by (simp_all add: within_target_def)

lemma exec_invI:
  "exec_state meta tip target assumed \<Longrightarrow> within_target tip target \<Longrightarrow> (assumed \<noteq> None \<Longrightarrow> target = None)
     \<Longrightarrow> exec_inv meta"
  by (auto simp: exec_inv_def)

inductive exec_step :: "meta \<Rightarrow> meta \<Rightarrow> bool" where
  step_advance: "advance parent n meta = (Inr (), meta') \<Longrightarrow> exec_step meta meta'"
| step_rewind: "rewind current parent meta = (Inr (), meta') \<Longrightarrow> exec_step meta meta'"
| step_bind: "bind_validation_target t meta = (Inr (), meta') \<Longrightarrow> exec_step meta meta'"
| step_extend: "extend_validation_target t meta = (Inr (), meta') \<Longrightarrow> exec_step meta meta'"
| step_clear: "clear_completed_validation_target t meta = (Inr (), meta') \<Longrightarrow> exec_step meta meta'"
| step_config: "bind_consensus_config fresh c legacy initial meta = (Inr (), meta') \<Longrightarrow> exec_step meta meta'"
| step_assume: "snapshot_wf snap \<Longrightarrow> assume_snapshot_transaction snap meta = Inr ((), meta') \<Longrightarrow> exec_step meta meta'"
| step_validated: "clear_assumed_snapshot_transaction snap meta = Inr ((), meta') \<Longrightarrow> exec_step meta meta'"
| step_reopen: "exec_from_database genesis meta = (Inr fresh, meta') \<Longrightarrow> exec_step meta meta'"

lemma checked_add_1_less:
  "checked_add (a :: u32) 1 = Some b \<Longrightarrow> a < b"
  by (auto simp: checked_arith word_less_nat_alt)

section \<open>Each operation on the abstract state\<close>

lemma advance_state:
  assumes "advance parent n meta = (Inr (), meta')" "exec_state meta tip target assumed"
  shows "tip_hash tip = parent \<and> checked_add (tip_height tip) 1 = Some (tip_height n)
    \<and> within_target n target \<and> exec_state meta' n target assumed"
  using assms
  by (cases target; auto simp: advance_def advance_transaction_def validation_target_def exec_state_def
      res_simps not_less split: if_splits)

lemma rewind_state:
  assumes "rewind current parent meta = (Inr (), meta')" "exec_state meta tip target assumed"
  shows "tip = current \<and> checked_add (tip_height parent) 1 = Some (tip_height tip)
    \<and> exec_state meta' parent target assumed"
  using assms
  by (auto simp: rewind_def rewind_transaction_def exec_state_def res_simps split: if_splits)

lemma bind_target_state:
  assumes "bind_validation_target t meta = (Inr (), meta')" "exec_state meta tip target assumed"
  shows "assumed = None \<and> target \<in> {None, Some t} \<and> within_target tip (Some t)
    \<and> exec_state meta' tip (Some t) None"
proof -
  have "tip_height t \<noteq> 0"
    using assms(1) by (cases "tip_height t = 0") (auto simp: bind_validation_target_def)
  with assms show ?thesis
    by (cases target; auto simp: bind_validation_target_def validation_target_def exec_state_def
        res_simps not_less split: if_splits)
qed

lemma extend_target_state:
  assumes "extend_validation_target t meta = (Inr (), meta')" "exec_state meta tip target assumed"
  shows "assumed = None \<and> exec_state meta' tip (Some t) None
    \<and> (target = Some t \<or> target = Some tip \<and> tip_height tip < tip_height t)"
proof -
  have "tip_height t \<noteq> 0"
    using assms(1) by (cases "tip_height t = 0") (auto simp: extend_validation_target_def)
  with assms obtain old where "target = Some old" "assumed = None"
    "(t = old \<and> meta' = meta) \<or> (tip_height old < tip_height t \<and> tip = old
        \<and> meta' = fmupd validation_target_key (exec_encode_tip t) meta)"
    by (auto simp: extend_validation_target_def validation_target_def exec_state_def
        res_simps not_le split: if_splits)
  then show ?thesis using assms(2) by (auto simp: exec_state_def)
qed

lemma clear_target_state:
  assumes "clear_completed_validation_target t meta = (Inr (), meta')" "exec_state meta tip target assumed"
  shows "target = Some t \<and> tip = t \<and> exec_state meta' tip None assumed"
  using assms
  by (auto simp: clear_completed_validation_target_def validation_target_def exec_state_def read_tip_def
      read_tip_at_def transpose_res_def res_simps split: if_splits option.splits)

lemma config_state:
  assumes "bind_consensus_config fresh c legacy initial meta = (Inr (), meta')"
    "exec_state meta tip target assumed"
  shows "exec_state meta' tip target assumed \<and> fmlookup meta' consensus_config_key = Some c"
proof -
  have "\<not> (c = [] \<or> legacy = [] \<or> initial = [])"
    using assms(1) by (cases "c = [] \<or> legacy = [] \<or> initial = []") (auto simp: bind_consensus_config_def)
  with assms show ?thesis
    by (auto simp: bind_consensus_config_def exec_state_def res_simps Let_def split: if_splits)
qed

lemma assume_state:
  assumes "assume_snapshot_transaction snap meta = Inr ((), meta')" "snapshot_wf snap"
    "exec_state meta tip target assumed"
  shows "tip_height tip = 0 \<and> target = None \<and> exec_state meta' (as_base snap) None (Some snap)
    \<and> fmlookup meta' snapshot_origin_key = Some (exec_encode_tip (as_base snap))"
proof -
  note run = assms(1) [unfolded assume_snapshot_transaction_def Let_def]
  have nt: "fmlookup meta validation_target_key = None"
    using run by (auto simp: res_simps split: if_splits)
  have "meta' = fmupd assumed_snapshot_utxo_set_key (as_utxo_set_sha256 snap)
       (fmupd assumed_snapshot_bytes_key (u64_to_le (as_records_bytes snap))
       (fmupd assumed_snapshot_count_key (u64_to_le (as_utxo_count snap))
       (fmupd assumed_snapshot_records_key (as_records_sha256 snap)
       (fmupd snapshot_origin_key (exec_encode_tip (as_base snap))
       (fmupd assumed_snapshot_base_key (exec_encode_tip (as_base snap))
       (fmupd tip_key (exec_encode_tip (as_base snap)) meta))))))" "tip_height tip = 0"
    using run assms(3) by (auto simp: res_simps exec_state_def split: if_splits)
  with assms(3) decode_assumed_written [OF assms(2)] nt show ?thesis
    by (auto simp: read_tip_at_def transpose_res_def exec_state_def)
qed

lemma clear_assumed_state:
  assumes "clear_assumed_snapshot_transaction snap meta = Inr ((), meta')" "exec_state meta tip target assumed"
  shows "assumed = Some snap \<and> exec_state meta' tip target None \<and> fmlookup meta' snapshot_origin_key \<noteq> None"
  using assms
  by (auto simp: clear_assumed_snapshot_transaction_def exec_state_def res_simps Let_def fold_fmdrop_lookup
      split: if_splits)

lemma reopen_state:
  assumes "exec_from_database genesis meta = (Inr fresh, meta')" "exec_state meta tip target assumed"
  shows "meta' = meta \<and> \<not> fresh"
  using assms by (auto simp: exec_from_database_def exec_state_def res_simps split: if_splits)

lemma open_fresh_state:
  assumes "exec_from_database genesis fmempty = (Inr fresh, meta)"
  shows "fresh \<and> exec_state meta \<lparr>tip_height = 0, tip_hash = genesis\<rparr> None None"
  using assms
  by (auto simp: exec_from_database_def exec_state_def res_simps read_tip_at_def transpose_res_def
      decode_assumed_snapshot_def)

lemma exec_step_inv:
  assumes "exec_step meta meta'" "exec_inv meta"
  shows "exec_inv meta'"
proof -
  from assms(2) obtain tip target assumed where m: "exec_state meta tip target assumed"
    and w: "within_target tip target" and a: "assumed \<noteq> None \<Longrightarrow> target = None"
    by (auto simp: exec_inv_def)
  from assms(1) show ?thesis
  proof cases
    case (step_advance parent n)
    from advance_state [OF step_advance m] a show ?thesis by (auto intro: exec_invI)
  next
    case (step_rewind current parent)
    from rewind_state [OF step_rewind m] w a show ?thesis
      by (cases target) (auto intro!: exec_invI dest!: checked_add_1_less)
  next
    case (step_bind t)
    from bind_target_state [OF step_bind m] show ?thesis by (auto intro: exec_invI)
  next
    case (step_extend t)
    from extend_target_state [OF step_extend m] w show ?thesis
      by (intro exec_invI [of meta' tip "Some t" None]) auto
  next
    case (step_clear t)
    from clear_target_state [OF step_clear m] show ?thesis by (auto intro: exec_invI)
  next
    case (step_config fresh c legacy initial)
    from config_state [OF step_config m] w a show ?thesis by (auto intro: exec_invI)
  next
    case (step_assume snap)
    from assume_state [OF step_assume(2,1) m] show ?thesis by (auto intro: exec_invI)
  next
    case (step_validated snap)
    from clear_assumed_state [OF step_validated m] w show ?thesis by (auto intro: exec_invI)
  next
    case (step_reopen genesis fresh)
    from reopen_state [OF step_reopen m] assms(2) show ?thesis by simp
  qed
qed

text \<open>
  C16. Whatever sequence of operations runs on a database that was opened fresh, the metadata stays
  readable, the executed tip never passes the validation ceiling, at the ceiling it is the
  ceiling's block, and a chainstate that rests on an assumed snapshot has no ceiling.
\<close>

theorem execution_reachable_inv:
  assumes "exec_from_database genesis fmempty = (Inr fresh, meta)" "exec_step\<^sup>*\<^sup>* meta meta'"
  shows "exec_inv meta'"
  using assms(2)
proof (induction rule: rtranclp_induct)
  case base
  from open_fresh_state [OF assms(1)] show ?case by (auto intro: exec_invI)
next
  case (step m1 m2)
  show ?case by (rule exec_step_inv [OF step(2,3)])
qed

text \<open>
  An advance is accepted exactly when it extends the stored tip by one block and respects the
  ceiling; rewinding it then gives back the very same table.
\<close>

theorem advance_rewind:
  assumes m: "exec_state meta tip target assumed"
  shows "((\<exists>meta'. advance parent n meta = (Inr (), meta')) \<longleftrightarrow>
       tip_hash tip = parent \<and> unat (tip_height n) = unat (tip_height tip) + 1 \<and> within_target n target)
    \<and> (\<forall>meta'. advance parent n meta = (Inr (), meta') \<longrightarrow> rewind n tip meta' = (Inr (), meta))"
proof -
  have c: "checked_add (tip_height tip) 1 = Some (tip_height n) \<longleftrightarrow> unat (tip_height n) = unat (tip_height tip) + 1"
    by (simp add: checked_add_eq_iff)
  have "\<exists>meta'. advance parent n meta = (Inr (), meta')"
    if "tip_hash tip = parent" "checked_add (tip_height tip) 1 = Some (tip_height n)" "within_target n target"
    using that m
    by (cases target) (auto simp: advance_def advance_transaction_def exec_state_def validation_target_def res_simps)
  moreover have "rewind n tip meta' = (Inr (), meta)" if run: "advance parent n meta = (Inr (), meta')" for meta'
  proof -
    have tip: "fmlookup meta tip_key = Some (exec_encode_tip tip)"
      using m exec_encode_decode_tip by (auto simp: exec_state_def read_tip_def res_simps)
    have "meta' = fmupd tip_key (exec_encode_tip n) meta"
      using run by (auto simp: advance_def advance_transaction_def res_simps split: if_splits)
    moreover have "fmupd tip_key (exec_encode_tip tip) (fmupd tip_key (exec_encode_tip n) meta) = meta"
      using tip by (intro fmap_ext) auto
    ultimately show ?thesis
      using advance_state [OF run m] by (simp add: rewind_def rewind_transaction_def res_simps)
  qed
  ultimately show ?thesis using advance_state [OF _ m] c by blast
qed

text \<open>After an assumption: the origin mark stays, and the markers are those of this snapshot or gone.\<close>

definition snapshot_era :: "assumed_snapshot \<Rightarrow> meta \<Rightarrow> bool" where
  "snapshot_era snap meta \<longleftrightarrow>
     fmlookup meta snapshot_origin_key = Some (exec_encode_tip (as_base snap))
     \<and> (\<exists>tip target assumed. exec_state meta tip target assumed \<and> assumed \<in> {None, Some snap})"

text \<open>No operation touches the origin mark, apart from an assumption and the end of one.\<close>

lemma exec_step_origin:
  assumes "exec_step meta meta'" "fmlookup meta snapshot_origin_key = Some v"
  shows "fmlookup meta' snapshot_origin_key = Some v"
  using assms(1)
proof cases
  case (step_bind t)
  then show ?thesis using assms(2)
    by (cases "tip_height t = 0")
      (auto simp: bind_validation_target_def res_simps split: if_splits option.splits)
next
  case (step_extend t)
  then show ?thesis using assms(2)
    by (cases "tip_height t = 0") (auto simp: extend_validation_target_def res_simps split: if_splits)
next
  case (step_config fresh c legacy initial)
  then show ?thesis using assms(2)
    by (cases "c = [] \<or> legacy = [] \<or> initial = []")
      (auto simp: bind_consensus_config_def res_simps Let_def split: if_splits)
next
  case (step_assume snap)
  then show ?thesis using assms(2)
    by (auto simp: assume_snapshot_transaction_def Let_def res_simps split: if_splits)
next
  case (step_validated snap)
  then show ?thesis using assms(2)
    by (auto simp: clear_assumed_snapshot_transaction_def res_simps Let_def fold_fmdrop_lookup split: if_splits)
qed (use assms(2) in \<open>auto simp: advance_def advance_transaction_def rewind_def rewind_transaction_def
    clear_completed_validation_target_def exec_from_database_def res_simps split: if_splits option.splits\<close>)

lemma exec_step_state:
  assumes "exec_step meta meta'" "exec_state meta tip target assumed" "fmlookup meta snapshot_origin_key \<noteq> None"
  shows "\<exists>tip' target' assumed'. exec_state meta' tip' target' assumed' \<and> assumed' \<in> {None, assumed}"
  using assms(1)
proof cases
  case (step_assume snap)
  then show ?thesis using assms(3)
    by (auto simp: assume_snapshot_transaction_def Let_def res_simps split: if_splits)
next
  case (step_advance parent n)
  from advance_state [OF this assms(2)] show ?thesis by blast
next
  case (step_rewind current parent)
  from rewind_state [OF this assms(2)] show ?thesis by blast
next
  case (step_bind t)
  from bind_target_state [OF this assms(2)] show ?thesis by blast
next
  case (step_extend t)
  from extend_target_state [OF this assms(2)] show ?thesis by blast
next
  case (step_clear t)
  from clear_target_state [OF this assms(2)] show ?thesis by blast
next
  case (step_config fresh c legacy initial)
  from config_state [OF this assms(2)] show ?thesis by blast
next
  case (step_validated snap)
  from clear_assumed_state [OF this assms(2)] show ?thesis by blast
next
  case (step_reopen genesis fresh)
  from reopen_state [OF this assms(2)] assms(2) show ?thesis by blast
qed

lemma snapshot_era_step:
  assumes "exec_step meta meta'" "snapshot_era snap meta"
  shows "snapshot_era snap meta'"
proof -
  from assms(2) obtain tip target assumed where s: "exec_state meta tip target assumed" "assumed \<in> {None, Some snap}"
    and o: "fmlookup meta snapshot_origin_key = Some (exec_encode_tip (as_base snap))" by (auto simp: snapshot_era_def)
  from exec_step_state [OF assms(1) s(1)] o obtain tip' target' assumed' where
    "exec_state meta' tip' target' assumed'" "assumed' \<in> {None, assumed}" by auto
  with s(2) exec_step_origin [OF assms(1) o] show ?thesis by (auto simp: snapshot_era_def)
qed

lemma snapshot_era_reachable: "exec_step\<^sup>*\<^sup>* meta meta' \<Longrightarrow> snapshot_era snap meta \<Longrightarrow> snapshot_era snap meta'"
  by (induction rule: rtranclp_induct) (auto intro: snapshot_era_step)

lemma snapshot_era_refuses:
  assumes "snapshot_era snap meta"
  shows "assume_snapshot_transaction again meta = Inl SnapshotRequiresFreshChainstate"
  using assms
  by (auto simp: snapshot_era_def exec_state_def assume_snapshot_transaction_def exec_decode_hash_def Let_def)

text \<open>
  C27. The life of an assumed snapshot. It is accepted only while the tip is the database's own genesis
  block, with no ceiling, no snapshot and no trace of an earlier one; it is read back as written and the tip is
  its base. From then on, whatever operations follow (blocks connected and disconnected
  down to genesis again, ceilings set and lifted, reopening, the snapshot validated and cleared), the
  origin mark keeps naming this snapshot's base, every further assumption is refused, and an assumed
  snapshot is still this one and is cleared only under its identity.
\<close>

theorem assumed_snapshot_lifecycle:
  assumes m: "exec_state meta tip target assumed" and wf: "snapshot_wf snap"
    and run: "assume_snapshot_transaction snap meta = Inr ((), meta')"
  shows "tip_height tip = 0 \<and> fmlookup meta genesis_key = Some (hash_to_bytes (tip_hash tip))
    \<and> target = None \<and> assumed = None \<and> snapshot_origin meta = Inr None
    \<and> decode_assumed_snapshot meta' = Inr (Some snap) \<and> read_tip meta' = Inr (as_base snap)
    \<and> (\<forall>later. exec_step\<^sup>*\<^sup>* meta' later \<longrightarrow>
         snapshot_origin later = Inr (Some (as_base snap))
         \<and> (\<forall>again. assume_snapshot_transaction again later = Inl SnapshotRequiresFreshChainstate)
         \<and> decode_assumed_snapshot later \<in> {Inr (Some snap), Inr None}
         \<and> (\<forall>other cleared. clear_assumed_snapshot_transaction other later = Inr ((), cleared) \<longrightarrow>
              other = snap \<and> decode_assumed_snapshot cleared = Inr None \<and> read_tip cleared = read_tip later))"
proof -
  note a = assume_state [OF run wf m]
  have era: "snapshot_era snap meta'" using a by (auto simp: snapshot_era_def)
  note fresh = run [unfolded assume_snapshot_transaction_def Let_def]
  have "fmlookup meta genesis_key = Some (hash_to_bytes (tip_hash tip))"
    using fresh m by (auto simp: res_simps exec_state_def exec_decode_hash_def hash_to_from_bytes split: if_splits)
  moreover have "snapshot_origin meta = Inr None" "assumed = None"
    using fresh m by (auto simp: res_simps exec_state_def snapshot_origin_def read_tip_at_def transpose_res_def
        decode_assumed_snapshot_def snapshot_marker_keys_def split: if_splits)
  moreover have "snapshot_origin later = Inr (Some (as_base snap))
      \<and> (\<forall>again. assume_snapshot_transaction again later = Inl SnapshotRequiresFreshChainstate)
      \<and> decode_assumed_snapshot later \<in> {Inr (Some snap), Inr None}
      \<and> (\<forall>other cleared. clear_assumed_snapshot_transaction other later = Inr ((), cleared) \<longrightarrow>
           other = snap \<and> decode_assumed_snapshot cleared = Inr None \<and> read_tip cleared = read_tip later)"
    if "exec_step\<^sup>*\<^sup>* meta' later" for later
  proof -
    from snapshot_era_reachable [OF that era] have e: "snapshot_era snap later" .
    then obtain tip' target' assumed' where s: "exec_state later tip' target' assumed'" "assumed' \<in> {None, Some snap}"
      by (auto simp: snapshot_era_def)
    have "other = snap \<and> decode_assumed_snapshot cleared = Inr None \<and> read_tip cleared = read_tip later"
      if "clear_assumed_snapshot_transaction other later = Inr ((), cleared)" for other cleared
      using clear_assumed_state [OF that s(1)] s by (auto simp: exec_state_def)
    with e s snapshot_era_refuses [OF e] show ?thesis
      by (auto simp: snapshot_era_def snapshot_origin_def read_tip_at_def transpose_res_def exec_state_def)
  qed
  ultimately show ?thesis using a by (auto simp: exec_state_def)
qed

section \<open>A concrete database\<close>

definition sample_meta :: meta where
  "sample_meta = snd (exec_from_database 7 fmempty)"

definition sample_snapshot :: assumed_snapshot where
  "sample_snapshot =
     \<lparr>as_base = \<lparr>tip_height = 3, tip_hash = 33\<rparr>, as_utxo_count = 1, as_records_bytes = 66,
      as_records_sha256 = replicate 32 1, as_utxo_set_sha256 = replicate 32 2\<rparr>"

lemma sample_open: "exec_from_database 7 fmempty = (Inr True, sample_meta)"
  by (simp add: sample_meta_def exec_from_database_def write_transaction_def)

lemma sample_meta_state: "exec_state sample_meta \<lparr>tip_height = 0, tip_hash = 7\<rparr> None None"
  using open_fresh_state [OF sample_open] by simp

theorem execution_reachable_inv_witness:
  "\<exists>m1 m2. exec_step sample_meta m1 \<and> exec_step m1 m2 \<and> exec_inv m2
     \<and> validation_target m2 = Inr (Some \<lparr>tip_height = 1, tip_hash = 5\<rparr>)
     \<and> (\<forall>t. advance 5 \<lparr>tip_height = 2, tip_hash = t\<rparr> m2 = (Inl (ValidationTargetExceeded 1 2), m2))"
proof -
  let ?t = "\<lparr>tip_height = 1, tip_hash = 5\<rparr>"
  let ?m1 = "fmupd validation_target_key (exec_encode_tip ?t) sample_meta"
  let ?m2 = "fmupd tip_key (exec_encode_tip ?t) ?m1"
  note s = sample_meta_state [unfolded exec_state_def]
  have "bind_validation_target ?t sample_meta = (Inr (), ?m1)"
    using s by (simp add: bind_validation_target_def write_transaction_def validation_target_def)
  then have 1: "exec_step sample_meta ?m1" by (rule step_bind)
  have "advance 7 ?t ?m1 = (Inr (), ?m2)"
    using s by (simp add: advance_def advance_transaction_def write_transaction_def validation_target_def checked_add_def)
  then have 2: "exec_step ?m1 ?m2" by (rule step_advance)
  have "exec_inv ?m2"
    by (rule execution_reachable_inv [OF sample_open]) (use 1 2 in auto)
  moreover have "advance 5 \<lparr>tip_height = 2, tip_hash = t\<rparr> ?m2 = (Inl (ValidationTargetExceeded 1 2), ?m2)" for t
    by (simp add: advance_def advance_transaction_def write_transaction_def validation_target_def checked_add_def)
  ultimately show ?thesis
    using 1 2 by (intro exI [of _ ?m1] exI [of _ ?m2] conjI allI) (simp_all add: validation_target_def)
qed

theorem advance_rewind_witness:
  "\<exists>meta'. advance 7 \<lparr>tip_height = 1, tip_hash = 5\<rparr> sample_meta = (Inr (), meta')
     \<and> rewind \<lparr>tip_height = 1, tip_hash = 5\<rparr> \<lparr>tip_height = 0, tip_hash = 7\<rparr> meta' = (Inr (), sample_meta)"
  using advance_rewind [OF sample_meta_state, of 7 "\<lparr>tip_height = 1, tip_hash = 5\<rparr>"] by auto

definition sample_rewound :: "meta \<Rightarrow> meta" where
  "sample_rewound m = snd (rewind \<lparr>tip_height = 1, tip_hash = 31\<rparr> \<lparr>tip_height = 0, tip_hash = 7\<rparr>
     (snd (rewind \<lparr>tip_height = 2, tip_hash = 32\<rparr> \<lparr>tip_height = 1, tip_hash = 31\<rparr>
     (snd (rewind \<lparr>tip_height = 3, tip_hash = 33\<rparr> \<lparr>tip_height = 2, tip_hash = 32\<rparr> m)))))"

lemma sample_rewound_steps:
  assumes "read_tip m = Inr \<lparr>tip_height = 3, tip_hash = 33\<rparr>"
  shows "exec_step\<^sup>*\<^sup>* m (sample_rewound m)" "read_tip (sample_rewound m) = Inr \<lparr>tip_height = 0, tip_hash = 7\<rparr>"
proof -
  let ?t1 = "\<lparr>tip_height = 1, tip_hash = 31\<rparr>" and ?t2 = "\<lparr>tip_height = 2, tip_hash = 32\<rparr>"
  let ?t0 = "\<lparr>tip_height = 0, tip_hash = 7\<rparr>" and ?set = "\<lambda>t m. fmupd tip_key (exec_encode_tip t) m"
  have r: "rewind c p m = (Inr (), ?set p m)"
    if "read_tip m = Inr c" "checked_add (tip_height p) 1 = Some (tip_height c)" for c p m
    using that by (simp add: rewind_def rewind_transaction_def write_transaction_def)
  have 1: "rewind \<lparr>tip_height = 3, tip_hash = 33\<rparr> ?t2 m = (Inr (), ?set ?t2 m)"
    by (rule r) (simp_all add: assms checked_add_def)
  have 2: "rewind ?t2 ?t1 (?set ?t2 m) = (Inr (), ?set ?t1 (?set ?t2 m))" by (rule r) (simp_all add: checked_add_def)
  have 3: "rewind ?t1 ?t0 (?set ?t1 (?set ?t2 m)) = (Inr (), ?set ?t0 (?set ?t1 (?set ?t2 m)))"
    by (rule r) (simp_all add: checked_add_def)
  have eq: "sample_rewound m = ?set ?t0 (?set ?t1 (?set ?t2 m))" unfolding sample_rewound_def 1 2 3 snd_conv ..
  show "exec_step\<^sup>*\<^sup>* m (sample_rewound m)" unfolding eq
    by (rule rtranclp.rtrancl_into_rtrancl [where b = "?set ?t1 (?set ?t2 m)"],
        rule rtranclp.rtrancl_into_rtrancl [where b = "?set ?t2 m"], rule r_into_rtranclp)
      (rule step_rewind, rule 1 2 3)+
  show "read_tip (sample_rewound m) = Inr ?t0" by (simp add: eq)
qed

theorem assumed_snapshot_lifecycle_witness:
  "\<exists>m1 m2. assume_snapshot_transaction sample_snapshot sample_meta = Inr ((), m1)
     \<and> decode_assumed_snapshot m1 = Inr (Some sample_snapshot)
     \<and> clear_assumed_snapshot_transaction sample_snapshot m1 = Inr ((), m2)
     \<and> decode_assumed_snapshot m2 = Inr None
     \<and> read_tip (sample_rewound m2) = read_tip sample_meta
     \<and> assume_snapshot_transaction sample_snapshot (sample_rewound m2) = Inl SnapshotRequiresFreshChainstate"
proof -
  have wf: "snapshot_wf sample_snapshot" by (simp add: snapshot_wf_def sample_snapshot_def)
  have "\<not> isl (assume_snapshot_transaction sample_snapshot sample_meta)" by code_simp
  then obtain m1 where a: "assume_snapshot_transaction sample_snapshot sample_meta = Inr ((), m1)"
    by (cases "assume_snapshot_transaction sample_snapshot sample_meta") auto
  note l = assumed_snapshot_lifecycle [OF sample_meta_state wf a]
  note later = l [THEN conjunct2, THEN conjunct2, THEN conjunct2, THEN conjunct2, THEN conjunct2, THEN conjunct2,
      THEN conjunct2, rule_format]
  from l obtain m2 where c: "clear_assumed_snapshot_transaction sample_snapshot m1 = Inr ((), m2)"
    by (auto simp: clear_assumed_snapshot_transaction_def Let_def)
  from later [OF rtranclp.rtrancl_refl] c have m2: "decode_assumed_snapshot m2 = Inr None" "read_tip m2 = read_tip m1" by blast+
  then have tip: "read_tip m2 = Inr \<lparr>tip_height = 3, tip_hash = 33\<rparr>" using l by (simp add: sample_snapshot_def)
  have "exec_step\<^sup>*\<^sup>* m1 (sample_rewound m2)"
    by (rule converse_rtranclp_into_rtranclp [OF step_validated [OF c] sample_rewound_steps(1) [OF tip]])
  from later [OF this] have "assume_snapshot_transaction sample_snapshot (sample_rewound m2) = Inl SnapshotRequiresFreshChainstate"
    by blast
  with a l c m2 sample_rewound_steps(2) [OF tip] sample_meta_state show ?thesis by (auto simp: exec_state_def)
qed

end
