(* ===== verification/Undo_Store.thy ===== *)
theory Undo_Store
  imports Execution_Store Utxo_Store_Refine
begin

text \<open>
  The block-undo database of \<open>src/src/undo_store.rs\<close>: per-block undo vectors and
  the write-ahead record of a transition in progress, with their binary formats.
\<close>

datatype undo_store_error =
    Undo_Utxo utxo_error
  | Undo_Malformed string
  | Undo_Duplicate hash256
  | PendingExists
  | WrongPending hash256

datatype transition_kind = Connect | Disconnect

record pending_transition =
  pt_kind :: transition_kind
  pt_parent :: execution_tip
  pt_next :: execution_tip
  pt_undo :: utxo_undo
  pt_created :: "coin_row list"

section \<open>Formats\<close>

definition format_version :: u32 where
  "format_version = 1"

definition pending_format_version :: u32 where
  "pending_format_version = 1"

definition undo_take :: "bytes \<Rightarrow> nat \<Rightarrow> nat \<Rightarrow> string \<Rightarrow> undo_store_error + (bytes \<times> nat)" where
  "undo_take bs cursor len field =
     bind_res (ok_or (slice bs cursor len) (Undo_Malformed field)) (\<lambda>v. Ok (v, cursor + len))"

definition undo_take_u32 :: "bytes \<Rightarrow> nat \<Rightarrow> string \<Rightarrow> undo_store_error + (u32 \<times> nat)" where
  "undo_take_u32 bs cursor field =
     bind_res (undo_take bs cursor 4 field) (\<lambda>(v, cursor). Ok (u32_from_le v, cursor))"

definition undo_encode_tip :: "execution_tip \<Rightarrow> bytes" where
  "undo_encode_tip t = u32_to_le (tip_height t) @ hash_to_bytes (tip_hash t)"

definition undo_decode_tip :: "bytes \<Rightarrow> nat \<Rightarrow> string \<Rightarrow> undo_store_error + (execution_tip \<times> nat)" where
  "undo_decode_tip bs cursor field =
     bind_res (undo_take_u32 bs cursor field) (\<lambda>(h, cursor).
     bind_res (undo_take bs cursor 32 field) (\<lambda>(v, cursor).
       Ok (\<lparr>tip_height = h, tip_hash = hash_from_bytes v\<rparr>, cursor)))"

definition pending_entry_encode :: "coin_row \<Rightarrow> undo_store_error + bytes" where
  "pending_entry_encode r =
     bind_res (map_err Undo_Utxo (utxo_encode (snd r))) (\<lambda>encoded.
     bind_res (ok_or (u32_try_from (length encoded)) (Undo_Malformed ''pending UTXO length'')) (\<lambda>len.
       Ok (as_bytes (fst r) @ u32_to_le len @ encoded)))"

definition kind_byte :: "transition_kind \<Rightarrow> u8" where
  "kind_byte k = (case k of Connect \<Rightarrow> 0 | Disconnect \<Rightarrow> 1)"

definition encode_pending_transition :: "pending_transition \<Rightarrow> undo_store_error + bytes" where
  "encode_pending_transition p =
     bind_res (map_err Undo_Utxo (undo_encode (pt_undo p))) (\<lambda>undo.
     bind_res (ok_or (u32_try_from (length undo)) (Undo_Malformed ''pending undo length'')) (\<lambda>undo_len.
     bind_res (ok_or (u32_try_from (length (pt_created p))) (Undo_Malformed ''pending created count''))
       (\<lambda>created_count.
     bind_res (collect_res pending_entry_encode (pt_created p)) (\<lambda>entries.
       Ok (u32_to_le pending_format_version @ [kind_byte (pt_kind p)]
           @ undo_encode_tip (pt_parent p) @ undo_encode_tip (pt_next p)
           @ u32_to_le undo_len @ undo @ u32_to_le created_count @ concat entries)))))"

fun decode_pending_created ::
  "bytes \<Rightarrow> nat \<Rightarrow> nat \<Rightarrow> undo_store_error + (coin_row list \<times> nat)" where
  "decode_pending_created bs 0 cursor = Ok ([], cursor)"
| "decode_pending_created bs (Suc n) cursor =
     bind_res (undo_take bs cursor 36 ''pending created outpoint'') (\<lambda>(raw, cursor).
     bind_res (map_err Undo_Utxo (key_from_bytes raw)) (\<lambda>key.
     bind_res (undo_take_u32 bs cursor ''pending UTXO length'') (\<lambda>(len, cursor).
     bind_res (undo_take bs cursor (unat len) ''pending UTXO'') (\<lambda>(raw, cursor).
     bind_res (map_err Undo_Utxo (utxo_decode raw)) (\<lambda>u.
     bind_res (decode_pending_created bs n cursor) (\<lambda>(rest, cursor).
       Ok ((key, u) # rest, cursor)))))))"

definition decode_pending_transition :: "bytes \<Rightarrow> undo_store_error + pending_transition" where
  "decode_pending_transition bs =
     bind_res (undo_take_u32 bs 0 ''pending format version'') (\<lambda>(version, cursor).
     if version \<noteq> pending_format_version then Err (Undo_Malformed ''unsupported pending format version'')
     else
     bind_res (undo_take bs cursor 1 ''pending transition kind'') (\<lambda>(k, cursor).
     bind_res (if hd k = 0 then Ok Connect else if hd k = 1 then Ok Disconnect
               else Err (Undo_Malformed ''pending transition kind'')) (\<lambda>kind.
     bind_res (undo_decode_tip bs cursor ''pending parent tip'') (\<lambda>(parent, cursor).
     bind_res (undo_decode_tip bs cursor ''pending next tip'') (\<lambda>(next_tip, cursor).
     bind_res (undo_take_u32 bs cursor ''pending undo length'') (\<lambda>(undo_len, cursor).
     bind_res (undo_take bs cursor (unat undo_len) ''pending undo'') (\<lambda>(raw, cursor).
     bind_res (map_err Undo_Utxo (undo_decode raw)) (\<lambda>undo.
     bind_res (undo_take_u32 bs cursor ''pending created count'') (\<lambda>(created_count, cursor).
     if unat created_count > (length bs - cursor) div 40
     then Err (Undo_Malformed ''pending created count exceeds record'')
     else
     bind_res (decode_pending_created bs (unat created_count) cursor) (\<lambda>(created, cursor).
     if cursor \<noteq> length bs then Err (Undo_Malformed ''trailing pending bytes'')
     else Ok \<lparr>pt_kind = kind, pt_parent = parent, pt_next = next_tip, pt_undo = undo,
              pt_created = created\<rparr>))))))))))"

definition block_undo_entry :: "utxo_undo \<Rightarrow> undo_store_error + bytes" where
  "block_undo_entry undo =
     bind_res (map_err Undo_Utxo (undo_encode undo)) (\<lambda>encoded.
     bind_res (ok_or (u32_try_from (length encoded)) (Undo_Malformed ''transaction undo length''))
       (\<lambda>len. Ok (u32_to_le len @ encoded)))"

definition encode_block_undo :: "utxo_undo list \<Rightarrow> undo_store_error + bytes" where
  "encode_block_undo undos =
     bind_res (ok_or (u32_try_from (length undos)) (Undo_Malformed ''transaction count'')) (\<lambda>count.
     bind_res (collect_res block_undo_entry undos) (\<lambda>entries.
       Ok (u32_to_le format_version @ u32_to_le count @ concat entries)))"

fun decode_block_undos ::
  "bytes \<Rightarrow> nat \<Rightarrow> nat \<Rightarrow> undo_store_error + (utxo_undo list \<times> nat)" where
  "decode_block_undos bs 0 cursor = Ok ([], cursor)"
| "decode_block_undos bs (Suc n) cursor =
     bind_res (undo_take_u32 bs cursor ''transaction undo length'') (\<lambda>(len, cursor).
     bind_res (undo_take bs cursor (unat len) ''transaction undo'') (\<lambda>(raw, cursor).
     bind_res (map_err Undo_Utxo (undo_decode raw)) (\<lambda>undo.
     bind_res (decode_block_undos bs n cursor) (\<lambda>(rest, cursor). Ok (undo # rest, cursor)))))"

definition decode_block_undo :: "bytes \<Rightarrow> undo_store_error + utxo_undo list" where
  "decode_block_undo bs =
     bind_res (undo_take_u32 bs 0 ''format version'') (\<lambda>(version, cursor).
     if version \<noteq> format_version then Err (Undo_Malformed ''unsupported format version'')
     else
     bind_res (undo_take_u32 bs cursor ''transaction count'') (\<lambda>(count, cursor).
     if unat count > (length bs - cursor) div 4
     then Err (Undo_Malformed ''transaction count exceeds record'')
     else
     bind_res (decode_block_undos bs (unat count) cursor) (\<lambda>(undos, cursor).
     if cursor \<noteq> length bs then Err (Undo_Malformed ''trailing bytes'') else Ok undos)))"


section \<open>The database\<close>

record undo_tables =
  block_undos :: table
  pending_row :: "bytes option"

definition undo_insert_transaction ::
  "hash256 \<Rightarrow> utxo_undo list \<Rightarrow> undo_tables \<Rightarrow> undo_store_error + (unit \<times> undo_tables)" where
  "undo_insert_transaction block undos s =
     bind_res (encode_block_undo undos) (\<lambda>encoded.
       if fmlookup (block_undos s) (hash_to_bytes block) \<noteq> None then Err (Undo_Duplicate block)
       else Ok ((), s\<lparr>block_undos := fmupd (hash_to_bytes block) encoded (block_undos s)\<rparr>))"

definition undo_insert :: "hash256 \<Rightarrow> utxo_undo list \<Rightarrow> (undo_tables, undo_store_error, unit) st" where
  "undo_insert block undos = write_transaction (undo_insert_transaction block undos)"

definition undo_get :: "undo_tables \<Rightarrow> hash256 \<Rightarrow> undo_store_error + utxo_undo list option" where
  "undo_get s block =
     transpose_res (map_option decode_block_undo (fmlookup (block_undos s) (hash_to_bytes block)))"

definition undo_hashes :: "undo_tables \<Rightarrow> undo_store_error + hash256 list" where
  "undo_hashes s =
     collect_res (\<lambda>(k, _). if length k = 32 then Ok (hash_from_bytes k)
                            else Err (Undo_Malformed ''invalid block-hash key length''))
       (table_rows (block_undos s))"

definition undo_remove_transaction :: "hash256 \<Rightarrow> undo_tables \<Rightarrow> undo_store_error + (bool \<times> undo_tables)" where
  "undo_remove_transaction block s =
     Ok (fmlookup (block_undos s) (hash_to_bytes block) \<noteq> None,
         s\<lparr>block_undos := fmdrop (hash_to_bytes block) (block_undos s)\<rparr>)"

definition undo_remove :: "hash256 \<Rightarrow> (undo_tables, undo_store_error, bool) st" where
  "undo_remove block = write_transaction (undo_remove_transaction block)"

definition prepare_transition :: "pending_transition \<Rightarrow> (undo_tables, undo_store_error, unit) st" where
  "prepare_transition transition =
     st_bind (st_lift (encode_pending_transition transition)) (\<lambda>encoded.
       write_transaction (\<lambda>s.
         if pending_row s \<noteq> None then Err PendingExists
         else Ok ((), s\<lparr>pending_row := Some encoded\<rparr>)))"

definition read_pending_transition :: "undo_tables \<Rightarrow> undo_store_error + pending_transition option" where
  "read_pending_transition s = transpose_res (map_option decode_pending_transition (pending_row s))"

definition clear_transition :: "hash256 \<Rightarrow> (undo_tables, undo_store_error, unit) st" where
  "clear_transition expected = write_transaction (\<lambda>s.
     bind_res (transpose_res (map_option decode_pending_transition (pending_row s))) (\<lambda>transition.
       case transition of
         None \<Rightarrow> Ok ((), s)
       | Some p \<Rightarrow> (if tip_hash (pt_next p) \<noteq> expected then Err (WrongPending expected)
                    else Ok ((), s\<lparr>pending_row := None\<rparr>))))"

definition clear_block_undos_database :: "(undo_tables, undo_store_error, bool) st" where
  "clear_block_undos_database = write_transaction (\<lambda>s.
     if fmdom (block_undos s) = {||} then Ok (False, s)
     else Ok (True, s\<lparr>block_undos := fmempty\<rparr>))"

definition undo_tables_empty_transaction :: "undo_tables \<Rightarrow> bool" where
  "undo_tables_empty_transaction s \<longleftrightarrow> fmdom (block_undos s) = {||} \<and> pending_row s = None"


section \<open>Round trips\<close>

lemma undo_take_appendI:
  assumes "bs = pre @ mid @ post" "c = length pre" "n = length mid"
  shows "undo_take bs c n field = Inr (mid, c + n)"
  using slice_appendI [OF assms] by (simp add: undo_take_def)

lemma undo_take_u32_appendI:
  assumes "bs = pre @ u32_to_le w @ post" "c = length pre"
  shows "undo_take_u32 bs c field = Inr (w, c + 4)"
  using undo_take_appendI [OF assms, of 4] by (simp add: undo_take_u32_def)

lemma undo_decode_tip_appendI:
  assumes "bs = pre @ undo_encode_tip t @ post" "c = length pre"
  shows "undo_decode_tip bs c field = Inr (t, c + 36)"
proof -
  have "undo_take_u32 bs c field = Inr (tip_height t, c + 4)"
    by (rule undo_take_u32_appendI [where pre = pre and post = "hash_to_bytes (tip_hash t) @ post"])
       (simp_all add: assms undo_encode_tip_def)
  moreover have "undo_take bs (c + 4) 32 field = Inr (hash_to_bytes (tip_hash t), c + 4 + 32)"
    by (rule undo_take_appendI [where pre = "pre @ u32_to_le (tip_height t)" and post = post])
       (simp_all add: assms undo_encode_tip_def)
  ultimately show ?thesis by (simp add: undo_decode_tip_def)
qed

lemma length_undo_encode_tip [simp]: "length (undo_encode_tip t) = 36"
  by (simp add: undo_encode_tip_def)

lemma block_undo_entry_Inr:
  "block_undo_entry undo = Inr bs \<Longrightarrow>
     \<exists>enc. undo_encode undo = Inr enc \<and> length enc < 2 ^ 32 \<and> bs = u32_to_le (word_of_nat (length enc)) @ enc"
  by (auto simp: block_undo_entry_def res_simps checked_arith)

lemma decode_block_undos_entry:
  assumes e: "block_undo_entry undo = Inr bs" and wf: "undo_wf undo"
  shows "decode_block_undos (pre @ bs @ post) (Suc n) (length pre) =
     bind_res (decode_block_undos (pre @ bs @ post) n (length pre + length bs))
       (\<lambda>(rest, cursor). Ok (undo # rest, cursor))"
proof -
  from block_undo_entry_Inr [OF e] obtain enc where enc: "undo_encode undo = Inr enc"
    and len: "length enc < 2 ^ 32" and bs: "bs = u32_to_le (word_of_nat (length enc)) @ enc" by blast
  have u: "unat (word_of_nat (length enc) :: u32) = length enc" by (rule unat_word_of_nat_u32 [OF len])
  have a: "undo_take_u32 (pre @ bs @ post) (length pre) f = Inr (word_of_nat (length enc), length pre + 4)" for f
    by (rule undo_take_u32_appendI [where pre = pre and post = "enc @ post"]) (simp_all add: bs)
  have b: "undo_take (pre @ bs @ post) (length pre + 4) (length enc) f = Inr (enc, length pre + length bs)" for f
    using undo_take_appendI [of "pre @ bs @ post" "pre @ u32_to_le (word_of_nat (length enc))" enc post
        "length pre + 4" "length enc" f] by (simp add: bs)
  show ?thesis
    unfolding decode_block_undos.simps a bind_res_simps prod.case u b undo_decode_encode [OF wf enc] map_err_simps
    by simp
qed

lemma decode_block_undos_encode:
  assumes "collect_res block_undo_entry us = Inr bss" "\<forall>u \<in> set us. undo_wf u"
  shows "decode_block_undos (pre @ concat bss @ post) (length us) (length pre)
     = Inr (us, length pre + length (concat bss)) \<and> 4 * length us \<le> length (concat bss)"
  using assms
proof (induction us arbitrary: bss pre)
  case (Cons u us)
  from Cons.prems(1) obtain bs rest where bs: "block_undo_entry u = Inr bs"
    and rest: "collect_res block_undo_entry us = Inr rest" "bss = bs # rest"
    by (auto simp: res_simps)
  have "4 \<le> length bs" using block_undo_entry_Inr [OF bs] by auto
  with Cons.IH [OF rest(1), of "pre @ bs"] Cons.prems(2) rest(2)
    decode_block_undos_entry [OF bs, of pre "concat rest @ post" "length us"]
  show ?case by (simp add: add.assoc)
qed simp

lemma decode_encode_block_undo:
  assumes "encode_block_undo us = Inr bs" "\<forall>u \<in> set us. undo_wf u"
  shows "decode_block_undo bs = Inr us"
proof -
  from assms(1) obtain bss where n: "length us < 2 ^ 32" and bss: "collect_res block_undo_entry us = Inr bss"
    and bs: "bs = u32_to_le format_version @ u32_to_le (word_of_nat (length us)) @ concat bss"
    by (auto simp: encode_block_undo_def res_simps checked_arith)
  have u: "unat (word_of_nat (length us) :: u32) = length us" by (rule unat_word_of_nat_u32 [OF n])
  note d = decode_block_undos_encode [OF bss assms(2),
      of "u32_to_le format_version @ u32_to_le (word_of_nat (length us))" "[]"]
  have a: "undo_take_u32 bs 0 f = Inr (format_version, 4)" for f
    using undo_take_u32_appendI [of bs "[]" format_version "u32_to_le (word_of_nat (length us)) @ concat bss" 0 f]
    by (simp add: bs)
  have b: "undo_take_u32 bs 4 f = Inr (word_of_nat (length us), 8)" for f
    using undo_take_u32_appendI [of bs "u32_to_le format_version" "word_of_nat (length us)" "concat bss" 4 f]
    by (simp add: bs)
  have c: "decode_block_undos bs (length us) 8 = Inr (us, length bs)"
    using d by (simp add: bs)
  have small: "\<not> length us > (length bs - 8) div 4" using d by (auto simp: bs)
  show ?thesis
    unfolding decode_block_undo_def a bind_res_simps prod.case b u if_not_P [OF small] c by simp
qed

lemma pending_entry_encode_Inr:
  "pending_entry_encode e = Inr bs \<Longrightarrow>
     \<exists>enc. utxo_encode (snd e) = Inr enc \<and> length enc < 2 ^ 32
       \<and> bs = as_bytes (fst e) @ u32_to_le (word_of_nat (length enc)) @ enc"
  by (auto simp: pending_entry_encode_def res_simps checked_arith)

lemma decode_pending_created_entry:
  assumes e: "pending_entry_encode e = Inr bs" and k: "valid_key (fst e)"
  shows "decode_pending_created (pre @ bs @ post) (Suc n) (length pre) =
     bind_res (decode_pending_created (pre @ bs @ post) n (length pre + length bs))
       (\<lambda>(rest, cursor). Ok (e # rest, cursor))"
proof -
  from pending_entry_encode_Inr [OF e] obtain enc where enc: "utxo_encode (snd e) = Inr enc"
    and len: "length enc < 2 ^ 32"
    and bs: "bs = as_bytes (fst e) @ u32_to_le (word_of_nat (length enc)) @ enc" by blast
  let ?bs = "pre @ bs @ post"
  have kl: "length (as_bytes (fst e)) = 36" using k by (simp add: valid_key_def)
  have ul: "unat (word_of_nat (length enc) :: u32) = length enc" by (rule unat_word_of_nat_u32 [OF len])
  have a: "undo_take ?bs (length pre) 36 f = Inr (as_bytes (fst e), length pre + 36)" for f
    by (rule undo_take_appendI [where pre = pre]) (auto simp: bs kl)
  have b: "undo_take_u32 ?bs (length pre + 36) f = Inr (word_of_nat (length enc), length pre + 36 + 4)" for f
    by (rule undo_take_u32_appendI [where pre = "pre @ as_bytes (fst e)" and post = "enc @ post"])
       (simp_all add: bs kl)
  have c: "undo_take ?bs (length pre + 36 + 4) (length enc) f = Inr (enc, length pre + length bs)" for f
    using undo_take_appendI [of ?bs "pre @ as_bytes (fst e) @ u32_to_le (word_of_nat (length enc))" enc post
        "length pre + 36 + 4" "length enc" f] by (simp add: bs kl add.assoc)
  show ?thesis
    unfolding decode_pending_created.simps a b bind_res_simps prod.case ul c
      key_from_bytes_as_bytes [OF k] utxo_decode_encode [OF enc] map_err_simps
    by simp
qed

lemma decode_pending_created_encode:
  assumes "collect_res pending_entry_encode es = Inr bss" "\<forall>e \<in> set es. valid_key (fst e)"
  shows "decode_pending_created (pre @ concat bss @ post) (length es) (length pre)
     = Inr (es, length pre + length (concat bss)) \<and> 40 * length es \<le> length (concat bss)"
  using assms
proof (induction es arbitrary: bss pre)
  case (Cons e es)
  from Cons.prems(1) obtain bs rest where bs: "pending_entry_encode e = Inr bs"
    and rest: "collect_res pending_entry_encode es = Inr rest" "bss = bs # rest"
    by (auto simp: res_simps)
  have "40 \<le> length bs" using pending_entry_encode_Inr [OF bs] Cons.prems(2) by (auto simp: valid_key_def)
  with Cons.IH [OF rest(1), of "pre @ bs"] Cons.prems(2) rest(2)
    decode_pending_created_entry [OF bs, of pre "concat rest @ post" "length es"]
  show ?case by (simp add: add.assoc)
qed simp

definition pending_wf :: "pending_transition \<Rightarrow> bool" where
  "pending_wf p \<longleftrightarrow> undo_wf (pt_undo p) \<and> (\<forall>e \<in> set (pt_created p). valid_key (fst e))"

lemma decode_encode_pending:
  assumes wf: "pending_wf p" and enc: "encode_pending_transition p = Inr bs"
  shows "decode_pending_transition bs = Inr p"
proof -
  from enc obtain undo bss where undo: "undo_encode (pt_undo p) = Inr undo" and n: "length undo < 2 ^ 32"
    and m: "length (pt_created p) < 2 ^ 32" and bss: "collect_res pending_entry_encode (pt_created p) = Inr bss"
    and bs: "bs = u32_to_le pending_format_version @ [kind_byte (pt_kind p)] @ undo_encode_tip (pt_parent p)
        @ undo_encode_tip (pt_next p) @ u32_to_le (word_of_nat (length undo)) @ undo
        @ u32_to_le (word_of_nat (length (pt_created p))) @ concat bss"
    by (auto simp: encode_pending_transition_def res_simps checked_arith)
  let ?k = "[kind_byte (pt_kind p)]" and ?a = "undo_encode_tip (pt_parent p)"
    and ?b = "undo_encode_tip (pt_next p)" and ?v = "u32_to_le pending_format_version"
    and ?l = "u32_to_le (word_of_nat (length undo))" and ?c = "u32_to_le (word_of_nat (length (pt_created p)))"
  have u: "unat (word_of_nat (length undo) :: u32) = length undo"
    "unat (word_of_nat (length (pt_created p)) :: u32) = length (pt_created p)"
    using n m by (simp_all only: unat_word_of_nat_u32)
  have 1: "undo_take_u32 bs 0 f = Inr (pending_format_version, 4)" for f
    using undo_take_u32_appendI [of bs "[]" _ _ 0 f] by (simp add: bs)
  have 2: "undo_take bs 4 1 f = Inr (?k, 5)" for f
    using undo_take_appendI [of bs ?v ?k _ 4 1 f] by (simp add: bs)
  have 3: "undo_decode_tip bs 5 f = Inr (pt_parent p, 41)" for f
    using undo_decode_tip_appendI [of bs "?v @ ?k" "pt_parent p" _ 5 f] by (simp add: bs)
  have 4: "undo_decode_tip bs 41 f = Inr (pt_next p, 77)" for f
    using undo_decode_tip_appendI [of bs "?v @ ?k @ ?a" "pt_next p" _ 41 f] by (simp add: bs)
  have 5: "undo_take_u32 bs 77 f = Inr (word_of_nat (length undo), 81)" for f
    using undo_take_u32_appendI [of bs "?v @ ?k @ ?a @ ?b" _ _ 77 f] by (simp add: bs)
  have 6: "undo_take bs 81 (length undo) f = Inr (undo, 81 + length undo)" for f
    using undo_take_appendI [of bs "?v @ ?k @ ?a @ ?b @ ?l" undo _ 81 "length undo" f] by (simp add: bs)
  have 7: "undo_take_u32 bs (81 + length undo) f = Inr (word_of_nat (length (pt_created p)), 85 + length undo)" for f
    using undo_take_u32_appendI [of bs "?v @ ?k @ ?a @ ?b @ ?l @ undo" _ _ "81 + length undo" f] by (simp add: bs)
  have d: "undo_decode undo = Inr (pt_undo p)" "\<forall>e \<in> set (pt_created p). valid_key (fst e)"
    using wf undo_decode_encode [OF _ undo] by (simp_all add: pending_wf_def)
  note cr = decode_pending_created_encode [OF bss d(2), of "?v @ ?k @ ?a @ ?b @ ?l @ undo @ ?c" "[]"]
  have 8: "decode_pending_created bs (length (pt_created p)) (85 + length undo) = Inr (pt_created p, length bs)"
    using cr by (simp add: bs)
  have small: "\<not> length (pt_created p) > (length bs - (85 + length undo)) div 40" using cr by (auto simp: bs)
  have kind: "(if hd ?k = 0 then Ok Connect else if hd ?k = 1 then Ok Disconnect
      else Err (Undo_Malformed ''pending transition kind'')) = Ok (pt_kind p)"
    by (cases "pt_kind p") (simp_all add: kind_byte_def)
  show ?thesis
    unfolding decode_pending_transition_def 1 2 3 4 5 6 7 bind_res_simps prod.case u kind map_err_simps d(1)
      if_not_P [OF small] 8
    by simp
qed

text \<open>
  C28. The undo database returns what was stored: after a successful insert the block's undo vector
  is read back unchanged, every other block's record is untouched, a second insert is refused
  without effect, and removing the record gives back the table as it was.
\<close>

theorem undo_store_correct:
  assumes wf: "\<forall>u \<in> set undos. undo_wf u" and run: "undo_insert block undos s = (Inr (), s')"
  shows "undo_get s' block = Inr (Some undos)
    \<and> (\<forall>other. other \<noteq> block \<longrightarrow> undo_get s' other = undo_get s other)
    \<and> (\<forall>us. fst (undo_insert block us s') \<noteq> Inr () \<and> snd (undo_insert block us s') = s')
    \<and> undo_remove block s' = (Inr True, s)"
proof -
  from run obtain bs where bs: "encode_block_undo undos = Inr bs"
    and none: "fmlookup (block_undos s) (hash_to_bytes block) = None"
    and s': "s' = s\<lparr>block_undos := fmupd (hash_to_bytes block) bs (block_undos s)\<rparr>"
    by (auto simp: undo_insert_def undo_insert_transaction_def res_simps split: if_splits)
  have "fmdrop (hash_to_bytes block) (fmupd (hash_to_bytes block) bs (block_undos s)) = block_undos s"
    using none by (intro fmap_ext) auto
  then have "undo_remove block s' = (Inr True, s)"
    by (simp add: undo_remove_def undo_remove_transaction_def write_transaction_def s')
  moreover have "fst (undo_insert block us s') \<noteq> Inr () \<and> snd (undo_insert block us s') = s'" for us
    by (cases "encode_block_undo us")
       (simp_all add: undo_insert_def undo_insert_transaction_def write_transaction_def s')
  ultimately show ?thesis
    using decode_encode_block_undo [OF bs wf]
    by (auto simp: undo_get_def s' transpose_res_def)
qed

text \<open>
  C29. The write-ahead record survives a restart: what was prepared is read back unchanged, a second
  transition cannot be prepared over it, and only the block it targets clears it.
\<close>

theorem pending_transition_correct:
  assumes wf: "pending_wf p" and run: "prepare_transition p s = (Inr (), s')"
  shows "read_pending_transition s' = Inr (Some p)
    \<and> (\<forall>q. fst (prepare_transition q s') \<noteq> Inr () \<and> snd (prepare_transition q s') = s')
    \<and> (\<forall>h. clear_transition h s' =
         (if h = tip_hash (pt_next p) then (Inr (), s) else (Inl (WrongPending h), s')))"
proof -
  from run obtain bs where bs: "encode_pending_transition p = Inr bs" and none: "pending_row s = None"
    and s': "s' = s\<lparr>pending_row := Some bs\<rparr>"
    by (cases "encode_pending_transition p") (auto simp: prepare_transition_def res_simps split: if_splits)
  have "fst (prepare_transition q s') \<noteq> Inr () \<and> snd (prepare_transition q s') = s'" for q
    by (cases "encode_pending_transition q") (simp_all add: prepare_transition_def s' write_transaction_def)
  moreover have "clear_transition h s' =
         (if h = tip_hash (pt_next p) then (Inr (), s) else (Inl (WrongPending h), s'))" for h
    using decode_encode_pending [OF wf bs] none
    by (auto simp: clear_transition_def write_transaction_def s' transpose_res_def)
  ultimately show ?thesis
    using decode_encode_pending [OF wf bs] by (auto simp: read_pending_transition_def s' transpose_res_def)
qed

definition sample_undo :: utxo_undo where
  "sample_undo = \<lparr>undo_spent = [(sample_key 1, sample_coin 10 1)], undo_created = [sample_key 3]\<rparr>"

theorem undo_store_correct_witness:
  "\<exists>s'. undo_insert 42 [sample_undo] \<lparr>block_undos = fmempty, pending_row = None\<rparr> = (Inr (), s')
    \<and> undo_get s' 42 = Inr (Some [sample_undo])"
proof -
  let ?s = "\<lparr>block_undos = fmempty, pending_row = None\<rparr>"
  have "fst (undo_insert 42 [sample_undo] ?s) = Inr ()" by code_simp
  then obtain s' where run: "undo_insert 42 [sample_undo] ?s = (Inr (), s')" by (metis prod.collapse)
  have "\<forall>u \<in> set [sample_undo]. undo_wf u" by (simp add: sample_undo_def undo_wf_def)
  from undo_store_correct [OF this run] run show ?thesis by blast
qed

theorem pending_transition_correct_witness:
  "\<exists>p s'. pt_undo p = sample_undo \<and> prepare_transition p \<lparr>block_undos = fmempty, pending_row = None\<rparr> = (Inr (), s')
    \<and> read_pending_transition s' = Inr (Some p)"
proof -
  let ?s = "\<lparr>block_undos = fmempty, pending_row = None\<rparr>"
  let ?p = "\<lparr>pt_kind = Disconnect, pt_parent = \<lparr>tip_height = 4, tip_hash = 8\<rparr>,
      pt_next = \<lparr>tip_height = 5, tip_hash = 9\<rparr>, pt_undo = sample_undo,
      pt_created = [(sample_key 3, sample_coin 11 5)]\<rparr>"
  have "fst (prepare_transition ?p ?s) = Inr ()" by code_simp
  then obtain s' where run: "prepare_transition ?p ?s = (Inr (), s')" by (metis prod.collapse)
  have "pending_wf ?p" by (simp add: pending_wf_def sample_undo_def undo_wf_def)
  from pending_transition_correct [OF this run] run show ?thesis by (intro exI [of _ ?p] exI [of _ s']) simp
qed

end
