(* ===== verification/Deployment_Config.thy ===== *)
theory Deployment_Config
  imports Bitcoin_Lib
begin

text \<open>
  The deployment parameters of \<open>src/src/deployments.rs\<close> that do not look at the
  header chain: the per-network defaults, Core's regtest overrides and their
  parsing, the identity bytes a database is bound to, and the flags a block is
  validated under. Also the subsidy schedule of \<open>src/src/blockchain.rs\<close> and the
  context record of \<open>src/src/block_execution.rs\<close> those flags are put in.
\<close>

record activation_heights =
  bip34 :: u32
  bip65 :: u32
  bip66 :: u32
  csv :: u32
  segwit :: u32

datatype threshold_state = Defined | Started | LockedIn | Active | Failed

record version_bits_params =
  period :: u32
  threshold :: u32
  start_time :: i64
  timeout :: i64
  min_activation_height :: i32

record deployment_config =
  dc_network :: network
  dc_taproot :: version_bits_params
  dc_activation_heights :: activation_heights
  dc_signet_challenge :: "bytes option"
  dc_custom_signet :: bool
  dc_taproot_state_cache :: "(hash256, threshold_state) fmap"

text \<open>\<open>PartialEq\<close>: the cache does not count.\<close>

definition config_eq :: "deployment_config \<Rightarrow> deployment_config \<Rightarrow> bool" where
  "config_eq a b \<longleftrightarrow>
     dc_network a = dc_network b \<and> dc_taproot a = dc_taproot b
     \<and> dc_activation_heights a = dc_activation_heights b
     \<and> dc_signet_challenge a = dc_signet_challenge b \<and> dc_custom_signet a = dc_custom_signet b"

datatype deployment_config_error =
    RegtestOnly
  | TestActivationRegtestOnly
  | VbMalformed
  | UnknownDeployment string
  | StartTime string
  | Timeout string
  | MinimumActivationHeight string
  | TestActivationMalformed
  | UnknownBuriedDeployment string
  | BuriedActivationHeight string
  | Config_NetworkMismatch
  | SignetOnly

section \<open>Constants\<close>

definition version_bits_top_mask :: u32 where "version_bits_top_mask = 0xE0000000"
definition version_bits_top_bits :: u32 where "version_bits_top_bits = 0x20000000"
definition taproot_bit :: nat where "taproot_bit = 2"
definition always_active :: i64 where "always_active = - 1"
definition never_active :: i64 where "never_active = - 2"
definition i64_max :: i64 where "i64_max = 0x7FFFFFFFFFFFFFFF"

definition default_signet_challenge :: bytes where
  "default_signet_challenge =
     [0x51, 0x21, 0x03, 0xad, 0x5e, 0x0e, 0xda, 0xd1, 0x8c, 0xb1, 0xf0, 0xfc, 0x0d, 0x28, 0xa3, 0xd4,
      0xf1, 0xf3, 0xe4, 0x45, 0x64, 0x03, 0x37, 0x48, 0x9a, 0xbb, 0x10, 0x40, 0x4f, 0x2d, 0x1e, 0x08,
      0x6b, 0xe4, 0x30, 0x21, 0x03, 0x59, 0xef, 0x50, 0x21, 0x96, 0x4f, 0xe2, 0x2d, 0x6f, 0x8e, 0x05,
      0xb2, 0x46, 0x3c, 0x95, 0x40, 0xce, 0x96, 0x88, 0x3f, 0xe3, 0xb2, 0x78, 0x76, 0x0f, 0x04, 0x8f,
      0x51, 0x89, 0xf2, 0xe6, 0xc4, 0x52, 0xae]"

fun activation_heights_of :: "network \<Rightarrow> activation_heights" where
  "activation_heights_of Bitcoin =
     \<lparr>bip34 = 227931, bip65 = 388381, bip66 = 363725, csv = 419328, segwit = 481824\<rparr>"
| "activation_heights_of Testnet =
     \<lparr>bip34 = 21111, bip65 = 581885, bip66 = 330776, csv = 770112, segwit = 834624\<rparr>"
| "activation_heights_of Testnet4 = \<lparr>bip34 = 1, bip65 = 1, bip66 = 1, csv = 1, segwit = 1\<rparr>"
| "activation_heights_of Signet = \<lparr>bip34 = 1, bip65 = 1, bip66 = 1, csv = 1, segwit = 1\<rparr>"
| "activation_heights_of Regtest = \<lparr>bip34 = 1, bip65 = 1, bip66 = 1, csv = 1, segwit = 0\<rparr>"

fun taproot_params_of :: "network \<Rightarrow> version_bits_params" where
  "taproot_params_of Bitcoin =
     \<lparr>period = 2016, threshold = 1815, start_time = 1619222400, timeout = 1628640000,
      min_activation_height = 709632\<rparr>"
| "taproot_params_of Testnet =
     \<lparr>period = 2016, threshold = 1512, start_time = 1619222400, timeout = 1628640000,
      min_activation_height = 0\<rparr>"
| "taproot_params_of Regtest =
     \<lparr>period = 144, threshold = 108, start_time = always_active, timeout = i64_max,
      min_activation_height = 0\<rparr>"
| "taproot_params_of Testnet4 =
     \<lparr>period = 2016, threshold = 1815, start_time = always_active, timeout = i64_max,
      min_activation_height = 0\<rparr>"
| "taproot_params_of Signet =
     \<lparr>period = 2016, threshold = 1815, start_time = always_active, timeout = i64_max,
      min_activation_height = 0\<rparr>"

definition for_network :: "network \<Rightarrow> deployment_config" where
  "for_network network =
     \<lparr>dc_network = network, dc_taproot = taproot_params_of network,
      dc_activation_heights = activation_heights_of network,
      dc_signet_challenge = (if network = Signet then Some default_signet_challenge else None),
      dc_custom_signet = False, dc_taproot_state_cache = fmempty\<rparr>"

section \<open>Overrides\<close>

definition set_signet_challenge ::
  "deployment_config \<Rightarrow> bytes \<Rightarrow> deployment_config_error + deployment_config" where
  "set_signet_challenge config challenge =
     (if dc_network config \<noteq> Signet then Err SignetOnly
      else Ok (config\<lparr>dc_signet_challenge := Some challenge, dc_custom_signet := True\<rparr>))"

text \<open>\<open>str::split\<close> by a character, \<open>str::split_once\<close>, and \<open>str::parse\<close> of integers.\<close>

fun split_on :: "char \<Rightarrow> string \<Rightarrow> string list" where
  "split_on d [] = [[]]"
| "split_on d (c # cs) =
     (if c = d then [] # split_on d cs
      else case split_on d cs of [] \<Rightarrow> [[c]] | w # ws \<Rightarrow> (c # w) # ws)"

definition split_once :: "char \<Rightarrow> string \<Rightarrow> (string \<times> string) option" where
  "split_once d s =
     (if d \<in> set s then Some (takeWhile (\<lambda>c. c \<noteq> d) s, tl (dropWhile (\<lambda>c. c \<noteq> d) s)) else None)"

fun parse_digits :: "int \<Rightarrow> string \<Rightarrow> int option" where
  "parse_digits acc [] = Some acc"
| "parse_digits acc (c # cs) =
     (let v = (of_char c :: int)
      in if 48 \<le> v \<and> v \<le> 57 then parse_digits (acc * 10 + (v - 48)) cs else None)"

definition parse_nonempty :: "string \<Rightarrow> int option" where
  "parse_nonempty s = (if s = [] then None else parse_digits 0 s)"

definition parse_signed :: "nat \<Rightarrow> string \<Rightarrow> int option" where
  "parse_signed w s =
     (case (case s of
              CHR ''-'' # cs \<Rightarrow> map_option uminus (parse_nonempty cs)
            | CHR ''+'' # cs \<Rightarrow> parse_nonempty cs
            | cs \<Rightarrow> parse_nonempty cs) of
        None \<Rightarrow> None
      | Some v \<Rightarrow> if - (2 ^ (w - 1)) \<le> v \<and> v < 2 ^ (w - 1) then Some v else None)"

definition parse_u32 :: "string \<Rightarrow> u32 option" where
  "parse_u32 s =
     (case (case s of CHR ''+'' # cs \<Rightarrow> parse_nonempty cs | cs \<Rightarrow> parse_nonempty cs) of
        None \<Rightarrow> None
      | Some v \<Rightarrow> if v < 2 ^ 32 then Some (word_of_int v) else None)"

definition apply_vbparams ::
  "deployment_config \<Rightarrow> string \<Rightarrow> deployment_config_error + deployment_config" where
  "apply_vbparams config value =
     (if dc_network config \<noteq> Regtest then Err RegtestOnly
      else
      let fields = split_on CHR '':'' value
      in if \<not> (length fields = 3 \<or> length fields = 4) then Err VbMalformed
         else if fields ! 0 \<noteq> ''taproot'' then Err (UnknownDeployment (fields ! 0))
         else
         bind_res (ok_or (parse_signed 64 (fields ! 1)) (StartTime (fields ! 1))) (\<lambda>start.
         bind_res (ok_or (parse_signed 64 (fields ! 2)) (Timeout (fields ! 2))) (\<lambda>end_time.
         bind_res (if length fields = 4
                   then ok_or (parse_signed 32 (fields ! 3)) (MinimumActivationHeight (fields ! 3))
                   else Ok 0) (\<lambda>height.
           Ok (config\<lparr>dc_taproot := \<lparr>period = 144, threshold = 108, start_time = word_of_int start,
                                      timeout = word_of_int end_time,
                                      min_activation_height = word_of_int height\<rparr>,
                      dc_taproot_state_cache := fmempty\<rparr>)))))"

definition apply_test_activation_height ::
  "deployment_config \<Rightarrow> string \<Rightarrow> deployment_config_error + deployment_config" where
  "apply_test_activation_height config value =
     (if dc_network config \<noteq> Regtest then Err TestActivationRegtestOnly
      else
      bind_res (ok_or (split_once CHR ''@'' value) TestActivationMalformed) (\<lambda>(name, height).
      bind_res (ok_or (case parse_u32 height of
                         None \<Rightarrow> None | Some h \<Rightarrow> if h < 0x7FFFFFFF then Some h else None)
                 (BuriedActivationHeight value)) (\<lambda>h.
        let a = dc_activation_heights config
        in if name = ''bip34'' then Ok (config\<lparr>dc_activation_heights := a\<lparr>bip34 := h\<rparr>\<rparr>)
           else if name = ''dersig'' then Ok (config\<lparr>dc_activation_heights := a\<lparr>bip66 := h\<rparr>\<rparr>)
           else if name = ''cltv'' then Ok (config\<lparr>dc_activation_heights := a\<lparr>bip65 := h\<rparr>\<rparr>)
           else if name = ''csv'' then Ok (config\<lparr>dc_activation_heights := a\<lparr>csv := h\<rparr>\<rparr>)
           else if name = ''segwit'' then Ok (config\<lparr>dc_activation_heights := a\<lparr>segwit := h\<rparr>\<rparr>)
           else Err (UnknownBuriedDeployment name))))"

section \<open>Identity\<close>

fun network_tag :: "network \<Rightarrow> u8" where
  "network_tag Bitcoin = 1"
| "network_tag Testnet = 2"
| "network_tag Testnet4 = 3"
| "network_tag Signet = 4"
| "network_tag Regtest = 5"

text \<open>
  The code panics when a custom Signet has no challenge or one longer than a
  script can be; then the model's identity is \<open>None\<close>.
\<close>

definition legacy_consensus_id :: "deployment_config \<Rightarrow> bytes option" where
  "legacy_consensus_id config =
     (let t = dc_taproot config; a = dc_activation_heights config;
          params = u32_to_le (period t) @ u32_to_le (threshold t) @ u64_to_le (start_time t)
                   @ u64_to_le (timeout t) @ u32_to_le (min_activation_height t);
          buried = (a \<noteq> activation_heights_of (dc_network config));
          heights = (if buried
                     then u32_to_le (bip34 a) @ u32_to_le (bip65 a) @ u32_to_le (bip66 a)
                          @ u32_to_le (csv a) @ u32_to_le (segwit a)
                     else [])
      in if dc_custom_signet config
         then (case dc_signet_challenge config of
                 None \<Rightarrow> None
               | Some challenge \<Rightarrow>
                   map_option (\<lambda>len. 3 # params @ heights @ u32_to_le len @ challenge)
                     (u32_try_from (length challenge)))
         else Some ((if buried then 2 else 1) # params @ heights))"

definition consensus_id :: "deployment_config \<Rightarrow> bytes option" where
  "consensus_id config =
     map_option (\<lambda>encoded.
       (if hd encoded = 2 then 5 else if hd encoded = 3 then 6 else 4) # tl encoded
       @ [network_tag (dc_network config)]) (legacy_consensus_id config)"

definition message_start :: "bitcoin_lib \<Rightarrow> deployment_config \<Rightarrow> bytes" where
  "message_start L config =
     (case dc_signet_challenge config of
        None \<Rightarrow> network_magic L (dc_network config)
      | Some challenge \<Rightarrow>
          take 4 (hash_to_bytes (sha256d L (consensus_serialize_bytes L challenge))))"

definition minimum_block_version_for_heights :: "activation_heights \<Rightarrow> u32 \<Rightarrow> i32" where
  "minimum_block_version_for_heights heights height =
     (if bip65 heights \<le> height then 4
      else if bip66 heights \<le> height then 3
      else if bip34 heights \<le> height then 2 else 1)"

definition minimum_block_version :: "deployment_config \<Rightarrow> u32 \<Rightarrow> i32" where
  "minimum_block_version config height =
     minimum_block_version_for_heights (dc_activation_heights config) height"

section \<open>Subsidy\<close>

definition initial_subsidy_sats :: u64 where
  "initial_subsidy_sats = 50 * 100000000"

text \<open>\<open>None\<close> is the failed assertion on a zero interval.\<close>

definition block_subsidy_with_interval :: "u32 \<Rightarrow> u32 \<Rightarrow> u64 option" where
  "block_subsidy_with_interval height interval =
     (if interval = 0 then None
      else let halvings = height div interval
           in if 64 \<le> halvings then Some 0
              else Some (drop_bit (unat halvings) initial_subsidy_sats))"

definition block_subsidy :: "u32 \<Rightarrow> u64 option" where
  "block_subsidy height = block_subsidy_with_interval height 210000"

fun halving_interval :: "network \<Rightarrow> u32" where
  "halving_interval Regtest = 150"
| "halving_interval Bitcoin = 210000"
| "halving_interval Testnet = 210000"
| "halving_interval Testnet4 = 210000"
| "halving_interval Signet = 210000"

section \<open>Block flags\<close>

record block_deployment_context =
  script_flags :: u32
  bip34_active :: bool
  csv_active :: bool
  segwit_active :: bool
  signet_challenge :: "bytes option"
  ctx_bip30_enforced :: bool
  bip30_overwrite :: bool
  subsidy_sats :: u64

text \<open>The flag bits of \<open>bitcoinconsensus\<close>.\<close>

definition verify_none :: u32 where "verify_none = 0"
definition verify_p2sh :: u32 where "verify_p2sh = 0x1"
definition verify_dersig :: u32 where "verify_dersig = 0x4"
definition verify_nulldummy :: u32 where "verify_nulldummy = 0x10"
definition verify_checklocktimeverify :: u32 where "verify_checklocktimeverify = 0x200"
definition verify_checksequenceverify :: u32 where "verify_checksequenceverify = 0x400"
definition verify_witness :: u32 where "verify_witness = 0x800"
definition verify_taproot :: u32 where "verify_taproot = 0x20000"

definition script_flag_exception :: "network \<Rightarrow> hash256 \<Rightarrow> u32 option" where
  "script_flag_exception network hash =
     (if network = Bitcoin
         \<and> hash = 0x00000000000002dc756eebf4f49723ed8d30cc28a5f108eb94b1ba88ac4f9c22
      then Some verify_none
      else if network = Bitcoin
         \<and> hash = 0x0000000000000000000f14c35b2d841e986ab5441de8c585d5ffe55ea1e395ad
      then Some (verify_p2sh OR verify_witness)
      else if network = Testnet
         \<and> hash = 0x00000000dd30457c001f4095d208cc1296b0eed002427aa599874af7a432b105
      then Some verify_none
      else None)"

definition is_bip30_exception :: "network \<Rightarrow> u32 \<Rightarrow> hash256 \<Rightarrow> bool" where
  "is_bip30_exception network height hash \<longleftrightarrow>
     network = Bitcoin
     \<and> (height = 91842
          \<and> hash = 0x00000000000a4d0a398161ffc163c503763b1f4360639393e0e4c8e300e0caec
        \<or> height = 91880
          \<and> hash = 0x00000000000743f190a18c5577a3c2d2a1f610ae9601ac046a38084ccb7cd721)"

fun bip34_anchor :: "network \<Rightarrow> (u32 \<times> hash256) option" where
  "bip34_anchor Bitcoin =
     Some (227931, 0x000000000000024b89b42a942fe0d9fea3bb44ab7bd1b19115dd6a759c0808b8)"
| "bip34_anchor Testnet =
     Some (21111, 0x0000000023b3a96d3484e5abb3755c413e7d41500f8e2a5c3f0dd01299cd8ef8)"
| "bip34_anchor _ = None"

definition bip34_implies_bip30_limit :: u32 where
  "bip34_implies_bip30_limit = 1983702"

definition bip30_enforced :: "network \<Rightarrow> u32 \<Rightarrow> hash256 \<Rightarrow> bool \<Rightarrow> bool" where
  "bip30_enforced network height hash bip34_anchor_matches =
     (if is_bip30_exception network height hash then False
      else if bip34_implies_bip30_limit \<le> height then True
      else let above_bip34 = (case bip34_anchor network of None \<Rightarrow> False | Some (a, _) \<Rightarrow> a < height)
           in \<not> (above_bip34 \<and> bip34_anchor_matches))"

definition block_deployment_context_with_bip34_anchor ::
  "deployment_config \<Rightarrow> u32 \<Rightarrow> hash256 \<Rightarrow> bool \<Rightarrow> block_deployment_context option" where
  "block_deployment_context_with_bip34_anchor config height hash anchor_matches =
     (let network = dc_network config; heights = dc_activation_heights config;
          flags = (case script_flag_exception network hash of
                     Some f \<Rightarrow> f
                   | None \<Rightarrow> verify_p2sh OR verify_witness OR verify_taproot);
          flags = (if bip66 heights \<le> height then flags OR verify_dersig else flags);
          flags = (if bip65 heights \<le> height then flags OR verify_checklocktimeverify else flags);
          flags = (if csv heights \<le> height then flags OR verify_checksequenceverify else flags);
          flags = (if segwit heights \<le> height then flags OR verify_nulldummy else flags)
      in map_option (\<lambda>subsidy.
           \<lparr>script_flags = flags, bip34_active = (bip34 heights \<le> height),
            csv_active = (csv heights \<le> height), segwit_active = (segwit heights \<le> height),
            signet_challenge = dc_signet_challenge config,
            ctx_bip30_enforced = bip30_enforced network height hash anchor_matches,
            bip30_overwrite = is_bip30_exception network height hash,
            subsidy_sats = subsidy\<rparr>)
         (block_subsidy_with_interval height (halving_interval network)))"

definition block_deployment_context_with_config ::
  "deployment_config \<Rightarrow> u32 \<Rightarrow> hash256 \<Rightarrow> block_deployment_context option" where
  "block_deployment_context_with_config config height hash =
     block_deployment_context_with_bip34_anchor config height hash False"

definition block_deployment_context_of :: "network \<Rightarrow> u32 \<Rightarrow> hash256 \<Rightarrow> block_deployment_context option" where
  "block_deployment_context_of network height hash =
     block_deployment_context_with_config (for_network network) height hash"

definition taproot_always_active :: "network \<Rightarrow> bool" where
  "taproot_always_active network \<longleftrightarrow> start_time (dc_taproot (for_network network)) = always_active"


section \<open>Identity of a configuration\<close>

text \<open>The configurations the command line can build, challenges as long as a script may be.\<close>

inductive configured :: "deployment_config \<Rightarrow> bool" where
  configured_default: "configured (for_network n)"
| configured_challenge:
    "configured c \<Longrightarrow> length ch < 2 ^ 32 \<Longrightarrow> set_signet_challenge c ch = Ok c' \<Longrightarrow> configured c'"
| configured_vbparams: "configured c \<Longrightarrow> apply_vbparams c v = Ok c' \<Longrightarrow> configured c'"
| configured_height: "configured c \<Longrightarrow> apply_test_activation_height c v = Ok c' \<Longrightarrow> configured c'"

definition config_ok :: "deployment_config \<Rightarrow> bool" where
  "config_ok c \<longleftrightarrow>
     (dc_network c \<noteq> Regtest \<longrightarrow> dc_taproot c = taproot_params_of (dc_network c)
        \<and> dc_activation_heights c = activation_heights_of (dc_network c))
     \<and> (dc_network c \<noteq> Signet \<longrightarrow> dc_signet_challenge c = None \<and> \<not> dc_custom_signet c)
     \<and> (dc_network c = Signet \<longrightarrow> (\<exists>ch. dc_signet_challenge c = Some ch \<and> length ch < 2 ^ 32
          \<and> (\<not> dc_custom_signet c \<longrightarrow> ch = default_signet_challenge)))"

lemma set_signet_challenge_Inr:
  "set_signet_challenge c ch = Inr c' \<longleftrightarrow>
     dc_network c = Signet \<and> c' = c\<lparr>dc_signet_challenge := Some ch, dc_custom_signet := True\<rparr>"
  by (auto simp: set_signet_challenge_def)

lemma apply_vbparams_Inr:
  assumes "apply_vbparams c v = Inr c'"
  shows "dc_network c = Regtest"
    and "\<exists>t. c' = c\<lparr>dc_taproot := t, dc_taproot_state_cache := fmempty\<rparr>"
  using assms by (auto simp: apply_vbparams_def Let_def res_simps split: if_splits)

lemma apply_test_activation_height_Inr:
  assumes "apply_test_activation_height c v = Inr c'"
  shows "dc_network c = Regtest" and "\<exists>a. c' = c\<lparr>dc_activation_heights := a\<rparr>"
  using assms by (auto simp: apply_test_activation_height_def Let_def res_simps split: if_splits prod.splits)

lemma configured_ok: "configured c \<Longrightarrow> config_ok c"
proof (induction rule: configured.induct)
  case (configured_default n)
  show ?case by (cases n) (auto simp: config_ok_def for_network_def default_signet_challenge_def)
next
  case (configured_challenge c ch c')
  then show ?case by (auto simp: config_ok_def set_signet_challenge_Inr)
next
  case (configured_vbparams c v c')
  note apply_vbparams_Inr [OF configured_vbparams.hyps(2)]
  with configured_vbparams.IH show ?case by (auto simp: config_ok_def)
next
  case (configured_height c v c')
  note apply_test_activation_height_Inr [OF configured_height.hyps(2)]
  with configured_height.IH show ?case by (auto simp: config_ok_def)
qed

lemma network_tag_inject: "network_tag a = network_tag b \<longleftrightarrow> a = b"
  by (cases a; cases b) simp_all

lemma legacy_consensus_id_plain:
  assumes "\<not> dc_custom_signet c"
  shows "\<exists>rest. legacy_consensus_id c = Some ((if dc_activation_heights c \<noteq> activation_heights_of (dc_network c)
            then 2 else 1) # rest)"
  using assms by (simp add: legacy_consensus_id_def Let_def)

lemma legacy_consensus_id_custom:
  assumes "dc_custom_signet c" "dc_signet_challenge c = Some ch" "length ch < 2 ^ 32"
  shows "\<exists>rest. legacy_consensus_id c = Some (3 # rest)"
  using assms by (simp add: legacy_consensus_id_def Let_def u32_try_from_def)

lemma config_ok_legacy:
  assumes "config_ok c"
  shows "\<exists>v rest. legacy_consensus_id c = Some (v # rest) \<and> v \<in> {1, 2, 3}"
proof (cases "dc_custom_signet c")
  case True
  then obtain ch where "dc_signet_challenge c = Some ch" "length ch < 2 ^ 32"
    using assms by (auto simp: config_ok_def)
  from legacy_consensus_id_custom [OF True this] show ?thesis by auto
next
  case False
  from legacy_consensus_id_plain [OF this] show ?thesis by (auto split: if_splits)
qed

lemma consensus_id_eq_iff:
  assumes "config_ok a" "config_ok b"
  shows "consensus_id a = consensus_id b \<longleftrightarrow>
    dc_network a = dc_network b \<and> legacy_consensus_id a = legacy_consensus_id b"
  using config_ok_legacy [OF assms(1)] config_ok_legacy [OF assms(2)]
  by (auto simp: consensus_id_def network_tag_inject)

lemma legacy_consensus_id_inject:
  assumes a: "config_ok a" and b: "config_ok b" and n: "dc_network a = dc_network b"
    and l: "legacy_consensus_id a = legacy_consensus_id b"
  shows "config_eq a b"
proof (cases "dc_network a = Signet")
  case True
  then obtain ca cb where "dc_signet_challenge a = Some ca" "length ca < 2 ^ 32"
    "dc_signet_challenge b = Some cb" "length cb < 2 ^ 32"
    "\<not> dc_custom_signet a \<Longrightarrow> ca = default_signet_challenge"
    "\<not> dc_custom_signet b \<Longrightarrow> cb = default_signet_challenge"
    using a b n by (auto simp: config_ok_def)
  then show ?thesis using True a b n l
    by (cases "dc_custom_signet a"; cases "dc_custom_signet b")
      (auto simp: legacy_consensus_id_def config_eq_def config_ok_def Let_def u32_try_from_def)
next
  case False
  then have plain: "\<not> dc_custom_signet a" "\<not> dc_custom_signet b"
    "dc_signet_challenge a = None" "dc_signet_challenge b = None"
    using a b n by (auto simp: config_ok_def)
  then show ?thesis using n l
    by (auto simp: legacy_consensus_id_def config_eq_def Let_def split: if_splits
        intro!: version_bits_params.equality activation_heights.equality)
qed

lemma config_eq_legacy: "config_eq a b \<Longrightarrow> legacy_consensus_id a = legacy_consensus_id b"
  by (simp add: config_eq_def legacy_consensus_id_def Let_def)

text \<open>
  C30. The identity a database is bound to separates configurations: every
  configuration the command line can build has one, two configurations have the
  same identity exactly when they are equal, and the network has to be part of it,
  because without it Testnet4 and the default Signet collide.
\<close>
theorem consensus_id_identifies:
  assumes "configured a" "configured b"
  shows "consensus_id a \<noteq> None \<and> (consensus_id a = consensus_id b \<longleftrightarrow> config_eq a b)
    \<and> legacy_consensus_id (for_network Testnet4) = legacy_consensus_id (for_network Signet)
    \<and> consensus_id (for_network Testnet4) \<noteq> consensus_id (for_network Signet)"
proof -
  have ok: "config_ok a" "config_ok b" "config_ok (for_network Testnet4)" "config_ok (for_network Signet)"
    by (intro configured_ok assms configured_default)+
  have "consensus_id a = consensus_id b \<longleftrightarrow> config_eq a b"
    using legacy_consensus_id_inject [OF ok(1,2)] config_eq_legacy [of a b]
    by (auto simp: consensus_id_eq_iff [OF ok(1,2)] config_eq_def)
  moreover have "consensus_id a \<noteq> None"
    using config_ok_legacy [OF ok(1)] by (auto simp: consensus_id_def)
  moreover have "consensus_id (for_network Testnet4) \<noteq> consensus_id (for_network Signet)"
    unfolding consensus_id_eq_iff [OF ok(3,4)] by (simp add: for_network_def)
  moreover have "legacy_consensus_id (for_network Testnet4) = legacy_consensus_id (for_network Signet)"
    by (simp add: legacy_consensus_id_def for_network_def)
  ultimately show ?thesis by blast
qed

definition sample_vb_config :: deployment_config where
  "sample_vb_config = (case apply_vbparams (for_network Regtest) ''taproot:-1:1700000000:288'' of
     Inr c \<Rightarrow> c | Inl _ \<Rightarrow> for_network Bitcoin)"

lemma sample_vb_config_step:
  "apply_vbparams (for_network Regtest) ''taproot:-1:1700000000:288'' = Ok sample_vb_config
   \<and> min_activation_height (dc_taproot sample_vb_config) = 288"
  by code_simp

theorem consensus_id_identifies_witness:
  "configured (for_network Regtest) \<and> configured sample_vb_config
   \<and> consensus_id (for_network Regtest) \<noteq> consensus_id sample_vb_config"
proof -
  have c: "configured (for_network Regtest)" by (rule configured_default)
  have v: "configured sample_vb_config"
    by (rule configured_vbparams [OF c conjunct1 [OF sample_vb_config_step]])
  have "min_activation_height (dc_taproot (for_network Regtest)) = 0" by (simp add: for_network_def)
  then have "\<not> config_eq (for_network Regtest) sample_vb_config"
    using sample_vb_config_step by (auto simp: config_eq_def)
  with consensus_id_identifies [OF c v] c v show ?thesis by blast
qed

section \<open>Issuance\<close>

definition subsidy_at :: "nat \<Rightarrow> nat" where
  "subsidy_at h = (case block_subsidy (word_of_nat h) of None \<Rightarrow> 0 | Some s \<Rightarrow> unat s)"

lemma unat_drop_bit_div: "unat (drop_bit n w) = unat w div 2 ^ n"
proof -
  have "unat (drop_bit n w) = drop_bit n (unat w)" by (rule unat_drop_bit_eq)
  then show ?thesis by (simp add: drop_bit_nat_def)
qed

lemma block_subsidy_with_interval_value:
  assumes "interval \<noteq> 0"
  shows "block_subsidy_with_interval h interval =
    Some (if 64 \<le> unat h div unat interval then 0
          else drop_bit (unat h div unat interval) initial_subsidy_sats)"
  using assms by (auto simp: block_subsidy_with_interval_def Let_def word_le_nat_alt unat_div_distrib unat_div)

lemma subsidy_at_value:
  assumes "h < 2 ^ 32"
  shows "subsidy_at h = (if 64 \<le> h div 210000 then 0 else 5000000000 div 2 ^ (h div 210000))"
proof -
  have "unat (word_of_nat h :: u32) = h" using assms by (rule unat_word_of_nat_u32)
  then show ?thesis
    by (simp add: subsidy_at_def block_subsidy_def block_subsidy_with_interval_value unat_drop_bit_div
        initial_subsidy_sats_def)
qed

lemma subsidy_at_era: "k < 64 \<Longrightarrow> h < 210000 \<Longrightarrow> subsidy_at (h + k * 210000) = 5000000000 div 2 ^ k"
proof -
  assume k: "k < 64" and h: "h < 210000"
  have "h + k * 210000 < 2 ^ 32" using k h by simp
  moreover have "(h + k * 210000) div 210000 = k" using h by simp
  ultimately show ?thesis using k by (simp add: subsidy_at_value)
qed

lemma sum_lessThan_add: "(\<Sum>h < m + n. f h) = (\<Sum>h < m. f h) + (\<Sum>h < n. f (h + m))"
  for f :: "nat \<Rightarrow> nat"
  by (induction n) (simp_all add: add.commute [of m])

lemma issuance_eras: "k \<le> 64 \<Longrightarrow>
    (\<Sum>h < k * 210000. subsidy_at h) = (\<Sum>i < k. 210000 * (5000000000 div 2 ^ i))"
proof (induction k)
  case (Suc k)
  have "(\<Sum>h < Suc k * 210000. subsidy_at h)
      = (\<Sum>h < k * 210000. subsidy_at h) + (\<Sum>h < 210000. subsidy_at (h + k * 210000))"
    by (simp add: sum_lessThan_add add.commute [of 210000])
  also have "(\<Sum>h < 210000. subsidy_at (h + k * 210000)) = 210000 * (5000000000 div 2 ^ k)"
    using Suc.prems by (simp add: subsidy_at_era)
  finally show ?case using Suc by simp
qed simp

lemma subsidy_at_late: "64 * 210000 \<le> h \<Longrightarrow> h < 2 ^ 32 \<Longrightarrow> subsidy_at h = 0"
  using div_le_mono [of "64 * 210000" h 210000] by (simp add: subsidy_at_value)

lemma issuance_bound:
  assumes "n \<le> 2 ^ 32"
  shows "(\<Sum>h < n. subsidy_at h) \<le> (\<Sum>h < 64 * 210000. subsidy_at h)"
proof -
  have "(\<Sum>h < n. subsidy_at h) = (\<Sum>h \<in> {..<n} \<inter> {..<64 * 210000}. subsidy_at h)"
    using assms subsidy_at_late by (intro sum.mono_neutral_right ballI) (auto simp: not_less)
  also have "\<dots> \<le> (\<Sum>h < 64 * 210000. subsidy_at h)" by (intro sum_mono2) auto
  finally show ?thesis .
qed

lemma subsidy_monotone:
  assumes "h \<le> h'" "interval \<noteq> 0"
  shows "\<exists>s s'. block_subsidy_with_interval h interval = Some s
    \<and> block_subsidy_with_interval h' interval = Some s' \<and> s' \<le> s \<and> s \<le> initial_subsidy_sats"
proof -
  have "unat h div unat interval \<le> unat h' div unat interval"
    using assms by (intro div_le_mono) (simp add: word_le_nat_alt)
  then show ?thesis
    using assms(2)
    by (auto simp: block_subsidy_with_interval_value word_le_nat_alt unat_drop_bit_div
        intro: div_le_mono2 power_increasing)
qed

text \<open>
  C31. Issuance is bounded: on every chain of 32-bit heights the subsidies of the
  first \<open>n\<close> blocks add up to at most 2,099,999,997,690,000 satoshi, which is below
  the 21 million coins of \<open>MAX_MONEY\<close>; the bound is met, the subsidy never increases,
  and the schedule fails only on a zero interval.
\<close>
theorem subsidy_issuance:
  "(\<forall>n \<le> 2 ^ 32. (\<Sum>h < n. subsidy_at h) \<le> 2099999997690000)
   \<and> (\<Sum>h < 64 * 210000. subsidy_at h) = 2099999997690000
   \<and> (\<forall>h h' interval. h \<le> h' \<longrightarrow> interval \<noteq> 0 \<longrightarrow>
        (\<exists>s s'. block_subsidy_with_interval h interval = Some s
          \<and> block_subsidy_with_interval h' interval = Some s' \<and> s' \<le> s \<and> s \<le> initial_subsidy_sats))
   \<and> (\<forall>h. block_subsidy_with_interval h 0 = None)"
proof -
  have total: "(\<Sum>h < 64 * 210000. subsidy_at h) = 2099999997690000"
    unfolding issuance_eras [OF order_refl] by (simp add: lessThan_nat_numeral)
  show ?thesis
    using total issuance_bound subsidy_monotone
    by (auto simp: block_subsidy_with_interval_def)
qed

theorem subsidy_issuance_witness:
  "(\<Sum>h < 420000. subsidy_at h) \<le> 2099999997690000
   \<and> (\<exists>s s'. block_subsidy_with_interval 10 150 = Some s
        \<and> block_subsidy_with_interval 400 150 = Some s' \<and> s' \<le> s \<and> s \<le> initial_subsidy_sats)"
proof -
  have "(\<Sum>h < 420000. subsidy_at h) \<le> 2099999997690000"
    using conjunct1 [OF subsidy_issuance] by (rule allE [of _ 420000]) simp
  moreover have "(10::u32) \<le> 400" "(150::u32) \<noteq> 0" by simp_all
  ultimately show ?thesis using subsidy_issuance by blast
qed

section \<open>Flags\<close>

lemma verify_flag_simps:
  "verify_none = 0" "verify_p2sh = push_bit 0 1" "verify_dersig = push_bit 2 1"
  "verify_nulldummy = push_bit 4 1" "verify_checklocktimeverify = push_bit 9 1"
  "verify_checksequenceverify = push_bit 10 1" "verify_witness = push_bit 11 1"
  "verify_taproot = push_bit 17 1"
  by (simp_all add: verify_none_def verify_p2sh_def verify_dersig_def verify_nulldummy_def
      verify_checklocktimeverify_def verify_checksequenceverify_def verify_witness_def
      verify_taproot_def push_bit_eq_mult)

definition flag_bits :: "deployment_config \<Rightarrow> u32 \<Rightarrow> hash256 \<Rightarrow> nat \<Rightarrow> bool" where
  "flag_bits config height hash i \<longleftrightarrow>
     (case script_flag_exception (dc_network config) hash of Some f \<Rightarrow> bit f i | None \<Rightarrow> i \<in> {0, 11, 17})
     \<or> i = 2 \<and> bip66 (dc_activation_heights config) \<le> height
     \<or> i = 9 \<and> bip65 (dc_activation_heights config) \<le> height
     \<or> i = 10 \<and> csv (dc_activation_heights config) \<le> height
     \<or> i = 4 \<and> segwit (dc_activation_heights config) \<le> height"

lemma bit_verify_flags:
  "bit verify_p2sh i \<longleftrightarrow> i = 0" "bit verify_dersig i \<longleftrightarrow> i = 2" "bit verify_nulldummy i \<longleftrightarrow> i = 4"
  "bit verify_checklocktimeverify i \<longleftrightarrow> i = 9" "bit verify_checksequenceverify i \<longleftrightarrow> i = 10"
  "bit verify_witness i \<longleftrightarrow> i = 11" "bit verify_taproot i \<longleftrightarrow> i = 17"
  unfolding verify_flag_simps bit_push_bit_iff by (auto simp: bit_1_iff)

lemma bit_if_or: "bit (if c then f OR g else f) i \<longleftrightarrow> bit f i \<or> c \<and> bit g i" for f g :: u32
  by (simp add: bit_or_iff)

text \<open>What a context says: the bits, the active rules, the BIP30 decision and the subsidy.\<close>

definition context_fields ::
  "deployment_config \<Rightarrow> u32 \<Rightarrow> hash256 \<Rightarrow> bool \<Rightarrow> block_deployment_context \<Rightarrow> bool" where
  "context_fields config height hash anchor ctx \<longleftrightarrow>
     (\<forall>i. bit (script_flags ctx) i \<longleftrightarrow> flag_bits config height hash i)
     \<and> (bip34_active ctx \<longleftrightarrow> bip34 (dc_activation_heights config) \<le> height)
     \<and> (csv_active ctx \<longleftrightarrow> csv (dc_activation_heights config) \<le> height)
     \<and> (segwit_active ctx \<longleftrightarrow> segwit (dc_activation_heights config) \<le> height)
     \<and> signet_challenge ctx = dc_signet_challenge config
     \<and> (ctx_bip30_enforced ctx \<longleftrightarrow> bip30_enforced (dc_network config) height hash anchor)
     \<and> (bip30_overwrite ctx \<longleftrightarrow> is_bip30_exception (dc_network config) height hash)
     \<and> unat (subsidy_sats ctx) = 5000000000 div 2 ^ (unat height div unat (halving_interval (dc_network config)))"

lemma block_context_fields:
  "\<exists>ctx. block_deployment_context_with_bip34_anchor config height hash anchor = Some ctx
     \<and> context_fields config height hash anchor ctx"
proof -
  have i: "halving_interval n \<noteq> 0" for n by (cases n) simp_all
  let ?n = "dc_network config"
  let ?e = "unat height div unat (halving_interval ?n)"
  let ?s = "if 64 \<le> ?e then 0 else drop_bit ?e initial_subsidy_sats"
  have sub: "unat ?s = 5000000000 div 2 ^ ?e"
  proof (cases "64 \<le> ?e")
    case True
    then have "(2 :: nat) ^ 64 \<le> 2 ^ ?e" by (rule power_increasing) simp
    then have "(5000000000 :: nat) < 2 ^ ?e" by (rule less_le_trans [rotated]) simp
    with True show ?thesis by simp
  qed (simp add: unat_drop_bit_div initial_subsidy_sats_def)
  let ?ctx = "the (block_deployment_context_with_bip34_anchor config height hash anchor)"
  note d = block_deployment_context_with_bip34_anchor_def Let_def block_subsidy_with_interval_value [OF i]
  have "bit (script_flags ?ctx) k \<longleftrightarrow> flag_bits config height hash k" for k
    unfolding d flag_bits_def option.map option.sel block_deployment_context.select_convs bit_if_or bit_verify_flags
    by (cases "script_flag_exception ?n hash") (auto simp: bit_or_iff bit_verify_flags)
  then show ?thesis
    by (intro exI [of _ ?ctx] conjI) (simp_all add: context_fields_def, simp_all add: d sub)
qed

end
