(* ===== verification/Headers.thy ===== *)
theory Headers
  imports Deployment_Config
begin

text \<open>
  The header DAG of \<open>src/src/headers.rs\<close> and \<open>src/src/headers/retention.rs\<close>:
  proof-of-work insertion, best-work tip selection, contextual rules, staged header
  batches, leaf eviction, locators and serving projections.

  An operation that can panic or loop has an option result, and \<open>None\<close> stands for
  both: a theorem that an operation returns shows that neither happens. Work is
  added modulo \<open>2 ^ 256\<close>, as a release build of the crate adds it.
\<close>

definition max_future_block_time_secs :: u32 where "max_future_block_time_secs = 2 * 60 * 60"
definition max_timewarp_secs :: u32 where "max_timewarp_secs = 10 * 60"

definition core_params :: "bitcoin_lib \<Rightarrow> network \<Rightarrow> chain_params" where
  "core_params L network =
     (let params = params_new L network
      in if network = Regtest then params\<lparr>pow_target_timespan := 24 * 60 * 60\<rparr> else params)"

record header_info =
  hi_header :: header
  hi_hash :: hash256
  hi_height :: u32
  hi_chainwork :: u256

datatype header_error =
    Header_Duplicate hash256
  | UnknownParent hash256
  | InvalidTarget
  | InvalidProofOfWork pow_error
  | Header_HeightOverflow
  | TimeTooOld u32 u32
  | TimeWarp u32 u32
  | TimeTooNew u32 u32
  | MissingRetargetAncestor u32
  | UnexpectedDifficulty u32 u32
  | CheckpointMismatch u32 hash256 hash256
  | ForkBeforeCheckpoint u32 u32
  | ObsoleteVersion u32 i32 i32

fun is_peer_invalid :: "header_error \<Rightarrow> bool" where
  "is_peer_invalid InvalidTarget = True"
| "is_peer_invalid (InvalidProofOfWork _) = True"
| "is_peer_invalid (TimeTooOld _ _) = True"
| "is_peer_invalid (TimeWarp _ _) = True"
| "is_peer_invalid (UnexpectedDifficulty _ _) = True"
| "is_peer_invalid (CheckpointMismatch _ _ _) = True"
| "is_peer_invalid (ForkBeforeCheckpoint _ _) = True"
| "is_peer_invalid (ObsoleteVersion _ _ _) = True"
| "is_peer_invalid _ = False"

record header_dag =
  dag_params :: chain_params
  dag_deployments :: deployment_config
  dag_headers :: "(hash256, header_info) fmap"
  dag_child_counts :: "(hash256, nat) fmap option"
  dag_active_tip :: hash256
  dag_active_chain :: "hash256 list"

text \<open>\<open>slice::get\<close>.\<close>

definition nth_opt :: "'a list \<Rightarrow> nat \<Rightarrow> 'a option" where
  "nth_opt xs i = (if i < length xs then Some (xs ! i) else None)"

definition header_target :: "bitcoin_lib \<Rightarrow> header \<Rightarrow> u256" where
  "header_target L h = target_from_compact L (h_bits h)"

definition header_work :: "bitcoin_lib \<Rightarrow> header \<Rightarrow> u256" where
  "header_work L h = target_to_work L (header_target L h)"

section \<open>Construction and lookup\<close>

definition with_deployments :: "bitcoin_lib \<Rightarrow> deployment_config \<Rightarrow> header_dag" where
  "with_deployments L deployments =
     (let network = dc_network deployments; header = genesis_header L network;
          hash = block_hash L header;
          info = \<lparr>hi_header = header, hi_hash = hash, hi_height = 0, hi_chainwork = header_work L header\<rparr>
      in \<lparr>dag_params = core_params L network, dag_deployments = deployments,
          dag_headers = fmupd hash info fmempty, dag_child_counts = None,
          dag_active_tip = hash, dag_active_chain = [hash]\<rparr>)"

definition dag_new :: "bitcoin_lib \<Rightarrow> network \<Rightarrow> header_dag" where
  "dag_new L network = with_deployments L (for_network network)"

definition dag_network :: "header_dag \<Rightarrow> network" where
  "dag_network d = p_network (dag_params d)"

definition uses_deployments :: "header_dag \<Rightarrow> deployment_config \<Rightarrow> bool" where
  "uses_deployments d config = config_eq (dag_deployments d) config"

definition active_tip :: "header_dag \<Rightarrow> header_info option" where
  "active_tip d = fmlookup (dag_headers d) (dag_active_tip d)"

definition retained_header_count :: "header_dag \<Rightarrow> nat" where
  "retained_header_count d = fcard (fmdom (dag_headers d))"

definition active_header_at :: "header_dag \<Rightarrow> u32 \<Rightarrow> header_info option" where
  "active_header_at d height =
     Option.bind (nth_opt (dag_active_chain d) (unat height)) (fmlookup (dag_headers d))"

definition active_height_of :: "header_dag \<Rightarrow> hash256 \<Rightarrow> u32 option" where
  "active_height_of d hash =
     Option.bind (fmlookup (dag_headers d) hash) (\<lambda>info.
       if nth_opt (dag_active_chain d) (unat (hi_height info)) = Some hash
       then Some (hi_height info) else None)"

definition dag_get :: "header_dag \<Rightarrow> hash256 \<Rightarrow> header_info option" where
  "dag_get d hash = fmlookup (dag_headers d) hash"

section \<open>Serving projections\<close>

text \<open>
  \<open>self.headers[hash]\<close> panics on an unknown hash.
\<close>

fun collect_headers ::
  "(hash256, header_info) fmap \<Rightarrow> hash256 list \<Rightarrow> (hash256, header_info) fmap
     \<Rightarrow> (hash256, header_info) fmap option" where
  "collect_headers headers [] acc = Some acc"
| "collect_headers headers (hash # hashes) acc =
     Option.bind (fmlookup headers hash) (\<lambda>info. collect_headers headers hashes (fmupd hash info acc))"

definition active_chain_snapshot :: "header_dag \<Rightarrow> header_dag option" where
  "active_chain_snapshot d =
     Option.bind (collect_headers (dag_headers d) (dag_active_chain d) fmempty) (\<lambda>headers.
       Some \<lparr>dag_params = dag_params d, dag_deployments = dag_deployments d, dag_headers = headers,
             dag_child_counts = None, dag_active_tip = dag_active_tip d,
             dag_active_chain = dag_active_chain d\<rparr>)"

text \<open>The \<open>while\<close> loop that looks for the end of the shared prefix.\<close>

fun shared_len_loop :: "hash256 list \<Rightarrow> hash256 list \<Rightarrow> nat \<Rightarrow> nat" where
  "shared_len_loop a b 0 = 0"
| "shared_len_loop a b (Suc n) = (if a ! n \<noteq> b ! n then shared_len_loop a b n else Suc n)"

definition refresh_active_chain_snapshot :: "header_dag \<Rightarrow> header_dag \<Rightarrow> header_dag option" where
  "refresh_active_chain_snapshot d snapshot =
     (if fcard (fmdom (dag_headers snapshot)) \<noteq> length (dag_active_chain snapshot)
         \<or> nth_opt (dag_active_chain snapshot) 0 \<noteq> nth_opt (dag_active_chain d) 0
      then active_chain_snapshot d
      else
      let shared = shared_len_loop (dag_active_chain snapshot) (dag_active_chain d)
                     (min (length (dag_active_chain snapshot)) (length (dag_active_chain d)));
          kept = fold fmdrop (drop shared (dag_active_chain snapshot)) (dag_headers snapshot)
      in Option.bind (collect_headers (dag_headers d) (drop shared (dag_active_chain d)) kept) (\<lambda>headers.
           Some \<lparr>dag_params = dag_params d, dag_deployments = dag_deployments d, dag_headers = headers,
                 dag_child_counts = None, dag_active_tip = dag_active_tip d,
                 dag_active_chain = take shared (dag_active_chain snapshot)
                                    @ drop shared (dag_active_chain d)\<rparr>))"

section \<open>Locator\<close>

partial_function (option) locator_loop ::
  "header_dag \<Rightarrow> u32 \<Rightarrow> u32 \<Rightarrow> hash256 list \<Rightarrow> hash256 list option" where
  "locator_loop d height step locator =
     (case active_header_at d height of
        None \<Rightarrow> None
      | Some info \<Rightarrow>
          let locator' = locator @ [hi_hash info]
          in if height = 0 then Some locator'
             else locator_loop d (saturating_sub height step)
                    (if 10 < length locator' then saturating_mul step 2 else step) locator')"

definition block_locator :: "header_dag \<Rightarrow> hash256 list option" where
  "block_locator d =
     (case active_tip d of None \<Rightarrow> None | Some tip \<Rightarrow> locator_loop d (hi_height tip) 1 [])"

section \<open>Median time past\<close>

fun ancestor_times :: "header_dag \<Rightarrow> nat \<Rightarrow> header_info \<Rightarrow> u32 list" where
  "ancestor_times d 0 current = []"
| "ancestor_times d (Suc n) current =
     (case fmlookup (dag_headers d) (prev_blockhash (hi_header current)) of
        None \<Rightarrow> []
      | Some parent \<Rightarrow> h_time (hi_header parent) # ancestor_times d n parent)"

definition median_time_past :: "header_dag \<Rightarrow> hash256 \<Rightarrow> u32 option" where
  "median_time_past d hash =
     Option.bind (fmlookup (dag_headers d) hash) (\<lambda>current.
       let times = h_time (hi_header current) # ancestor_times d 10 current
       in Some (sort times ! (length times div 2)))"

section \<open>Next work\<close>

partial_function (option) ancestor_at_height ::
  "header_dag \<Rightarrow> header_info \<Rightarrow> u32 \<Rightarrow> header_info option option" where
  "ancestor_at_height d current height =
     (if height < hi_height current
      then case fmlookup (dag_headers d) (prev_blockhash (hi_header current)) of
             None \<Rightarrow> Some None
           | Some parent \<Rightarrow> ancestor_at_height d parent height
      else Some (if hi_height current = height then Some current else None))"

partial_function (option) last_regular_header ::
  "header_dag \<Rightarrow> u32 \<Rightarrow> u32 \<Rightarrow> header_info \<Rightarrow> (header_error + header_info) option" where
  "last_regular_header d interval pow_limit cursor =
     (if hi_height cursor mod interval \<noteq> 0 \<and> h_bits (hi_header cursor) = pow_limit
      then case fmlookup (dag_headers d) (prev_blockhash (hi_header cursor)) of
             None \<Rightarrow> Some (Err (MissingRetargetAncestor (hi_height cursor - 1)))
           | Some parent \<Rightarrow> last_regular_header d interval pow_limit parent
      else Some (Ok cursor))"

text \<open>The interval as a \<open>u32\<close> and \<open>%\<close>: a failed conversion and a zero divisor panic.\<close>

definition interval_u32 :: "bitcoin_lib \<Rightarrow> chain_params \<Rightarrow> u32 option" where
  "interval_u32 L params =
     (let n = difficulty_adjustment_interval L params
      in if 2 ^ 32 \<le> unat n then None else Some (ucast n))"

definition rem_u32 :: "u32 \<Rightarrow> u32 \<Rightarrow> u32 option" where
  "rem_u32 a b = (if b = 0 then None else Some (a mod b))"

definition doubled_spacing :: "chain_params \<Rightarrow> u32 option" where
  "doubled_spacing params =
     (if 2 ^ 32 \<le> unat (pow_target_spacing params) * 2 then None
      else Some (ucast (pow_target_spacing params * 2)))"

definition retarget_bits ::
  "bitcoin_lib \<Rightarrow> header_dag \<Rightarrow> header_info \<Rightarrow> header_info \<Rightarrow> u32" where
  "retarget_bits L d parent boundary =
     (let elapsed = ucast (saturating_sub (h_time (hi_header parent)) (h_time (hi_header boundary)));
          base_bits = (if p_network (dag_params d) = Testnet4 then h_bits (hi_header boundary)
                       else h_bits (hi_header parent))
      in from_next_work_required L base_bits elapsed (dag_params d))"

definition min_difficulty_bits ::
  "bitcoin_lib \<Rightarrow> header_dag \<Rightarrow> header_info \<Rightarrow> u32 \<Rightarrow> u32 \<Rightarrow> (header_error + u32) option" where
  "min_difficulty_bits L d parent interval candidate_time =
     bind_call (expect (doubled_spacing (dag_params d))) (\<lambda>spacing.
       let pow_limit = target_to_compact L (max_attainable_target (dag_params d))
       in if saturating_add (h_time (hi_header parent)) spacing < candidate_time
          then Some (Ok pow_limit)
          else bind_call (last_regular_header d interval pow_limit parent) (\<lambda>cursor.
                 Some (Ok (h_bits (hi_header cursor)))))"

definition expected_next_bits ::
  "bitcoin_lib \<Rightarrow> header_dag \<Rightarrow> header \<Rightarrow> (header_error + u32) option" where
  "expected_next_bits L d candidate =
     bind_call (Some (ok_or (fmlookup (dag_headers d) (prev_blockhash candidate))
                  (UnknownParent (prev_blockhash candidate)))) (\<lambda>parent.
     bind_call (Some (ok_or (checked_add (hi_height parent) 1) Header_HeightOverflow)) (\<lambda>next_height.
     bind_call (expect (interval_u32 L (dag_params d))) (\<lambda>interval.
     bind_call (expect (rem_u32 next_height interval)) (\<lambda>r.
       if r = 0
       then bind_call (expect (ancestor_at_height d parent (next_height - interval))) (\<lambda>found.
            bind_call (Some (ok_or found (MissingRetargetAncestor (next_height - interval)))) (\<lambda>boundary.
              Some (Ok (retarget_bits L d parent boundary))))
       else if no_pow_retargeting (dag_params d) then Some (Ok (h_bits (hi_header parent)))
       else if \<not> allow_min_difficulty_blocks (dag_params d) then Some (Ok (h_bits (hi_header parent)))
       else min_difficulty_bits L d parent interval (h_time candidate)))))"

section \<open>Checkpoints\<close>

fun checkpoint_heights :: "network \<Rightarrow> u32 list" where
  "checkpoint_heights Bitcoin =
     [11111, 33333, 74000, 105000, 134444, 168000, 193000, 210000, 216116, 225430, 250000, 279000, 295000]"
| "checkpoint_heights Testnet = [546]"
| "checkpoint_heights _ = []"

definition checkpoint_hash :: "network \<Rightarrow> u32 \<Rightarrow> hash256 option" where
  "checkpoint_hash network height =
     (if network = Bitcoin \<and> height = 11111
      then Some 0x0000000069e244f73d78e8fd29ba2fd2ed618bd6fa2ee92559f542fdb26e7c1d
      else if network = Bitcoin \<and> height = 33333
      then Some 0x000000002dd5588a74784eaa7ab0507a18ad16a236e7b1ce69f00d7ddfb5d0a6
      else if network = Bitcoin \<and> height = 74000
      then Some 0x0000000000573993a3c9e41ce34471c079dcf5f52a0e824a81e7f953b8661a20
      else if network = Bitcoin \<and> height = 105000
      then Some 0x00000000000291ce28027faea320c8d2b054b2e0fe44a773f3eefb151d6bdc97
      else if network = Bitcoin \<and> height = 134444
      then Some 0x00000000000005b12ffd4cd315cd34ffd4a594f430ac814c91184a0d42d2b0fe
      else if network = Bitcoin \<and> height = 168000
      then Some 0x000000000000099e61ea72015e79632f216fe6cb33d7899acb35b75c8303b763
      else if network = Bitcoin \<and> height = 193000
      then Some 0x000000000000059f452a5f7340de6682a977387c17010ff6e6c3bd83ca8b1317
      else if network = Bitcoin \<and> height = 210000
      then Some 0x000000000000048b95347e83192f69cf0366076336c639f9b7228e9ba171342e
      else if network = Bitcoin \<and> height = 216116
      then Some 0x00000000000001b4f4b433e81ee46494af945cf96014816a4e2370f11b23df4e
      else if network = Bitcoin \<and> height = 225430
      then Some 0x00000000000001c108384350f74090433e7fcf79a606b8e797f065b130575932
      else if network = Bitcoin \<and> height = 250000
      then Some 0x000000000000003887df1f29024b06fc2200b55f8af8f35453d7be294df2d214
      else if network = Bitcoin \<and> height = 279000
      then Some 0x0000000000000001ae8c72a0b0c301f67e3afca10e819efa9041e458e9bd7e40
      else if network = Bitcoin \<and> height = 295000
      then Some 0x00000000000000004d9b4ef50f0f9d686fd69db2e03af35a100370c64632a983
      else if network = Testnet \<and> height = 546
      then Some 0x000000002a936ca763904c3c35fce2f3556c559c0214345d31b1bcebf76acb70
      else None)"

definition last_known_checkpoint_height :: "header_dag \<Rightarrow> u32 option" where
  "last_known_checkpoint_height d =
     find (\<lambda>height. case checkpoint_hash (dag_network d) height of
             None \<Rightarrow> False | Some hash \<Rightarrow> hash |\<in>| fmdom (dag_headers d))
       (rev (checkpoint_heights (dag_network d)))"

definition validate_bip94_time ::
  "bitcoin_lib \<Rightarrow> chain_params \<Rightarrow> u32 \<Rightarrow> u32 \<Rightarrow> u32 \<Rightarrow> (header_error + unit) option" where
  "validate_bip94_time L params height parent_time candidate_time =
     bind_call (expect (interval_u32 L params)) (\<lambda>interval.
       if p_network params = Testnet4
       then bind_call (expect (rem_u32 height interval)) (\<lambda>r.
              let minimum = saturating_sub parent_time max_timewarp_secs
              in if r = 0 \<and> candidate_time < minimum then Some (Err (TimeWarp candidate_time minimum))
                 else Some (Ok ()))
       else Some (Ok ()))"

section \<open>Retention\<close>

definition remove_retained_header :: "hash256 \<Rightarrow> header_dag \<Rightarrow> header_dag" where
  "remove_retained_header hash d =
     (case fmlookup (dag_headers d) hash of
        None \<Rightarrow> d
      | Some info \<Rightarrow>
          let prev = prev_blockhash (hi_header info)
          in d\<lparr>dag_headers := fmdrop hash (dag_headers d),
               dag_child_counts := map_option (\<lambda>counts.
                 case fmlookup counts prev of
                   None \<Rightarrow> counts
                 | Some count \<Rightarrow>
                     if count - 1 = 0 then fmdrop prev counts else fmupd prev (count - 1) counts)
                 (dag_child_counts d)\<rparr>)"

definition count_child :: "hash256 \<Rightarrow> (hash256, nat) fmap \<Rightarrow> (hash256, nat) fmap" where
  "count_child prev counts =
     fmupd prev ((case fmlookup counts prev of None \<Rightarrow> 0 | Some n \<Rightarrow> n) + 1) counts"

definition restore_retained_header :: "header_info \<Rightarrow> header_dag \<Rightarrow> header_dag" where
  "restore_retained_header info d =
     d\<lparr>dag_headers := fmupd (hi_hash info) info (dag_headers d),
       dag_child_counts := map_option (count_child (prev_blockhash (hi_header info))) (dag_child_counts d)\<rparr>"

section \<open>Insertion\<close>

partial_function (option) active_suffix ::
  "header_dag \<Rightarrow> header_info \<Rightarrow> hash256 list \<Rightarrow> (nat \<times> hash256 list) option" where
  "active_suffix d current suffix =
     (let height = unat (hi_height current)
      in if nth_opt (dag_active_chain d) height = Some (hi_hash current) then Some (height, suffix)
         else case fmlookup (dag_headers d) (prev_blockhash (hi_header current)) of
                None \<Rightarrow> None
              | Some parent \<Rightarrow> active_suffix d parent (suffix @ [hi_hash current]))"

definition rebuild_active_chain :: "header_info \<Rightarrow> header_dag \<Rightarrow> header_dag option" where
  "rebuild_active_chain info d =
     map_option (\<lambda>(height, suffix).
       d\<lparr>dag_active_chain := take (height + 1) (dag_active_chain d) @ rev suffix,
         dag_active_tip := hi_hash info\<rparr>) (active_suffix d info [])"

definition promote_active_tip :: "header_info \<Rightarrow> header_dag \<Rightarrow> header_dag option" where
  "promote_active_tip info d =
     (if prev_blockhash (hi_header info) = dag_active_tip d
         \<and> unat (hi_height info) = length (dag_active_chain d)
      then Some (d\<lparr>dag_active_chain := dag_active_chain d @ [hi_hash info],
                   dag_active_tip := hi_hash info\<rparr>)
      else rebuild_active_chain info d)"

definition insertion_rebuilds_active_chain :: "bitcoin_lib \<Rightarrow> header_dag \<Rightarrow> header \<Rightarrow> bool option" where
  "insertion_rebuilds_active_chain L d header =
     (case fmlookup (dag_headers d) (prev_blockhash header) of
        None \<Rightarrow> Some False
      | Some parent \<Rightarrow>
          (case checked_add (hi_height parent) 1 of
             None \<Rightarrow> Some False
           | Some height \<Rightarrow>
               map_option (\<lambda>tip.
                 hi_chainwork tip < hi_chainwork parent + header_work L header
                 \<and> \<not> (hi_hash parent = dag_active_tip d \<and> unat height = length (dag_active_chain d)))
               (active_tip d)))"

definition check_checkpoint :: "network \<Rightarrow> u32 \<Rightarrow> hash256 \<Rightarrow> header_error + unit" where
  "check_checkpoint network height hash =
     (case checkpoint_hash network height of
        None \<Rightarrow> Ok ()
      | Some expected \<Rightarrow> guard_res (hash = expected) (CheckpointMismatch height expected hash))"

definition dag_insert ::
  "bitcoin_lib \<Rightarrow> header \<Rightarrow> header_dag \<Rightarrow> (header_error + header_info \<times> header_dag) option" where
  "dag_insert L header d =
     (let hash = block_hash L header; target = header_target L header in
      bind_call (Some (guard_res (hash |\<notin>| fmdom (dag_headers d)) (Header_Duplicate hash))) (\<lambda>_.
      bind_call (Some (ok_or (fmlookup (dag_headers d) (prev_blockhash header))
                   (UnknownParent (prev_blockhash header)))) (\<lambda>parent.
      bind_call (Some (ok_or (checked_add (hi_height parent) 1) Header_HeightOverflow)) (\<lambda>height.
      bind_call (Some (check_checkpoint (p_network (dag_params d)) height hash)) (\<lambda>_.
      bind_call (Some (guard_res (\<not> (target = 0 \<or> max_attainable_target (dag_params d) < target))
                   InvalidTarget)) (\<lambda>_.
      bind_call (Some (map_err InvalidProofOfWork (validate_pow L header target))) (\<lambda>_.
      let info = \<lparr>hi_header = header, hi_hash = hash, hi_height = height,
                  hi_chainwork = hi_chainwork parent + target_to_work L target\<rparr>;
          d' = restore_retained_header info d
      in bind_call (expect (active_tip d')) (\<lambda>tip.
         bind_call (expect (if hi_chainwork tip < hi_chainwork info then promote_active_tip info d'
                            else Some d')) (\<lambda>d''.
           Some (Ok (info, d'')))))))))))"

definition check_fork_height :: "header_dag \<Rightarrow> u32 \<Rightarrow> header_error + unit" where
  "check_fork_height d height =
     (case last_known_checkpoint_height d of
        None \<Rightarrow> Ok ()
      | Some checkpoint \<Rightarrow> guard_res (\<not> height < checkpoint) (ForkBeforeCheckpoint height checkpoint))"

definition insert_contextual ::
  "bitcoin_lib \<Rightarrow> header \<Rightarrow> u32 \<Rightarrow> header_dag \<Rightarrow> (header_error + header_info \<times> header_dag) option" where
  "insert_contextual L header adjusted_time d =
     (let hash = block_hash L header; time = h_time header; version = h_version header;
          maximum = saturating_add adjusted_time max_future_block_time_secs in
      bind_call (Some (guard_res (hash |\<notin>| fmdom (dag_headers d)) (Header_Duplicate hash))) (\<lambda>_.
      bind_call (Some (ok_or (fmlookup (dag_headers d) (prev_blockhash header))
                   (UnknownParent (prev_blockhash header)))) (\<lambda>parent.
      bind_call (Some (ok_or (checked_add (hi_height parent) 1) Header_HeightOverflow)) (\<lambda>height.
      bind_call (Some (check_fork_height d height)) (\<lambda>_.
      let required = minimum_block_version (dag_deployments d) height in
      bind_call (Some (guard_res (\<not> sint version < sint required)
                   (ObsoleteVersion height required version))) (\<lambda>_.
      bind_call (expect (median_time_past d (hi_hash parent))) (\<lambda>median.
      bind_call (Some (guard_res (\<not> time \<le> median) (TimeTooOld time median))) (\<lambda>_.
      bind_call (validate_bip94_time L (dag_params d) height (h_time (hi_header parent)) time) (\<lambda>_.
      bind_call (Some (guard_res (\<not> maximum < time) (TimeTooNew time maximum))) (\<lambda>_.
      bind_call (expected_next_bits L d header) (\<lambda>expected.
      bind_call (Some (guard_res (h_bits header = expected)
                   (UnexpectedDifficulty expected (h_bits header)))) (\<lambda>_.
        dag_insert L header d))))))))))))"

section \<open>Staged batches\<close>

record staged_batch =
  sb_dag :: header_dag
  sb_accepted :: "header_info list"
  sb_inserted :: "hash256 list"
  sb_original_active_tip :: hash256
  sb_original_active_len :: nat
  sb_rebuilt_active_chain :: bool

text \<open>Committing publishes the DAG; dropping the guard without it runs \<open>rollback\<close>.\<close>

definition commit_batch :: "staged_batch \<Rightarrow> header_info list \<times> header_dag" where
  "commit_batch staged = (sb_accepted staged, sb_dag staged)"

definition rollback_batch :: "staged_batch \<Rightarrow> header_dag option" where
  "rollback_batch staged =
     (let d = fold remove_retained_header (rev (sb_inserted staged)) (sb_dag staged)
      in Option.bind (fmlookup (dag_headers d) (sb_original_active_tip staged)) (\<lambda>original.
           if sb_rebuilt_active_chain staged then rebuild_active_chain original d
           else Some (d\<lparr>dag_active_chain := take (sb_original_active_len staged) (dag_active_chain d),
                        dag_active_tip := sb_original_active_tip staged\<rparr>)))"

fun stage_headers ::
  "bitcoin_lib \<Rightarrow> u32 \<Rightarrow> header list \<Rightarrow> staged_batch \<Rightarrow> (header_error \<times> header_dag + staged_batch) option" where
  "stage_headers L adjusted_time [] staged = Some (Ok staged)"
| "stage_headers L adjusted_time (header # headers) staged =
     Option.bind (insertion_rebuilds_active_chain L (sb_dag staged) header) (\<lambda>rebuilds.
     Option.bind (insert_contextual L header adjusted_time (sb_dag staged)) (\<lambda>r. case r of
       Inl e \<Rightarrow> map_option (\<lambda>d. Err (e, d)) (rollback_batch staged)
     | Inr (info, d) \<Rightarrow>
         stage_headers L adjusted_time headers
           (staged\<lparr>sb_dag := d,
                   sb_rebuilt_active_chain := sb_rebuilt_active_chain staged \<or> rebuilds,
                   sb_inserted := sb_inserted staged @ [hi_hash info],
                   sb_accepted := sb_accepted staged @ [info]\<rparr>)))"

definition stage_batch_contextual ::
  "bitcoin_lib \<Rightarrow> header list \<Rightarrow> u32 \<Rightarrow> header_dag \<Rightarrow> (header_error \<times> header_dag + staged_batch) option" where
  "stage_batch_contextual L headers adjusted_time d =
     stage_headers L adjusted_time headers
       \<lparr>sb_dag = d, sb_accepted = [], sb_inserted = [], sb_original_active_tip = dag_active_tip d,
        sb_original_active_len = length (dag_active_chain d), sb_rebuilt_active_chain = False\<rparr>"

section \<open>Leaf eviction\<close>

datatype header_retention_error =
    ResourceDeferred nat
  | Protected hash256
  | HasChildren hash256
  | Retention_Unknown hash256

record staged_eviction =
  se_dag :: header_dag
  se_removed :: "header_info list"

definition drop_eviction :: "staged_eviction \<Rightarrow> header_dag" where
  "drop_eviction stage = fold restore_retained_header (rev (se_removed stage)) (se_dag stage)"

text \<open>
  The child index. The code walks the values of the hash map in an unspecified
  order; the model walks them by increasing hash.
\<close>

definition index_header ::
  "(hash256, header_info) fmap \<Rightarrow> hash256 \<Rightarrow> (hash256, nat) fmap \<Rightarrow> (hash256, nat) fmap" where
  "index_header headers hash counts =
     (case fmlookup headers hash of
        None \<Rightarrow> counts
      | Some info \<Rightarrow>
          if 0 < hi_height info then count_child (prev_blockhash (hi_header info)) counts else counts)"

definition child_index :: "(hash256, header_info) fmap \<Rightarrow> (hash256, nat) fmap" where
  "child_index headers = fold (index_header headers) (sorted_list_of_fset (fmdom headers)) fmempty"

fun stage_evictions ::
  "hash256 list \<Rightarrow> hash256 list \<Rightarrow> staged_eviction \<Rightarrow> header_retention_error \<times> header_dag + staged_eviction" where
  "stage_evictions pinned [] stage = Ok stage"
| "stage_evictions pinned (hash # hashes) stage =
     (let d = se_dag stage
      in case dag_get d hash of
        None \<Rightarrow> Err (Retention_Unknown hash, drop_eviction stage)
      | Some info \<Rightarrow>
          if active_height_of d hash \<noteq> None \<or> hash \<in> set pinned
          then Err (Protected hash, drop_eviction stage)
          else if (case dag_child_counts d of None \<Rightarrow> False | Some counts \<Rightarrow> hash |\<in>| fmdom counts)
          then Err (HasChildren hash, drop_eviction stage)
          else stage_evictions pinned hashes
                 \<lparr>se_dag = remove_retained_header hash d, se_removed = se_removed stage @ [info]\<rparr>)"

definition stage_leaf_evictions ::
  "hash256 list \<Rightarrow> hash256 list \<Rightarrow> nat \<Rightarrow> header_dag
     \<Rightarrow> header_retention_error \<times> header_dag + staged_eviction" where
  "stage_leaf_evictions hashes pinned_tips max_entries d =
     (if max_entries < length hashes then Err (ResourceDeferred max_entries, d)
      else case find (\<lambda>h. dag_get d h = None) pinned_tips of
        Some h \<Rightarrow> Err (Retention_Unknown h, d)
      | None \<Rightarrow>
          let d' = (if dag_child_counts d = None \<and> hashes \<noteq> []
                    then d\<lparr>dag_child_counts := Some (child_index (dag_headers d))\<rparr> else d)
          in stage_evictions pinned_tips hashes \<lparr>se_dag = d', se_removed = []\<rparr>)"

section \<open>Evaluation\<close>

declare active_suffix.simps [code] locator_loop.simps [code] ancestor_at_height.simps [code]
  last_regular_header.simps [code]

lemma interval_u32_code [code]:
  "interval_u32 L params = (let n = difficulty_adjustment_interval L params
     in if 0x100000000 \<le> n then None else Some (ucast n))"
  by (simp add: interval_u32_def word_le_nat_alt)

lemma doubled_spacing_code [code]:
  "doubled_spacing params = (let n = pow_target_spacing params
     in if 0x80000000 \<le> n then None else Some (ucast (n * 2)))"
  by (simp add: doubled_spacing_def word_le_nat_alt Let_def)

end
