(* ===== verification/Headers_Graph.thy ===== *)
theory Headers_Graph
  imports Headers
begin

text \<open>
  The header DAG as a graph: entries extend their parents, the active chain is a path
  of parent links from genesis, rebuilding finds the path to any retained header, and
  insertion keeps a tip of most work. The walks the contextual rules make terminate.
\<close>

text \<open>An entry is filed under its own hash and, unless it is genesis, extends its parent.\<close>

definition entry_ok :: "bitcoin_lib \<Rightarrow> header_dag \<Rightarrow> hash256 \<Rightarrow> header_info \<Rightarrow> bool" where
  "entry_ok L d h i \<longleftrightarrow> hi_hash i = h \<and> block_hash L (hi_header i) = h
     \<and> (if hi_height i = 0 then dag_active_chain d \<noteq> [] \<and> h = dag_active_chain d ! 0
        else \<exists>p. fmlookup (dag_headers d) (prev_blockhash (hi_header i)) = Some p
               \<and> unat (hi_height i) = Suc (unat (hi_height p))
               \<and> hi_chainwork i = hi_chainwork p + header_work L (hi_header i))"

text \<open>A path of parent links from genesis: the entry at position \<open>i\<close> has height \<open>i\<close>.\<close>

definition linked :: "(hash256, header_info) fmap \<Rightarrow> hash256 list \<Rightarrow> bool" where
  "linked hs xs \<longleftrightarrow> xs \<noteq> [] \<and> (\<forall>i < length xs. \<exists>info. fmlookup hs (xs ! i) = Some info
     \<and> unat (hi_height info) = i \<and> (0 < i \<longrightarrow> prev_blockhash (hi_header info) = xs ! (i - 1)))"

definition children :: "(hash256, header_info) fmap \<Rightarrow> hash256 \<Rightarrow> hash256 set" where
  "children hs parent = {h. \<exists>i. fmlookup hs h = Some i \<and> hi_height i \<noteq> 0
     \<and> prev_blockhash (hi_header i) = parent}"

definition counts_ok :: "(hash256, header_info) fmap \<Rightarrow> (hash256, nat) fmap \<Rightarrow> bool" where
  "counts_ok hs counts \<longleftrightarrow> (\<forall>h. fmlookup counts h =
     (if children hs h = {} then None else Some (card (children hs h))))"

definition dag_graph :: "bitcoin_lib \<Rightarrow> header_dag \<Rightarrow> bool" where
  "dag_graph L d \<longleftrightarrow>
     (\<forall>h i. fmlookup (dag_headers d) h = Some i \<longrightarrow> entry_ok L d h i)
     \<and> linked (dag_headers d) (dag_active_chain d)
     \<and> last (dag_active_chain d) = dag_active_tip d
     \<and> (\<forall>counts. dag_child_counts d = Some counts \<longrightarrow> counts_ok (dag_headers d) counts)"

text \<open>The invariant: a well-formed graph in which no header has more work than the active tip.\<close>

definition dag_inv :: "bitcoin_lib \<Rightarrow> header_dag \<Rightarrow> bool" where
  "dag_inv L d \<longleftrightarrow> dag_graph L d
     \<and> (\<forall>h i t. fmlookup (dag_headers d) h = Some i \<longrightarrow>
          fmlookup (dag_headers d) (dag_active_tip d) = Some t \<longrightarrow> hi_chainwork i \<le> hi_chainwork t)"

section \<open>Paths\<close>

lemma linkedD:
  assumes "linked hs xs" "i < length xs"
  obtains info where "fmlookup hs (xs ! i) = Some info" "unat (hi_height info) = i"
    "0 < i \<Longrightarrow> prev_blockhash (hi_header info) = xs ! (i - 1)"
  using assms unfolding linked_def by blast

lemma linked_nonempty: "linked hs xs \<Longrightarrow> xs \<noteq> []"
  by (simp add: linked_def)

lemma linked_last:
  assumes "linked hs xs"
  obtains info where "fmlookup hs (last xs) = Some info" "unat (hi_height info) = length xs - 1"
proof -
  have ne: "xs \<noteq> []" using assms by (rule linked_nonempty)
  then have "length xs - 1 < length xs" by simp
  from linkedD [OF assms this] ne that show thesis by (metis last_conv_nth)
qed

lemma linked_take: "linked hs xs \<Longrightarrow> linked hs (take (Suc k) xs)"
  by (auto simp: linked_def)

lemma linked_snoc:
  assumes "linked hs xs" "fmlookup hs h = Some info" "prev_blockhash (hi_header info) = last xs"
    "unat (hi_height info) = length xs"
  shows "linked hs (xs @ [h])"
  using assms by (auto simp: linked_def nth_append last_conv_nth less_Suc_eq)

lemma linked_mono:
  assumes "linked hs xs" "\<And>h i. h \<in> set xs \<Longrightarrow> fmlookup hs h = Some i \<Longrightarrow> fmlookup hs' h = Some i"
  shows "linked hs' xs"
  unfolding linked_def
proof (intro conjI allI impI)
  show "xs \<noteq> []" using assms(1) by (rule linked_nonempty)
next
  fix i assume "i < length xs"
  with assms show "\<exists>info. fmlookup hs' (xs ! i) = Some info \<and> unat (hi_height info) = i
      \<and> (0 < i \<longrightarrow> prev_blockhash (hi_header info) = xs ! (i - 1))"
    by (metis linkedD nth_mem)
qed

lemma linked_nth_unique:
  assumes "linked hs xs" "linked hs ys" "length xs = length ys" "last xs = last ys"
    and "k < length xs"
  shows "xs ! (length xs - Suc k) = ys ! (length xs - Suc k)"
  using assms(5)
proof (induction k)
  case 0
  then show ?case using assms linked_nonempty by (metis One_nat_def last_conv_nth)
next
  case (Suc k)
  let ?i = "length xs - Suc k"
  from Suc.prems have i: "?i < length xs" "0 < ?i" "?i - 1 = length xs - Suc (Suc k)" by auto
  have "xs ! ?i = ys ! ?i" using Suc by simp
  with i show ?case
    using linkedD [OF assms(1), of ?i] linkedD [OF assms(2), of ?i] assms(3)
    by (metis option.inject)
qed

lemma linked_unique:
  assumes "linked hs xs" "linked hs ys" "last xs = last ys"
  shows "xs = ys"
proof (rule nth_equalityI)
  obtain a where "fmlookup hs (last xs) = Some a" "unat (hi_height a) = length xs - 1"
    using assms(1) by (rule linked_last)
  moreover obtain b where "fmlookup hs (last ys) = Some b" "unat (hi_height b) = length ys - 1"
    using assms(2) by (rule linked_last)
  ultimately have "length xs - 1 = length ys - 1" using assms(3) by simp
  with linked_nonempty [OF assms(1)] linked_nonempty [OF assms(2)]
  show len: "length xs = length ys" by (metis One_nat_def Suc_pred length_greater_0_conv)
  fix i assume "i < length xs"
  then show "xs ! i = ys ! i"
    using linked_nth_unique [OF assms(1,2) len assms(3), of "length xs - Suc i"] by simp
qed

lemma linked_distinct: "linked hs xs \<Longrightarrow> distinct xs"
  by (metis distinct_conv_nth linkedD option.inject)

section \<open>Rebuilding the active chain\<close>

lemma graph_entry: "dag_graph L d \<Longrightarrow> fmlookup (dag_headers d) h = Some i \<Longrightarrow> entry_ok L d h i"
  by (simp add: dag_graph_def)

lemma graph_hash: "dag_graph L d \<Longrightarrow> fmlookup (dag_headers d) h = Some i \<Longrightarrow> hi_hash i = h"
  using graph_entry by (fastforce simp: entry_ok_def)

lemma graph_linked: "dag_graph L d \<Longrightarrow> linked (dag_headers d) (dag_active_chain d)"
  by (simp add: dag_graph_def)

lemma graph_parent:
  assumes "dag_graph L d" "fmlookup (dag_headers d) h = Some i" "hi_height i \<noteq> 0"
  obtains p where "fmlookup (dag_headers d) (prev_blockhash (hi_header i)) = Some p"
    "unat (hi_height i) = Suc (unat (hi_height p))"
    "hi_chainwork i = hi_chainwork p + header_work L (hi_header i)"
    "hi_hash p = prev_blockhash (hi_header i)"
  using graph_entry [OF assms(1,2)] assms(3) graph_hash [OF assms(1)] unfolding entry_ok_def by auto

lemma graph_tip:
  assumes "dag_graph L d"
  obtains t where "active_tip d = Some t" "hi_hash t = dag_active_tip d"
    "unat (hi_height t) = length (dag_active_chain d) - 1"
  using linked_last [OF graph_linked [OF assms]] assms graph_hash [OF assms]
  by (metis active_tip_def dag_graph_def)

text \<open>
  The walk may meet a chain whose later entries are no longer filed, as when a
  batch is rolled back: the chain is linked in a larger map \<open>hs\<close>.
\<close>

definition walkable :: "bitcoin_lib \<Rightarrow> header_dag \<Rightarrow> (hash256, header_info) fmap \<Rightarrow> bool" where
  "walkable L d hs \<longleftrightarrow>
     (\<forall>h i. fmlookup (dag_headers d) h = Some i \<longrightarrow> entry_ok L d h i \<and> fmlookup hs h = Some i)
     \<and> linked hs (dag_active_chain d)"

lemma graph_walkable: "dag_graph L d \<Longrightarrow> walkable L d (dag_headers d)"
  by (simp add: walkable_def dag_graph_def)

lemma active_suffix_linked:
  assumes g: "walkable L d hs" and "fmlookup (dag_headers d) h = Some cur"
  shows "\<exists>k suf. active_suffix d cur acc = Some (k, acc @ suf)
    \<and> linked hs (take (Suc k) (dag_active_chain d) @ rev suf)
    \<and> last (take (Suc k) (dag_active_chain d) @ rev suf) = h
    \<and> k < length (dag_active_chain d)"
  using assms(2)
proof (induction "unat (hi_height cur)" arbitrary: h cur acc rule: less_induct)
  case less
  let ?c = "dag_active_chain d" and ?n = "unat (hi_height cur)"
  have e: "entry_ok L d h cur" and hs: "fmlookup hs h = Some cur" and c: "linked hs ?c"
    using g less.prems by (simp_all add: walkable_def)
  have h: "hi_hash cur = h" using e by (simp add: entry_ok_def)
  show ?case
  proof (cases "nth_opt ?c ?n = Some (hi_hash cur)")
    case True
    then have "?n < length ?c" "?c ! ?n = h" using h by (auto simp: nth_opt_def split: if_splits)
    then show ?thesis
      using True linked_take [OF c, of ?n]
      by (intro exI [of _ ?n] exI [of _ "[]"]) (auto simp: active_suffix.simps take_Suc_conv_app_nth)
  next
    case False
    with e h obtain p where p: "fmlookup (dag_headers d) (prev_blockhash (hi_header cur)) = Some p"
      "?n = Suc (unat (hi_height p))"
      by (auto simp: entry_ok_def nth_opt_def split: if_splits)
    obtain k suf where ks: "active_suffix d p (acc @ [h]) = Some (k, (acc @ [h]) @ suf)"
      "linked hs (take (Suc k) ?c @ rev suf)"
      "last (take (Suc k) ?c @ rev suf) = prev_blockhash (hi_header cur)" "k < length ?c"
      using less.hyps [OF _ p(1), of "acc @ [h]"] p(2) by auto
    have "fmlookup hs (prev_blockhash (hi_header cur)) = Some p" using g p(1) by (simp add: walkable_def)
    with linked_last [OF ks(2)] ks(3) p(2)
    have "?n = length (take (Suc k) ?c @ rev suf)"
      by (metis One_nat_def Suc_pred length_greater_0_conv linked_nonempty [OF ks(2)] option.inject)
    from linked_snoc [OF ks(2) hs ks(3) [symmetric] this] ks p False h
    show ?thesis
      by (intro exI [of _ k] exI [of _ "h # suf"]) (simp add: active_suffix.simps)
  qed
qed

lemma rebuild_active_chain_linked:
  assumes "walkable L d hs" "fmlookup (dag_headers d) h = Some info"
  shows "\<exists>xs. rebuild_active_chain info d = Some (d\<lparr>dag_active_chain := xs, dag_active_tip := h\<rparr>)
    \<and> linked hs xs \<and> last xs = h \<and> xs ! 0 = dag_active_chain d ! 0"
proof -
  obtain k suf where k: "active_suffix d info [] = Some (k, suf)"
    "linked hs (take (Suc k) (dag_active_chain d) @ rev suf)"
    "last (take (Suc k) (dag_active_chain d) @ rev suf) = h" "k < length (dag_active_chain d)"
    using active_suffix_linked [OF assms, of "[]"] by auto
  have "hi_hash info = h" using assms by (auto simp: walkable_def entry_ok_def)
  with k show ?thesis
    by (intro exI [of _ "take (Suc k) (dag_active_chain d) @ rev suf"])
      (auto simp: rebuild_active_chain_def nth_append)
qed

text \<open>Moving the tip to another linked path keeps the graph well-formed.\<close>

lemma graph_move_tip:
  assumes "dag_graph L d" "linked (dag_headers d) xs" "last xs = h" "xs ! 0 = dag_active_chain d ! 0"
  shows "dag_graph L (d\<lparr>dag_active_chain := xs, dag_active_tip := h\<rparr>)"
  using assms linked_nonempty [OF assms(2)] by (auto simp: dag_graph_def entry_ok_def)

lemma promote_active_tip_linked:
  assumes g: "dag_graph L d" and k: "fmlookup (dag_headers d) h = Some info"
  shows "\<exists>xs. promote_active_tip info d = Some (d\<lparr>dag_active_chain := xs, dag_active_tip := h\<rparr>)
    \<and> linked (dag_headers d) xs \<and> last xs = h \<and> xs ! 0 = dag_active_chain d ! 0"
proof (cases "prev_blockhash (hi_header info) = dag_active_tip d
    \<and> unat (hi_height info) = length (dag_active_chain d)")
  case True
  with linked_snoc [OF graph_linked [OF g] k] g graph_hash [OF g k] linked_nonempty [OF graph_linked [OF g]]
  show ?thesis
    by (auto simp: promote_active_tip_def dag_graph_def nth_append)
next
  case False
  then have "promote_active_tip info d = rebuild_active_chain info d"
    by (auto simp: promote_active_tip_def)
  then show ?thesis using rebuild_active_chain_linked [OF graph_walkable [OF g] k] by simp
qed

section \<open>Adding and removing entries\<close>

lemma finite_children [simp, intro]: "finite (children hs p)"
  by (rule finite_subset [of _ "fset (fmdom hs)"]) (auto simp: children_def fmdomI)

lemma children_fmupd:
  assumes "fmlookup hs (hi_hash info) = None" "hi_height info \<noteq> 0"
  shows "children (fmupd (hi_hash info) info hs) p =
    (if prev_blockhash (hi_header info) = p then insert (hi_hash info) (children hs p) else children hs p)"
  using assms by (auto simp: children_def)

lemma children_fmdrop:
  assumes "fmlookup hs h = Some info" "hi_height info \<noteq> 0"
  shows "children (fmdrop h hs) p =
    (if prev_blockhash (hi_header info) = p then children hs p - {h} else children hs p)"
  using assms by (auto simp: children_def)

lemma counts_ok_unique: "counts_ok hs a \<Longrightarrow> counts_ok hs b \<Longrightarrow> a = b"
  by (rule fmap_ext) (simp add: counts_ok_def)

lemma counts_ok_add:
  assumes "counts_ok hs counts" "fmlookup hs (hi_hash info) = None" "hi_height info \<noteq> 0"
  shows "counts_ok (fmupd (hi_hash info) info hs) (count_child (prev_blockhash (hi_header info)) counts)"
proof -
  let ?p = "prev_blockhash (hi_header info)"
  have "hi_hash info \<notin> children hs ?p" using assms(2) by (simp add: children_def)
  then have "card (insert (hi_hash info) (children hs ?p)) = card (children hs ?p) + 1" by simp
  with assms show ?thesis by (auto simp: counts_ok_def count_child_def children_fmupd)
qed

lemma counts_ok_remove:
  assumes "counts_ok hs counts" "fmlookup hs h = Some info" "hi_height info \<noteq> 0"
  shows "counts_ok (fmdrop h hs) (case fmlookup counts (prev_blockhash (hi_header info)) of
      None \<Rightarrow> counts
    | Some count \<Rightarrow> if count - 1 = 0 then fmdrop (prev_blockhash (hi_header info)) counts
        else fmupd (prev_blockhash (hi_header info)) (count - 1) counts)"
proof -
  let ?p = "prev_blockhash (hi_header info)"
  have h: "h \<in> children hs ?p" using assms(2,3) by (simp add: children_def)
  then have c: "fmlookup counts ?p = Some (card (children hs ?p))"
    using assms(1) by (auto simp: counts_ok_def)
  have d: "card (children hs ?p - {h}) = card (children hs ?p) - 1" using h by simp
  then have "card (children hs ?p) - 1 = 0 \<longleftrightarrow> children hs ?p - {h} = {}"
    by (metis card_0_eq finite_Diff finite_children)
  with assms c d show ?thesis by (auto simp: counts_ok_def children_fmdrop)
qed

text \<open>What an accepted header's entry must satisfy.\<close>

definition fresh_entry :: "bitcoin_lib \<Rightarrow> header_dag \<Rightarrow> header_info \<Rightarrow> bool" where
  "fresh_entry L d info \<longleftrightarrow> fmlookup (dag_headers d) (hi_hash info) = None
     \<and> hi_hash info = block_hash L (hi_header info)
     \<and> (\<exists>p. fmlookup (dag_headers d) (prev_blockhash (hi_header info)) = Some p
          \<and> unat (hi_height info) = Suc (unat (hi_height p))
          \<and> hi_chainwork info = hi_chainwork p + header_work L (hi_header info))"

lemma fresh_entry_height: "fresh_entry L d info \<Longrightarrow> hi_height info \<noteq> 0"
  by (auto simp: fresh_entry_def)

lemma restore_headers [simp]:
  "dag_headers (restore_retained_header info d) = fmupd (hi_hash info) info (dag_headers d)"
  "dag_active_chain (restore_retained_header info d) = dag_active_chain d"
  "dag_active_tip (restore_retained_header info d) = dag_active_tip d"
  "dag_params (restore_retained_header info d) = dag_params d"
  "dag_deployments (restore_retained_header info d) = dag_deployments d"
  by (simp_all add: restore_retained_header_def)

lemma entry_ok_mono:
  assumes "entry_ok L d h i" "dag_active_chain d' ! 0 = dag_active_chain d ! 0" "dag_active_chain d' \<noteq> []"
    and "\<And>p. fmlookup (dag_headers d) (prev_blockhash (hi_header i)) = Some p \<Longrightarrow>
           hi_height i \<noteq> 0 \<Longrightarrow> fmlookup (dag_headers d') (prev_blockhash (hi_header i)) = Some p"
  shows "entry_ok L d' h i"
  using assms by (auto simp: entry_ok_def split: if_splits)

lemma graph_restore:
  assumes g: "dag_graph L d" and f: "fresh_entry L d info"
  shows "dag_graph L (restore_retained_header info d)"
proof -
  let ?d = "restore_retained_header info d" and ?h = "hi_hash info"
  have new: "fmlookup (dag_headers d) ?h = None" using f unfolding fresh_entry_def by (rule conjunct1)
  have ne: "dag_active_chain d \<noteq> []" using linked_nonempty [OF graph_linked [OF g]] .
  have "entry_ok L ?d h i" if "fmlookup (dag_headers ?d) h = Some i" for h i
  proof (cases "h = ?h")
    case True
    with that f new fresh_entry_height [OF f] show ?thesis by (auto simp: fresh_entry_def entry_ok_def)
  next
    case False
    with that have "entry_ok L d h i" using graph_entry [OF g] by simp
    then show ?thesis using ne new by (rule_tac entry_ok_mono) (auto)
  qed
  moreover have "linked (dag_headers ?d) (dag_active_chain ?d)"
    unfolding restore_headers by (rule linked_mono [OF graph_linked [OF g]]) (use new in auto)
  moreover have "counts_ok (dag_headers ?d) counts" if "dag_child_counts ?d = Some counts" for counts
    using that g counts_ok_add [OF _ new fresh_entry_height [OF f]]
    by (auto simp: restore_retained_header_def dag_graph_def)
  ultimately show ?thesis using g by (simp add: dag_graph_def)
qed


section \<open>Insertion\<close>

definition acceptable :: "bitcoin_lib \<Rightarrow> header_dag \<Rightarrow> header \<Rightarrow> header_info \<Rightarrow> bool" where
  "acceptable L d header info \<longleftrightarrow> fresh_entry L d info \<and> hi_header info = header
     \<and> check_checkpoint (p_network (dag_params d)) (hi_height info) (hi_hash info) = Ok ()
     \<and> header_target L header \<noteq> 0 \<and> header_target L header \<le> max_attainable_target (dag_params d)
     \<and> validate_pow L header (header_target L header) = Ok ()"

lemma dag_insert_returns:
  assumes g: "dag_graph L d"
  shows "dag_insert L header d \<noteq> None"
proof
  assume "dag_insert L header d = None"
  then obtain p height where p: "block_hash L header |\<notin>| fmdom (dag_headers d)"
    "fmlookup (dag_headers d) (prev_blockhash header) = Some p" "checked_add (hi_height p) 1 = Some height"
    and info: "active_tip (restore_retained_header \<lparr>hi_header = header, hi_hash = block_hash L header,
        hi_height = height, hi_chainwork = hi_chainwork p + header_work L header\<rparr> d) = None
      \<or> promote_active_tip \<lparr>hi_header = header, hi_hash = block_hash L header,
        hi_height = height, hi_chainwork = hi_chainwork p + header_work L header\<rparr>
        (restore_retained_header \<lparr>hi_header = header, hi_hash = block_hash L header,
        hi_height = height, hi_chainwork = hi_chainwork p + header_work L header\<rparr> d) = None"
    by (auto simp: dag_insert_def Let_def res_simps header_work_def split: if_splits)
  let ?i = "\<lparr>hi_header = header, hi_hash = block_hash L header, hi_height = height,
    hi_chainwork = hi_chainwork p + header_work L header\<rparr>"
  have "fresh_entry L d ?i" using p by (auto simp: fresh_entry_def checked_add_eq_iff fmdom_notD)
  from graph_restore [OF g this] have g': "dag_graph L (restore_retained_header ?i d)" .
  then have "active_tip (restore_retained_header ?i d) \<noteq> None" by (metis graph_tip option.distinct(1))
  moreover have "fmlookup (dag_headers (restore_retained_header ?i d)) (block_hash L header) = Some ?i"
    by simp
  from promote_active_tip_linked [OF g' this]
  have "promote_active_tip ?i (restore_retained_header ?i d) \<noteq> None" by (metis option.distinct(1))
  ultimately show False using info by (elim disjE notE)
qed

lemma dag_insert_Inr:
  assumes g: "dag_graph L d" and i: "dag_insert L header d = Some (Inr (info, d'))"
  shows "acceptable L d header info"
    and "\<exists>t. active_tip d = Some t \<and> (if hi_chainwork t < hi_chainwork info
       then promote_active_tip info (restore_retained_header info d) = Some d'
       else d' = restore_retained_header info d)"
proof -
  from i have a: "acceptable L d header info"
    by (auto simp: acceptable_def fresh_entry_def dag_insert_def Let_def res_simps header_work_def
        checked_add_eq_iff fmdom_notD not_less)
  then show "acceptable L d header info" .
  then have f: "fresh_entry L d info" by (simp add: acceptable_def)
  let ?d = "restore_retained_header info d"
  obtain t where t: "active_tip d = Some t" using graph_tip [OF g] by metis
  then have t': "active_tip ?d = Some t"
    using f by (auto simp: active_tip_def fresh_entry_def)
  have "expect (if hi_chainwork t < hi_chainwork info then promote_active_tip info ?d else Some ?d)
      = Some (Ok d')"
    using i t' by (auto simp: dag_insert_def Let_def res_simps)
  then show "\<exists>t. active_tip d = Some t \<and> (if hi_chainwork t < hi_chainwork info
       then promote_active_tip info ?d = Some d' else d' = ?d)"
    using t by (auto simp: res_simps split: if_splits)
qed

text \<open>The DAG after an accepted header: one more entry, and possibly another active path.\<close>

lemma dag_insert_shape:
  assumes g: "dag_graph L d" and i: "dag_insert L header d = Some (Inr (info, d'))"
  shows "\<exists>xs h. d' = (restore_retained_header info d)\<lparr>dag_active_chain := xs, dag_active_tip := h\<rparr>
    \<and> linked (fmupd (hi_hash info) info (dag_headers d)) xs \<and> last xs = h
    \<and> xs ! 0 = dag_active_chain d ! 0
    \<and> (\<forall>t. active_tip d = Some t \<longrightarrow>
         h = (if hi_chainwork t < hi_chainwork info then hi_hash info else dag_active_tip d))"
proof -
  let ?d = "restore_retained_header info d"
  obtain t where t: "active_tip d = Some t" and step: "if hi_chainwork t < hi_chainwork info
       then promote_active_tip info ?d = Some d' else d' = ?d"
    using dag_insert_Inr(2) [OF g i] by auto
  have g': "dag_graph L ?d"
    using graph_restore [OF g] dag_insert_Inr(1) [OF g i] by (simp add: acceptable_def)
  show ?thesis
  proof (cases "hi_chainwork t < hi_chainwork info")
    case True
    then obtain xs where "d' = ?d\<lparr>dag_active_chain := xs, dag_active_tip := hi_hash info\<rparr>"
      "linked (dag_headers ?d) xs" "last xs = hi_hash info" "xs ! 0 = dag_active_chain d ! 0"
      using step promote_active_tip_linked [OF g', of "hi_hash info" info] by auto
    then show ?thesis
      using True t by (intro exI [of _ xs] exI [of _ "hi_hash info"]) simp
  next
    case False
    with step t g' show ?thesis
      by (intro exI [of _ "dag_active_chain d"] exI [of _ "dag_active_tip d"]) (auto simp: dag_graph_def)
  qed
qed

lemma dag_insert_inv:
  assumes v: "dag_inv L d" and i: "dag_insert L header d = Some (Inr (info, d'))"
  shows "dag_inv L d'"
    and "dag_headers d' = fmupd (hi_hash info) info (dag_headers d)"
    and "dag_params d' = dag_params d" and "dag_deployments d' = dag_deployments d"
proof -
  have g: "dag_graph L d" using v by (simp add: dag_inv_def)
  from dag_insert_Inr(1) [OF g i] have f: "fresh_entry L d info" by (simp add: acceptable_def)
  obtain t where t: "fmlookup (dag_headers d) (dag_active_tip d) = Some t"
    using graph_tip [OF g] by (metis active_tip_def)
  obtain xs h where d': "d' = (restore_retained_header info d)\<lparr>dag_active_chain := xs, dag_active_tip := h\<rparr>"
    and xs: "linked (fmupd (hi_hash info) info (dag_headers d)) xs" "last xs = h"
      "xs ! 0 = dag_active_chain d ! 0"
    and h: "h = (if hi_chainwork t < hi_chainwork info then hi_hash info else dag_active_tip d)"
    using dag_insert_shape [OF g i] t by (auto simp: active_tip_def)
  have "dag_graph L d'" unfolding d' by (rule graph_move_tip) (use graph_restore [OF g f] xs in auto)
  moreover have new: "fmlookup (dag_headers d) (hi_hash info) = None"
    using f unfolding fresh_entry_def by (rule conjunct1)
  moreover have "hi_chainwork j \<le> hi_chainwork t" if "fmlookup (dag_headers d) k = Some j" for k j
    using v that t by (simp add: dag_inv_def)
  ultimately show "dag_inv L d'"
    using h t new unfolding dag_inv_def d' by (auto split: if_splits) (meson order.strict_trans1 less_imp_le)
  show "dag_headers d' = fmupd (hi_hash info) info (dag_headers d)"
    "dag_params d' = dag_params d" "dag_deployments d' = dag_deployments d"
    by (simp_all add: d')
qed

section \<open>Contextual rules\<close>

text \<open>Parameters the code can compute with: no conversion or remainder panics.\<close>

definition params_ok :: "bitcoin_lib \<Rightarrow> header_dag \<Rightarrow> bool" where
  "params_ok L d \<longleftrightarrow> (\<exists>n. interval_u32 L (dag_params d) = Some n \<and> n \<noteq> 0)
     \<and> doubled_spacing (dag_params d) \<noteq> None"

lemma ancestor_at_height_total:
  assumes g: "dag_graph L d" and "fmlookup (dag_headers d) h = Some cur" "k \<le> hi_height cur"
  shows "\<exists>a. ancestor_at_height d cur k = Some (Some a) \<and> hi_height a = k"
  using assms(2,3)
proof (induction "unat (hi_height cur)" arbitrary: h cur rule: less_induct)
  case less
  show ?case
  proof (cases "k < hi_height cur")
    case True
    then have "hi_height cur \<noteq> 0" by auto
    with graph_parent [OF g less.prems(1)] obtain p where
      p: "fmlookup (dag_headers d) (prev_blockhash (hi_header cur)) = Some p"
      "unat (hi_height cur) = Suc (unat (hi_height p))" by metis
    moreover have "k \<le> hi_height p" using True p(2) by (simp add: word_less_nat_alt word_le_nat_alt)
    ultimately show ?thesis
      using less.hyps [OF _ p(1)] True by (simp add: ancestor_at_height.simps [of d cur])
  next
    case False
    then show ?thesis using less.prems by (simp add: ancestor_at_height.simps)
  qed
qed

lemma last_regular_header_total:
  assumes g: "dag_graph L d" and "fmlookup (dag_headers d) h = Some cur"
  shows "\<exists>c. last_regular_header d interval limit cur = Some (Ok c)"
  using assms(2)
proof (induction "unat (hi_height cur)" arbitrary: h cur rule: less_induct)
  case less
  show ?case
  proof (cases "hi_height cur mod interval \<noteq> 0 \<and> h_bits (hi_header cur) = limit")
    case True
    then have "hi_height cur \<noteq> 0" by auto
    with graph_parent [OF g less.prems(1)] obtain p where
      p: "fmlookup (dag_headers d) (prev_blockhash (hi_header cur)) = Some p"
      "unat (hi_height cur) = Suc (unat (hi_height p))" by metis
    then show ?thesis
      using less.hyps [OF _ p(1)] True by (simp add: last_regular_header.simps [of d interval limit cur])
  next
    case False
    then show ?thesis by (subst last_regular_header.simps) auto
  qed
qed

lemma min_difficulty_bits_total:
  assumes "dag_graph L d" "params_ok L d" "fmlookup (dag_headers d) h = Some parent"
  shows "\<exists>b. min_difficulty_bits L d parent interval time = Some (Ok b)"
  using last_regular_header_total [OF assms(1,3)] assms(2)
  by (auto simp: min_difficulty_bits_def params_ok_def Let_def bind_call_def split: option.splits sum.splits)
    (metis Inr_inject Inl_Inr_False option.inject option.distinct(1))+

lemma expected_next_bits_total:
  assumes g: "dag_graph L d" and p: "params_ok L d"
    and parent: "fmlookup (dag_headers d) (prev_blockhash candidate) = Some parent"
    and next_height: "checked_add (hi_height parent) 1 = Some height"
  shows "\<exists>b. expected_next_bits L d candidate = Some (Ok b)"
proof -
  obtain n where n: "interval_u32 L (dag_params d) = Some n" "n \<noteq> 0" using p by (auto simp: params_ok_def)
  show ?thesis
  proof (cases "height mod n = 0")
    case True
    have "height - n \<le> hi_height parent"
    proof -
      have "unat height = Suc (unat (hi_height parent))" using next_height by (simp add: checked_add_eq_iff)
      moreover have "n \<le> height" using True calculation by (metis mod_word_less not_le word_less_nat_alt unat_0 zero_less_Suc unsigned_0 less_irrefl)
      moreover have "0 < unat n" using n(2) by (simp add: unat_gt_0)
      ultimately show ?thesis by (simp add: word_le_nat_alt unat_sub)
    qed
    from ancestor_at_height_total [OF g parent this] True n parent next_height
    show ?thesis by (auto simp: expected_next_bits_def rem_u32_def)
  next
    case False
    with n parent next_height min_difficulty_bits_total [OF g p parent]
    show ?thesis by (auto simp: expected_next_bits_def rem_u32_def)
  qed
qed

lemma insert_contextual_Inr:
  assumes "insert_contextual L header now d = Some (Inr r)"
  shows "dag_insert L header d = Some (Inr r)"
  using assms by (auto simp: insert_contextual_def Let_def res_simps)

lemma insert_contextual_returns:
  assumes g: "dag_graph L d" and p: "params_ok L d"
  shows "insert_contextual L header now d \<noteq> None"
proof
  assume n: "insert_contextual L header now d = None"
  obtain k where k: "interval_u32 L (dag_params d) = Some k" "k \<noteq> 0" using p by (auto simp: params_ok_def)
  then have "validate_bip94_time L (dag_params d) h a b \<noteq> None" for h a b
    by (auto simp: validate_bip94_time_def rem_u32_def Let_def)
  with n dag_insert_returns [OF g] expected_next_bits_total [OF g p, of header] graph_hash [OF g]
  show False
    by (fastforce simp: insert_contextual_def Let_def res_simps median_time_past_def)
qed

end
