(* ===== verification/Headers_Transactions.thy ===== *)
theory Headers_Transactions
  imports Headers_Graph
begin

text \<open>
  Staged header batches and staged leaf evictions: what their guards keep while they
  run, and that dropping a guard restores the DAG.
\<close>

lemma insert_contextual_no_missing:
  assumes g: "dag_graph L d" and p: "params_ok L d"
  shows "insert_contextual L header now d \<noteq> Some (Inl (MissingRetargetAncestor h))"
proof
  assume n: "insert_contextual L header now d = Some (Inl (MissingRetargetAncestor h))"
  have "dag_insert L header d \<noteq> Some (Inl (MissingRetargetAncestor h))"
    by (auto simp: dag_insert_def Let_def res_simps check_checkpoint_def split: option.splits)
  with n expected_next_bits_total [OF g p, of header] show False
    by (fastforce simp: insert_contextual_def Let_def res_simps check_fork_height_def
        validate_bip94_time_def split: option.splits if_splits)
qed

section \<open>Staged batches\<close>

lemma remove_update [simp]:
  "remove_retained_header h (d\<lparr>dag_active_chain := xs, dag_active_tip := t\<rparr>) =
     (remove_retained_header h d)\<lparr>dag_active_chain := xs, dag_active_tip := t\<rparr>"
  by (simp add: remove_retained_header_def Let_def split: option.splits)

lemma fold_remove_update:
  "fold remove_retained_header hs (d\<lparr>dag_active_chain := xs, dag_active_tip := t\<rparr>) =
     (fold remove_retained_header hs d)\<lparr>dag_active_chain := xs, dag_active_tip := t\<rparr>"
  by (induction hs arbitrary: d) simp_all

lemma remove_restore:
  assumes g: "dag_graph L d" and f: "fresh_entry L d info"
  shows "remove_retained_header (hi_hash info) (restore_retained_header info d) = d"
proof -
  let ?h = "hi_hash info" and ?p = "prev_blockhash (hi_header info)"
  let ?r = "restore_retained_header info d"
  have new: "fmlookup (dag_headers d) ?h = None" using f unfolding fresh_entry_def by (rule conjunct1)
  then have hs: "fmdrop ?h (fmupd ?h info (dag_headers d)) = dag_headers d"
    by (intro fmap_ext) auto
  let ?dec = "\<lambda>counts. case fmlookup counts ?p of None \<Rightarrow> counts
    | Some count \<Rightarrow> if count - 1 = 0 then fmdrop ?p counts else fmupd ?p (count - 1) counts"
  have "?dec (count_child ?p counts) = counts" if "dag_child_counts d = Some counts" for counts
  proof -
    have ok: "counts_ok (dag_headers d) counts" using g that by (simp add: dag_graph_def)
    have "counts_ok (fmdrop ?h (fmupd ?h info (dag_headers d))) (?dec (count_child ?p counts))"
      using counts_ok_remove [OF counts_ok_add [OF ok new fresh_entry_height [OF f]], of ?h info]
        fresh_entry_height [OF f] by simp
    from counts_ok_unique [OF this [unfolded hs] ok] show ?thesis .
  qed
  then have "map_option ?dec (map_option (count_child ?p) (dag_child_counts d)) = dag_child_counts d"
    by (cases "dag_child_counts d") simp_all
  with hs show ?thesis
    by (simp add: remove_retained_header_def restore_retained_header_def Let_def)
qed

text \<open>
  What the guard of a batch staged on \<open>d0\<close> keeps: removing its headers gives \<open>d0\<close>
  back up to the active path, and without a rebuild that path extends the old one.
\<close>

definition batch_inv :: "bitcoin_lib \<Rightarrow> header_dag \<Rightarrow> staged_batch \<Rightarrow> bool" where
  "batch_inv L d0 s \<longleftrightarrow> dag_inv L (sb_dag s)
     \<and> dag_params (sb_dag s) = dag_params d0
     \<and> fold remove_retained_header (rev (sb_inserted s)) (sb_dag s) =
         d0\<lparr>dag_active_chain := dag_active_chain (sb_dag s), dag_active_tip := dag_active_tip (sb_dag s)\<rparr>
     \<and> (\<forall>h i. fmlookup (dag_headers d0) h = Some i \<longrightarrow> fmlookup (dag_headers (sb_dag s)) h = Some i)
     \<and> dag_active_chain (sb_dag s) ! 0 = dag_active_chain d0 ! 0
     \<and> sb_original_active_tip s = dag_active_tip d0
     \<and> sb_original_active_len s = length (dag_active_chain d0)
     \<and> (\<not> sb_rebuilt_active_chain s \<longrightarrow>
          take (length (dag_active_chain d0)) (dag_active_chain (sb_dag s)) = dag_active_chain d0)"

lemma rollback_restores:
  assumes v: "dag_inv L d0" and b: "batch_inv L d0 s"
  shows "rollback_batch s = Some d0"
proof -
  let ?c = "dag_active_chain (sb_dag s)" and ?hs = "dag_headers (sb_dag s)"
  let ?d = "d0\<lparr>dag_active_chain := ?c, dag_active_tip := dag_active_tip (sb_dag s)\<rparr>"
  have g: "dag_graph L d0" and gs: "dag_graph L (sb_dag s)"
    using v b by (simp_all add: dag_inv_def batch_inv_def)
  have sub: "\<And>h i. fmlookup (dag_headers d0) h = Some i \<Longrightarrow> fmlookup ?hs h = Some i"
    and c0: "?c ! 0 = dag_active_chain d0 ! 0"
    using b by (simp_all add: batch_inv_def)
  obtain t where t: "fmlookup (dag_headers d0) (dag_active_tip d0) = Some t"
    using graph_tip [OF g] by (metis active_tip_def)
  have "walkable L ?d ?hs"
    using sub c0 graph_entry [OF g] graph_linked [OF gs] linked_nonempty [OF graph_linked [OF gs]]
    by (auto simp: walkable_def entry_ok_def)
  from rebuild_active_chain_linked [OF this, of "dag_active_tip d0" t] t
  obtain xs where xs: "rebuild_active_chain t ?d = Some (?d\<lparr>dag_active_chain := xs, dag_active_tip := dag_active_tip d0\<rparr>)"
    "linked ?hs xs" "last xs = dag_active_tip d0" by auto
  have "linked ?hs (dag_active_chain d0)" using linked_mono [OF graph_linked [OF g]] sub by blast
  then have "xs = dag_active_chain d0" using linked_unique [OF xs(2)] xs(3) g by (simp add: dag_graph_def)
  moreover have "fold remove_retained_header (rev (sb_inserted s)) (sb_dag s) = ?d"
    "sb_original_active_tip s = dag_active_tip d0" "sb_original_active_len s = length (dag_active_chain d0)"
    "\<not> sb_rebuilt_active_chain s \<longrightarrow> take (length (dag_active_chain d0)) ?c = dag_active_chain d0"
    using b by (simp_all add: batch_inv_def)
  ultimately show ?thesis using xs(1) t by (simp add: rollback_batch_def Let_def)
qed

lemma promote_extends:
  assumes g: "dag_graph L d" and i: "dag_insert L header d = Some (Inr (info, d'))"
    and r: "insertion_rebuilds_active_chain L d header = Some False"
  shows "\<exists>ys. dag_active_chain d' = dag_active_chain d @ ys"
proof -
  have a: "acceptable L d header info" using dag_insert_Inr(1) [OF g i] .
  then obtain p where p: "fmlookup (dag_headers d) (prev_blockhash header) = Some p"
    "unat (hi_height info) = Suc (unat (hi_height p))"
    "hi_chainwork info = hi_chainwork p + header_work L header" and h: "hi_header info = header"
    by (auto simp: acceptable_def fresh_entry_def)
  have c: "checked_add (hi_height p) 1 = Some (hi_height info)" using p by (simp add: checked_add_eq_iff)
  from dag_insert_Inr(2) [OF g i] obtain t where t: "active_tip d = Some t" and
    step: "if hi_chainwork t < hi_chainwork info then promote_active_tip info (restore_retained_header info d) = Some d'
       else d' = restore_retained_header info d" by auto
  show ?thesis
  proof (cases "hi_chainwork t < hi_chainwork info")
    case True
    with r p c t graph_hash [OF g p(1)]
    have "prev_blockhash header = dag_active_tip d \<and> unat (hi_height info) = length (dag_active_chain d)"
      by (simp add: insertion_rebuilds_active_chain_def)
    with True step h show ?thesis by (auto simp: promote_active_tip_def)
  qed (use step in simp)
qed


lemma dag_insert_mono:
  assumes "dag_inv L d" "dag_insert L header d = Some (Inr (info, d'))"
    "fmlookup (dag_headers d) h = Some i"
  shows "fmlookup (dag_headers d') h = Some i"
proof -
  have "dag_graph L d" using assms(1) by (simp add: dag_inv_def)
  from dag_insert_Inr(1) [OF this assms(2)] have "fmlookup (dag_headers d) (hi_hash info) = None"
    unfolding acceptable_def fresh_entry_def by (elim conjE)
  with assms(3) show ?thesis unfolding dag_insert_inv(2) [OF assms(1,2)] by auto
qed

lemma take_prefix_append: "take (length as) xs = as \<Longrightarrow> take (length as) (xs @ ys) = as"
  by (metis append_Nil2 diff_is_0_eq length_take min.cobounded1 take0 take_append)

lemma batch_inv_step:
  assumes b: "batch_inv L d0 s" and i: "dag_insert L header (sb_dag s) = Some (Inr (info, d'))"
    and r: "insertion_rebuilds_active_chain L (sb_dag s) header = Some rebuilds"
  shows "batch_inv L d0 (s\<lparr>sb_dag := d',
    sb_rebuilt_active_chain := sb_rebuilt_active_chain s \<or> rebuilds,
    sb_inserted := sb_inserted s @ [hi_hash info], sb_accepted := sb_accepted s @ [info]\<rparr>)"
proof -
  let ?d = "sb_dag s"
  have v: "dag_inv L ?d" using b by (simp add: batch_inv_def)
  then have g: "dag_graph L ?d" by (simp add: dag_inv_def)
  have f: "fresh_entry L ?d info" using dag_insert_Inr(1) [OF g i] by (simp add: acceptable_def)
  obtain xs h where d': "d' = (restore_retained_header info ?d)\<lparr>dag_active_chain := xs, dag_active_tip := h\<rparr>"
    and xs: "xs ! 0 = dag_active_chain ?d ! 0"
    using dag_insert_shape [OF g i] by auto
  have rem: "remove_retained_header (hi_hash info) d' = ?d\<lparr>dag_active_chain := xs, dag_active_tip := h\<rparr>"
    by (simp add: d' remove_restore [OF g f])
  have "fold remove_retained_header (rev (sb_inserted s)) ?d =
      d0\<lparr>dag_active_chain := dag_active_chain ?d, dag_active_tip := dag_active_tip ?d\<rparr>"
    using b by (simp add: batch_inv_def)
  then have "fold remove_retained_header (rev (sb_inserted s @ [hi_hash info])) d' =
      d0\<lparr>dag_active_chain := xs, dag_active_tip := h\<rparr>"
    by (simp add: rem fold_remove_update)
  moreover have "take (length (dag_active_chain d0)) (dag_active_chain d') = dag_active_chain d0"
    if nr: "\<not> (sb_rebuilt_active_chain s \<or> rebuilds)"
  proof -
    have "take (length (dag_active_chain d0)) (dag_active_chain ?d) = dag_active_chain d0"
      using nr b by (simp add: batch_inv_def)
    moreover obtain ys where "dag_active_chain d' = dag_active_chain ?d @ ys"
      using nr r promote_extends [OF g i] by auto
    ultimately show ?thesis using take_prefix_append by metis
  qed
  moreover have "dag_inv L d'" "dag_params d' = dag_params ?d" using dag_insert_inv [OF v i] by simp_all
  moreover have "\<forall>h j. fmlookup (dag_headers d0) h = Some j \<longrightarrow> fmlookup (dag_headers d') h = Some j"
    using b dag_insert_mono [OF v i] by (simp add: batch_inv_def)
  ultimately show ?thesis using b xs by (simp add: batch_inv_def d')
qed

lemma rebuilds_returns:
  assumes "dag_graph L d"
  shows "\<exists>b. insertion_rebuilds_active_chain L d header = Some b"
  using graph_tip [OF assms] by (auto simp: insertion_rebuilds_active_chain_def split: option.splits)

lemma params_ok_cong: "dag_params d' = dag_params d \<Longrightarrow> params_ok L d' = params_ok L d"
  by (simp add: params_ok_def)

lemma stage_headers_inv:
  assumes "dag_inv L d0" "params_ok L d0" "batch_inv L d0 s"
  shows "\<exists>r. stage_headers L now headers s = Some r
    \<and> (case r of Inl (e, d) \<Rightarrow> d = d0
       | Inr s' \<Rightarrow> batch_inv L d0 s' \<and> length (sb_accepted s') = length (sb_accepted s) + length headers
           \<and> map hi_header (sb_accepted s') = map hi_header (sb_accepted s) @ headers)"
  using assms(3)
proof (induction headers arbitrary: s)
  case (Cons header headers)
  let ?d = "sb_dag s"
  have g: "dag_graph L ?d" and p: "params_ok L ?d"
    using Cons.prems assms(2) params_ok_cong [of ?d d0 L] by (simp_all add: batch_inv_def dag_inv_def)
  obtain b where b: "insertion_rebuilds_active_chain L ?d header = Some b"
    using rebuilds_returns [OF g] by auto
  obtain r where r: "insert_contextual L header now ?d = Some r"
    using insert_contextual_returns [OF g p] by auto
  show ?case
  proof (cases r)
    case (Inl e)
    with b r rollback_restores [OF assms(1) Cons.prems] show ?thesis by simp
  next
    case (Inr q)
    obtain info d' where q: "q = (info, d')" by (cases q)
    have i: "dag_insert L header ?d = Some (Inr (info, d'))"
      using r Inr q insert_contextual_Inr by simp
    have "hi_header info = header" using dag_insert_Inr(1) [OF g i] by (simp add: acceptable_def)
    with Cons.IH [OF batch_inv_step [OF Cons.prems i b]] b r Inr q show ?thesis
      by (auto split: sum.splits)
  qed
qed simp

section \<open>Leaf eviction\<close>

lemma index_header_count:
  assumes "h \<notin> A" "fmlookup counts p = (if children hs p \<inter> A = {} then None else Some (card (children hs p \<inter> A)))"
    "fmlookup hs h = Some info"
    "\<And>q. fmlookup counts q = (if children hs q \<inter> A = {} then None else Some (card (children hs q \<inter> A)))"
  shows "fmlookup (index_header hs h counts) p =
    (if children hs p \<inter> insert h A = {} then None else Some (card (children hs p \<inter> insert h A)))"
proof -
  have mem: "h \<in> children hs p \<longleftrightarrow> hi_height info \<noteq> 0 \<and> prev_blockhash (hi_header info) = p"
    using assms(3) by (auto simp: children_def)
  show ?thesis
  proof (cases "h \<in> children hs p")
    case True
    then have "children hs p \<inter> insert h A = insert h (children hs p \<inter> A)" by auto
    moreover have "card (insert h (children hs p \<inter> A)) = card (children hs p \<inter> A) + 1"
      using assms(1) by (simp add: card_insert_if)
    ultimately show ?thesis
      using True mem assms(2,3) by (auto simp: index_header_def count_child_def word_gt_0)
  next
    case False
    then have "children hs p \<inter> insert h A = children hs p \<inter> A" by auto
    with False mem assms(2,3) show ?thesis by (auto simp: index_header_def count_child_def word_gt_0)
  qed
qed

lemma fold_index_header:
  assumes "distinct l" "set l \<subseteq> fset (fmdom hs)"
  shows "fmlookup (fold (index_header hs) l fmempty) p =
    (if children hs p \<inter> set l = {} then None else Some (card (children hs p \<inter> set l)))"
  using assms
proof (induction l arbitrary: p rule: rev_induct)
  case (snoc h l)
  obtain info where "fmlookup hs h = Some info" using snoc.prems by (auto dest: fmdomE)
  then show ?case using index_header_count [of h "set l" _ p hs info] snoc by simp
qed simp

lemma child_index_ok: "counts_ok hs (child_index hs)"
proof -
  have "children hs p \<subseteq> fset (fmdom hs)" for p by (auto simp: children_def fmdomI)
  then have "children hs p \<inter> set (sorted_list_of_fset (fmdom hs)) = children hs p" for p
    by (auto simp: sorted_list_of_fset.rep_eq)
  then show ?thesis
    using fold_index_header [of "sorted_list_of_fset (fmdom hs)" hs]
    by (simp add: counts_ok_def child_index_def sorted_list_of_fset.rep_eq)
qed

lemma active_member:
  assumes "dag_graph L d" "h \<in> set (dag_active_chain d)"
  shows "active_height_of d h \<noteq> None"
proof -
  obtain i where i: "i < length (dag_active_chain d)" "dag_active_chain d ! i = h"
    using assms(2) by (auto simp: in_set_conv_nth)
  obtain info where "fmlookup (dag_headers d) h = Some info" "unat (hi_height info) = i"
    using linkedD [OF graph_linked [OF assms(1)] i(1)] i(2) by metis
  with i show ?thesis by (simp add: active_height_of_def nth_opt_def)
qed

text \<open>A header that may be evicted: a known, inactive leaf.\<close>

definition evictable :: "header_dag \<Rightarrow> hash256 \<Rightarrow> bool" where
  "evictable d h \<longleftrightarrow> dag_get d h \<noteq> None \<and> active_height_of d h = None \<and> children (dag_headers d) h = {}"

lemma evictable_height:
  assumes "dag_graph L d" "evictable d h" "fmlookup (dag_headers d) h = Some i"
  shows "hi_height i \<noteq> 0"
proof
  assume "hi_height i = 0"
  with graph_entry [OF assms(1,3)] have "h \<in> set (dag_active_chain d)"
    by (auto simp: entry_ok_def)
  from active_member [OF assms(1) this] assms(2) show False by (simp add: evictable_def)
qed

lemma remove_fields [simp]:
  "dag_active_chain (remove_retained_header h d) = dag_active_chain d"
  "dag_active_tip (remove_retained_header h d) = dag_active_tip d"
  "dag_params (remove_retained_header h d) = dag_params d"
  "dag_deployments (remove_retained_header h d) = dag_deployments d"
  "dag_headers (remove_retained_header h d) = fmdrop h (dag_headers d)"
  by (auto simp: remove_retained_header_def Let_def split: option.splits intro!: fmap_ext)

lemma remove_counts:
  assumes "dag_graph L d" "evictable d h" "dag_child_counts (remove_retained_header h d) = Some counts"
  shows "counts_ok (fmdrop h (dag_headers d)) counts"
proof -
  obtain i where i: "fmlookup (dag_headers d) h = Some i" using assms(2) by (auto simp: evictable_def dag_get_def)
  from assms(3) i obtain c where c: "dag_child_counts d = Some c"
    "counts = (case fmlookup c (prev_blockhash (hi_header i)) of None \<Rightarrow> c
      | Some n \<Rightarrow> if n - 1 = 0 then fmdrop (prev_blockhash (hi_header i)) c
          else fmupd (prev_blockhash (hi_header i)) (n - 1) c)"
    by (auto simp: remove_retained_header_def Let_def)
  then have "counts_ok (dag_headers d) c" using assms(1) by (simp add: dag_graph_def)
  from counts_ok_remove [OF this i evictable_height [OF assms(1,2) i]] c(2) show ?thesis by simp
qed

lemma remove_inv:
  assumes v: "dag_inv L d" and e: "evictable d h"
  shows "dag_inv L (remove_retained_header h d)"
proof -
  let ?d = "remove_retained_header h d"
  have g: "dag_graph L d" using v by (simp add: dag_inv_def)
  have out: "h \<notin> set (dag_active_chain d)" 
  proof
    assume "h \<in> set (dag_active_chain d)"
    from active_member [OF g this] e show False by (simp add: evictable_def)
  qed
  have ne: "dag_active_chain d \<noteq> []" using linked_nonempty [OF graph_linked [OF g]] .
  have "entry_ok L ?d k i" if "fmlookup (dag_headers ?d) k = Some i" for k i
  proof -
    have k: "fmlookup (dag_headers d) k = Some i" using that by (simp split: if_splits)
    have "prev_blockhash (hi_header i) \<noteq> h" if "hi_height i \<noteq> 0"
      using that k e by (auto simp: evictable_def children_def)
    with graph_entry [OF g k] ne show ?thesis by (rule_tac entry_ok_mono) auto
  qed
  moreover have "linked (dag_headers ?d) (dag_active_chain ?d)"
    unfolding remove_fields by (rule linked_mono [OF graph_linked [OF g]]) (use out in auto)
  ultimately have "dag_graph L ?d" using g remove_counts [OF g e] by (simp add: dag_graph_def)
  then show ?thesis using v by (auto simp: dag_inv_def split: if_splits)
qed

lemma restore_remove:
  assumes g: "dag_graph L d" and e: "evictable d h" and i: "fmlookup (dag_headers d) h = Some i"
  shows "restore_retained_header i (remove_retained_header h d) = d"
proof -
  have hs: "fmupd (hi_hash i) i (fmdrop h (dag_headers d)) = dag_headers d"
    using graph_hash [OF g i] i by (intro fmap_ext) auto
  have new: "fmlookup (fmdrop h (dag_headers d)) (hi_hash i) = None" using graph_hash [OF g i] by simp
  have "map_option (count_child (prev_blockhash (hi_header i))) (dag_child_counts (remove_retained_header h d))
      = dag_child_counts d"
  proof (cases "dag_child_counts (remove_retained_header h d)")
    case None
    then show ?thesis using i by (simp add: remove_retained_header_def Let_def)
  next
    case (Some c)
    have ok: "counts_ok (dag_headers d) (count_child (prev_blockhash (hi_header i)) c)"
      using counts_ok_add [OF remove_counts [OF g e Some] new evictable_height [OF g e i]] unfolding hs .
    obtain c0 where c0: "dag_child_counts d = Some c0"
      using Some i by (auto simp: remove_retained_header_def Let_def)
    then have "counts_ok (dag_headers d) c0" using g by (simp add: dag_graph_def)
    with counts_ok_unique [OF ok] Some c0 show ?thesis by simp
  qed
  with hs show ?thesis by (simp add: restore_retained_header_def)
qed

lemma stage_evictions_inv:
  assumes "dag_inv L (se_dag st)" "dag_child_counts (se_dag st) \<noteq> None" "drop_eviction st = d1"
  shows "case stage_evictions pinned hashes st of
      Inl (e, d) \<Rightarrow> d = d1
    | Inr st' \<Rightarrow> dag_inv L (se_dag st') \<and> drop_eviction st' = d1
        \<and> dag_active_chain (se_dag st') = dag_active_chain (se_dag st)
        \<and> dag_active_tip (se_dag st') = dag_active_tip (se_dag st)
        \<and> dag_params (se_dag st') = dag_params (se_dag st)
        \<and> dag_headers (se_dag st') = fold fmdrop hashes (dag_headers (se_dag st))
        \<and> map hi_hash (se_removed st') = map hi_hash (se_removed st) @ hashes
        \<and> (\<forall>h \<in> set hashes. h \<notin> set (dag_active_chain (se_dag st)) \<and> h \<notin> set pinned)"
  using assms
proof (induction hashes arbitrary: st)
  case (Cons h hashes)
  let ?d = "se_dag st"
  have g: "dag_graph L ?d" using Cons.prems(1) by (simp add: dag_inv_def)
  obtain counts where counts: "dag_child_counts ?d = Some counts" using Cons.prems(2) by auto
  then have ok: "counts_ok (dag_headers ?d) counts" using g by (simp add: dag_graph_def)
  show ?case
  proof (cases "evictable ?d h \<and> h \<notin> set pinned")
    case True
    then obtain i where i: "fmlookup (dag_headers ?d) h = Some i" and e: "evictable ?d h" "h \<notin> set pinned"
      by (auto simp: evictable_def dag_get_def)
    have leaf: "h |\<notin>| fmdom counts"
      using ok e by (simp add: counts_ok_def evictable_def fmdom_notI)
    let ?st = "\<lparr>se_dag = remove_retained_header h ?d, se_removed = se_removed st @ [i]\<rparr>"
    have step: "stage_evictions pinned (h # hashes) st = stage_evictions pinned hashes ?st"
      using e i leaf counts by (simp add: evictable_def dag_get_def Let_def)
    have "drop_eviction ?st = d1"
      using Cons.prems(3) restore_remove [OF g e(1) i] by (simp add: drop_eviction_def)
    moreover have "dag_child_counts (se_dag ?st) \<noteq> None"
      using counts i by (simp add: remove_retained_header_def Let_def)
    moreover have "h \<notin> set (dag_active_chain ?d)"
    proof
      assume "h \<in> set (dag_active_chain ?d)"
      from active_member [OF g this] e show False by (simp add: evictable_def)
    qed
    ultimately show ?thesis
      using Cons.IH [of ?st] remove_inv [OF Cons.prems(1) e(1)] graph_hash [OF g i] e(2)
      unfolding step by (auto split: sum.splits)
  next
    case False
    have "children (dag_headers ?d) h = {}" if "h |\<notin>| fmdom counts"
      using that ok by (metis counts_ok_def fmdom_notD option.distinct(1))
    with False counts Cons.prems(3) show ?thesis
      by (auto simp: Let_def evictable_def dag_get_def split: option.splits)
  qed
qed simp

definition with_index :: "header_dag \<Rightarrow> header_dag" where
  "with_index d = d\<lparr>dag_child_counts := Some (child_index (dag_headers d))\<rparr>"

lemma with_index_inv: "dag_inv L d \<Longrightarrow> dag_inv L (with_index d)"
  using child_index_ok
  by (auto simp: dag_inv_def dag_graph_def with_index_def entry_ok_def)

lemma stage_leaf_evictions_inv:
  assumes v: "dag_inv L d"
  shows "case stage_leaf_evictions hashes pinned limit d of
      Inl (e, d') \<Rightarrow> d' = d \<or> d' = with_index d
    | Inr st \<Rightarrow> dag_inv L (se_dag st) \<and> (drop_eviction st = d \<or> drop_eviction st = with_index d)
        \<and> dag_active_chain (se_dag st) = dag_active_chain d
        \<and> dag_active_tip (se_dag st) = dag_active_tip d
        \<and> dag_params (se_dag st) = dag_params d
        \<and> dag_headers (se_dag st) = fold fmdrop hashes (dag_headers d)
        \<and> map hi_hash (se_removed st) = hashes \<and> length hashes \<le> limit
        \<and> (\<forall>h \<in> set hashes. h \<notin> set (dag_active_chain d) \<and> h \<notin> set pinned)
        \<and> (\<forall>h \<in> set pinned. dag_get d h \<noteq> None)"
proof (cases "limit < length hashes \<or> find (\<lambda>h. dag_get d h = None) pinned \<noteq> None \<or> hashes = []")
  case True
  then show ?thesis
    using v by (auto simp: stage_leaf_evictions_def drop_eviction_def find_None_iff split: option.splits)
next
  case False
  define d0 where "d0 = (if dag_child_counts d = None then with_index d else d)"
  have s: "stage_leaf_evictions hashes pinned limit d
      = stage_evictions pinned hashes \<lparr>se_dag = d0, se_removed = []\<rparr>"
    using False by (auto simp: stage_leaf_evictions_def with_index_def d0_def Let_def)
  have "dag_inv L d0" "dag_child_counts d0 \<noteq> None"
    using v with_index_inv by (auto simp: with_index_def d0_def)
  then have "case stage_evictions pinned hashes \<lparr>se_dag = d0, se_removed = []\<rparr> of
      Inl (e, d') \<Rightarrow> d' = d0
    | Inr st' \<Rightarrow> dag_inv L (se_dag st') \<and> drop_eviction st' = d0
        \<and> dag_active_chain (se_dag st') = dag_active_chain d0
        \<and> dag_active_tip (se_dag st') = dag_active_tip d0
        \<and> dag_params (se_dag st') = dag_params d0
        \<and> dag_headers (se_dag st') = fold fmdrop hashes (dag_headers d0)
        \<and> map hi_hash (se_removed st') = hashes
        \<and> (\<forall>h \<in> set hashes. h \<notin> set (dag_active_chain d0) \<and> h \<notin> set pinned)"
    using stage_evictions_inv [of L "\<lparr>se_dag = d0, se_removed = []\<rparr>" d0, where pinned = pinned and hashes = hashes]
    by (auto simp: drop_eviction_def split: sum.splits prod.splits)
  moreover have "dag_active_chain d0 = dag_active_chain d" "dag_active_tip d0 = dag_active_tip d"
    "dag_params d0 = dag_params d" "dag_headers d0 = dag_headers d" "d0 = d \<or> d0 = with_index d"
    by (auto simp: with_index_def d0_def)
  ultimately show ?thesis using False unfolding s
    by (auto simp: find_None_iff split: sum.splits prod.splits)
qed

end
