(* ===== verification/Headers_Properties.thy ===== *)
theory Headers_Properties
  imports Headers_Transactions
begin

text \<open>
  The properties of the header DAG: its reachable states, contextual insertion, staged
  batches, leaf eviction, block locators and serving projections.
\<close>

section \<open>Reachable DAGs\<close>

inductive dag_reachable :: "bitcoin_lib \<Rightarrow> deployment_config \<Rightarrow> header_dag \<Rightarrow> bool"
  for L config where
  dag_start: "dag_reachable L config (with_deployments L config)"
| dag_inserted: "dag_reachable L config d \<Longrightarrow> dag_insert L header d = Some (Ok (info, d'))
    \<Longrightarrow> dag_reachable L config d'"
| dag_contextual: "dag_reachable L config d \<Longrightarrow> insert_contextual L header now d = Some (Ok (info, d'))
    \<Longrightarrow> dag_reachable L config d'"
| dag_committed: "dag_reachable L config d \<Longrightarrow> stage_batch_contextual L headers now d = Some (Ok s)
    \<Longrightarrow> dag_reachable L config (snd (commit_batch s))"
| dag_rolled_back: "dag_reachable L config d \<Longrightarrow> stage_batch_contextual L headers now d = Some (Ok s)
    \<Longrightarrow> rollback_batch s = Some d' \<Longrightarrow> dag_reachable L config d'"
| dag_batch_failed: "dag_reachable L config d
    \<Longrightarrow> stage_batch_contextual L headers now d = Some (Err (e, d')) \<Longrightarrow> dag_reachable L config d'"
| dag_evicted: "dag_reachable L config d \<Longrightarrow> stage_leaf_evictions hashes pinned limit d = Ok st
    \<Longrightarrow> dag_reachable L config (se_dag st)"
| dag_eviction_dropped: "dag_reachable L config d \<Longrightarrow> stage_leaf_evictions hashes pinned limit d = Ok st
    \<Longrightarrow> dag_reachable L config (drop_eviction st)"
| dag_eviction_failed: "dag_reachable L config d
    \<Longrightarrow> stage_leaf_evictions hashes pinned limit d = Err (e', d') \<Longrightarrow> dag_reachable L config d'"

lemma with_deployments_inv: "dag_inv L (with_deployments L config)"
  by (auto simp: dag_inv_def dag_graph_def with_deployments_def Let_def entry_ok_def linked_def)

lemma stage_batch_inv:
  assumes "dag_inv L d" "params_ok L d"
  shows "\<exists>r. stage_batch_contextual L headers now d = Some r
    \<and> (case r of Inl (e, d') \<Rightarrow> d' = d
       | Inr s \<Rightarrow> batch_inv L d s \<and> map hi_header (sb_accepted s) = headers)"
proof -
  have "batch_inv L d \<lparr>sb_dag = d, sb_accepted = [], sb_inserted = [],
      sb_original_active_tip = dag_active_tip d, sb_original_active_len = length (dag_active_chain d),
      sb_rebuilt_active_chain = False\<rparr>"
    using assms(1) by (simp add: batch_inv_def)
  from stage_headers_inv [OF assms this, of now headers] show ?thesis
    unfolding stage_batch_contextual_def by (elim exE) (auto split: sum.splits)
qed

lemma dag_reachable_inv:
  assumes p: "params_ok L (with_deployments L config)" and r: "dag_reachable L config d"
  shows "dag_inv L d \<and> dag_params d = dag_params (with_deployments L config)"
  using r
proof (induction rule: dag_reachable.induct)
  case dag_start
  show ?case using with_deployments_inv by simp
next
  case (dag_inserted d header info d')
  then show ?case using dag_insert_inv [of L d header info d'] by simp
next
  case (dag_contextual d header now info d')
  then show ?case using dag_insert_inv [of L d header info d'] insert_contextual_Inr by simp
next
  case (dag_committed d headers now s)
  then have "batch_inv L d s" using stage_batch_inv [of L d headers now] params_ok_cong [of d _ L] p by auto
  with dag_committed show ?case by (simp add: commit_batch_def batch_inv_def)
next
  case (dag_rolled_back d headers now s d')
  then have "batch_inv L d s" using stage_batch_inv [of L d headers now] params_ok_cong [of d _ L] p by auto
  from rollback_restores [OF _ this] dag_rolled_back show ?case by simp
next
  case (dag_batch_failed d headers now e d')
  then show ?case using stage_batch_inv [of L d headers now] params_ok_cong [of d _ L] p by auto
next
  case (dag_evicted d hashes pinned limit st)
  then show ?case using stage_leaf_evictions_inv [of L d, where hashes = hashes and pinned = pinned and limit = limit] by simp
next
  case (dag_eviction_dropped d hashes pinned limit st)
  then show ?case
    using stage_leaf_evictions_inv [of L d, where hashes = hashes and pinned = pinned and limit = limit] with_index_inv [of L d]
    by (auto simp: with_index_def)
next
  case (dag_eviction_failed d hashes pinned limit e' d')
  then show ?case
    using stage_leaf_evictions_inv [of L d, where hashes = hashes and pinned = pinned and limit = limit] with_index_inv [of L d]
    by (auto simp: with_index_def)
qed

section \<open>Properties\<close>

text \<open>
  C7. On every header DAG the node can reach, by direct or contextual insertion, by
  committing, rolling back or failing a batch, and by committing, dropping or failing
  an eviction, the active tip is a retained header with the most cumulative work,
  every retained header is filed under its own hash with its parent retained below
  it, and the active chain is the one path of parent links from genesis to the tip.
\<close>
theorem header_dag_reachable_inv:
  assumes "params_ok L (with_deployments L config)" "dag_reachable L config d"
  shows "dag_inv L d
    \<and> (\<exists>t. active_tip d = Some t \<and> (\<forall>h i. dag_get d h = Some i \<longrightarrow> hi_chainwork i \<le> hi_chainwork t))
    \<and> (\<forall>xs. linked (dag_headers d) xs \<and> last xs = dag_active_tip d \<longleftrightarrow> xs = dag_active_chain d)"
proof -
  have v: "dag_inv L d" using dag_reachable_inv [OF assms] by simp
  then have g: "dag_graph L d" by (simp add: dag_inv_def)
  obtain t where t: "active_tip d = Some t" using graph_tip [OF g] by metis
  have "linked (dag_headers d) xs \<and> last xs = dag_active_tip d \<longleftrightarrow> xs = dag_active_chain d" for xs
    using linked_unique [OF _ graph_linked [OF g], of xs] g by (auto simp: dag_graph_def)
  moreover have "hi_chainwork i \<le> hi_chainwork t" if "dag_get d h = Some i" for h i
    using v t that by (simp add: dag_inv_def active_tip_def dag_get_def)
  ultimately show ?thesis using v t by blast
qed

text \<open>The contextual rules: version, median time past, two-hour limit and difficulty.\<close>

definition contextual_ok :: "bitcoin_lib \<Rightarrow> header_dag \<Rightarrow> header \<Rightarrow> u32 \<Rightarrow> u32 \<Rightarrow> bool" where
  "contextual_ok L d header now height \<longleftrightarrow>
     sint (minimum_block_version (dag_deployments d) height) \<le> sint (h_version header)
     \<and> (\<exists>median. median_time_past d (prev_blockhash header) = Some median \<and> median < h_time header)
     \<and> unat (h_time header) \<le> unat now + 7200
     \<and> expected_next_bits L d header = Some (Ok (h_bits header))"

lemma insert_contextual_ok:
  assumes "dag_graph L d" "insert_contextual L header now d = Some (Ok (info, d'))"
  shows "contextual_ok L d header now (hi_height info)"
proof -
  from assms(2) obtain parent height median where
    parent: "fmlookup (dag_headers d) (prev_blockhash header) = Some parent"
    and height: "checked_add (hi_height parent) 1 = Some height"
    and version: "\<not> sint (h_version header) < sint (minimum_block_version (dag_deployments d) height)"
    and median: "median_time_past d (hi_hash parent) = Some median" "\<not> h_time header \<le> median"
    and future: "\<not> saturating_add now max_future_block_time_secs < h_time header"
    and bits: "expected_next_bits L d header = Some (Ok (h_bits header))"
    and ins: "dag_insert L header d = Some (Ok (info, d'))"
    by (auto simp: insert_contextual_def Let_def res_simps)
  have "hi_hash parent = prev_blockhash header" using graph_hash [OF assms(1) parent] .
  moreover have "hi_height info = height"
    using dag_insert_Inr(1) [OF assms(1) ins] parent height
    by (auto simp: acceptable_def fresh_entry_def checked_add_eq_iff word_unat_eq_iff)
  moreover have "unat (h_time header) \<le> unat now + 7200"
    using future by (simp add: not_less word_le_nat_alt unat_saturating_add max_future_block_time_secs_def)
  ultimately show ?thesis
    using version median bits by (auto simp: contextual_ok_def not_le not_less)
qed

text \<open>
  C8. Contextual insertion always returns, and never for want of a retarget
  ancestor. An accepted header passed proof of work, target, checkpoint and parent
  checks, is later than the median of its ancestors' times and at most two hours ahead
  of the clock, has the version and the difficulty its height requires,
  and is the only new entry; it becomes the tip exactly when it has strictly
  more work, so of two equal branches the first one seen stays active.
\<close>
theorem insert_contextual_correct:
  assumes "dag_inv L d" "params_ok L d"
  shows "\<exists>r. insert_contextual L header now d = Some r
    \<and> (\<forall>h. r \<noteq> Err (MissingRetargetAncestor h))
    \<and> (\<forall>info d'. r = Ok (info, d') \<longrightarrow> dag_inv L d' \<and> acceptable L d header info
         \<and> contextual_ok L d header now (hi_height info)
         \<and> dag_get d' = (dag_get d)(hi_hash info \<mapsto> info)
         \<and> (\<forall>t. active_tip d = Some t \<longrightarrow> dag_active_tip d' =
              (if hi_chainwork t < hi_chainwork info then hi_hash info else dag_active_tip d)))"
proof -
  have g: "dag_graph L d" using assms(1) by (simp add: dag_inv_def)
  obtain r where r: "insert_contextual L header now d = Some r"
    using insert_contextual_returns [OF g assms(2)] by auto
  have "dag_inv L d' \<and> acceptable L d header info \<and> contextual_ok L d header now (hi_height info)
      \<and> dag_get d' = (dag_get d)(hi_hash info \<mapsto> info)
      \<and> (\<forall>t. active_tip d = Some t \<longrightarrow> dag_active_tip d' =
           (if hi_chainwork t < hi_chainwork info then hi_hash info else dag_active_tip d))"
    if "r = Ok (info, d')" for info d'
  proof -
    have i: "dag_insert L header d = Some (Inr (info, d'))"
      using r that insert_contextual_Inr by simp
    have "dag_get d' = (dag_get d)(hi_hash info \<mapsto> info)"
      using dag_insert_inv(2) [OF assms(1) i] by (auto simp: dag_get_def fun_eq_iff)
    then show ?thesis
      using dag_insert_inv(1) [OF assms(1) i] dag_insert_Inr(1) [OF g i] dag_insert_shape [OF g i]
        insert_contextual_ok [OF g r [unfolded that]]
      by fastforce
  qed
  with r insert_contextual_no_missing [OF g assms(2)] show ?thesis by metis
qed

text \<open>
  C15. Staging a header batch is atomic: it always returns; a rejected batch leaves
  the DAG exactly as it was, and a staged batch that is dropped instead of committed
  restores it exactly, active chain and child counts included, also when the batch
  had moved the tip to another branch.
\<close>
theorem staged_batch_atomic:
  assumes "dag_inv L d" "params_ok L d"
  shows "\<exists>r. stage_batch_contextual L headers now d = Some r
    \<and> (\<forall>e d'. r = Err (e, d') \<longrightarrow> d' = d)
    \<and> (\<forall>s. r = Ok s \<longrightarrow> rollback_batch s = Some d \<and> dag_inv L (snd (commit_batch s))
         \<and> map hi_header (fst (commit_batch s)) = headers)"
proof -
  obtain r where r: "stage_batch_contextual L headers now d = Some r" and
    c: "case r of Inl (e, d') \<Rightarrow> d' = d
       | Inr s \<Rightarrow> batch_inv L d s \<and> map hi_header (sb_accepted s) = headers"
    using stage_batch_inv [OF assms, of headers now] by auto
  with rollback_restores [OF assms(1)] show ?thesis
    by (intro exI [of _ r]) (auto simp: commit_batch_def batch_inv_def)
qed

text \<open>
  C33. Leaf eviction never touches what validation needs: a staged plan removes exactly
  the listed headers, none of them active or pinned, and the DAG that is left keeps
  its invariant, so every retained header still has its ancestors; dropping the plan,
  or a plan that fails, restores every header.
\<close>
theorem leaf_eviction_safe:
  assumes "dag_inv L d"
  shows "case stage_leaf_evictions hashes pinned limit d of
      Inl (e, d') \<Rightarrow> dag_inv L d' \<and> dag_headers d' = dag_headers d
        \<and> dag_active_chain d' = dag_active_chain d
    | Inr st \<Rightarrow> dag_inv L (se_dag st) \<and> dag_inv L (drop_eviction st)
        \<and> dag_headers (drop_eviction st) = dag_headers d
        \<and> dag_active_chain (drop_eviction st) = dag_active_chain d
        \<and> dag_active_chain (se_dag st) = dag_active_chain d
        \<and> dag_headers (se_dag st) = fold fmdrop hashes (dag_headers d)
        \<and> length hashes \<le> limit
        \<and> (\<forall>h \<in> set hashes. h \<notin> set (dag_active_chain d) \<and> h \<notin> set pinned)"
  using stage_leaf_evictions_inv [OF assms, where hashes = hashes and pinned = pinned and limit = limit] with_index_inv [OF assms] assms
  by (auto simp: with_index_def split: sum.splits prod.splits)

section \<open>A concrete DAG\<close>

text \<open>Genesis has hash 1; of the headers 2, 3 and 4, the first two are children of genesis.\<close>

definition sample_header :: "hash256 \<Rightarrow> u32 \<Rightarrow> u32 \<Rightarrow> header" where
  "sample_header prev time nonce =
     \<lparr>h_version = 4, prev_blockhash = prev, merkle_root = 0, h_time = time, h_bits = 5, h_nonce = nonce\<rparr>"

definition sample_dag :: header_dag where
  "sample_dag = with_deployments sample_lib (for_network Regtest)"

definition sample_headers :: "header list" where
  "sample_headers = [sample_header 1 1001 1, sample_header 1 1001 2, sample_header 3 1002 3]"

definition sample_staged :: staged_batch where
  "sample_staged = (case stage_batch_contextual sample_lib sample_headers 5000 sample_dag of
     Some (Inr s) \<Rightarrow> s
   | _ \<Rightarrow> \<lparr>sb_dag = sample_dag, sb_accepted = [], sb_inserted = [], sb_original_active_tip = 0,
          sb_original_active_len = 0, sb_rebuilt_active_chain = False\<rparr>)"

lemma sample_params_ok: "params_ok sample_lib sample_dag"
  by (simp add: params_ok_def sample_dag_def with_deployments_def Let_def core_params_def
      for_network_def interval_u32_def doubled_spacing_def sample_lib_def)

lemma sample_dag_inv: "dag_inv sample_lib sample_dag"
  unfolding sample_dag_def by (rule with_deployments_inv)

lemma sample_run:
  "dag_active_chain (sb_dag sample_staged) = [1, 3, 4] \<and> sb_rebuilt_active_chain sample_staged
   \<and> map hi_hash (sb_accepted sample_staged) = [2, 3, 4]"
  by code_simp


lemma sample_staged_run:
  "stage_batch_contextual sample_lib sample_headers 5000 sample_dag = Some (Ok sample_staged)"
proof -
  have "sb_inserted sample_staged \<noteq> []" by code_simp
  then show ?thesis by (auto simp: sample_staged_def split: option.splits sum.splits)
qed

lemma sample_forked_reachable:
  "dag_reachable sample_lib (for_network Regtest) (snd (commit_batch sample_staged))"
proof (rule dag_committed [OF _ sample_staged_run])
  show "dag_reachable sample_lib (for_network Regtest) sample_dag" unfolding sample_dag_def by (rule dag_start)
qed

text \<open>The witnesses of the four properties, on the batch that reorganises the sample DAG.\<close>

theorem header_dag_reachable_inv_witness:
  "dag_reachable sample_lib (for_network Regtest) (sb_dag sample_staged)
   \<and> dag_active_chain (sb_dag sample_staged) = [1, 3, 4]
   \<and> (\<exists>t. active_tip (sb_dag sample_staged) = Some t
        \<and> (\<forall>h i. dag_get (sb_dag sample_staged) h = Some i \<longrightarrow> hi_chainwork i \<le> hi_chainwork t))"
  using header_dag_reachable_inv [OF sample_params_ok [unfolded sample_dag_def] sample_forked_reachable]
    sample_forked_reachable sample_run by (simp add: commit_batch_def)

theorem insert_contextual_correct_witness:
  "\<exists>r. insert_contextual sample_lib (sample_header 1 1001 1) 5000 sample_dag = Some (Ok r)
     \<and> dag_inv sample_lib (snd r) \<and> dag_active_tip (snd r) = 2"
proof -
  have tip: "(case insert_contextual sample_lib (sample_header 1 1001 1) 5000 sample_dag of
      Some (Inr (i, d)) \<Rightarrow> dag_active_tip d = 2 | _ \<Rightarrow> False)" by code_simp
  then obtain i d where run: "insert_contextual sample_lib (sample_header 1 1001 1) 5000 sample_dag = Some (Ok (i, d))"
    "dag_active_tip d = 2" by (auto split: option.splits sum.splits)
  from insert_contextual_correct [OF sample_dag_inv sample_params_ok, of "sample_header 1 1001 1" 5000] run
  show ?thesis by auto
qed

theorem staged_batch_atomic_witness:
  "stage_batch_contextual sample_lib sample_headers 5000 sample_dag = Some (Ok sample_staged)
   \<and> sb_rebuilt_active_chain sample_staged \<and> rollback_batch sample_staged = Some sample_dag"
  using staged_batch_atomic [OF sample_dag_inv sample_params_ok, of sample_headers 5000]
    sample_staged_run sample_run by auto

theorem leaf_eviction_safe_witness:
  "\<not> isl (stage_leaf_evictions [2] [4] 3 (sb_dag sample_staged))
   \<and> dag_inv sample_lib (se_dag (projr (stage_leaf_evictions [2] [4] 3 (sb_dag sample_staged))))
   \<and> isl (stage_leaf_evictions [3] [] 3 (sb_dag sample_staged))"
proof -
  have v: "dag_inv sample_lib (sb_dag sample_staged)"
    using dag_reachable_inv [OF sample_params_ok [unfolded sample_dag_def] sample_forked_reachable]
    by (simp add: commit_batch_def)
  have r: "\<not> isl (stage_leaf_evictions [2] [4] 3 (sb_dag sample_staged))" by code_simp
  have "isl (stage_leaf_evictions [3] [] 3 (sb_dag sample_staged))" by code_simp
  with r leaf_eviction_safe [OF v, where hashes = "[2]" and pinned = "[4]" and limit = 3] show ?thesis
    by (auto split: sum.splits)
qed

section \<open>Locators\<close>

lemma active_header_at_chain:
  assumes "dag_graph L d" "unat h < length (dag_active_chain d)"
  obtains i where "active_header_at d h = Some i" "hi_hash i = dag_active_chain d ! unat h" "hi_height i = h"
proof -
  obtain i where i: "fmlookup (dag_headers d) (dag_active_chain d ! unat h) = Some i" "unat (hi_height i) = unat h"
    using linkedD [OF graph_linked [OF assms(1)] assms(2)] by metis
  then have "hi_hash i = dag_active_chain d ! unat h" using graph_hash [OF assms(1)] by simp
  with i assms(2) that [of i] show thesis by (simp add: active_header_at_def nth_opt_def word_unat_eq_iff)
qed

lemma unat_sat_double: "step \<noteq> 0 \<Longrightarrow> saturating_mul step 2 \<noteq> 0" for step :: u32
proof
  assume "step \<noteq> 0" "saturating_mul step 2 = 0"
  then have "0 < unat step" "unat (saturating_mul step 2) = 0" by (simp_all add: unat_gt_0)
  then show False unfolding unat_saturating_mul by simp
qed

lemma locator_loop_total:
  assumes g: "dag_graph L d" and "unat h < length (dag_active_chain d)" "step \<noteq> 0"
  shows "\<exists>idx. locator_loop d h step loc = Some (loc @ map (\<lambda>i. dag_active_chain d ! i) idx)
    \<and> idx \<noteq> [] \<and> hd idx = unat h \<and> last idx = 0 \<and> sorted_wrt (>) idx"
  using assms(2,3)
proof (induction "unat h" arbitrary: h step loc rule: less_induct)
  case less
  let ?c = "dag_active_chain d"
  obtain i where i: "active_header_at d h = Some i" "hi_hash i = ?c ! unat h"
    using active_header_at_chain [OF g less.prems(1)] by metis
  show ?case
  proof (cases "h = 0")
    case True
    with i show ?thesis by (intro exI [of _ "[0]"]) (simp add: locator_loop.simps Let_def)
  next
    case False
    let ?h = "saturating_sub h step" and ?loc = "loc @ [?c ! unat h]"
    let ?step = "if 10 < length ?loc then saturating_mul step 2 else step"
    have lt: "unat ?h < unat h"
      using False less.prems(2) by (simp add: unat_saturating_sub unat_gt_0)
    have "?step \<noteq> 0" using less.prems(2) unat_sat_double by simp
    with less.hyps [OF lt _ this, of ?loc] lt less.prems(1) obtain idx where
      idx: "locator_loop d ?h ?step ?loc = Some (?loc @ map (\<lambda>i. ?c ! i) idx)"
        "idx \<noteq> []" "hd idx = unat ?h" "last idx = 0" "sorted_wrt (>) idx" by auto
    have "\<forall>j \<in> set idx. j < unat h"
      using idx(2,3,5) lt by (cases idx) auto
    with idx i False show ?thesis
      by (intro exI [of _ "unat h # idx"]) (simp add: locator_loop.simps [of d h] Let_def)
  qed
qed

lemma locator_doubling_length:
  assumes "locator_loop d h step loc = Some r" "10 \<le> length loc" "k \<le> 31"
    "unat h \<le> 2 ^ 32 - 2 ^ k" "unat step = 2 ^ k"
  shows "length r \<le> length loc + 33 - k"
  using assms
proof (induction "31 - k" arbitrary: k h step loc)
  case 0
  then have k: "k = 31" by simp
  show ?case
  proof (cases "h = 0")
    case True
    with 0 show ?thesis by (auto simp: locator_loop.simps Let_def split: option.splits)
  next
    case False
    have "saturating_sub h step = 0"
      using 0 k by (simp add: word_unat_eq_iff unat_saturating_sub)
    with 0 False k show ?thesis
      by (auto simp: locator_loop.simps [of d h] locator_loop.simps [of d 0] Let_def split: option.splits if_splits)
  qed
next
  case (Suc n)
  show ?case
  proof (cases "h = 0")
    case True
    with Suc.prems show ?thesis by (auto simp: locator_loop.simps Let_def split: option.splits)
  next
    case False
    from Suc.hyps(2) have k: "k < 31" "n = 31 - Suc k" by auto
    from Suc.prems False obtain i :: header_info where
      r: "locator_loop d (saturating_sub h step) (saturating_mul step 2) (loc @ [hi_hash i]) = Some r"
      by (auto simp: locator_loop.simps [of d h] Let_def split: option.splits)
    have pow: "(2::nat) ^ Suc k \<le> 2 ^ 31" by (rule power_increasing) (use k in auto)
    then have "unat (saturating_mul step 2) = 2 ^ Suc k"
      using Suc.prems(5) by (simp add: unat_saturating_mul min_def)
    moreover have "unat (saturating_sub h step) \<le> 2 ^ 32 - 2 ^ Suc k"
      using Suc.prems(4,5) by (simp add: unat_saturating_sub)
    ultimately show ?thesis using Suc.hyps(1) [OF k(2) r] k Suc.prems(2) by simp
  qed
qed

lemma locator_length:
  assumes "locator_loop d h 1 loc = Some r" "length loc \<le> 10"
  shows "length r \<le> 43"
  using assms
proof (induction "10 - length loc" arbitrary: h loc)
  case 0
  have "unat h \<le> 2 ^ 32 - 2 ^ 0" using unsigned_less [of h, where ?'a = nat] by simp
  from locator_doubling_length [OF 0(2) _ _ this] 0 show ?case by simp
next
  case (Suc n)
  show ?case
  proof (cases "h = 0")
    case True
    with Suc show ?thesis by (auto simp: locator_loop.simps Let_def split: option.splits)
  next
    case False
    with Suc.hyps(2) Suc.prems(1) obtain i :: header_info where
      "locator_loop d (saturating_sub h 1) 1 (loc @ [hi_hash i]) = Some r"
      by (auto simp: locator_loop.simps [of d h] Let_def split: option.splits if_splits)
    from Suc.hyps(1) [OF _ this] Suc.hyps(2) show ?thesis by simp
  qed
qed

text \<open>
  C34. A block locator can always be built on a well-formed DAG: it lists hashes of the
  active chain by strictly decreasing height, from the tip down to genesis, and has at
  most 43 entries whatever the height.
\<close>
theorem block_locator_correct:
  assumes "dag_inv L d"
  shows "\<exists>idx. block_locator d = Some (map (\<lambda>i. dag_active_chain d ! i) idx)
    \<and> sorted_wrt (>) idx \<and> idx \<noteq> [] \<and> dag_active_chain d ! hd idx = dag_active_tip d \<and> last idx = 0
    \<and> length idx \<le> 43"
proof -
  have g: "dag_graph L d" using assms by (simp add: dag_inv_def)
  have ne: "dag_active_chain d \<noteq> []" using linked_nonempty [OF graph_linked [OF g]] .
  obtain t where t: "active_tip d = Some t" "unat (hi_height t) = length (dag_active_chain d) - 1"
    using graph_tip [OF g] by metis
  then have "unat (hi_height t) < length (dag_active_chain d)" using ne by (simp add: Suc_le_lessD)
  from locator_loop_total [OF g this, of 1 "[]"] obtain idx where
    idx: "locator_loop d (hi_height t) 1 [] = Some (map (\<lambda>i. dag_active_chain d ! i) idx)"
      "idx \<noteq> []" "hd idx = unat (hi_height t)" "last idx = 0" "sorted_wrt (>) idx" by auto
  moreover have "dag_active_chain d ! hd idx = dag_active_tip d"
    using idx(3) t(2) ne g by (simp add: dag_graph_def last_conv_nth)
  moreover have "length idx \<le> 43" using locator_length [OF idx(1)] by simp
  ultimately show ?thesis using t(1) by (auto simp: block_locator_def)
qed

theorem block_locator_correct_witness:
  "dag_inv sample_lib sample_dag \<and> block_locator sample_dag = Some [1]"
proof -
  have "dag_active_chain sample_dag = [1]" by code_simp
  moreover have "idx = [0]" if "idx \<noteq> []" "sorted_wrt (>) idx" "[1::hash256] ! hd idx = 1" "last idx = (0::nat)"
      "map (\<lambda>i. [1::hash256] ! i) idx = [1]" for idx
    using that by (cases idx) auto
  moreover have "map_option length (block_locator sample_dag) = Some 1" by code_simp
  ultimately show ?thesis
    using block_locator_correct [OF sample_dag_inv] sample_dag_inv
    by (auto simp: length_Suc_conv)
qed

section \<open>Serving projections\<close>

lemma collect_headers_total:
  assumes "\<And>h. h \<in> set xs \<Longrightarrow> fmlookup hs h \<noteq> None"
  shows "\<exists>m. collect_headers hs xs acc = Some m
    \<and> (\<forall>h. fmlookup m h = (if h \<in> set xs then fmlookup hs h else fmlookup acc h))"
  using assms
proof (induction xs arbitrary: acc)
  case (Cons x xs)
  obtain i where i: "fmlookup hs x = Some i" using Cons.prems [of x] by auto
  from Cons.IH [of "fmupd x i acc"] Cons.prems obtain m where
    "collect_headers hs xs (fmupd x i acc) = Some m"
    "\<forall>h. fmlookup m h = (if h \<in> set xs then fmlookup hs h else fmlookup (fmupd x i acc) h)" by auto
  with i show ?case by auto
qed simp

lemma linked_known: "linked hs xs \<Longrightarrow> h \<in> set xs \<Longrightarrow> fmlookup hs h \<noteq> None"
  by (metis in_set_conv_nth linkedD option.distinct(1))

text \<open>A DAG restricted to its active chain.\<close>

definition projects :: "header_dag \<Rightarrow> header_dag \<Rightarrow> bool" where
  "projects d s \<longleftrightarrow> dag_params s = dag_params d \<and> dag_deployments s = dag_deployments d
     \<and> dag_child_counts s = None \<and> dag_active_tip s = dag_active_tip d
     \<and> dag_active_chain s = dag_active_chain d
     \<and> (\<forall>h. fmlookup (dag_headers s) h =
          (if h \<in> set (dag_active_chain d) then fmlookup (dag_headers d) h else None))"

lemma projects_unique: "projects d s \<Longrightarrow> projects d s' \<Longrightarrow> s = s'"
  unfolding projects_def by (intro header_dag.equality fmap_ext) auto

lemma snapshot_projects:
  assumes "linked (dag_headers d) (dag_active_chain d)"
  shows "\<exists>s. active_chain_snapshot d = Some s \<and> projects d s"
  using collect_headers_total [of "dag_active_chain d" "dag_headers d" fmempty] linked_known [OF assms]
  by (fastforce simp: active_chain_snapshot_def projects_def)

lemma shared_len_loop_le: "shared_len_loop a b n \<le> n"
  by (induction n) auto

lemma shared_len_loop_eq: "0 < shared_len_loop a b n \<Longrightarrow>
    a ! (shared_len_loop a b n - 1) = b ! (shared_len_loop a b n - 1)"
  by (induction n) auto

lemma fmlookup_fold_drop: "fmlookup (fold fmdrop xs m) h = (if h \<in> set xs then None else fmlookup m h)"
  by (induction xs arbitrary: m) auto

definition agree :: "header_dag \<Rightarrow> header_dag \<Rightarrow> bool" where
  "agree a b \<longleftrightarrow> (\<forall>h i j. dag_get a h = Some i \<longrightarrow> dag_get b h = Some j \<longrightarrow> i = j)"

text \<open>Chains of agreeing DAGs that meet at a position are equal up to it.\<close>

lemma shared_prefix:
  assumes la: "linked (dag_headers a) xs" and lb: "linked (dag_headers b) ys" and ag: "agree a b"
    and n: "n < length xs" "n < length ys" "xs ! n = ys ! n"
  shows "take (Suc n) xs = take (Suc n) ys"
proof (rule linked_unique)
  let ?m = "dag_headers a ++\<^sub>f dag_headers b"
  have "fmlookup ?m h = Some i" if "fmlookup (dag_headers a) h = Some i" for h i
  proof (cases "fmlookup (dag_headers b) h")
    case None
    then show ?thesis using that by (simp add: fmdom_notI)
  next
    case (Some j)
    then have "i = j" using ag that unfolding agree_def dag_get_def by blast
    with Some show ?thesis by (simp add: fmdomI)
  qed
  then show "linked ?m (take (Suc n) xs)" using linked_mono [OF linked_take [OF la]] by blast
  have "fmlookup ?m h = Some i" if "fmlookup (dag_headers b) h = Some i" for h i
    using that by (simp add: fmdomI)
  then show "linked ?m (take (Suc n) ys)" using linked_mono [OF linked_take [OF lb]] by blast
  show "last (take (Suc n) xs) = last (take (Suc n) ys)"
    using n by (simp add: take_Suc_conv_app_nth)
qed

lemma refresh_projects:
  assumes l: "linked (dag_headers d) (dag_active_chain d)"
    and l0: "linked (dag_headers d0) (dag_active_chain d0)"
    and s: "projects d0 s" and ag: "agree d0 d"
  shows "\<exists>s'. refresh_active_chain_snapshot d s = Some s' \<and> projects d s'"
proof (cases "fcard (fmdom (dag_headers s)) \<noteq> length (dag_active_chain s)
    \<or> nth_opt (dag_active_chain s) 0 \<noteq> nth_opt (dag_active_chain d) 0")
  case True
  then show ?thesis using snapshot_projects [OF l] by (simp add: refresh_active_chain_snapshot_def)
next
  case False
  let ?a = "dag_active_chain s" and ?b = "dag_active_chain d"
  let ?n = "shared_len_loop ?a ?b (min (length ?a) (length ?b))"
  have a: "?a = dag_active_chain d0" using s by (simp add: projects_def)
  have le: "?n \<le> length ?a" "?n \<le> length ?b"
    using shared_len_loop_le [of ?a ?b "min (length ?a) (length ?b)"] by auto
  have pre: "take ?n ?a = take ?n ?b"
  proof (cases "?n = 0")
    case False
    then have "?a ! (?n - 1) = ?b ! (?n - 1)" "Suc (?n - 1) = ?n"
      using shared_len_loop_eq [of ?a ?b "min (length ?a) (length ?b)"] by auto
    with shared_prefix [OF l0 l ag, of "?n - 1"] le False a show ?thesis by simp
  qed simp
  obtain m where m: "collect_headers (dag_headers d) (drop ?n ?b) (fold fmdrop (drop ?n ?a) (dag_headers s)) = Some m"
    "\<And>h. fmlookup m h = (if h \<in> set (drop ?n ?b) then fmlookup (dag_headers d) h
       else fmlookup (fold fmdrop (drop ?n ?a) (dag_headers s)) h)"
    using collect_headers_total [of "drop ?n ?b" "dag_headers d"] linked_known [OF l]
    by (meson in_set_dropD)
  have chain: "take ?n ?a @ drop ?n ?b = ?b" using pre by simp
  have "fmlookup m h = (if h \<in> set ?b then fmlookup (dag_headers d) h else None)" for h
  proof -
    have "h \<in> set ?b \<longleftrightarrow> h \<in> set (take ?n ?a) \<or> h \<in> set (drop ?n ?b)"
      by (metis chain set_append Un_iff)
    moreover have "h \<in> set ?a \<longleftrightarrow> h \<in> set (take ?n ?a) \<or> h \<in> set (drop ?n ?a)"
      by (metis append_take_drop_id set_append Un_iff)
    moreover have "h \<in> set (take ?n ?a) \<Longrightarrow> h \<notin> set (drop ?n ?a)"
      using linked_distinct [OF l0] a by (metis append_take_drop_id disjoint_iff distinct_append)
    moreover have "fmlookup (dag_headers s) h = (if h \<in> set ?a then fmlookup (dag_headers d0) h else None)"
      using s by (simp add: projects_def)
    moreover have "fmlookup (dag_headers d0) h = fmlookup (dag_headers d) h" if "h \<in> set ?a" "h \<in> set ?b"
      using linked_known [OF l that(2)] linked_known [OF l0] that(1) a ag by (fastforce simp: agree_def dag_get_def)
    ultimately show ?thesis by (auto simp: m(2) fmlookup_fold_drop)
  qed
  with m(1) chain False show ?thesis
    by (auto simp: refresh_active_chain_snapshot_def projects_def Let_def)
qed

text \<open>
  C35. Refreshing a serving projection in place gives exactly the projection that
  would be built from scratch: whatever prefix the old and the new active chain
  share, the refreshed headers, chain, tip and parameters are those of the new DAG
  restricted to its active chain, and every height is answered as the DAG answers it.
\<close>
theorem refresh_snapshot_equivalent:
  assumes "dag_inv L d0" "dag_inv L d" "agree d0 d" "active_chain_snapshot d0 = Some s"
  shows "refresh_active_chain_snapshot d s = active_chain_snapshot d
    \<and> (\<exists>s'. active_chain_snapshot d = Some s' \<and> (\<forall>n. active_header_at s' n = active_header_at d n))"
proof -
  have l: "linked (dag_headers d) (dag_active_chain d)" and l0: "linked (dag_headers d0) (dag_active_chain d0)"
    using assms(1,2) by (simp_all add: dag_inv_def dag_graph_def)
  have "projects d0 s" using snapshot_projects [OF l0] assms(4) by simp
  from refresh_projects [OF l l0 this assms(3)] snapshot_projects [OF l] projects_unique
  obtain s' where s': "refresh_active_chain_snapshot d s = Some s'" "active_chain_snapshot d = Some s'"
    "projects d s'" by metis
  have "active_header_at s' n = active_header_at d n" for n
    using s'(3) by (simp add: active_header_at_def nth_opt_def projects_def split: bind_splits)
  with s' show ?thesis by simp
qed

lemma batch_agree: "batch_inv L d0 s \<Longrightarrow> agree d0 (sb_dag s)"
  by (auto simp: batch_inv_def agree_def dag_get_def)

theorem refresh_snapshot_equivalent_witness:
  "\<exists>s. active_chain_snapshot sample_dag = Some s
     \<and> refresh_active_chain_snapshot (sb_dag sample_staged) s = active_chain_snapshot (sb_dag sample_staged)
     \<and> agree sample_dag (sb_dag sample_staged)"
proof -
  have b: "batch_inv sample_lib sample_dag sample_staged"
    using stage_batch_inv [OF sample_dag_inv sample_params_ok, of sample_headers 5000] sample_staged_run by simp
  have v: "dag_inv sample_lib (sb_dag sample_staged)" using b by (simp add: batch_inv_def)
  have "linked (dag_headers sample_dag) (dag_active_chain sample_dag)"
    using sample_dag_inv by (simp add: dag_inv_def dag_graph_def)
  from snapshot_projects [OF this] obtain s where s: "active_chain_snapshot sample_dag = Some s" by auto
  from refresh_snapshot_equivalent [OF sample_dag_inv v batch_agree [OF b] s] s batch_agree [OF b]
  show ?thesis by blast
qed

end
