(* ===== verification/Deployments.thy ===== *)
theory Deployments
  imports Headers_Properties
begin

text \<open>
  The version-bits state machine of \<open>src/src/deployments.rs\<close>: the state a candidate
  height sees, computed from genesis (\<open>threshold_state\<close>) and through the per-period
  cache the node uses (\<open>threshold_state_cached\<close>), and the block flags and template
  versions derived from a header DAG. \<open>None\<close> is a panic.
\<close>

definition signals_taproot :: "i32 \<Rightarrow> bool" where
  "signals_taproot version \<longleftrightarrow>
     version AND version_bits_top_mask = version_bits_top_bits \<and> version AND push_bit taproot_bit 1 \<noteq> 0"

definition signal_count :: "header_dag \<Rightarrow> u32 \<Rightarrow> u32 \<Rightarrow> nat" where
  "signal_count d period_start period_end =
     length (filter (\<lambda>info. signals_taproot (h_version (hi_header info)))
       (List.map_filter (\<lambda>n. active_header_at d (word_of_nat n)) [unat period_start ..< Suc (unat period_end)]))"

fun threshold_transition ::
  "version_bits_params \<Rightarrow> u32 \<Rightarrow> u32 \<Rightarrow> nat \<Rightarrow> threshold_state \<Rightarrow> threshold_state" where
  "threshold_transition params period_end period_mtp signals Defined =
     (if sint (start_time params) \<le> int (unat period_mtp) then Started else Defined)"
| "threshold_transition params period_end period_mtp signals Started =
     (if unat (threshold params) \<le> signals then LockedIn
      else if sint (timeout params) \<le> int (unat period_mtp) then Failed else Started)"
| "threshold_transition params period_end period_mtp signals LockedIn =
     (if sint (min_activation_height params) \<le> int (unat (saturating_add period_end 1)) then Active else LockedIn)"
| "threshold_transition params period_end period_mtp signals Active = Active"
| "threshold_transition params period_end period_mtp signals Failed = Failed"

definition next_threshold_state ::
  "header_dag \<Rightarrow> u32 \<Rightarrow> version_bits_params \<Rightarrow> threshold_state \<Rightarrow> threshold_state option" where
  "next_threshold_state d period_end params state =
     Option.bind (active_header_at d period_end) (\<lambda>header.
     Option.bind (median_time_past d (hi_hash header)) (\<lambda>period_mtp.
       Some (threshold_transition params period_end period_mtp
         (signal_count d (period_end + 1 - period params) period_end) state)))"

text \<open>\<open>period_index.checked_mul(period).and_then(|h| h.checked_sub(1))\<close>.\<close>

definition period_end_of :: "u32 \<Rightarrow> nat \<Rightarrow> u32 option" where
  "period_end_of p index = Option.bind (checked_mul (word_of_nat index) p) (\<lambda>h. checked_sub h 1)"

fun threshold_loop ::
  "header_dag \<Rightarrow> u32 \<Rightarrow> version_bits_params \<Rightarrow> nat list \<Rightarrow> threshold_state \<Rightarrow> threshold_state option" where
  "threshold_loop d parent_height params [] state = Some state"
| "threshold_loop d parent_height params (index # indices) state =
     Option.bind (period_end_of (period params) index) (\<lambda>period_end.
       if parent_height < period_end then Some state
       else if active_header_at d period_end = None then Some Defined
       else Option.bind (next_threshold_state d period_end params state)
              (threshold_loop d parent_height params indices))"

definition threshold_state_at :: "header_dag \<Rightarrow> u32 \<Rightarrow> version_bits_params \<Rightarrow> threshold_state option" where
  "threshold_state_at d candidate_height params =
     (case checked_sub candidate_height 1 of
        None \<Rightarrow> Some Defined
      | Some parent_height \<Rightarrow>
          if period params = 0 then None
          else let completed = unat candidate_height div unat (period params)
               in if completed = 0 then Some Defined
                  else threshold_loop d parent_height params [1 ..< Suc completed] Defined)"

section \<open>The cached computation\<close>

type_synonym state_cache = "(hash256, threshold_state) fmap"

text \<open>The backward walk: the state to return at once, or the state to start from and the periods to replay.\<close>

fun cache_walk ::
  "header_dag \<Rightarrow> u32 \<Rightarrow> version_bits_params \<Rightarrow> state_cache \<Rightarrow> nat list \<Rightarrow> (u32 \<times> hash256) list
     \<Rightarrow> (threshold_state + threshold_state \<times> (u32 \<times> hash256) list) option" where
  "cache_walk d parent_height params cache [] pending_periods = Some (Inr (Defined, pending_periods))"
| "cache_walk d parent_height params cache (index # indices) pending_periods =
     Option.bind (period_end_of (period params) index) (\<lambda>period_end.
       if parent_height < period_end then cache_walk d parent_height params cache indices pending_periods
       else case active_header_at d period_end of
              None \<Rightarrow> Some (Inl Defined)
            | Some header \<Rightarrow>
                (case fmlookup cache (hi_hash header) of
                   Some cached \<Rightarrow> Some (Inr (cached, pending_periods))
                 | None \<Rightarrow> cache_walk d parent_height params cache indices
                             (pending_periods @ [(period_end, hi_hash header)])))"

fun cache_replay ::
  "header_dag \<Rightarrow> version_bits_params \<Rightarrow> (u32 \<times> hash256) list \<Rightarrow> threshold_state \<Rightarrow> state_cache
     \<Rightarrow> (threshold_state \<times> state_cache) option" where
  "cache_replay d params [] state cache = Some (state, cache)"
| "cache_replay d params ((period_end, hash) # rest) state cache =
     Option.bind (next_threshold_state d period_end params state) (\<lambda>state'.
       cache_replay d params rest state' (fmupd hash state' cache))"

definition threshold_state_cached ::
  "header_dag \<Rightarrow> u32 \<Rightarrow> version_bits_params \<Rightarrow> state_cache \<Rightarrow> (threshold_state \<times> state_cache) option" where
  "threshold_state_cached d candidate_height params cache =
     (case checked_sub candidate_height 1 of
        None \<Rightarrow> Some (Defined, cache)
      | Some parent_height \<Rightarrow>
          if period params = 0 then None
          else let completed = unat candidate_height div unat (period params)
               in if completed = 0 then Some (Defined, cache)
                  else Option.bind (cache_walk d parent_height params cache (rev [1 ..< Suc completed]) [])
                    (\<lambda>walk. case walk of
                       Inl state \<Rightarrow> Some (state, cache)
                     | Inr (state, pending_periods) \<Rightarrow>
                         cache_replay d params (rev pending_periods) state cache))"

definition taproot_active ::
  "header_dag \<Rightarrow> u32 \<Rightarrow> deployment_config \<Rightarrow> (deployment_config_error + bool \<times> deployment_config) option" where
  "taproot_active d candidate_height config =
     (if dag_network d \<noteq> dc_network config then Some (Err Config_NetworkMismatch)
      else if start_time (dc_taproot config) = always_active then Some (Ok (True, config))
      else if start_time (dc_taproot config) = never_active then Some (Ok (False, config))
      else Option.bind (threshold_state_cached d candidate_height (dc_taproot config) (dc_taproot_state_cache config))
        (\<lambda>(state, cache). Some (Ok (state = Active, config\<lparr>dc_taproot_state_cache := cache\<rparr>))))"

section \<open>Templates and block flags\<close>

record template_deployment =
  td_name :: string
  td_bit :: nat
  td_signalling :: bool
  td_required :: bool

record template_version_bits =
  tv_version :: i32
  tv_deployments :: "template_deployment list"

definition required_mask :: "template_version_bits \<Rightarrow> u32" where
  "required_mask tv =
     fold (\<lambda>deployment mask. mask OR push_bit (td_bit deployment) 1) (filter td_required (tv_deployments tv)) 0"

fun template_deployments :: "threshold_state \<Rightarrow> template_deployment list" where
  "template_deployments Started =
     [\<lparr>td_name = ''taproot'', td_bit = taproot_bit, td_signalling = True, td_required = False\<rparr>]"
| "template_deployments LockedIn =
     [\<lparr>td_name = ''taproot'', td_bit = taproot_bit, td_signalling = True, td_required = True\<rparr>]"
| "template_deployments _ = []"

text \<open>\<open>i32::try_from(signalled).unwrap_or(i32::MAX).max(minimum)\<close>.\<close>

definition template_version :: "u32 \<Rightarrow> i32 \<Rightarrow> i32" where
  "template_version signalled minimum =
     (let v = (if unat signalled < 2 ^ 31 then signalled else 0x7FFFFFFF)
      in if sint v < sint minimum then minimum else v)"

definition template_version_bits_of ::
  "header_dag \<Rightarrow> u32 \<Rightarrow> deployment_config
     \<Rightarrow> (deployment_config_error + template_version_bits \<times> deployment_config) option" where
  "template_version_bits_of d candidate_height config =
     (if dag_network d \<noteq> dc_network config then Some (Err Config_NetworkMismatch)
      else
      Option.bind
        (if start_time (dc_taproot config) \<noteq> always_active \<and> start_time (dc_taproot config) \<noteq> never_active
         then map_option (map_prod template_deployments id)
                (threshold_state_cached d candidate_height (dc_taproot config) (dc_taproot_state_cache config))
         else Some ([], dc_taproot_state_cache config))
        (\<lambda>(deployments, cache).
          let signalled = fold (\<lambda>deployment version. version OR push_bit (td_bit deployment) 1) deployments
                            version_bits_top_bits
          in Some (Ok (\<lparr>tv_version = template_version signalled (minimum_block_version config candidate_height),
                        tv_deployments = deployments\<rparr>,
                       config\<lparr>dc_taproot_state_cache := cache\<rparr>))))"

definition block_deployment_context_for_headers ::
  "deployment_config \<Rightarrow> header_dag \<Rightarrow> u32 \<Rightarrow> hash256 \<Rightarrow> (deployment_config_error + block_deployment_context) option" where
  "block_deployment_context_for_headers config d height hash =
     (if dag_network d \<noteq> dc_network config then Some (Err Config_NetworkMismatch)
      else
      let anchor_matches = (case bip34_anchor (dc_network config) of
                              None \<Rightarrow> False
                            | Some (anchor_height, anchor_hash) \<Rightarrow>
                                (case active_header_at d anchor_height of
                                   None \<Rightarrow> False | Some header \<Rightarrow> hi_hash header = anchor_hash))
      in expect (block_deployment_context_with_bip34_anchor config height hash anchor_matches))"

end
