(* ===== verification/Deployments_Properties.thy ===== *)
theory Deployments_Properties
  imports Deployments
begin

text \<open>
  The version-bits state machine: the loop from genesis computes one state per period,
  the cached computation agrees with it, and a deployment activates only by its rules. The rules of a
  block under its header chain follow the activation schedule.
\<close>

section \<open>The state after each period\<close>

text \<open>The specification: the state after the first \<open>k\<close> periods of the active chain.\<close>

fun period_state :: "header_dag \<Rightarrow> version_bits_params \<Rightarrow> nat \<Rightarrow> threshold_state option" where
  "period_state d params 0 = Some Defined"
| "period_state d params (Suc k) =
     Option.bind (period_state d params k)
       (next_threshold_state d (word_of_nat (Suc k * unat (period params) - 1)) params)"

lemma period_end_of_value:
  assumes "0 < k" "0 < unat p" "k * unat p < 2 ^ 32"
  shows "period_end_of p k = Some (word_of_nat (k * unat p - 1))"
    and "unat (word_of_nat (k * unat p - 1) :: u32) = k * unat p - 1"
proof -
  have "k \<le> k * unat p" using assms(2) by simp
  then have "k < 2 ^ 32" using assms(3) by (rule le_less_trans)
  then have k: "unat (word_of_nat k :: u32) = k" by (rule unat_word_of_nat_u32)
  have m: "unat (word_of_nat (k * unat p) :: u32) = k * unat p" by (rule unat_word_of_nat_u32 [OF assms(3)])
  have c: "checked_mul (word_of_nat k) p = Some (word_of_nat (k * unat p) :: u32)"
    unfolding checked_mul_Some using k m by simp
  have pos: "0 < k * unat p" using assms(1,2) by simp
  then have le: "(1 :: u32) \<le> word_of_nat (k * unat p)" using m by (simp add: word_le_nat_alt)
  show u: "unat (word_of_nat (k * unat p - 1) :: u32) = k * unat p - 1"
    using assms(3) by (intro unat_word_of_nat_u32) simp
  have "(word_of_nat (k * unat p) :: u32) - 1 = word_of_nat (k * unat p - 1)"
    using pos by (simp add: of_nat_diff)
  with c le show "period_end_of p k = Some (word_of_nat (k * unat p - 1))"
    by (simp add: period_end_of_def checked_sub_def)
qed

lemma active_header_present:
  assumes "dag_graph L d"
  shows "active_header_at d h = None \<longleftrightarrow> length (dag_active_chain d) \<le> unat h"
proof (cases "unat h < length (dag_active_chain d)")
  case True
  then show ?thesis using active_header_at_chain [OF assms True] by (metis not_less option.distinct(1))
qed (simp add: active_header_at_def nth_opt_def)

lemma next_threshold_state_total:
  assumes "dag_graph L d" "unat h < length (dag_active_chain d)"
  shows "\<exists>s. next_threshold_state d h params state = Some s"
proof -
  obtain i where i: "active_header_at d h = Some i" using active_header_at_chain [OF assms] by metis
  then obtain g where g: "fmlookup (dag_headers d) g = Some i"
    by (auto simp: active_header_at_def bind_eq_Some_conv)
  then have "fmlookup (dag_headers d) (hi_hash i) = Some i" using graph_hash [OF assms(1) g] by simp
  with i show ?thesis by (simp add: next_threshold_state_def median_time_past_def)
qed

lemma period_state_total:
  assumes "dag_graph L d" "k * unat (period params) \<le> length (dag_active_chain d)"
    "0 < unat (period params)" "k * unat (period params) < 2 ^ 32"
  shows "\<exists>s. period_state d params k = Some s"
  using assms(2,4)
proof (induction k)
  case (Suc k)
  then obtain s where s: "period_state d params k = Some s" by auto
  have "unat (word_of_nat (Suc k * unat (period params) - 1) :: u32) = Suc k * unat (period params) - 1"
    using Suc.prems(2) assms(3) by (intro period_end_of_value(2)) auto
  then have "unat (word_of_nat (Suc k * unat (period params) - 1) :: u32) < length (dag_active_chain d)"
    using Suc.prems(1) assms(3) by simp
  from next_threshold_state_total [OF assms(1) this] s show ?case by simp
qed simp

lemma upt_Suc_conv: "a < k \<Longrightarrow> [Suc a ..< Suc k] = Suc a # [Suc (Suc a) ..< Suc k]"
  by (simp add: upt_conv_Cons)

text \<open>The loop from genesis computes the specification.\<close>

lemma threshold_loop_spec:
  assumes g: "dag_graph L d" and p: "0 < unat (period params)"
    and "a \<le> k" "period_state d params a = Some s" "a * unat (period params) \<le> length (dag_active_chain d)"
    and k: "k * unat (period params) \<le> Suc (unat parent)" "k * unat (period params) < 2 ^ 32"
  shows "threshold_loop d parent params [Suc a ..< Suc k] s =
    (if k * unat (period params) \<le> length (dag_active_chain d) then period_state d params k else Some Defined)"
  using assms(3-5)
proof (induction "k - a" arbitrary: a s)
  case 0
  then have "a = k" by simp
  with 0 show ?case by simp
next
  case (Suc n)
  let ?P = "unat (period params)"
  define e :: u32 where "e = word_of_nat (Suc a * ?P - 1)"
  from Suc.hyps(2) have lt: "a < k" by simp
  then have le: "Suc a * ?P \<le> k * ?P" by (intro mult_right_mono) auto
  have e: "period_end_of (period params) (Suc a) = Some e" "unat e = Suc a * ?P - 1"
    using period_end_of_value [of "Suc a" "period params"] p le k(2) unfolding e_def by auto
  have in_range: "\<not> parent < e" using e(2) le k(1) by (simp add: word_less_nat_alt)
  show ?case
  proof (cases "Suc a * ?P \<le> length (dag_active_chain d)")
    case True
    then have present: "unat e < length (dag_active_chain d)" using e(2) p by simp
    obtain s' where s': "next_threshold_state d e params s = Some s'"
      using next_threshold_state_total [OF g present] by blast
    then have "period_state d params (Suc a) = Some s'" using Suc.prems(2) by (simp add: e_def)
    from Suc.hyps(1) [OF _ _ this True] Suc.hyps(2) lt
    have "threshold_loop d parent params [Suc (Suc a) ..< Suc k] s' =
      (if k * ?P \<le> length (dag_active_chain d) then period_state d params k else Some Defined)" by simp
    moreover have "active_header_at d e \<noteq> None" using active_header_present [OF g, of e] present by simp
    ultimately show ?thesis using e(1) s' in_range by (auto simp add: upt_Suc_conv [OF lt] simp del: upt_Suc)
  next
    case False
    then have "active_header_at d e = None" using active_header_present [OF g, of e] e(2) by simp
    moreover have "\<not> k * ?P \<le> length (dag_active_chain d)" using False le by simp
    ultimately show ?thesis using e(1) in_range by (simp add: upt_Suc_conv [OF lt] del: upt_Suc)
  qed
qed

lemma active_header_at_cong:
  assumes "take n (dag_active_chain d) = take n xs" "n \<le> length xs" "n \<le> length (dag_active_chain d)" "unat h < n"
  shows "active_header_at (d\<lparr>dag_active_chain := xs\<rparr>) h = active_header_at d h"
proof -
  have "xs ! unat h = dag_active_chain d ! unat h" using assms by (metis nth_take)
  with assms show ?thesis by (simp add: active_header_at_def nth_opt_def)
qed

lemma map_filter_cong: "(\<And>x. x \<in> set xs \<Longrightarrow> f x = g x) \<Longrightarrow> List.map_filter f xs = List.map_filter g xs"
  by (induction xs) (simp_all add: List.map_filter_simps split: option.splits)

lemma next_threshold_state_cong:
  assumes "take n (dag_active_chain d) = take n xs" "n \<le> length xs" "n \<le> length (dag_active_chain d)" "unat h < n"
  shows "next_threshold_state (d\<lparr>dag_active_chain := xs\<rparr>) h params s = next_threshold_state d h params s"
proof -
  let ?d = "d\<lparr>dag_active_chain := xs\<rparr>"
  have at: "active_header_at ?d (word_of_nat m) = active_header_at d (word_of_nat m)" if "m \<le> unat h" for m
  proof -
    have "m < 2 ^ 32" using that unsigned_less [of h, where ?'a = nat] by simp
    then have "unat (word_of_nat m :: u32) = m" by (rule unat_word_of_nat_u32)
    then show ?thesis using active_header_at_cong [OF assms(1-3)] that assms(4) by simp
  qed
  have "signal_count ?d st h = signal_count d st h" for st
    unfolding signal_count_def by (subst map_filter_cong [of _ _ "\<lambda>n. active_header_at d (word_of_nat n)"]) (use at active_header_at_cong [OF assms] in auto)
  moreover have "median_time_past ?d k = median_time_past d k" for k
  proof -
    have "ancestor_times ?d m i = ancestor_times d m i" for m i
      by (induction m arbitrary: i) (simp_all split: option.splits)
    then show ?thesis by (simp add: median_time_past_def)
  qed
  ultimately show ?thesis
    using active_header_at_cong [OF assms] by (simp add: next_threshold_state_def)
qed

lemma period_state_cong:
  assumes "take n (dag_active_chain d) = take n xs" "n \<le> length xs" "n \<le> length (dag_active_chain d)"
    "k * unat (period params) \<le> n" "0 < unat (period params)" "n < 2 ^ 32"
  shows "period_state (d\<lparr>dag_active_chain := xs\<rparr>) params k = period_state d params k"
  using assms(4)
proof (induction k)
  case (Suc k)
  define e :: u32 where "e = word_of_nat (Suc k * unat (period params) - 1)"
  have "unat e = Suc k * unat (period params) - 1"
    unfolding e_def using Suc.prems assms(5,6) by (intro period_end_of_value(2)) auto
  then have "unat e < n" using Suc.prems assms(5) by simp
  from next_threshold_state_cong [OF assms(1-3) this] have
    "next_threshold_state (d\<lparr>dag_active_chain := xs\<rparr>) e params = next_threshold_state d e params" by blast
  moreover have "period_state (d\<lparr>dag_active_chain := xs\<rparr>) params k = period_state d params k"
    using Suc by simp
  ultimately show ?case unfolding period_state.simps e_def by simp
qed simp

section \<open>The cache\<close>

text \<open>
  A cached state is right for every path of retained headers through its hash, not
  only for the active one, so entries survive a change of the active chain.
\<close>

definition cache_ok :: "header_dag \<Rightarrow> version_bits_params \<Rightarrow> state_cache \<Rightarrow> bool" where
  "cache_ok d params cache \<longleftrightarrow> (\<forall>h s xs k. fmlookup cache h = Some s \<longrightarrow> linked (dag_headers d) xs \<longrightarrow> 0 < k
     \<longrightarrow> k * unat (period params) \<le> length xs \<longrightarrow> k * unat (period params) < 2 ^ 32
     \<longrightarrow> xs ! (k * unat (period params) - 1) = h
     \<longrightarrow> period_state (d\<lparr>dag_active_chain := xs\<rparr>) params k = Some s)"

lemma linked_meet:
  assumes "linked hs xs" "linked hs ys" "i < length xs" "j < length ys" "xs ! i = ys ! j"
  shows "i = j \<and> take (Suc i) xs = take (Suc i) ys"
proof -
  have ij: "i = j"
    using linkedD [OF assms(1,3)] linkedD [OF assms(2,4)] assms(5) by (metis option.inject)
  have "last (take (Suc i) xs) = last (take (Suc i) ys)"
    using assms(3-5) ij by (simp add: take_Suc_conv_app_nth)
  from linked_unique [OF linked_take [OF assms(1)] linked_take [OF assms(2)] this] ij show ?thesis by simp
qed

lemma cache_ok_update:
  assumes l: "linked (dag_headers d) (dag_active_chain d)" and c: "cache_ok d params cache"
    and p: "0 < unat (period params)" and k: "0 < k"
    and le: "k * unat (period params) \<le> length (dag_active_chain d)" "k * unat (period params) < 2 ^ 32"
    and s: "period_state d params k = Some s"
  shows "cache_ok d params (fmupd (dag_active_chain d ! (k * unat (period params) - 1)) s cache)"
  unfolding cache_ok_def
proof (intro allI impI)
  let ?P = "unat (period params)" and ?c = "dag_active_chain d"
  fix h t xs j
  assume look: "fmlookup (fmupd (?c ! (k * ?P - 1)) s cache) h = Some t"
    and xs: "linked (dag_headers d) xs" "0 < j" "j * ?P \<le> length xs" "j * ?P < 2 ^ 32" "xs ! (j * ?P - 1) = h"
  show "period_state (d\<lparr>dag_active_chain := xs\<rparr>) params j = Some t"
  proof (cases "h = ?c ! (k * ?P - 1)")
    case True
    have pos: "0 < k * ?P" "0 < j * ?P" using p k xs(2) by simp_all
    have meet: "j * ?P - 1 = k * ?P - 1 \<and> take (Suc (j * ?P - 1)) xs = take (Suc (j * ?P - 1)) ?c"
    proof (rule linked_meet [OF xs(1) l])
      show "j * ?P - 1 < length xs" "k * ?P - 1 < length ?c" using pos xs(3) le(1) by linarith+
      show "xs ! (j * ?P - 1) = ?c ! (k * ?P - 1)" using xs(5) True by simp
    qed
    then have "j * ?P = k * ?P" using pos by linarith
    then have "j = k" using p by simp
    moreover have "take (k * ?P) ?c = take (k * ?P) xs" using meet pos \<open>j * ?P = k * ?P\<close> by simp
    ultimately show ?thesis
      using period_state_cong [of "k * ?P" d xs k params] xs le p s look True by simp
  next
    case False
    with look c xs show ?thesis by (auto simp: cache_ok_def)
  qed
qed

lemma cache_ok_active:
  assumes "linked (dag_headers d) (dag_active_chain d)" "cache_ok d params cache" "0 < k"
    "k * unat (period params) \<le> length (dag_active_chain d)" "k * unat (period params) < 2 ^ 32"
    "fmlookup cache (dag_active_chain d ! (k * unat (period params) - 1)) = Some s"
  shows "period_state d params k = Some s"
proof -
  have "period_state (d\<lparr>dag_active_chain := dag_active_chain d\<rparr>) params k = Some s"
    using assms unfolding cache_ok_def by blast
  then show ?thesis by simp
qed

abbreviation period_entry :: "header_dag \<Rightarrow> version_bits_params \<Rightarrow> nat \<Rightarrow> u32 \<times> hash256" where
  "period_entry d params k \<equiv>
     (word_of_nat (k * unat (period params) - 1), dag_active_chain d ! (k * unat (period params) - 1))"

lemma cache_walk_spec:
  assumes g: "dag_graph L d" and p: "0 < unat (period params)" and c: "cache_ok d params cache"
    and "k * unat (period params) \<le> length (dag_active_chain d)"
    "k * unat (period params) \<le> Suc (unat parent)" "k * unat (period params) < 2 ^ 32"
  shows "\<exists>a s. a \<le> k \<and> period_state d params a = Some s \<and>
    cache_walk d parent params cache (rev [1 ..< Suc k]) pend =
      Some (Inr (s, pend @ map (period_entry d params) (rev [Suc a ..< Suc k])))"
  using assms(4-6)
proof (induction k arbitrary: pend)
  case 0
  then show ?case by simp
next
  case (Suc k)
  let ?P = "unat (period params)"
  define e :: u32 where "e = word_of_nat (Suc k * ?P - 1)"
  have e: "period_end_of (period params) (Suc k) = Some e" "unat e = Suc k * ?P - 1"
    using period_end_of_value [of "Suc k" "period params"] p Suc.prems(3) unfolding e_def by auto
  have in_range: "\<not> parent < e" using e(2) Suc.prems(2) by (simp add: word_less_nat_alt)
  have "unat e < length (dag_active_chain d)" using e(2) Suc.prems(1) p by simp
  from active_header_at_chain [OF g this] e(2) obtain i where
    i: "active_header_at d e = Some i" "hi_hash i = dag_active_chain d ! (Suc k * ?P - 1)" by metis
  have upt: "rev [1 ..< Suc (Suc k)] = Suc k # rev [1 ..< Suc k]" by simp
  show ?case
  proof (cases "fmlookup cache (hi_hash i)")
    case (Some s)
    have "period_state d params (Suc k) = Some s"
      using cache_ok_active [OF graph_linked [OF g] c, of "Suc k"] Suc.prems Some i(2) by simp
    moreover have "cache_walk d parent params cache (rev [1 ..< Suc (Suc k)]) pend = Some (Inr (s, pend))"
      unfolding upt using e(1) in_range i Some by simp
    ultimately show ?thesis by (intro exI [of _ "Suc k"] exI [of _ s]) simp
  next
    case None
    have le: "k * ?P \<le> Suc k * ?P" by simp
    from Suc.IH [of "pend @ [(e, hi_hash i)]"] Suc.prems le obtain a s where
      a: "a \<le> k" "period_state d params a = Some s"
        "cache_walk d parent params cache (rev [1 ..< Suc k]) (pend @ [(e, hi_hash i)]) =
          Some (Inr (s, (pend @ [(e, hi_hash i)]) @ map (period_entry d params) (rev [Suc a ..< Suc k])))"
      by (meson le_trans le_less_trans)
    have "cache_walk d parent params cache (rev [1 ..< Suc (Suc k)]) pend =
        Some (Inr (s, pend @ map (period_entry d params) (rev [Suc a ..< Suc (Suc k)])))"
      unfolding upt using e(1) in_range i None a by (simp add: e_def)
    with a show ?thesis by (intro exI [of _ a] exI [of _ s]) simp
  qed
qed

lemma cache_replay_spec:
  assumes g: "dag_graph L d" and p: "0 < unat (period params)"
    and k: "k * unat (period params) \<le> length (dag_active_chain d)" "k * unat (period params) < 2 ^ 32"
    and "a \<le> k" "period_state d params a = Some s" "cache_ok d params cache"
  shows "\<exists>t cache'. cache_replay d params (map (period_entry d params) [Suc a ..< Suc k]) s cache = Some (t, cache')
    \<and> period_state d params k = Some t \<and> cache_ok d params cache'"
  using assms(5-7)
proof (induction "k - a" arbitrary: a s cache)
  case 0
  then have "a = k" by simp
  with 0 show ?case by simp
next
  case (Suc n)
  let ?P = "unat (period params)"
  define e :: u32 where "e = word_of_nat (Suc a * ?P - 1)"
  from Suc.hyps(2) have lt: "a < k" by simp
  then have le: "Suc a * ?P \<le> k * ?P" by (intro mult_right_mono) auto
  have "unat e = Suc a * ?P - 1" unfolding e_def by (rule period_end_of_value(2)) (use p le k in auto)
  then have "unat e < length (dag_active_chain d)" using le k(1) p by simp
  from next_threshold_state_total [OF g this] obtain s' where s': "next_threshold_state d e params s = Some s'" by blast
  then have ps: "period_state d params (Suc a) = Some s'" using Suc.prems(2) by (simp add: e_def)
  have "cache_ok d params (fmupd (dag_active_chain d ! (Suc a * ?P - 1)) s' cache)"
    by (rule cache_ok_update [OF graph_linked [OF g] Suc.prems(3) p _ _ _ ps]) (use le k in auto)
  from Suc.hyps(1) [OF _ _ ps this] Suc.hyps(2) lt s' show ?case
    by (simp add: upt_Suc_conv [OF lt] e_def del: upt_Suc of_nat_diff)
qed

lemma completed_periods:
  fixes h parent :: u32
  assumes "checked_sub h 1 = Some parent" "period params \<noteq> 0"
  shows "unat h div unat (period params) * unat (period params) \<le> Suc (unat parent)"
    and "unat h div unat (period params) * unat (period params) < 2 ^ 32"
    and "0 < unat (period params)"
proof -
  have h: "unat h = Suc (unat parent)"
    using assms(1) by (auto simp: checked_sub_Some unat_sub word_le_nat_alt)
  have le: "unat h div unat (period params) * unat (period params) \<le> unat h" by simp
  then show "unat h div unat (period params) * unat (period params) \<le> Suc (unat parent)"
    unfolding h .
  show "unat h div unat (period params) * unat (period params) < 2 ^ 32"
    by (rule le_less_trans [OF le]) (use unsigned_less [of h, where ?'a = nat] in simp)
  show "0 < unat (period params)" using assms(2) by (simp add: unat_gt_0)
qed

text \<open>What a candidate height sees, in terms of the specification.\<close>

lemma threshold_state_spec:
  assumes g: "dag_graph L d" and p: "period params \<noteq> 0"
  shows "threshold_state_at d h params =
    (let k = unat h div unat (period params)
     in if k * unat (period params) \<le> length (dag_active_chain d) then period_state d params k else Some Defined)"
proof (cases "checked_sub h 1")
  case None
  then have "unat h = 0" by (simp add: checked_sub_None word_less_nat_alt)
  with None show ?thesis by (simp add: threshold_state_at_def)
next
  case (Some parent)
  let ?k = "unat h div unat (period params)"
  show ?thesis
  proof (cases "?k = 0")
    case True
    then show ?thesis using Some p by (simp add: threshold_state_at_def)
  next
    case False
    have "threshold_loop d parent params [Suc 0 ..< Suc ?k] Defined =
      (if ?k * unat (period params) \<le> length (dag_active_chain d) then period_state d params ?k else Some Defined)"
      by (rule threshold_loop_spec [OF g]) (use completed_periods [OF Some p] in simp_all)
    with Some False p show ?thesis by (simp add: threshold_state_at_def Let_def del: upt_Suc)
  qed
qed

lemma cache_walk_missing:
  assumes g: "dag_graph L d" and p: "0 < unat (period params)" and "0 < k"
    and "\<not> k * unat (period params) \<le> length (dag_active_chain d)"
    "k * unat (period params) \<le> Suc (unat parent)" "k * unat (period params) < 2 ^ 32"
  shows "cache_walk d parent params cache (rev [1 ..< Suc k]) pend = Some (Inl Defined)"
proof -
  define e :: u32 where "e = word_of_nat (k * unat (period params) - 1)"
  have e: "period_end_of (period params) k = Some e" "unat e = k * unat (period params) - 1"
    using period_end_of_value [of k "period params"] assms unfolding e_def by auto
  have "active_header_at d e = None" using active_header_present [OF g, of e] e(2) assms(4) by simp
  moreover have "\<not> parent < e" using e(2) assms(5) by (simp add: word_less_nat_alt)
  moreover have "rev [1 ..< Suc k] = k # rev [1 ..< k]" using assms(3) by (simp add: upt_Suc)
  ultimately show ?thesis using e(1) by simp
qed

lemma threshold_state_cached_spec:
  assumes g: "dag_graph L d" and p: "period params \<noteq> 0" and c: "cache_ok d params cache"
  shows "\<exists>s cache'. threshold_state_at d h params = Some s
    \<and> threshold_state_cached d h params cache = Some (s, cache') \<and> cache_ok d params cache'"
proof (cases "checked_sub h 1")
  case None
  with c show ?thesis by (simp add: threshold_state_at_def threshold_state_cached_def)
next
  case (Some parent)
  let ?k = "unat h div unat (period params)"
  note b = completed_periods [OF Some p]
  consider (none) "?k = 0" | (missing) "?k \<noteq> 0" "\<not> ?k * unat (period params) \<le> length (dag_active_chain d)"
    | (present) "?k \<noteq> 0" "?k * unat (period params) \<le> length (dag_active_chain d)" by blast
  then show ?thesis
  proof cases
    case none
    with Some p c show ?thesis by (simp add: threshold_state_at_def threshold_state_cached_def)
  next
    case missing
    from cache_walk_missing [OF g b(3) _ missing(2) b(1,2)] missing Some p c show ?thesis
      by (simp add: threshold_state_spec [OF g p] threshold_state_cached_def Let_def del: upt_Suc)
  next
    case present
    obtain a s where a: "a \<le> ?k" "period_state d params a = Some s"
      "cache_walk d parent params cache (rev [1 ..< Suc ?k]) [] =
         Some (Inr (s, [] @ map (period_entry d params) (rev [Suc a ..< Suc ?k])))"
      using cache_walk_spec [OF g b(3) c present(2) b(1,2), of "[]"] by auto
    obtain t cache' where t: "cache_replay d params (map (period_entry d params) [Suc a ..< Suc ?k]) s cache
        = Some (t, cache')" "period_state d params ?k = Some t" "cache_ok d params cache'"
      using cache_replay_spec [OF g b(3) present(2) b(2) a(1,2) c] by auto
    have "threshold_state_cached d h params cache = Some (t, cache')"
      using Some p present(1) a(3) t(1)
      by (simp add: threshold_state_cached_def Let_def rev_map del: upt_Suc)
    with t present show ?thesis by (simp add: threshold_state_spec [OF g p] Let_def)
  qed
qed

lemma tip_irrelevant:
  "active_header_at (d\<lparr>dag_active_tip := t\<rparr>) = active_header_at d"
  "median_time_past (d\<lparr>dag_active_tip := t\<rparr>) = median_time_past d"
proof -
  have "ancestor_times (d\<lparr>dag_active_tip := t\<rparr>) m i = ancestor_times d m i" for m i
    by (induction m arbitrary: i) (simp_all split: option.splits)
  then show "median_time_past (d\<lparr>dag_active_tip := t\<rparr>) = median_time_past d"
    by (simp add: median_time_past_def fun_eq_iff)
qed (simp add: active_header_at_def fun_eq_iff)

lemma period_state_tip: "period_state (d\<lparr>dag_active_tip := t\<rparr>) params k = period_state d params k"
proof (induction k)
  case (Suc k)
  have "next_threshold_state (d\<lparr>dag_active_tip := t\<rparr>) e params = next_threshold_state d e params" for e
    by (simp add: fun_eq_iff next_threshold_state_def signal_count_def tip_irrelevant)
  with Suc show ?case by simp
qed simp

lemma cache_ok_move:
  assumes "cache_ok d params cache"
  shows "cache_ok (d\<lparr>dag_active_chain := xs, dag_active_tip := t\<rparr>) params cache"
proof -
  have "d\<lparr>dag_active_chain := xs, dag_active_tip := t\<rparr>\<lparr>dag_active_chain := ys\<rparr> =
      d\<lparr>dag_active_chain := ys\<rparr>\<lparr>dag_active_tip := t\<rparr>" for ys by simp
  with assms show ?thesis unfolding cache_ok_def by (simp only: period_state_tip) simp
qed

text \<open>
  C17. The cached version-bits computation agrees with the reference: with a valid
  cache both return, with the same state, for every candidate height, also beyond the
  tip, and the cache stays valid, for the active chain and for every other branch the
  tip may later move to.
\<close>
theorem threshold_state_cached_correct:
  assumes "dag_inv L d" "period params \<noteq> 0" "cache_ok d params cache"
  shows "\<exists>s cache'. threshold_state_at d h params = Some s
    \<and> threshold_state_cached d h params cache = Some (s, cache')
    \<and> (\<forall>xs t. cache_ok (d\<lparr>dag_active_chain := xs, dag_active_tip := t\<rparr>) params cache')"
  using threshold_state_cached_spec [of L d params cache h] cache_ok_move assms
  by (fastforce simp: dag_inv_def)


section \<open>The life of a deployment\<close>

lemma transition_cases:
  assumes "next_threshold_state d e params s = Some s'"
  shows "s = Active \<Longrightarrow> s' = Active" "s = Failed \<Longrightarrow> s' = Failed"
    and "s' = LockedIn \<Longrightarrow> s = LockedIn \<or>
      (s = Started \<and> unat (threshold params) \<le> signal_count d (e + 1 - period params) e)"
    and "s' = Active \<Longrightarrow> s = Active \<or>
      (s = LockedIn \<and> sint (min_activation_height params) \<le> int (unat (saturating_add e 1)))"
  using assms
  by (cases s; auto simp: next_threshold_state_def bind_eq_Some_conv split: if_splits)+

lemma locked_in_history:
  assumes "period_state d params k = Some s" "s = LockedIn \<or> s = Active"
  shows "\<exists>i < k. period_state d params i = Some Started
    \<and> unat (threshold params) \<le> signal_count d
        (word_of_nat (Suc i * unat (period params) - 1) + 1 - period params)
        (word_of_nat (Suc i * unat (period params) - 1))"
  using assms
proof (induction k arbitrary: s)
  case (Suc k)
  then obtain s0 where s0: "period_state d params k = Some s0"
    "next_threshold_state d (word_of_nat (Suc k * unat (period params) - 1)) params s0 = Some s"
    by (auto simp: bind_eq_Some_conv)
  consider "s0 = LockedIn \<or> s0 = Active" | "s0 = Started" "s = LockedIn"
    using transition_cases(3,4) [OF s0(2)] Suc.prems(2) by auto
  then show ?case
  proof cases
    case 1
    from Suc.IH [OF s0(1) this] show ?thesis by (meson less_SucI)
  next
    case 2
    with transition_cases(3) [OF s0(2)] s0(1) show ?thesis by (intro exI [of _ k]) simp
  qed
qed simp

lemma active_height:
  assumes "period_state d params k = Some Active" "k * unat (period params) < 2 ^ 32" "0 < unat (period params)"
  shows "sint (min_activation_height params) \<le> int (k * unat (period params))"
  using assms(1,2)
proof (induction k)
  case (Suc k)
  define e :: u32 where "e = word_of_nat (Suc k * unat (period params) - 1)"
  from Suc.prems obtain s0 where s0: "period_state d params k = Some s0" "next_threshold_state d e params s0 = Some Active"
    by (auto simp: bind_eq_Some_conv e_def)
  have e: "unat e = Suc k * unat (period params) - 1"
    unfolding e_def by (rule period_end_of_value(2)) (use Suc.prems assms(3) in auto)
  from transition_cases(4) [OF s0(2)] show ?case
  proof (elim meta_impE disjE conjE)
    assume "s0 = Active"
    with Suc s0 have "sint (min_activation_height params) \<le> int (k * unat (period params))" by simp
    also have "\<dots> \<le> int (Suc k * unat (period params))" unfolding of_nat_le_iff by simp
    finally show ?thesis .
  next
    assume "sint (min_activation_height params) \<le> int (unat (saturating_add e 1))"
    moreover have "unat (saturating_add e 1) = Suc k * unat (period params)"
      using e Suc.prems(2) assms(3) by (simp add: unat_saturating_add)
    ultimately show ?thesis by simp
  qed simp
qed simp

lemma final_state_stays:
  assumes "dag_graph L d" "0 < unat (period params)" "j \<le> k" "s = Active \<or> s = Failed"
    "period_state d params j = Some s"
    "k * unat (period params) \<le> length (dag_active_chain d)" "k * unat (period params) < 2 ^ 32"
  shows "period_state d params k = Some s"
  using assms(3,6,7)
proof (induction k)
  case 0
  then show ?case using assms(5) by simp
next
  case (Suc k)
  show ?case
  proof (cases "j = Suc k")
    case False
    then have k: "period_state d params k = Some s" using Suc by simp
    obtain s' where s': "period_state d params (Suc k) = Some s'"
      using period_state_total [OF assms(1) Suc.prems(2) assms(2) Suc.prems(3)] by auto
    with k have "next_threshold_state d (word_of_nat (Suc k * unat (period params) - 1)) params s = Some s'" by simp
    from transition_cases(1,2) [OF this] assms(4) s' show ?thesis by auto
  qed (use assms(5) in simp)
qed

lemma period_start_value:
  fixes e p :: u32
  assumes "unat e = Suc i * unat p - 1" "Suc i * unat p < 2 ^ 32" "0 < unat p"
  shows "unat (e + 1 - p) = i * unat p"
proof -
  have "unat (e + 1) = Suc i * unat p" using assms by (simp add: unat_word_ariths)
  then show ?thesis by (subst unat_sub) (simp_all add: word_le_nat_alt)
qed

text \<open>
  C36. A deployment becomes active only by the rules: if a candidate height sees it
  active, then some earlier complete period that was signalling counted at least the
  threshold of signalling blocks, the height is at least the configured minimum, and
  every later height covered by the active chain sees it active too; a failed
  deployment likewise stays failed.
\<close>
theorem deployment_lifecycle:
  assumes "dag_inv L d" "period params \<noteq> 0" "threshold_state_at d h params = Some s"
    "s = Active \<or> s = Failed"
  shows "(s = Active \<longrightarrow>
      sint (min_activation_height params) \<le> int (unat h)
      \<and> (\<exists>i e. Suc i * unat (period params) \<le> unat h \<and> unat e = Suc i * unat (period params) - 1
           \<and> threshold_state_at d (e + 1 - period params) params = Some Started
           \<and> unat (threshold params) \<le> signal_count d (e + 1 - period params) e))
    \<and> (\<forall>h' \<ge> h. unat h' \<le> length (dag_active_chain d) \<longrightarrow> threshold_state_at d h' params = Some s)"
proof -
  let ?P = "unat (period params)" and ?k = "unat h div unat (period params)"
  have g: "dag_graph L d" and p: "0 < ?P" using assms(1,2) by (simp_all add: dag_inv_def unat_gt_0)
  have small: "unat x div ?P * ?P < 2 ^ 32" for x :: u32
    by (rule le_less_trans [of _ "unat x"]) (use unsigned_less [of x, where ?'a = nat] in simp_all)
  have k: "?k * ?P \<le> length (dag_active_chain d)" "period_state d params ?k = Some s"
    using assms(3,4) by (auto simp: threshold_state_spec [OF g assms(2)] Let_def split: if_splits)
  have later: "threshold_state_at d h' params = Some s" if "h \<le> h'" "unat h' \<le> length (dag_active_chain d)" for h'
  proof -
    have "?k \<le> unat h' div ?P" using that(1) by (simp add: div_le_mono word_le_nat_alt)
    moreover have len: "unat h' div ?P * ?P \<le> length (dag_active_chain d)"
      by (rule le_trans [OF _ that(2)]) simp
    ultimately have "period_state d params (unat h' div ?P) = Some s"
      using final_state_stays [OF g p _ assms(4) k(2) len small] by blast
    then show ?thesis using len by (simp add: threshold_state_spec [OF g assms(2)] Let_def)
  qed
  moreover have "sint (min_activation_height params) \<le> int (unat h)" if "s = Active"
  proof -
    have "sint (min_activation_height params) \<le> int (?k * ?P)"
      using active_height [OF _ small p] k(2) that by blast
    also have "\<dots> \<le> int (unat h)" unfolding of_nat_le_iff by simp
    finally show ?thesis .
  qed
  moreover have "\<exists>i e. Suc i * ?P \<le> unat h \<and> unat e = Suc i * ?P - 1
      \<and> threshold_state_at d (e + 1 - period params) params = Some Started
      \<and> unat (threshold params) \<le> signal_count d (e + 1 - period params) e" if "s = Active"
  proof -
    obtain i where i: "i < ?k" "period_state d params i = Some Started"
      "unat (threshold params) \<le> signal_count d (word_of_nat (Suc i * ?P - 1) + 1 - period params)
         (word_of_nat (Suc i * ?P - 1))"
      using locked_in_history [OF k(2)] \<open>s = Active\<close> by blast
    define e :: u32 where "e = word_of_nat (Suc i * ?P - 1)"
    have le: "Suc i * ?P \<le> ?k * ?P" using i(1) by (intro mult_right_mono) auto
    then have s32: "Suc i * ?P < 2 ^ 32" by (rule le_less_trans [OF _ small])
    have e: "unat e = Suc i * ?P - 1" unfolding e_def using period_end_of_value(2) [OF _ p s32] by simp
    have "unat (e + 1 - period params) = i * ?P" by (rule period_start_value [OF e s32 p])
    moreover have "i * ?P \<le> length (dag_active_chain d)" using le k(1) by simp
    ultimately have "threshold_state_at d (e + 1 - period params) params = Some Started"
      using i(2) p by (simp add: threshold_state_spec [OF g assms(2)] Let_def)
    moreover have "Suc i * ?P \<le> unat h" by (rule le_trans [OF le]) simp
    ultimately show ?thesis using e i(3) unfolding e_def [symmetric] by blast
  qed
  ultimately show ?thesis by blast
qed

section \<open>A signalling chain\<close>

definition signal_header :: "hash256 \<Rightarrow> u32 \<Rightarrow> header" where
  "signal_header prev n = (sample_header prev (1000 + n) n)\<lparr>h_version := 0x20000004\<rparr>"

definition signal_staged :: staged_batch where
  "signal_staged = (case stage_batch_contextual sample_lib
       [signal_header 1 1, signal_header 2 2, signal_header 3 3] 5000 sample_dag of
     Some (Inr s) \<Rightarrow> s | _ \<Rightarrow> sample_staged)"

definition signal_params :: version_bits_params where
  "signal_params = \<lparr>period = 1, threshold = 1, start_time = 0, timeout = 2000, min_activation_height = 2\<rparr>"

lemma signal_run:
  "dag_active_chain (sb_dag signal_staged) = [1, 2, 3, 4]
   \<and> threshold_state_at (sb_dag signal_staged) 3 signal_params = Some Active
   \<and> threshold_state_at (sb_dag signal_staged) 2 signal_params = Some LockedIn"
  by code_simp

lemma signal_dag_inv: "dag_inv sample_lib (sb_dag signal_staged)"
proof -
  obtain s where "stage_batch_contextual sample_lib
      [signal_header 1 1, signal_header 2 2, signal_header 3 3] 5000 sample_dag = Some s
    \<and> (case s of Inl (e, d) \<Rightarrow> d = sample_dag | Inr s \<Rightarrow> batch_inv sample_lib sample_dag s
       \<and> map hi_header (sb_accepted s) = [signal_header 1 1, signal_header 2 2, signal_header 3 3])"
    using stage_batch_inv [OF sample_dag_inv sample_params_ok] by blast
  moreover have "batch_inv sample_lib sample_dag sample_staged"
    using stage_batch_inv [OF sample_dag_inv sample_params_ok, of sample_headers 5000] sample_staged_run by simp
  ultimately show ?thesis by (auto simp: signal_staged_def batch_inv_def split: sum.splits)
qed

theorem threshold_state_cached_correct_witness:
  "\<exists>cache'. threshold_state_at (sb_dag signal_staged) 3 signal_params = Some Active
     \<and> threshold_state_cached (sb_dag signal_staged) 3 signal_params fmempty = Some (Active, cache')"
proof -
  have "period signal_params \<noteq> 0" "cache_ok (sb_dag signal_staged) signal_params fmempty"
    by (simp_all add: signal_params_def cache_ok_def)
  from threshold_state_cached_correct [OF signal_dag_inv this, of 3] signal_run show ?thesis by auto
qed

theorem deployment_lifecycle_witness:
  "threshold_state_at (sb_dag signal_staged) 4 signal_params = Some Active
   \<and> sint (min_activation_height signal_params) \<le> int (unat (3::u32))"
proof -
  have p: "period signal_params \<noteq> 0" by (simp add: signal_params_def)
  from deployment_lifecycle [OF signal_dag_inv p, of 3 Active] signal_run show ?thesis by simp
qed

section \<open>The context of a block\<close>












end
