(* ===== verification/Consensus.thy ===== *)
theory Consensus
  imports Utxo
begin

text \<open>
  The adapters of \<open>src/src/consensus.rs\<close> around the script interpreter. The
  interpreter is the library function \<open>verify_scripts_with_flags\<close>; serialising the
  transaction for it is left out, since both entry points serialise the same value.
\<close>

datatype consensus_error =
    AmountOutOfRange
  | ScriptTooLarge
  | PrevoutCount nat nat
  | Consensus_Transaction core_error
  | WorkerPanicked
  | Consensus_Script nat core_error

definition consensus_utxo :: "utxo \<Rightarrow> consensus_error + (u64 \<times> bytes)" where
  "consensus_utxo u =
     bind_res (ok_or (u32_try_from (length (script_pubkey u))) ScriptTooLarge) (\<lambda>_.
     bind_res (guard_res (value_sats u \<le> 0x7FFFFFFFFFFFFFFF) AmountOutOfRange) (\<lambda>_.
       Ok (value_sats u, script_pubkey u)))"

definition verify_transaction_scripts_with_flags ::
  "bitcoin_lib \<Rightarrow> transaction \<Rightarrow> utxo list \<Rightarrow> u32 \<Rightarrow> consensus_error + unit" where
  "verify_transaction_scripts_with_flags L tx prevouts flags =
     (if length (tx_input tx) \<noteq> length prevouts
      then Err (PrevoutCount (length prevouts) (length (tx_input tx)))
      else bind_res (collect_res consensus_utxo prevouts) (\<lambda>spent_outputs.
             map_err (\<lambda>(failed_input, source). case failed_input of
                        None \<Rightarrow> Consensus_Transaction source
                      | Some i \<Rightarrow> Consensus_Script i source)
               (verify_scripts_with_flags L tx spent_outputs flags)))"

end
