(* ===== verification/Signet.thy ===== *)
theory Signet
  imports Consensus Deployment_Config
begin

text \<open>
  BIP325 block solutions, \<open>src/src/signet.rs\<close>: the solution is taken out of the
  coinbase commitment, and what is left is signed by a synthetic transaction that has
  to satisfy the network's challenge. \<open>None\<close> is a panic.
\<close>

definition signet_header :: bytes where
  "signet_header = [0xEC, 0xC7, 0xDA, 0xA2]"

definition witness_commitment_header :: bytes where
  "witness_commitment_header = [0x6A, 0x24, 0xAA, 0x21, 0xA9, 0xED]"

datatype signet_error =
    MissingWitnessCommitment
  | MalformedSolution
  | Signet_Script consensus_error

section \<open>Script operations\<close>

text \<open>The length field after the opcode: the length and the cursor after it.\<close>

definition push_length :: "bytes \<Rightarrow> u8 \<Rightarrow> nat \<Rightarrow> (nat \<times> nat) option" where
  "push_length script opcode cursor =
     (if opcode = 0x4C then map_option (\<lambda>b. (le_nat b, cursor + 1)) (slice script cursor 1)
      else if opcode = 0x4D then map_option (\<lambda>b. (le_nat b, cursor + 2)) (slice script cursor 2)
      else if opcode = 0x4E then map_option (\<lambda>b. (le_nat b, cursor + 4)) (slice script cursor 4)
      else Some (unat opcode, cursor))"

definition read_script_op :: "bytes \<Rightarrow> nat \<Rightarrow> ((u8 \<times> bytes) \<times> nat) option" where
  "read_script_op script cursor =
     (if length script \<le> cursor then None
      else let opcode = script ! cursor
           in if 0x4E < opcode then Some ((opcode, []), cursor + 1)
              else Option.bind (push_length script opcode (cursor + 1)) (\<lambda>(len, cursor).
                   Option.bind (slice script cursor len) (\<lambda>data.
                     Some ((opcode, data), cursor + len))))"

definition append_push :: "bytes \<Rightarrow> bytes \<Rightarrow> bytes option" where
  "append_push script data =
     (let n = length data
      in if n \<le> 75 then Some (script @ [word_of_nat n] @ data)
         else if n \<le> 255 then Some (script @ [0x4C, word_of_nat n] @ data)
         else if n \<le> 65535 then Some (script @ [0x4D] @ le_bytes 2 n @ data)
         else if n < 2 ^ 32 then Some (script @ [0x4E] @ le_bytes 4 n @ data)
         else None)"

lemma read_script_op_advances:
  "read_script_op script cursor = Some (r, cursor') \<Longrightarrow> cursor < cursor' \<and> cursor < length script"
  by (auto simp: read_script_op_def push_length_def Let_def bind_eq_Some_conv split: if_splits)

section \<open>Solutions\<close>

function extract_loop ::
  "bytes \<Rightarrow> nat \<Rightarrow> bytes \<Rightarrow> bytes option \<Rightarrow> (bytes \<times> bytes option) option" where
  "extract_loop script cursor replacement solution =
     (case read_script_op script cursor of
        None \<Rightarrow> Some (replacement, solution)
      | Some ((opcode, pushdata), cursor') \<Rightarrow>
          if pushdata = [] then extract_loop script cursor' (replacement @ [opcode]) solution
          else
          let found = (solution = None \<and> length signet_header < length pushdata
                       \<and> take (length signet_header) pushdata = signet_header);
              solution' = (if found then Some (drop (length signet_header) pushdata) else solution);
              kept = (if found then take (length signet_header) pushdata else pushdata)
          in Option.bind (append_push replacement kept) (\<lambda>replacement'.
               extract_loop script cursor' replacement' solution'))"
  by pat_completeness auto
termination
  by (relation "measure (\<lambda>(script, cursor, _). length script - cursor)")
    (auto dest!: read_script_op_advances)

declare extract_loop.simps [simp del]

definition extract_solution :: "bytes \<Rightarrow> (bytes \<times> bytes option) option" where
  "extract_solution script =
     map_option (\<lambda>(replacement, solution).
       if solution \<noteq> None then (replacement, solution) else (script, None))
     (extract_loop script 0 [] None)"

definition decode_solution :: "bitcoin_lib \<Rightarrow> bytes \<Rightarrow> signet_error + (bytes \<times> bytes list)" where
  "decode_solution L bs =
     bind_res (ok_or (script_consensus_decode L bs) MalformedSolution) (\<lambda>(script, n).
     bind_res (ok_or (witness_consensus_decode L (drop n bs)) MalformedSolution) (\<lambda>(witness_items, k).
       if n + k \<noteq> length bs then Err MalformedSolution else Ok (script, witness_items)))"

section \<open>Validation\<close>

definition is_commitment :: "txout \<Rightarrow> bool" where
  "is_commitment output \<longleftrightarrow> 38 \<le> length (txo_script output)
     \<and> take 6 (txo_script output) = witness_commitment_header"

text \<open>\<open>Iterator::rposition\<close>: the last matching index.\<close>

definition rposition :: "('a \<Rightarrow> bool) \<Rightarrow> 'a list \<Rightarrow> nat option" where
  "rposition P xs = find (\<lambda>i. P (xs ! i)) (rev [0 ..< length xs])"

definition signet_block_data :: "header \<Rightarrow> hash256 \<Rightarrow> bytes" where
  "signet_block_data header signet_merkle =
     u32_to_le (h_version header) @ hash_to_bytes (prev_blockhash header)
     @ hash_to_bytes signet_merkle @ u32_to_le (h_time header)"

definition null_outpoint :: outpoint where
  "null_outpoint = \<lparr>op_txid = 0, op_vout = - 1\<rparr>"

definition signet_to_spend :: "bytes \<Rightarrow> bytes \<Rightarrow> transaction" where
  "signet_to_spend to_spend_script challenge =
     \<lparr>tx_version = 0, tx_lock_time = 0,
      tx_input = [\<lparr>previous_output = null_outpoint, script_sig = to_spend_script, in_sequence = 0, witness = []\<rparr>],
      tx_output = [\<lparr>txo_value = 0, txo_script = challenge\<rparr>]\<rparr>"

definition signet_to_sign :: "bitcoin_lib \<Rightarrow> transaction \<Rightarrow> bytes \<Rightarrow> bytes list \<Rightarrow> transaction" where
  "signet_to_sign L to_spend solution_script solution_witness =
     \<lparr>tx_version = 0, tx_lock_time = 0,
      tx_input = [\<lparr>previous_output = \<lparr>op_txid = compute_txid L to_spend, op_vout = 0\<rparr>,
                   script_sig = solution_script, in_sequence = 0, witness = solution_witness\<rparr>],
      tx_output = [\<lparr>txo_value = 0, txo_script = [0x6A]\<rparr>]\<rparr>"

definition validate_signet_block_solution ::
  "bitcoin_lib \<Rightarrow> block \<Rightarrow> bytes \<Rightarrow> (signet_error + unit) option" where
  "validate_signet_block_solution L block challenge =
     bind_call (Some (ok_or (case txdata block of
                               [] \<Rightarrow> None
                             | coinbase # _ \<Rightarrow> rposition is_commitment (tx_output coinbase))
                  MissingWitnessCommitment)) (\<lambda>index.
     let coinbase = hd (txdata block) in
     bind_call (expect (extract_solution (txo_script (tx_output coinbase ! index)))) (\<lambda>(replacement, solution).
     let modified = coinbase\<lparr>tx_output := (tx_output coinbase)
           [index := (tx_output coinbase ! index)\<lparr>txo_script := replacement\<rparr>]\<rparr> in
     bind_call (Some (case solution of None \<Rightarrow> Ok ([], []) | Some bs \<Rightarrow> decode_solution L bs))
       (\<lambda>(solution_script, solution_witness).
     bind_call (expect (merkle_calculate_root L
                  (compute_txid L modified # map (compute_txid L) (tl (txdata block))))) (\<lambda>signet_merkle.
     bind_call (expect (append_push [0] (signet_block_data (b_header block) signet_merkle)))
       (\<lambda>to_spend_script.
     let to_spend = signet_to_spend to_spend_script challenge;
         to_sign = signet_to_sign L to_spend solution_script solution_witness;
         prevout = \<lparr>value_sats = 0, utxo_height = 0, is_coinbase = False, last_touched = 0,
                    creation_mtp = 0, script_pubkey = challenge\<rparr>;
         flags = verify_p2sh OR verify_witness OR verify_dersig OR verify_nulldummy
     in Some (map_err Signet_Script (verify_transaction_scripts_with_flags L to_sign [prevout] flags)))))))"

definition validate_default_signet_block_solution :: "bitcoin_lib \<Rightarrow> block \<Rightarrow> (signet_error + unit) option" where
  "validate_default_signet_block_solution L block =
     (if block_hash L (b_header block) = block_hash L (genesis_header L Signet) then Some (Ok ())
      else validate_signet_block_solution L block default_signet_challenge)"


section \<open>Pushes\<close>

lemma append_push_prefix: "append_push script data = Some s \<Longrightarrow> \<exists>p. s = script @ p \<and> p \<noteq> [] \<and> length s = length script + length p"
  by (auto simp: append_push_def Let_def split: if_splits)

lemma append_push_base: "append_push (a @ b) data = map_option ((@) a) (append_push b data)"
  by (simp add: append_push_def Let_def)

lemma nth_length_append: "(a @ x # b) ! length a = x"
  by simp

lemma slice_at: "slice (a @ b @ c) (length a) (length b) = Some b"
  by simp

lemma byte_push: "n \<le> 255 \<Longrightarrow> unat (word_of_nat n :: u8) = n"
  by (simp add: unat_of_nat take_bit_nat_eq_self)

lemma read_push_short:
  assumes "length data \<le> 75"
  shows "read_script_op (t @ [word_of_nat (length data)] @ data @ rest) (length t) =
    Some ((word_of_nat (length data), data), length t + 1 + length data)"
proof -
  let ?op = "word_of_nat (length data) :: u8"
  have u: "unat ?op = length data" using assms by (intro byte_push) simp
  then have "\<not> 0x4E < ?op" "?op \<noteq> 0x4C" "?op \<noteq> 0x4D" "?op \<noteq> 0x4E"
    using assms by (auto simp: word_less_nat_alt dest: arg_cong [where f = unat])
  moreover have "slice (t @ [?op] @ data @ rest) (length t + 1) (length data) = Some data"
    by (rule slice_appendI [of _ "t @ [?op]" data rest]) simp_all
  ultimately show ?thesis
    by (simp add: read_script_op_def push_length_def Let_def u)
qed

lemma read_push_long:
  assumes "op = 0x4C \<and> k = 1 \<or> op = 0x4D \<and> k = 2 \<or> op = 0x4E \<and> k = 4" "length data < 256 ^ k"
  shows "read_script_op (t @ [op] @ le_bytes k (length data) @ data @ rest) (length t) =
    Some ((op, data), length t + 1 + k + length data)"
proof -
  let ?s = "t @ [op] @ le_bytes k (length data) @ data @ rest"
  have l: "slice ?s (length t + 1) k = Some (le_bytes k (length data))"
    by (rule slice_appendI [of _ "t @ [op]" _ "data @ rest"]) simp_all
  have d: "slice ?s (length t + 1 + k) (length data) = Some data"
    by (rule slice_appendI [of _ "t @ [op] @ le_bytes k (length data)" data rest]) simp_all
  have n: "le_nat (le_bytes k (length data)) = length data"
    using assms(2) by (simp add: le_nat_le_bytes)
  have p: "push_length ?s op (length t + 1) = Some (length data, length t + 1 + k)"
    using assms(1) l n by (auto simp: push_length_def)
  have "\<not> 0x4E < op" using assms(1) by auto
  with p d show ?thesis by (simp add: read_script_op_def Let_def)
qed

text \<open>Reading back a push gives the data and the position after it.\<close>

lemma read_append_push:
  assumes "append_push t data = Some s"
  shows "\<exists>op. read_script_op (s @ rest) (length t) = Some ((op, data), length s)"
proof -
  consider "length data \<le> 75" | "75 < length data" "length data \<le> 255"
    | "255 < length data" "length data \<le> 65535" | "65535 < length data" "length data < 2 ^ 32"
    using assms by (fastforce simp: append_push_def Let_def split: if_splits)
  then show ?thesis
  proof cases
    case 1
    with assms have s: "s = t @ [word_of_nat (length data)] @ data" by (simp add: append_push_def)
    with read_push_short [OF 1, of t rest] show ?thesis by simp
  next
    case 2
    then have "le_bytes 1 (length data) = [word_of_nat (length data)]" by simp
    with 2 assms have s: "s = t @ [0x4C] @ le_bytes 1 (length data) @ data" by (simp add: append_push_def)
    with read_push_long [of "0x4C" 1 data t rest] 2 show ?thesis by simp
  next
    case 3
    with assms have s: "s = t @ [0x4D] @ le_bytes 2 (length data) @ data" by (simp add: append_push_def)
    with read_push_long [of "0x4D" 2 data t rest] 3 show ?thesis by simp
  next
    case 4
    with assms have s: "s = t @ [0x4E] @ le_bytes 4 (length data) @ data" by (simp add: append_push_def)
    with read_push_long [of "0x4E" 4 data t rest] 4 show ?thesis by simp
  qed
qed

lemma append_push_defined: "length data < 2 ^ 32 \<Longrightarrow> \<exists>s. append_push t data = Some s"
  by (auto simp: append_push_def Let_def)

lemma signet_header_length [simp]: "length signet_header = 4"
  by (simp add: signet_header_def)

lemma extract_loop_push:
  assumes "append_push t data = Some s" "data \<noteq> []"
  shows "extract_loop (s @ rest) (length t) replacement solution =
    (let found = (solution = None \<and> 4 < length data \<and> take 4 data = signet_header)
     in Option.bind (append_push replacement (if found then take 4 data else data))
          (\<lambda>r. extract_loop (s @ rest) (length s) r (if found then Some (drop 4 data) else solution)))"
  using read_append_push [OF assms(1), of rest] assms(2)
  by (auto simp: extract_loop.simps [of _ "length t"] Let_def)

lemma extract_loop_end: "extract_loop script (length script) replacement solution = Some (replacement, solution)"
  by (simp add: extract_loop.simps read_script_op_def)

text \<open>
  C38. The solution never signs itself: from a coinbase commitment that carries a
  Signet solution of any size, extraction returns exactly that solution, and the
  script that is left and signed is the same for every solution.
\<close>
theorem signet_solution_extraction:
  assumes "length commitment = 36" "take 4 commitment = [0xAA, 0x21, 0xA9, 0xED]"
    "solution \<noteq> []" "length solution < 2 ^ 32 - 4"
    "append_push [0x6A] commitment = Some base"
    "append_push base (signet_header @ solution) = Some script"
  shows "is_commitment \<lparr>txo_value = v, txo_script = script\<rparr>
    \<and> extract_solution script = Some (the (append_push base signet_header), Some solution)"
proof -
  obtain p where p: "script = base @ p" using append_push_prefix [OF assms(6)] by blast
  obtain r where r: "append_push base signet_header = Some r"
    using append_push_defined [of signet_header base] by (auto simp: signet_header_def)
  have base: "base = [0x6A, 0x24] @ commitment" using assms(1,5) by (simp add: append_push_def)
  have "is_commitment \<lparr>txo_value = v, txo_script = script\<rparr>"
    using assms(1,2) by (auto simp: is_commitment_def p base witness_commitment_header_def
        numeral_eq_Suc length_Suc_conv)
  moreover have "read_script_op script 0 = Some ((0x6A, []), 1)"
    by (simp add: read_script_op_def p base)
  then have "extract_loop script 0 [] None = extract_loop script 1 [0x6A] None"
    by (subst extract_loop.simps) simp
  moreover have "\<dots> = extract_loop script (length base) base None"
  proof -
    have "take 4 commitment \<noteq> signet_header" using assms(2) by (simp add: signet_header_def)
    moreover have "commitment \<noteq> []" using assms(1) by auto
    ultimately show ?thesis
      using extract_loop_push [OF assms(5), of p "[0x6A]" None] assms(5) p by (simp add: Let_def)
  qed
  moreover have "\<dots> = Some (r, Some solution)"
    using extract_loop_push [OF assms(6), of "[]" base None] r assms(3) extract_loop_end [of script]
    by (simp add: Let_def)
  ultimately show ?thesis using r by (simp add: extract_solution_def)
qed

theorem signet_solution_extraction_witness:
  "\<exists>base script. append_push [0x6A] ([0xAA, 0x21, 0xA9, 0xED] @ replicate 32 7) = Some base
     \<and> append_push base (signet_header @ [1, 2]) = Some script
     \<and> extract_solution script = Some (the (append_push base signet_header), Some [1, 2])"
proof -
  obtain base where b: "append_push [0x6A] ([0xAA, 0x21, 0xA9, 0xED] @ replicate 32 7) = Some base"
    by (simp add: append_push_def)
  obtain script where s: "append_push base (signet_header @ [1, 2]) = Some script"
    by (simp add: append_push_def signet_header_def)
  from signet_solution_extraction [OF _ _ _ _ b s] b s show ?thesis by simp
qed

end
