(* ===== verification/Merkle.thy ===== *)
theory Merkle
  imports Bitcoin_Lib
begin

text \<open>
  Transaction Merkle trees: the root and the mutation check of
  \<open>transaction_merkle_root\<close> in \<open>src/src/blockchain.rs\<close>, and the inclusion proofs of
  \<open>src/src/merkle_proof.rs\<close>.
\<close>

definition hash_pair :: "bitcoin_lib \<Rightarrow> hash256 \<Rightarrow> hash256 \<Rightarrow> hash256" where
  "hash_pair L left right = sha256d L (hash_to_bytes left @ hash_to_bytes right)"

text \<open>One level: the parents of \<open>chunks(2)\<close>, and whether a full chunk has two equal hashes.\<close>

fun merkle_level :: "bitcoin_lib \<Rightarrow> hash256 list \<Rightarrow> hash256 list \<times> bool" where
  "merkle_level L [] = ([], False)"
| "merkle_level L [x] = ([hash_pair L x x], False)"
| "merkle_level L (x # y # rest) =
     (let (parents, mutated) = merkle_level L rest in (hash_pair L x y # parents, x = y \<or> mutated))"

lemma length_merkle_level: "length (fst (merkle_level L hs)) = Suc (length hs) div 2"
  by (induction L hs rule: merkle_level.induct) (auto split: prod.splits)

function merkle_loop :: "bitcoin_lib \<Rightarrow> hash256 list \<Rightarrow> bool \<Rightarrow> hash256 list \<times> bool" where
  "merkle_loop L hs mutated =
     (if 1 < length hs
      then let (parents, m) = merkle_level L hs in merkle_loop L parents (mutated \<or> m)
      else (hs, mutated))"
  by pat_completeness auto
termination
proof (relation "measure (\<lambda>(_, hs, _). length hs)")
  fix L :: bitcoin_lib and hs :: "hash256 list" and mutated x parents m
  assume "1 < length hs" "x = merkle_level L hs" "(parents, m) = x"
  then show "((L, parents, mutated \<or> m), (L, hs, mutated)) \<in> measure (\<lambda>(_, hs, _). length hs)"
    using length_merkle_level [of L hs] by (cases "merkle_level L hs") auto
qed simp

declare merkle_loop.simps [simp del]

definition transaction_merkle_root :: "bitcoin_lib \<Rightarrow> hash256 list \<Rightarrow> hash256 option \<times> bool" where
  "transaction_merkle_root L ids =
     (if ids = [] then (None, False)
      else case merkle_loop L ids False of (hs, mutated) \<Rightarrow> (Some (hs ! 0), mutated))"

section \<open>Inclusion proofs\<close>

datatype merkle_proof_error = BranchTooDeep | PositionOutOfRange | RootMismatch

fun merkle_climb :: "bitcoin_lib \<Rightarrow> hash256 \<Rightarrow> u32 \<Rightarrow> hash256 list \<Rightarrow> hash256 \<times> u32" where
  "merkle_climb L node index [] = (node, index)"
| "merkle_climb L node index (sibling # siblings) =
     merkle_climb L (if index AND 1 = 0 then hash_pair L node sibling else hash_pair L sibling node)
       (drop_bit 1 index) siblings"

definition verify_transaction_merkle_proof ::
  "bitcoin_lib \<Rightarrow> hash256 \<Rightarrow> u32 \<Rightarrow> hash256 list \<Rightarrow> hash256 \<Rightarrow> merkle_proof_error + unit" where
  "verify_transaction_merkle_proof L txid position siblings expected_root =
     (if 32 < length siblings then Err BranchTooDeep
      else case merkle_climb L txid position siblings of
             (node, index) \<Rightarrow>
               if index \<noteq> 0 then Err PositionOutOfRange
               else if node \<noteq> expected_root then Err RootMismatch else Ok ())"

section \<open>Branches\<close>

text \<open>The specification: the siblings on the way from a leaf to the root, and the pairs hashed there.\<close>

definition merkle_sibling :: "hash256 list \<Rightarrow> nat \<Rightarrow> hash256" where
  "merkle_sibling hs pos =
     (if odd pos then hs ! (pos - 1) else if pos + 1 < length hs then hs ! (pos + 1) else hs ! pos)"

function merkle_branch :: "bitcoin_lib \<Rightarrow> hash256 list \<Rightarrow> nat \<Rightarrow> hash256 list" where
  "merkle_branch L hs pos =
     (if 1 < length hs
      then merkle_sibling hs pos # merkle_branch L (fst (merkle_level L hs)) (pos div 2) else [])"
  by pat_completeness auto
termination
  by (relation "measure (\<lambda>(_, hs, _). length hs)") (auto simp: length_merkle_level)

declare merkle_branch.simps [simp del]

lemma merkle_level_nth:
  "pos < length hs \<Longrightarrow> fst (merkle_level L hs) ! (pos div 2) =
     (if even pos then hash_pair L (hs ! pos) (merkle_sibling hs pos)
      else hash_pair L (merkle_sibling hs pos) (hs ! pos))"
proof (induction L hs arbitrary: pos rule: merkle_level.induct)
  case (3 L x y rest)
  show ?case
  proof (cases "pos < 2")
    case True
    then have "pos = 0 \<or> pos = 1" by auto
    then show ?thesis by (auto simp: merkle_sibling_def split: prod.splits)
  next
    case False
    then obtain p where p: "pos = Suc (Suc p)" by (metis add_2_eq_Suc le_add_diff_inverse not_less)
    then have "p < length rest" using 3 by simp
    from "3.IH" [OF this] p show ?thesis
      by (cases p) (auto simp: merkle_sibling_def split: prod.splits)
  qed
qed (auto simp: merkle_sibling_def)

lemma merkle_branch_length: "length hs \<le> 2 ^ k \<Longrightarrow> length (merkle_branch L hs pos) \<le> k"
proof (induction k arbitrary: hs pos)
  case 0
  then show ?case by (simp add: merkle_branch.simps)
next
  case (Suc k)
  then have "length (fst (merkle_level L hs)) \<le> 2 ^ k" by (simp add: length_merkle_level)
  from Suc.IH [OF this] show ?case by (simp add: merkle_branch.simps [of L hs])
qed

lemma unat_half: "unat (drop_bit (Suc 0) w) = unat w div 2" for w :: u32
  by (simp add: unat_drop_bit_eq drop_bit_nat_def)

lemma even_word: "w AND 1 = 0 \<longleftrightarrow> even (unat w)" for w :: u32
  by (simp add: and_one_eq word_eq_iff_unsigned even_iff_mod_2_eq_zero unat_mod flip: unat_eq_zero)

lemma merkle_loop_root: "fst (merkle_loop L hs m) = fst (merkle_loop L hs m')"
proof (induction L hs m arbitrary: m' rule: merkle_loop.induct)
  case (1 L hs m)
  show ?case
  proof (cases "1 < length hs")
    case True
    obtain ps q where ps: "merkle_level L hs = (ps, q)" by fastforce
    from "1.IH" [OF True refl ps [symmetric], of "m' \<or> q"] True ps show ?thesis
      by (simp add: merkle_loop.simps [of L hs m] merkle_loop.simps [of L hs m'])
  qed (simp add: merkle_loop.simps)
qed

lemma merkle_climb_branch:
  "unat w < length hs \<Longrightarrow>
     merkle_climb L (hs ! unat w) w (merkle_branch L hs (unat w)) = (fst (merkle_loop L hs m) ! 0, 0)"
proof (induction L hs "unat w" arbitrary: w m rule: merkle_branch.induct)
  case (1 L hs)
  show ?case
  proof (cases "1 < length hs")
    case True
    let ?ps = "fst (merkle_level L hs)"
    have lt: "unat (drop_bit 1 w) < length ?ps"
      using "1.prems" by (simp add: unat_half length_merkle_level)
    have "merkle_climb L (hs ! unat w) w (merkle_branch L hs (unat w)) =
        merkle_climb L (?ps ! unat (drop_bit 1 w)) (drop_bit 1 w) (merkle_branch L ?ps (unat (drop_bit 1 w)))"
      using True merkle_level_nth [OF "1.prems", of L]
      by (simp add: merkle_branch.simps [of L hs] even_word unat_half)
    also have "\<dots> = (fst (merkle_loop L ?ps (m \<or> snd (merkle_level L hs))) ! 0, 0)"
      by (rule "1.hyps" [OF True _ lt]) (simp add: unat_half)
    also have "fst (merkle_loop L ?ps (m \<or> snd (merkle_level L hs))) = fst (merkle_loop L hs m)"
      using True by (simp add: merkle_loop.simps [of L hs m] split: prod.splits)
    finally show ?thesis .
  next
    case False
    with "1.prems" have "unat w = 0" by simp
    then have "w = 0" by (simp add: unat_eq_0)
    with False show ?thesis by (simp add: merkle_branch.simps merkle_loop.simps)
  qed
qed

text \<open>The pairs a climb hashes, level by level.\<close>

fun climb_pairs :: "bitcoin_lib \<Rightarrow> hash256 \<Rightarrow> u32 \<Rightarrow> hash256 list \<Rightarrow> (hash256 \<times> hash256) list" where
  "climb_pairs L node index [] = []"
| "climb_pairs L node index (sibling # siblings) =
     (if index AND 1 = 0 then (node, sibling) else (sibling, node))
     # climb_pairs L (if index AND 1 = 0 then hash_pair L node sibling else hash_pair L sibling node)
         (drop_bit 1 index) siblings"

definition collide :: "bitcoin_lib \<Rightarrow> hash256 \<times> hash256 \<Rightarrow> hash256 \<times> hash256 \<Rightarrow> bool" where
  "collide L p q \<longleftrightarrow> p \<noteq> q \<and> hash_pair L (fst p) (snd p) = hash_pair L (fst q) (snd q)"

lemma climb_collision:
  assumes "length ss = length ts" "fst (merkle_climb L a i ss) = fst (merkle_climb L b i ts)"
  shows "a = b \<and> ss = ts \<or>
    (\<exists>k < length ss. collide L (climb_pairs L a i ss ! k) (climb_pairs L b i ts ! k))"
  using assms
proof (induction ss arbitrary: ts a b i)
  case (Cons s ss)
  then obtain t ts' where ts: "ts = t # ts'" "length ss = length ts'" by (cases ts) auto
  let ?up = "\<lambda>x y. if i AND 1 = 0 then hash_pair L x y else hash_pair L y x"
  from Cons.IH [OF ts(2), of "?up a s" "drop_bit 1 i" "?up b t"] Cons.prems(2) ts(1)
  consider "?up a s = ?up b t" "ss = ts'"
    | k where "k < length ss" "collide L (climb_pairs L (?up a s) (drop_bit 1 i) ss ! k)
        (climb_pairs L (?up b t) (drop_bit 1 i) ts' ! k)"
    by auto
  then show ?case
  proof cases
    case 1
    show ?thesis
    proof (cases "a = b \<and> s = t")
      case False
      with 1 have "collide L (climb_pairs L a i (s # ss) ! 0) (climb_pairs L b i (t # ts') ! 0)"
        by (auto simp: collide_def split: if_splits)
      then show ?thesis using ts(1) by (intro disjI2 exI [of _ 0]) simp
    qed (use 1 ts in simp)
  next
    case (2 k)
    then show ?thesis using ts(1) by (intro disjI2 exI [of _ "Suc k"]) simp
  qed
qed simp

text \<open>The rows of the tree above the identifiers, and the pairs that are hashed to build them.\<close>

definition merkle_row :: "bitcoin_lib \<Rightarrow> hash256 list \<Rightarrow> nat \<Rightarrow> hash256 list" where
  "merkle_row L ids k = ((\<lambda>hs. fst (merkle_level L hs)) ^^ k) ids"

fun level_pairs :: "hash256 list \<Rightarrow> (hash256 \<times> hash256) list" where
  "level_pairs [] = []"
| "level_pairs [x] = [(x, x)]"
| "level_pairs (x # y # rest) = (x, y) # level_pairs rest"

definition merkle_depth :: "bitcoin_lib \<Rightarrow> hash256 list \<Rightarrow> nat" where
  "merkle_depth L ids = length (merkle_branch L ids 0)"

definition tree_pairs :: "bitcoin_lib \<Rightarrow> hash256 list \<Rightarrow> (hash256 \<times> hash256) list" where
  "tree_pairs L ids = concat (map (\<lambda>k. level_pairs (merkle_row L ids k)) [0 ..< merkle_depth L ids])"

lemma merkle_row_simps [simp]:
  "merkle_row L ids 0 = ids"
  "merkle_row L ids (Suc k) = fst (merkle_level L (merkle_row L ids k))"
  by (simp_all add: merkle_row_def)

lemma merkle_row_Suc: "merkle_row L ids (Suc k) = merkle_row L (fst (merkle_level L ids)) k"
  by (simp add: merkle_row_def funpow_Suc_right del: funpow.simps)

lemma merkle_level_pairs: "fst (merkle_level L hs) = map (\<lambda>(x, y). hash_pair L x y) (level_pairs hs)"
  by (induction L hs rule: merkle_level.induct) (auto split: prod.splits)

lemma level_pairs_in: "(x, y) \<in> set (level_pairs hs) \<Longrightarrow> x \<in> set hs \<and> y \<in> set hs"
  by (induction hs rule: level_pairs.induct) auto

lemma merkle_depth_simps:
  "merkle_depth L ids = (if 1 < length ids then Suc (merkle_depth L (fst (merkle_level L ids))) else 0)"
  by (simp add: merkle_depth_def merkle_branch.simps [of L ids])

lemma merkle_branch_depth: "length (merkle_branch L ids pos) = merkle_depth L ids"
proof (induction L ids pos rule: merkle_branch.induct)
  case (1 L ids pos)
  then show ?case by (simp add: merkle_branch.simps [of L ids pos] merkle_depth_simps [of L ids])
qed

lemma merkle_loop_top: "ids \<noteq> [] \<Longrightarrow> merkle_row L ids (merkle_depth L ids) = [fst (merkle_loop L ids m) ! 0]"
proof (induction L ids m rule: merkle_loop.induct)
  case (1 L ids m)
  show ?case
  proof (cases "1 < length ids")
    case True
    obtain ps q where ps: "merkle_level L ids = (ps, q)" by fastforce
    then have "ps \<noteq> []" using length_merkle_level [of L ids] True by auto
    from "1.IH" [OF True refl ps [symmetric] this] True ps show ?thesis
      by (simp add: merkle_loop.simps [of L ids m] merkle_depth_simps [of L ids] merkle_row_Suc del: merkle_row_simps(2))
  next
    case False
    then obtain x where "ids = [x]" using "1.prems" by (cases ids) auto
    then show ?thesis by (simp add: merkle_depth_simps merkle_loop.simps)
  qed
qed

text \<open>
  A climb that ends in the tree runs through it from the first sibling on, unless one of its pairs
  collides with a pair of the tree.
\<close>

lemma climb_in_tree:
  assumes "fst (merkle_climb L node i ss) \<in> set (merkle_row L ids d)" "d \<le> merkle_depth L ids" "length ss \<le> d"
  shows "node \<in> set (merkle_row L ids (d - length ss))
    \<or> (\<exists>p \<in> set (climb_pairs L node i ss). \<exists>q \<in> set (tree_pairs L ids). collide L p q)"
  using assms
proof (induction ss arbitrary: node i)
  case (Cons s ss)
  let ?p = "if i AND 1 = 0 then (node, s) else (s, node)"
  let ?up = "if i AND 1 = 0 then hash_pair L node s else hash_pair L s node"
  let ?row = "merkle_row L ids (d - length (s # ss))"
  have k: "d - length ss = Suc (d - length (s # ss))" using Cons.prems(3) by simp
  from Cons.IH [of ?up "drop_bit 1 i"] Cons.prems
  consider "?up \<in> set (merkle_row L ids (d - length ss))"
    | "\<exists>p \<in> set (climb_pairs L ?up (drop_bit 1 i) ss). \<exists>q \<in> set (tree_pairs L ids). collide L p q" by auto
  then show ?case
  proof cases
    case 1
    then obtain x y where xy: "(x, y) \<in> set (level_pairs ?row)" "?up = hash_pair L x y"
      unfolding k by (auto simp: merkle_level_pairs)
    have tree: "(x, y) \<in> set (tree_pairs L ids)"
      using xy(1) Cons.prems(2,3) by (auto simp: tree_pairs_def intro!: bexI [of _ "d - length (s # ss)"])
    show ?thesis
    proof (cases "?p = (x, y)")
      case True
      then show ?thesis using level_pairs_in [OF xy(1)] by (auto split: if_splits)
    next
      case False
      then have "collide L ?p (x, y)" using xy(2) by (auto simp: collide_def split: if_splits)
      then show ?thesis using tree by auto
    qed
  qed auto
qed simp

lemma climb_append:
  "merkle_climb L node i (ss @ ts) = (case merkle_climb L node i ss of (n, j) \<Rightarrow> merkle_climb L n j ts)"
  "climb_pairs L node i (ss @ ts) = climb_pairs L node i ss
     @ (case merkle_climb L node i ss of (n, j) \<Rightarrow> climb_pairs L n j ts)"
  by (induction ss arbitrary: node i) auto

lemma climb_last_pair:
  "ss \<noteq> [] \<Longrightarrow> \<exists>(x, y) \<in> set (climb_pairs L node i ss). fst (merkle_climb L node i ss) = hash_pair L x y"
proof (induction ss arbitrary: node i)
  case (Cons s ss)
  show ?case
  proof (cases "ss = []")
    case False
    from Cons.IH [OF this, of "if i AND 1 = 0 then hash_pair L node s else hash_pair L s node" "drop_bit 1 i"]
    show ?thesis by auto
  qed auto
qed simp

text \<open>What a proof of any depth at any position shows, as long as no pair of it collides with the tree.\<close>

lemma climb_shows:
  assumes "fst (merkle_climb L txid i ss) \<in> set (merkle_row L ids (merkle_depth L ids))"
    and "\<not> (\<exists>p \<in> set (climb_pairs L txid i ss). \<exists>q \<in> set (tree_pairs L ids). collide L p q)"
  shows "if length ss \<le> merkle_depth L ids then txid \<in> set (merkle_row L ids (merkle_depth L ids - length ss))
    else \<exists>(x, y) \<in> set (climb_pairs L txid i ss). hash_pair L x y \<in> set ids"
proof (cases "length ss \<le> merkle_depth L ids")
  case True
  then show ?thesis using climb_in_tree [OF assms(1) order_refl True] assms(2) by auto
next
  case False
  let ?n = "length ss - merkle_depth L ids"
  obtain n j where nj: "merkle_climb L txid i (take ?n ss) = (n, j)" by fastforce
  have app: "merkle_climb L txid i ss = merkle_climb L n j (drop ?n ss)"
    "climb_pairs L txid i ss = climb_pairs L txid i (take ?n ss) @ climb_pairs L n j (drop ?n ss)"
    using climb_append [of L txid i "take ?n ss" "drop ?n ss"] nj by simp_all
  have "n \<in> set (merkle_row L ids (merkle_depth L ids - length (drop ?n ss)))"
    using climb_in_tree [of L n j "drop ?n ss" ids "merkle_depth L ids"] assms False by (auto simp: app)
  then have "n \<in> set ids" using False by simp
  moreover have "take ?n ss \<noteq> []" using False by auto
  ultimately show ?thesis using climb_last_pair [of "take ?n ss" L txid i] nj False by (auto simp: app)
qed

text \<open>
  C37. Inclusion proofs are complete, binding, and what they bind is stated exactly. For a block of at
  most \<open>2 ^ 32\<close> transactions, the sibling branch of any position verifies against the root the block
  validator computes. Any other proof of the same depth that verifies at that position contains a pair
  that collides, under the hash, with the pair the block itself hashes at the same level. A proof of any depth
  at any position that verifies either contains a pair that collides with some pair of the
  block's tree, or shows membership at its depth: at the depth of the tree its identifier is one of the block's
  transactions, with fewer siblings it is an inner node of the tree (the root itself verifies at position zero
  with no sibling), and with more siblings a transaction identifier of the block is the hash of a pair of
  the proof. So an identifier that is no transaction of the block verifies only with a collision, with a branch of the
  wrong depth, or both.
\<close>
theorem merkle_proof_correct:
  assumes "ids \<noteq> []" "length ids \<le> 2 ^ 32" "fst (transaction_merkle_root L ids) = Some root"
  shows "(\<forall>position. unat position < length ids \<longrightarrow>
      verify_transaction_merkle_proof L (ids ! unat position) position
        (merkle_branch L ids (unat position)) root = Ok ()
      \<and> (\<forall>txid siblings. verify_transaction_merkle_proof L txid position siblings root = Ok ()
           \<and> length siblings = merkle_depth L ids \<longrightarrow>
           txid = ids ! unat position \<and> siblings = merkle_branch L ids (unat position) \<or>
           (\<exists>k < length siblings. collide L (climb_pairs L txid position siblings ! k)
              (climb_pairs L (ids ! unat position) position (merkle_branch L ids (unat position)) ! k))))
    \<and> (\<forall>txid position siblings. verify_transaction_merkle_proof L txid position siblings root = Ok () \<longrightarrow>
         (\<exists>p \<in> set (climb_pairs L txid position siblings). \<exists>q \<in> set (tree_pairs L ids). collide L p q)
         \<or> length siblings = merkle_depth L ids \<and> txid \<in> set ids
         \<or> length siblings < merkle_depth L ids \<and> txid \<in> set (merkle_row L ids (merkle_depth L ids - length siblings))
         \<or> merkle_depth L ids < length siblings
           \<and> (\<exists>(x, y) \<in> set (climb_pairs L txid position siblings). hash_pair L x y \<in> set ids))"
proof (intro conjI allI impI)
  have root: "fst (merkle_loop L ids False) ! 0 = root"
    using assms by (auto simp: transaction_merkle_root_def split: prod.splits if_splits)
  {
    fix position :: u32 assume pos: "unat position < length ids"
    let ?b = "merkle_branch L ids (unat position)"
    have climb: "merkle_climb L (ids ! unat position) position ?b = (root, 0)"
      using merkle_climb_branch [OF pos, of L False] root by simp
    then show "verify_transaction_merkle_proof L (ids ! unat position) position ?b root = Ok ()"
      using merkle_branch_length [OF assms(2), of L "unat position"]
      by (simp add: verify_transaction_merkle_proof_def)
    fix txid siblings
    assume v: "verify_transaction_merkle_proof L txid position siblings root = Ok () \<and> length siblings = merkle_depth L ids"
    show "txid = ids ! unat position \<and> siblings = ?b \<or> (\<exists>k < length siblings.
        collide L (climb_pairs L txid position siblings ! k) (climb_pairs L (ids ! unat position) position ?b ! k))"
      by (rule climb_collision) (use v climb in \<open>auto simp: verify_transaction_merkle_proof_def merkle_branch_depth
          split: prod.splits if_splits\<close>)
  }
  fix txid position siblings
  assume "verify_transaction_merkle_proof L txid position siblings root = Ok ()"
  then have "fst (merkle_climb L txid position siblings) \<in> set (merkle_row L ids (merkle_depth L ids))"
    using merkle_loop_top [OF assms(1), of L False] root
    by (auto simp: verify_transaction_merkle_proof_def split: prod.splits if_splits)
  from climb_shows [OF this]
  show "(\<exists>p \<in> set (climb_pairs L txid position siblings). \<exists>q \<in> set (tree_pairs L ids). collide L p q)
     \<or> length siblings = merkle_depth L ids \<and> txid \<in> set ids
     \<or> length siblings < merkle_depth L ids \<and> txid \<in> set (merkle_row L ids (merkle_depth L ids - length siblings))
     \<or> merkle_depth L ids < length siblings
       \<and> (\<exists>(x, y) \<in> set (climb_pairs L txid position siblings). hash_pair L x y \<in> set ids)"
    by (auto split: if_splits simp: le_less)
qed

text \<open>The three parts on a block of three transactions; the forged proof is the root itself.\<close>

theorem merkle_proof_correct_witness:
  "\<exists>root. fst (transaction_merkle_root sample_lib [5, 6, 7]) = Some root
    \<and> verify_transaction_merkle_proof sample_lib 7 2 (merkle_branch sample_lib [5, 6, 7] 2) root = Ok ()
    \<and> (\<exists>k < 2. collide sample_lib (climb_pairs sample_lib 7 2 [8, 5] ! k)
         (climb_pairs sample_lib 7 2 (merkle_branch sample_lib [5, 6, 7] 2) ! k))
    \<and> verify_transaction_merkle_proof sample_lib root 0 [] root = Ok ()
    \<and> root \<in> set (merkle_row sample_lib [5, 6, 7] 2)"
proof -
  have "fst (transaction_merkle_root sample_lib [5, 6, 7]) \<noteq> None" by code_simp
  then obtain root where root: "fst (transaction_merkle_root sample_lib [5, 6, 7]) = Some root" by blast
  have ids: "[5, 6, 7 :: hash256] \<noteq> []" "length [5, 6, 7 :: hash256] \<le> 2 ^ 32" by simp_all
  note law = merkle_proof_correct [OF ids root]
  note at_2 = law [THEN conjunct1, THEN spec [of _ 2], simplified] and any_proof = law [THEN conjunct2, rule_format]
  have depth: "merkle_depth sample_lib [5, 6, 7] = 2" by code_simp
  have "(case fst (transaction_merkle_root sample_lib [5, 6, 7]) of
      Some r \<Rightarrow> verify_transaction_merkle_proof sample_lib 7 2 [8, 5] r | None \<Rightarrow> Err RootMismatch) = Ok ()" by code_simp
  then have forged: "verify_transaction_merkle_proof sample_lib 7 2 [8, 5] root = Ok ()" using root by simp
  have other: "merkle_branch sample_lib [5, 6, 7] 2 \<noteq> [8, 5]" by code_simp
  have top: "verify_transaction_merkle_proof sample_lib root 0 [] root = Ok ()"
    by (simp add: verify_transaction_merkle_proof_def)
  have "\<exists>k < 2. collide sample_lib (climb_pairs sample_lib 7 2 [8, 5] ! k)
         (climb_pairs sample_lib 7 2 (merkle_branch sample_lib [5, 6, 7] 2) ! k)"
    using at_2 [THEN conjunct2, rule_format, of 7 "[8, 5]"] forged depth other by (simp add: numeral_2_eq_2)
  moreover have "root \<in> set (merkle_row sample_lib [5, 6, 7] 2)"
    using any_proof [OF top] depth by simp
  ultimately show ?thesis using root at_2 top by blast
qed

section \<open>Mutated trees\<close>

lemma merkle_level_repeat_last:
  assumes "odd (length hs)"
  shows "merkle_level L (hs @ [last hs]) = (fst (merkle_level L hs), True)"
  using assms
proof (induction L hs rule: merkle_level.induct)
  case (3 L x y rest)
  then have "rest \<noteq> []" by auto
  with 3 show ?case by (auto split: prod.splits)
qed auto

lemma merkle_loop_mutated: "snd (merkle_loop L hs True)"
proof (induction "length hs" arbitrary: hs rule: less_induct)
  case less
  show ?case
  proof (cases "1 < length hs")
    case True
    then have "length (fst (merkle_level L hs)) < length hs" by (simp add: length_merkle_level)
    from less [OF this] True show ?thesis
      by (auto simp: merkle_loop.simps [of L hs] split: prod.splits)
  qed (simp add: merkle_loop.simps)
qed

text \<open>
  The known ambiguity of the tree is detected: repeating the last of an odd number,
  at least three, of transactions leaves the root unchanged, and the longer list is
  always reported as mutated.
\<close>
theorem merkle_mutation_detected:
  assumes "odd (length ids)" "1 < length ids"
  shows "transaction_merkle_root L (ids @ [last ids]) = (fst (transaction_merkle_root L ids), True)"
proof -
  have "merkle_loop L (ids @ [last ids]) False = merkle_loop L (fst (merkle_level L ids)) True"
    using assms by (auto simp: merkle_loop.simps [of L "ids @ [last ids]"] merkle_level_repeat_last)
  moreover have "fst (merkle_loop L ids False) = fst (merkle_loop L (fst (merkle_level L ids)) True)"
    using assms(2) by (simp add: merkle_loop.simps [of L ids] split: prod.splits) (metis merkle_loop_root)
  moreover have "snd (merkle_loop L (fst (merkle_level L ids)) True)" by (rule merkle_loop_mutated)
  ultimately show ?thesis
    using assms by (auto simp: transaction_merkle_root_def split: prod.splits)
qed

theorem merkle_mutation_detected_witness:
  "transaction_merkle_root sample_lib [5, 6, 7, 7] = (fst (transaction_merkle_root sample_lib [5, 6, 7]), True)"
  using merkle_mutation_detected [of "[5, 6, 7]" sample_lib] by simp

end
