(* ===== verification/Chainstate.thy ===== *)
theory Chainstate
  imports Utxo_Interface Consensus Deployment_Config
begin

text \<open>
  Transaction application, \<open>src/src/chainstate.rs\<close>: the accounting, maturity,
  finality and relative-lock checks of one transaction against any store that
  implements the trait \<open>UtxoStore\<close>, the coins it creates, and its signature
  operation cost. Scripts are checked by the library interpreter through
  \<open>Consensus\<close>. Unsigned additions that the source leaves unchecked wrap.

  The arguments every function passes along unchanged (candidate height, clock,
  parent median time, lock time context, script flags, BIP68 switch) are the record
  \<open>tx_context\<close>.
\<close>

definition coinbase_maturity :: u32 where
  "coinbase_maturity = 100"

definition max_money_sats :: u64 where
  "max_money_sats = 21000000 * 100000000"

definition max_script_size :: nat where
  "max_script_size = 10000"

definition sequence_locktime_mask :: u32 where
  "sequence_locktime_mask = 0x0000FFFF"

definition sequence_locktime_granularity :: nat where
  "sequence_locktime_granularity = 9"

definition max_pubkeys_per_multisig :: nat where
  "max_pubkeys_per_multisig = 20"

record applied_transaction =
  at_txid :: hash256
  at_input_value_sats :: u64
  at_output_value_sats :: u64
  at_sigop_cost :: u64
  at_undo :: utxo_undo

record validated_transaction =
  vt_txid :: hash256
  vt_input_value_sats :: u64
  vt_output_value_sats :: u64
  vt_sigop_cost :: u64

record prepared_transaction =
  pt_validated :: validated_transaction
  pt_spent :: "out_point_key list"
  pt_created :: "coin_row list"
  pt_prevouts :: "utxo list"

datatype chainstate_error =
    Chain_Utxo utxo_error
  | Chain_Script consensus_error
  | ValueOverflow
  | Inflation
  | ImmatureCoinbase out_point_key u32
  | CoinbaseScriptSize
  | NoInputs
  | NoOutputs
  | MoneyRange
  | NonFinalLockTime u32 u32
  | RelativeHeightLock out_point_key u32
  | RelativeTimeLock out_point_key u32
  | DuplicateInput out_point_key
  | NullPrevout
  | Oversize

definition chainstate_is_peer_invalid :: "chainstate_error \<Rightarrow> bool" where
  "chainstate_is_peer_invalid e =
     (case e of
        Chain_Utxo err \<Rightarrow>
          (case err of Duplicate _ \<Rightarrow> True | Missing _ \<Rightarrow> True | DuplicateSpend _ \<Rightarrow> True | _ \<Rightarrow> False)
      | Chain_Script WorkerPanicked \<Rightarrow> False
      | _ \<Rightarrow> True)"

record tx_context =
  cx_height :: u32
  cx_now :: u64
  cx_creation_mtp :: u32
  cx_lock_time_context :: u32
  cx_script_flags :: u32
  cx_csv_active :: bool


section \<open>Signature operations\<close>

definition decode_pushnum :: "u8 \<Rightarrow> u8 option" where
  "decode_pushnum opcode = (if 0x51 \<le> opcode \<and> opcode \<le> 0x60 then Some (opcode - 0x50) else None)"

definition opcode_sigops :: "bool \<Rightarrow> u8 option \<Rightarrow> u8 \<Rightarrow> nat" where
  "opcode_sigops accurate previous_pushnum opcode =
     (if opcode = 0xAC \<or> opcode = 0xAD then 1
      else if opcode = 0xAE \<or> opcode = 0xAF
      then (case (accurate, previous_pushnum) of
              (True, Some keys) \<Rightarrow> unat keys
            | _ \<Rightarrow> max_pubkeys_per_multisig)
      else 0)"

fun count_sigops_loop :: "bool \<Rightarrow> nat \<Rightarrow> u8 option \<Rightarrow> instruction option list \<Rightarrow> nat" where
  "count_sigops_loop accurate sigops previous_pushnum [] = sigops"
| "count_sigops_loop accurate sigops previous_pushnum (None # _) = sigops"
| "count_sigops_loop accurate sigops previous_pushnum (Some (PushBytes _) # rest) =
     count_sigops_loop accurate sigops None rest"
| "count_sigops_loop accurate sigops previous_pushnum (Some (Op opcode) # rest) =
     count_sigops_loop accurate
       (usize_saturating_add sigops (opcode_sigops accurate previous_pushnum opcode))
       (decode_pushnum opcode) rest"

definition count_script_sigops :: "bitcoin_lib \<Rightarrow> bytes \<Rightarrow> bool \<Rightarrow> nat" where
  "count_script_sigops L script accurate =
     count_sigops_loop accurate 0 None (script_instructions L script)"

definition transaction_legacy_sigops :: "bitcoin_lib \<Rightarrow> transaction \<Rightarrow> nat" where
  "transaction_legacy_sigops L tx =
     sum_list (map (\<lambda>input. count_script_sigops L (script_sig input) False) (tx_input tx)
             @ map (\<lambda>output. count_script_sigops L (txo_script output) False) (tx_output tx))"

definition legacy_sigop_cost :: "bitcoin_lib \<Rightarrow> transaction \<Rightarrow> u64" where
  "legacy_sigop_cost L tx = word_of_nat (transaction_legacy_sigops L tx) * 4"

fun last_push_loop :: "bytes \<Rightarrow> instruction option list \<Rightarrow> bytes option" where
  "last_push_loop last_bytes [] = Some last_bytes"
| "last_push_loop last_bytes (None # _) = None"
| "last_push_loop last_bytes (Some (PushBytes bs) # rest) = last_push_loop bs rest"
| "last_push_loop last_bytes (Some (Op opcode) # rest) =
     (if opcode \<le> 0x60 then last_push_loop [] rest else None)"

definition last_push :: "bitcoin_lib \<Rightarrow> bytes \<Rightarrow> bytes option" where
  "last_push L script = last_push_loop [] (script_instructions L script)"

definition p2sh_sigops :: "bitcoin_lib \<Rightarrow> bytes \<Rightarrow> nat" where
  "p2sh_sigops L sig =
     (case last_push L sig of None \<Rightarrow> 0 | Some redeem \<Rightarrow> count_script_sigops L redeem True)"

definition witness_program_sigops :: "bitcoin_lib \<Rightarrow> bytes \<Rightarrow> bytes list \<Rightarrow> nat" where
  "witness_program_sigops L program witness_items =
     (if script_witness_version L program \<noteq> Some 0 then 0
      else if 1 < length program \<and> program ! 1 = 20 then 1
      else if 1 < length program \<and> program ! 1 = 32
      then (if witness_items = [] then 0 else count_script_sigops L (last witness_items) True)
      else 0)"

definition witness_sigops :: "bitcoin_lib \<Rightarrow> bytes \<Rightarrow> bytes \<Rightarrow> bytes list \<Rightarrow> nat" where
  "witness_sigops L sig pubkey_script witness_items =
     (if script_is_witness_program L pubkey_script
      then witness_program_sigops L pubkey_script witness_items
      else if script_is_p2sh L pubkey_script \<and> script_is_push_only L sig
      then (case last_push L sig of
              Some redeem \<Rightarrow>
                if script_is_witness_program L redeem
                then witness_program_sigops L redeem witness_items else 0
            | None \<Rightarrow> 0)
      else 0)"

definition input_sigop_cost :: "bitcoin_lib \<Rightarrow> u32 \<Rightarrow> txin \<times> utxo \<Rightarrow> u64" where
  "input_sigop_cost L flags p =
     (case p of (input, prevout) \<Rightarrow>
       (if flags AND verify_p2sh \<noteq> 0 \<and> script_is_p2sh L (script_pubkey prevout)
        then word_of_nat (p2sh_sigops L (script_sig input)) * 4 else 0)
       + (if flags AND verify_witness \<noteq> 0
          then word_of_nat (witness_sigops L (script_sig input) (script_pubkey prevout) (witness input))
          else 0))"

definition transaction_sigop_cost :: "bitcoin_lib \<Rightarrow> transaction \<Rightarrow> utxo list \<Rightarrow> u32 \<Rightarrow> u64" where
  "transaction_sigop_cost L tx prevouts flags =
     fold (\<lambda>p cost. cost + input_sigop_cost L flags p) (zip (tx_input tx) prevouts)
       (legacy_sigop_cost L tx)"


section \<open>Lock times\<close>

definition transaction_is_final :: "bitcoin_lib \<Rightarrow> transaction \<Rightarrow> u32 \<Rightarrow> u32 \<Rightarrow> bool" where
  "transaction_is_final L tx height lock_time_context =
     (let lock_time = tx_lock_time tx;
          comparison = (if lock_time_is_height L lock_time then height else lock_time_context)
      in lock_time = 0 \<or> lock_time < comparison
         \<or> list_all (\<lambda>input. in_sequence input = - 1) (tx_input tx))"

definition enforces_bip68 :: "transaction \<Rightarrow> bool" where
  "enforces_bip68 tx \<longleftrightarrow> 2 \<le> tx_version tx"

definition check_sequence_lock ::
  "bitcoin_lib \<Rightarrow> u32 \<Rightarrow> out_point_key \<Rightarrow> utxo \<Rightarrow> u32 \<Rightarrow> u32 \<Rightarrow> chainstate_error + unit" where
  "check_sequence_lock L sequence outpoint utxo height parent_mtp =
     (if \<not> sequence_is_relative L sequence then Ok ()
      else let relative = sequence AND sequence_locktime_mask
           in if sequence_is_height L sequence
              then let minimum_height = saturating_sub (saturating_add (utxo_height utxo) relative) 1
                   in if height \<le> minimum_height then Err (RelativeHeightLock outpoint minimum_height)
                      else Ok ()
              else let relative_seconds = push_bit sequence_locktime_granularity relative;
                       minimum_mtp = saturating_sub (saturating_add (creation_mtp utxo) relative_seconds) 1
                   in if parent_mtp \<le> minimum_mtp then Err (RelativeTimeLock outpoint minimum_mtp)
                      else Ok ())"


section \<open>Created coins\<close>

definition is_unspendable :: "bitcoin_lib \<Rightarrow> bytes \<Rightarrow> bool" where
  "is_unspendable L script \<longleftrightarrow> script_is_op_return L script \<or> max_script_size < length script"

definition created_output ::
  "hash256 \<Rightarrow> u32 \<Rightarrow> u64 \<Rightarrow> u32 \<Rightarrow> bool \<Rightarrow> nat \<times> txout \<Rightarrow> coin_row option" where
  "created_output txid height now mtp coinbase p =
     (case p of (vout, output) \<Rightarrow>
       map_option (\<lambda>vout.
         (key_of \<lparr>op_txid = txid, op_vout = vout\<rparr>,
          \<lparr>value_sats = txo_value output, utxo_height = height, is_coinbase = coinbase,
           last_touched = now, creation_mtp = mtp, script_pubkey = txo_script output\<rparr>))
       (u32_try_from vout))"

text \<open>\<open>None\<close> is the failed conversion of an output index.\<close>

definition created_outputs ::
  "bitcoin_lib \<Rightarrow> transaction \<Rightarrow> hash256 \<Rightarrow> u32 \<Rightarrow> u64 \<Rightarrow> u32 \<Rightarrow> bool \<Rightarrow> coin_row list option" where
  "created_outputs L tx txid height now mtp coinbase =
     those (map (created_output txid height now mtp coinbase)
       (filter (\<lambda>(_, output). \<not> is_unspendable L (txo_script output)) (enumerate 0 (tx_output tx))))"


section \<open>Preparation\<close>

definition sum_outputs :: "txout list \<Rightarrow> chainstate_error + u64" where
  "sum_outputs = try_fold (\<lambda>sum output.
     if max_money_sats < txo_value output then Err MoneyRange
     else ok_or (checked_add sum (txo_value output)) ValueOverflow) 0"

fun check_unique_inputs :: "bitcoin_lib \<Rightarrow> out_point_key set \<Rightarrow> txin list \<Rightarrow> chainstate_error + unit" where
  "check_unique_inputs L unique_inputs [] = Ok ()"
| "check_unique_inputs L unique_inputs (input # inputs) =
     (if outpoint_is_null L (previous_output input) then Err NullPrevout
      else let outpoint = key_of (previous_output input)
           in if outpoint \<in> unique_inputs then Err (DuplicateInput outpoint)
              else check_unique_inputs L (insert outpoint unique_inputs) inputs)"

text \<open>The checks of one resolved input; the new input sum.\<close>

definition check_spent_coin ::
  "bitcoin_lib \<Rightarrow> transaction \<Rightarrow> tx_context \<Rightarrow> txin \<Rightarrow> utxo \<Rightarrow> u64 \<Rightarrow> chainstate_error + u64" where
  "check_spent_coin L tx c input utxo input_value =
     (let outpoint = key_of (previous_output input);
          matures_at = saturating_add (utxo_height utxo) coinbase_maturity
      in if max_money_sats < value_sats utxo then Err MoneyRange
         else if is_coinbase utxo \<and> cx_height c < matures_at
         then Err (ImmatureCoinbase outpoint matures_at)
         else bind_res
           (if cx_csv_active c \<and> enforces_bip68 tx
            then check_sequence_lock L (in_sequence input) outpoint utxo (cx_height c) (cx_creation_mtp c)
            else Ok ()) (\<lambda>_.
           bind_res (ok_or (checked_add input_value (value_sats utxo)) ValueOverflow) (\<lambda>input_value.
             if max_money_sats < input_value then Err MoneyRange else Ok input_value)))"

type_synonym resolved = "out_point_key list \<times> utxo list \<times> u64"

definition resolve_input ::
  "'st utxo_ops \<Rightarrow> bitcoin_lib \<Rightarrow> transaction \<Rightarrow> tx_context \<Rightarrow> resolved \<Rightarrow> txin
     \<Rightarrow> ('st, chainstate_error, resolved) st" where
  "resolve_input ops L tx c acc input =
     (case acc of (spent, prevouts, input_value) \<Rightarrow>
       let outpoint = key_of (previous_output input)
       in st_bind (st_map_err Chain_Utxo (ops_get ops outpoint)) (\<lambda>found.
          st_bind (st_lift (ok_or found (Chain_Utxo (Missing outpoint)))) (\<lambda>utxo.
          st_bind (st_lift (check_spent_coin L tx c input utxo input_value)) (\<lambda>input_value.
            st_ret (spent @ [outpoint], prevouts @ [utxo], input_value)))))"

definition oversize :: "nat \<Rightarrow> bool" where
  "oversize n \<longleftrightarrow> 4000000 < usize_saturating_mul n 4"

text \<open>The checks before the inputs are looked at, in the order of the source.\<close>

definition check_transaction_outputs ::
  "bitcoin_lib \<Rightarrow> transaction \<Rightarrow> tx_context \<Rightarrow> chainstate_error + u64" where
  "check_transaction_outputs L tx c =
     (if oversize (base_size L tx) then Err Oversize
      else if \<not> transaction_is_final L tx (cx_height c) (cx_lock_time_context c)
      then Err (NonFinalLockTime (tx_lock_time tx)
             (if lock_time_is_height L (tx_lock_time tx) then cx_height c else cx_lock_time_context c))
      else bind_res (sum_outputs (tx_output tx)) (\<lambda>output_value.
        if max_money_sats < output_value then Err MoneyRange
        else if tx_output tx = [] then Err NoOutputs
        else Ok output_value))"

definition prepare_coinbase ::
  "bitcoin_lib \<Rightarrow> transaction \<Rightarrow> hash256 \<Rightarrow> tx_context \<Rightarrow> u64
     \<Rightarrow> ('st, chainstate_error, prepared_transaction) pst" where
  "prepare_coinbase L tx txid c output_value =
     pst_bind (pst_expect (case tx_input tx of [] \<Rightarrow> None | input # _ \<Rightarrow> Some (length (script_sig input))))
       (\<lambda>script_len.
     if \<not> (2 \<le> script_len \<and> script_len \<le> 100) then pst_err CoinbaseScriptSize
     else pst_bind (pst_expect (created_outputs L tx txid (cx_height c) (cx_now c) (cx_creation_mtp c) True))
       (\<lambda>created.
     pst_ret \<lparr>pt_validated = \<lparr>vt_txid = txid, vt_input_value_sats = 0, vt_output_value_sats = output_value,
                vt_sigop_cost = legacy_sigop_cost L tx\<rparr>,
              pt_spent = [], pt_created = created, pt_prevouts = []\<rparr>))"

definition prepare_spend ::
  "'st utxo_ops \<Rightarrow> bitcoin_lib \<Rightarrow> transaction \<Rightarrow> hash256 \<Rightarrow> tx_context \<Rightarrow> bool \<Rightarrow> u64
     \<Rightarrow> ('st, chainstate_error, prepared_transaction) pst" where
  "prepare_spend ops L tx txid c verify_scripts output_value =
     pst_bind (pst_lift (guard_res (tx_input tx \<noteq> []) NoInputs)) (\<lambda>_.
     pst_bind (pst_lift (check_unique_inputs L {} (tx_input tx))) (\<lambda>_.
     pst_bind (pst_of id (st_fold (resolve_input ops L tx c) ([], [], 0) (tx_input tx)))
       (\<lambda>(spent, prevouts, input_value).
     pst_bind (pst_lift (guard_res (output_value \<le> input_value) Inflation)) (\<lambda>_.
     pst_bind (pst_lift
       (if verify_scripts
        then map_err Chain_Script (verify_transaction_scripts_with_flags L tx prevouts (cx_script_flags c))
        else Ok ())) (\<lambda>_.
     pst_bind (pst_expect (created_outputs L tx txid (cx_height c) (cx_now c) (cx_creation_mtp c) False))
       (\<lambda>created.
     pst_ret \<lparr>pt_validated = \<lparr>vt_txid = txid, vt_input_value_sats = input_value,
                vt_output_value_sats = output_value,
                vt_sigop_cost = transaction_sigop_cost L tx prevouts (cx_script_flags c)\<rparr>,
              pt_spent = spent, pt_created = created, pt_prevouts = prevouts\<rparr>))))))"

definition prepare_transaction_with_context ::
  "'st utxo_ops \<Rightarrow> bitcoin_lib \<Rightarrow> transaction \<Rightarrow> hash256 option \<Rightarrow> tx_context \<Rightarrow> bool
     \<Rightarrow> ('st, chainstate_error, prepared_transaction) pst" where
  "prepare_transaction_with_context ops L tx precomputed_txid c verify_scripts =
     pst_bind (pst_lift (check_transaction_outputs L tx c)) (\<lambda>output_value.
       let txid = (case precomputed_txid of Some t \<Rightarrow> t | None \<Rightarrow> compute_txid L tx)
       in if tx_is_coinbase L tx then prepare_coinbase L tx txid c output_value
          else prepare_spend ops L tx txid c verify_scripts output_value)"

definition prepare_transaction_for_block ::
  "'st utxo_ops \<Rightarrow> bitcoin_lib \<Rightarrow> transaction \<Rightarrow> hash256 \<Rightarrow> tx_context
     \<Rightarrow> ('st, chainstate_error, prepared_transaction) pst" where
  "prepare_transaction_for_block ops L tx txid c =
     prepare_transaction_with_context ops L tx (Some txid) c False"


section \<open>Application\<close>

definition applied_of :: "validated_transaction \<Rightarrow> utxo_undo \<Rightarrow> applied_transaction" where
  "applied_of v undo =
     \<lparr>at_txid = vt_txid v, at_input_value_sats = vt_input_value_sats v,
      at_output_value_sats = vt_output_value_sats v, at_sigop_cost = vt_sigop_cost v, at_undo = undo\<rparr>"

definition apply_transaction_with_context ::
  "'st utxo_ops \<Rightarrow> bitcoin_lib \<Rightarrow> transaction \<Rightarrow> tx_context
     \<Rightarrow> ('st, chainstate_error, applied_transaction) pst" where
  "apply_transaction_with_context ops L tx c =
     pst_bind (prepare_transaction_with_context ops L tx None c True) (\<lambda>prepared.
     pst_bind (pst_of Chain_Utxo (ops_apply_with_undo ops (pt_spent prepared) (pt_created prepared))) (\<lambda>undo.
       pst_ret (applied_of (pt_validated prepared) undo)))"

definition apply_transaction ::
  "'st utxo_ops \<Rightarrow> bitcoin_lib \<Rightarrow> transaction \<Rightarrow> tx_context
     \<Rightarrow> ('st, chainstate_error, applied_transaction) pst" where
  "apply_transaction ops L tx c = apply_transaction_with_context ops L tx (c\<lparr>cx_csv_active := False\<rparr>)"

definition apply_transaction_with_deferred_scripts ::
  "'st utxo_ops \<Rightarrow> bitcoin_lib \<Rightarrow> transaction \<Rightarrow> hash256 \<Rightarrow> tx_context
     \<Rightarrow> ('st, chainstate_error, applied_transaction \<times> utxo list) pst" where
  "apply_transaction_with_deferred_scripts ops L tx txid c =
     pst_bind (prepare_transaction_with_context ops L tx (Some txid) c False) (\<lambda>prepared.
     pst_bind (pst_of Chain_Utxo (ops_apply_with_undo_fresh_outputs_from_prevouts ops
                 (pt_spent prepared) (pt_prevouts prepared) (pt_created prepared))) (\<lambda>undo.
       pst_ret (applied_of (pt_validated prepared) undo, pt_prevouts prepared)))"

definition validate_transaction_with_context ::
  "'st utxo_ops \<Rightarrow> bitcoin_lib \<Rightarrow> transaction \<Rightarrow> tx_context
     \<Rightarrow> ('st, chainstate_error, validated_transaction) pst" where
  "validate_transaction_with_context ops L tx c =
     pst_bind (prepare_transaction_with_context ops L tx None (c\<lparr>cx_now := 0\<rparr>) True) (\<lambda>prepared.
       pst_ret (pt_validated prepared))"


section \<open>Evaluation\<close>

lemma oversize_code [code]: "oversize n \<longleftrightarrow> 1000000 < int n"
  by (auto simp: oversize_def usize_saturating_mul_def usize_max_def)

lemma is_unspendable_code [code]:
  "is_unspendable L script \<longleftrightarrow> script_is_op_return L script \<or> 10000 < int (length script)"
  by (simp add: is_unspendable_def max_script_size_def)

end
