(* ===== verification/Blockchain.thy ===== *)
theory Blockchain
  imports Chainstate Signet Merkle
begin

text \<open>
  Blocks, \<open>src/src/blockchain.rs\<close>: structural validation, application of a block's
  transactions with rollback on failure, preparation without writing, the deferred
  script checks and their worker pool, and disconnection.

  The worker pool is the record \<open>script_pool\<close>: how many workers it has, and in which
  order the results of a batch reach the channel. The cancellation flag of a batch is
  set only when the batch is dropped, after its results were taken, and is left out.
\<close>

definition max_block_weight :: u64 where
  "max_block_weight = 4000000"

definition max_block_sigops_cost :: u64 where
  "max_block_sigops_cost = 80000"

record applied_block =
  ab_hash :: hash256
  ab_transaction_undos :: "utxo_undo list"

record deferred_script_check =
  dc_index :: nat
  dc_block_order :: nat
  dc_transaction :: transaction
  dc_prevouts :: "utxo list"
  dc_script_flags :: u32

definition set_block_order :: "nat \<Rightarrow> deferred_script_check \<Rightarrow> deferred_script_check" where
  "set_block_order block_order check = check\<lparr>dc_block_order := block_order\<rparr>"

datatype block_error =
    Block_Empty
  | MissingCoinbase
  | MultipleCoinbase
  | MerkleRoot
  | MutatedMerkleTree
  | WitnessCommitment
  | UnexpectedWitness
  | Block_Signet signet_error
  | Bip34Height u32
  | Weight u64
  | ExcessCoinbase u64 u64
  | FeeOutOfRange u64
  | FeeOverflow
  | SigopCost u64
  | SigopOverflow
  | Block_Transaction nat chainstate_error
  | Rollback utxo_error

definition block_is_peer_invalid :: "block_error \<Rightarrow> bool" where
  "block_is_peer_invalid e =
     (case e of
        Block_Transaction _ source \<Rightarrow> chainstate_is_peer_invalid source
      | Rollback _ \<Rightarrow> False
      | _ \<Rightarrow> True)"


section \<open>Deferred scripts\<close>

type_synonym script_result = "(nat \<times> nat \<times> consensus_error) option"

record script_pool =
  pool_workers :: nat
  pool_arrival :: "script_result list \<Rightarrow> script_result list"

definition script_validation_work_size :: nat where
  "script_validation_work_size = 16"

definition check_scripts :: "bitcoin_lib \<Rightarrow> deferred_script_check \<Rightarrow> consensus_error + unit" where
  "check_scripts L check =
     verify_transaction_scripts_with_flags L (dc_transaction check) (dc_prevouts check)
       (dc_script_flags check)"

text \<open>
  One work item stops at its first failing job. A job that unwinds is reported as a failure at
  position (0, 0). The jobs end in the interpreter, which is a total parameter of the model, so the
  jobs of a work item always return; the cancellation flag is raised only when the batch is dropped,
  after its results have been read.
\<close>

definition contain_script_worker_panic :: "script_result option \<Rightarrow> script_result" where
  "contain_script_worker_panic validate =
     (case validate of None \<Rightarrow> Some (0, 0, WorkerPanicked) | Some result \<Rightarrow> result)"

fun run_script_jobs :: "bitcoin_lib \<Rightarrow> deferred_script_check list \<Rightarrow> script_result option" where
  "run_script_jobs L [] = Some None"
| "run_script_jobs L (job # jobs) =
     (case check_scripts L job of
        Inl error \<Rightarrow> Some (Some (dc_block_order job, dc_index job, error))
      | Inr _ \<Rightarrow> run_script_jobs L jobs)"

definition execute_script_work :: "bitcoin_lib \<Rightarrow> deferred_script_check list \<Rightarrow> script_result" where
  "execute_script_work L jobs = contain_script_worker_panic (run_script_jobs L jobs)"

lemma execute_script_work_simps [simp]:
  "execute_script_work L [] = None"
  "execute_script_work L (job # jobs) =
     (case check_scripts L job of
        Inl error \<Rightarrow> Some (dc_block_order job, dc_index job, error)
      | Inr _ \<Rightarrow> execute_script_work L jobs)"
  by (simp_all add: execute_script_work_def contain_script_worker_panic_def split: sum.split)

text \<open>The work items of one \<open>submit\<close>: full ones as they fill up, then the rest.\<close>

fun submit_loop ::
  "deferred_script_check list \<Rightarrow> deferred_script_check list \<Rightarrow> deferred_script_check list list" where
  "submit_loop jobs [] = (if jobs = [] then [] else [jobs])"
| "submit_loop jobs (check # checks) =
     (let jobs = jobs @ [check]
      in if length jobs = script_validation_work_size then jobs # submit_loop [] checks
         else submit_loop jobs checks)"

type_synonym script_batch = "deferred_script_check list list"

definition batch_submit :: "script_batch \<Rightarrow> deferred_script_check list \<Rightarrow> script_batch" where
  "batch_submit batch checks = batch @ submit_loop [] checks"

text \<open>\<open>Iterator::min_by_key\<close> over (block order, index): the first of the least.\<close>

definition before :: "nat \<times> nat \<times> consensus_error \<Rightarrow> nat \<times> nat \<times> consensus_error \<Rightarrow> bool" where
  "before a b \<longleftrightarrow> fst a < fst b \<or> fst a = fst b \<and> fst (snd a) < fst (snd b)"

fun min_failure :: "script_result \<Rightarrow> (nat \<times> nat \<times> consensus_error) list \<Rightarrow> script_result" where
  "min_failure best [] = best"
| "min_failure best (r # rs) =
     min_failure (case best of None \<Rightarrow> Some r | Some b \<Rightarrow> if before r b then Some r else Some b) rs"

definition finish_with_order :: "bitcoin_lib \<Rightarrow> script_pool \<Rightarrow> script_batch \<Rightarrow> script_result" where
  "finish_with_order L P batch =
     min_failure None (List.map_filter id (pool_arrival P (map (execute_script_work L) batch)))"

definition batch_finish :: "bitcoin_lib \<Rightarrow> script_pool \<Rightarrow> script_batch \<Rightarrow> (nat \<times> consensus_error) option" where
  "batch_finish L P batch = map_option snd (finish_with_order L P batch)"

fun first_script_failure ::
  "bitcoin_lib \<Rightarrow> deferred_script_check list \<Rightarrow> (nat \<times> consensus_error) option" where
  "first_script_failure L [] = None"
| "first_script_failure L (check # checks) =
     (case check_scripts L check of
        Inl error \<Rightarrow> Some (dc_index check, error)
      | Inr _ \<Rightarrow> first_script_failure L checks)"

definition verify_deferred_scripts ::
  "bitcoin_lib \<Rightarrow> script_pool \<Rightarrow> deferred_script_check list \<Rightarrow> (nat \<times> consensus_error) option" where
  "verify_deferred_scripts L P checks =
     (if checks = [] then None
      else let input_count = sum_list (map (\<lambda>check. length (tx_input (dc_transaction check))) checks)
           in if pool_workers P = 1 \<or> length checks = 1 \<or> input_count < 8
              then first_script_failure L checks
              else batch_finish L P (batch_submit [] checks))"

text \<open>A script failure replaces the error found while the block was applied.\<close>

definition with_script_failure :: "(nat \<times> consensus_error) option \<Rightarrow> block_error \<Rightarrow> block_error" where
  "with_script_failure failure e =
     (case failure of Some (index, source) \<Rightarrow> Block_Transaction index (Chain_Script source) | None \<Rightarrow> e)"


section \<open>Structure\<close>

function encode_script_num :: "u32 \<Rightarrow> bytes" where
  "encode_script_num v =
     (if v = 0 then [] else ucast (v AND 0xFF) # encode_script_num (drop_bit 8 v))"
  by pat_completeness auto
termination
proof (relation "measure unat")
  fix v :: u32
  assume "v \<noteq> 0"
  then have "0 < unat v" by (simp add: unat_gt_0)
  moreover have "unat (drop_bit 8 v) = unat v div 256"
    by (simp only: unat_drop_bit_eq) (simp add: drop_bit_eq_div)
  ultimately show "(drop_bit 8 v, v) \<in> measure unat" by simp
qed simp

declare encode_script_num.simps [simp del]

text \<open>\<open>encode_script_num\<close> is the loop of the source; the sign byte is added after it.\<close>

definition encode_script_num_signed :: "u32 \<Rightarrow> bytes" where
  "encode_script_num_signed v =
     (let encoded = encode_script_num v
      in if encoded \<noteq> [] \<and> last encoded AND 0x80 \<noteq> 0 then encoded @ [0] else encoded)"

definition encode_script_num_push :: "u32 \<Rightarrow> bytes" where
  "encode_script_num_push height =
     (if height = 0 then [0x00]
      else if height \<le> 16 then [0x50 + ucast height]
      else let encoded = encode_script_num_signed height
           in word_of_nat (length encoded) # encoded)"

text \<open>\<open>None\<close> is an index out of range, here and below.\<close>

definition coinbase_has_height :: "transaction \<Rightarrow> u32 \<Rightarrow> bool option" where
  "coinbase_has_height tx height =
     (case tx_input tx of
        [] \<Rightarrow> None
      | input # _ \<Rightarrow>
          let expected = encode_script_num_push height
          in Some (length expected \<le> length (script_sig input)
                   \<and> take (length expected) (script_sig input) = expected))"

definition check_witness_commitment :: "bitcoin_lib \<Rightarrow> block \<Rightarrow> bool \<Rightarrow> (block_error + unit) option" where
  "check_witness_commitment L block segwit_on =
     (case txdata block of
        [] \<Rightarrow> None
      | coinbase # _ \<Rightarrow>
          let has_commitment = list_ex is_commitment (tx_output coinbase);
              has_witness = list_ex (\<lambda>input. witness input \<noteq> []) (concat (map tx_input (txdata block)))
          in if segwit_on \<and> has_commitment
             then (case tx_input coinbase of
                     [] \<Rightarrow> None
                   | input # _ \<Rightarrow>
                       let reserved = witness input
                       in if length reserved \<noteq> 1 \<or> length (reserved ! 0) \<noteq> 32
                             \<or> \<not> lib_check_witness_commitment L block
                          then Some (Err WitnessCommitment) else Some (Ok ()))
             else if has_witness then Some (Err UnexpectedWitness) else Some (Ok ()))"

definition check_block_signet ::
  "bitcoin_lib \<Rightarrow> block \<Rightarrow> bytes option \<Rightarrow> (block_error + unit) option" where
  "check_block_signet L block challenge_script =
     (case challenge_script of
        Some challenge \<Rightarrow>
          if block_hash L (b_header block) \<noteq> block_hash L (genesis_header L Signet)
          then map_option (map_err Block_Signet) (validate_signet_block_solution L block challenge)
          else Some (Ok ())
      | None \<Rightarrow> Some (Ok ()))"

definition validate_block_structure_with_deployments_and_txids ::
  "bitcoin_lib \<Rightarrow> block \<Rightarrow> u32 \<Rightarrow> bool \<Rightarrow> bool \<Rightarrow> bytes option \<Rightarrow> (block_error + hash256 list) option" where
  "validate_block_structure_with_deployments_and_txids L block height bip34_on segwit_on challenge_script =
     bind_call (check_block_signet L block challenge_script) (\<lambda>_.
     case txdata block of
       [] \<Rightarrow> Some (Err Block_Empty)
     | coinbase # others \<Rightarrow>
         if \<not> tx_is_coinbase L coinbase then Some (Err MissingCoinbase)
         else
         bind_call (if bip34_on then expect (coinbase_has_height coinbase height) else Some (Ok True)) (\<lambda>has_height.
         if \<not> has_height then Some (Err (Bip34Height height))
         else if list_ex (tx_is_coinbase L) others then Some (Err MultipleCoinbase)
         else
         let transaction_ids = map (compute_txid L) (txdata block);
             (root, mutated) = transaction_merkle_root L transaction_ids
         in if root \<noteq> Some (merkle_root (b_header block)) then Some (Err MerkleRoot)
            else if mutated then Some (Err MutatedMerkleTree)
            else
            bind_call (check_witness_commitment L block segwit_on) (\<lambda>_.
            if max_block_weight < block_weight L block then Some (Err (Weight (block_weight L block)))
            else Some (Ok transaction_ids))))"

definition validate_block_structure_with_deployments ::
  "bitcoin_lib \<Rightarrow> block \<Rightarrow> u32 \<Rightarrow> bool \<Rightarrow> bool \<Rightarrow> bytes option \<Rightarrow> (block_error + unit) option" where
  "validate_block_structure_with_deployments L block height bip34_on segwit_on challenge_script =
     bind_call (validate_block_structure_with_deployments_and_txids L block height bip34_on
                  segwit_on challenge_script) (\<lambda>_. Some (Ok ()))"

definition validate_block_structure ::
  "bitcoin_lib \<Rightarrow> block \<Rightarrow> u32 \<Rightarrow> u32 \<Rightarrow> bool \<Rightarrow> (block_error + unit) option" where
  "validate_block_structure L block height flags bip34_on =
     validate_block_structure_with_deployments L block height bip34_on
       (flags AND verify_witness \<noteq> 0) None"


section \<open>Accounting\<close>

text \<open>The running fees and signature operation cost after one more transaction.\<close>

definition account_fees :: "nat \<Rightarrow> u64 \<Rightarrow> u64 \<Rightarrow> u64 \<Rightarrow> (block_error + u64) option" where
  "account_fees index input_value output_value fees =
     (if index = 0 then Some (Ok fees)
      else bind_call (expect (checked_sub input_value output_value)) (\<lambda>transaction_fee.
           bind_call (Some (ok_or (checked_add fees transaction_fee) FeeOverflow)) (\<lambda>next_fees.
             if max_money_sats < next_fees then Some (Err (FeeOutOfRange next_fees))
             else Some (Ok next_fees))))"

definition account_transaction ::
  "nat \<Rightarrow> u64 \<Rightarrow> u64 \<Rightarrow> u64 \<Rightarrow> u64 \<Rightarrow> u64 \<Rightarrow> (block_error + (u64 \<times> u64)) option" where
  "account_transaction index input_value output_value cost sigop_cost fees =
     bind_call (account_fees index input_value output_value fees) (\<lambda>fees.
     bind_call (Some (ok_or (checked_add sigop_cost cost) SigopOverflow)) (\<lambda>sigop_cost.
       if max_block_sigops_cost < sigop_cost then Some (Err (SigopCost sigop_cost))
       else Some (Ok (sigop_cost, fees))))"


section \<open>Application\<close>

fun undo_all :: "'st utxo_ops \<Rightarrow> utxo_undo list \<Rightarrow> u64 \<Rightarrow> u64 \<Rightarrow> ('st, utxo_error, unit) st" where
  "undo_all ops [] now hot_window_secs = st_ret ()"
| "undo_all ops (undo # undos) now hot_window_secs =
     st_bind (ops_undo ops undo now hot_window_secs) (\<lambda>_. undo_all ops undos now hot_window_secs)"

definition rollback ::
  "'st utxo_ops \<Rightarrow> applied_transaction list \<Rightarrow> u64 \<Rightarrow> u64 \<Rightarrow> ('st, block_error, unit) pst" where
  "rollback ops applied now hot_window_secs =
     pst_of Rollback (undo_all ops (map at_undo (rev applied)) now hot_window_secs)"

definition disconnect_block ::
  "'st utxo_ops \<Rightarrow> applied_block \<Rightarrow> u64 \<Rightarrow> u64 \<Rightarrow> ('st, utxo_error, unit) st" where
  "disconnect_block ops applied now hot_window_secs =
     undo_all ops (rev (ab_transaction_undos applied)) now hot_window_secs"

definition txid_at :: "bitcoin_lib \<Rightarrow> hash256 list option \<Rightarrow> nat \<Rightarrow> transaction \<Rightarrow> hash256 option" where
  "txid_at L transaction_ids index tx =
     (case transaction_ids of
        None \<Rightarrow> Some (compute_txid L tx)
      | Some ids \<Rightarrow> if index < length ids then Some (ids ! index) else None)"

definition add_script_check ::
  "deferred_script_check list \<Rightarrow> nat \<Rightarrow> transaction \<Rightarrow> utxo list \<Rightarrow> u32 \<Rightarrow> deferred_script_check list" where
  "add_script_check checks index tx prevouts flags =
     (if index = 0 then checks
      else checks @ [\<lparr>dc_index = index, dc_block_order = 0, dc_transaction = tx,
                      dc_prevouts = prevouts, dc_script_flags = flags\<rparr>])"

type_synonym 't block_progress = "'t list \<times> deferred_script_check list \<times> u64 \<times> u64"

fun apply_transactions ::
  "'st utxo_ops \<Rightarrow> bitcoin_lib \<Rightarrow> script_pool \<Rightarrow> hash256 list option \<Rightarrow> tx_context \<Rightarrow> u64
     \<Rightarrow> nat \<Rightarrow> transaction list \<Rightarrow> applied_transaction block_progress
     \<Rightarrow> ('st, block_error, applied_transaction block_progress) pst" where
  "apply_transactions ops L P ids c window index [] acc = pst_ret acc"
| "apply_transactions ops L P ids c window index (tx # txs) (applied, checks, sigop_cost, fees) =
     pst_bind (pst_expect (txid_at L ids index tx)) (\<lambda>txid.
     pst_match (apply_transaction_with_deferred_scripts ops L tx txid c)
       (\<lambda>(t, prevouts).
          pst_match (pst_call (account_transaction index (at_input_value_sats t) (at_output_value_sats t)
                                 (at_sigop_cost t) sigop_cost fees))
            (\<lambda>(sigop_cost, fees).
               apply_transactions ops L P ids c window (Suc index) txs
                 (applied @ [t], add_script_check checks index tx prevouts (cx_script_flags c), sigop_cost, fees))
            (\<lambda>e. pst_bind (rollback ops (applied @ [t]) (cx_now c) window) (\<lambda>_. pst_err e)))
       (\<lambda>source.
          pst_bind (rollback ops applied (cx_now c) window) (\<lambda>_.
            pst_err (with_script_failure (verify_deferred_scripts L P checks)
                       (Block_Transaction index source)))))"

text \<open>The error after the loop, if any: scripts that were not deferred, then the coinbase value.\<close>

definition coinbase_error ::
  "bitcoin_lib \<Rightarrow> script_pool \<Rightarrow> deferred_script_check list \<Rightarrow> u64 \<Rightarrow> u64 \<Rightarrow> u64 \<Rightarrow> block_error + unit" where
  "coinbase_error L P checks claimed subsidy fees =
     (case checked_add subsidy fees of
        None \<Rightarrow> Err (with_script_failure (verify_deferred_scripts L P checks) FeeOverflow)
      | Some allowed \<Rightarrow>
          if allowed < claimed
          then Err (with_script_failure (verify_deferred_scripts L P checks) (ExcessCoinbase claimed allowed))
          else Ok ())"

definition finish_block ::
  "'st utxo_ops \<Rightarrow> bitcoin_lib \<Rightarrow> script_pool \<Rightarrow> block \<Rightarrow> u64 \<Rightarrow> u64 \<Rightarrow> u64 \<Rightarrow> bool
     \<Rightarrow> applied_transaction block_progress
     \<Rightarrow> ('st, block_error, applied_block \<times> deferred_script_check list) pst" where
  "finish_block ops L P block now window subsidy defer_scripts progress =
     (case progress of (applied, checks, sigop_cost, fees) \<Rightarrow>
       case (if defer_scripts then None else verify_deferred_scripts L P checks) of
         Some (index, source) \<Rightarrow>
           pst_bind (rollback ops applied now window) (\<lambda>_.
             pst_err (Block_Transaction index (Chain_Script source)))
       | None \<Rightarrow>
           let checks = (if defer_scripts then checks else [])
           in pst_bind (pst_expect (case applied of [] \<Rightarrow>
                if checked_add subsidy fees = None then Some 0 else None
              | t # _ \<Rightarrow> Some (at_output_value_sats t))) (\<lambda>claimed.
              pst_match (pst_lift (coinbase_error L P checks claimed subsidy fees))
                (\<lambda>_. pst_ret (\<lparr>ab_hash = block_hash L (b_header block),
                               ab_transaction_undos = map at_undo applied\<rparr>, checks))
                (\<lambda>e. pst_bind (rollback ops applied now window) (\<lambda>_. pst_err e))))"

definition block_tx_context :: "block \<Rightarrow> u32 \<Rightarrow> u64 \<Rightarrow> u32 \<Rightarrow> u32 \<Rightarrow> bool \<Rightarrow> tx_context" where
  "block_tx_context block height now mtp flags csv_on =
     \<lparr>cx_height = height, cx_now = now, cx_creation_mtp = mtp,
      cx_lock_time_context = (if csv_on then mtp else h_time (b_header block)),
      cx_script_flags = flags, cx_csv_active = csv_on\<rparr>"

definition apply_prevalidated_block_with_deployments_inner ::
  "'st utxo_ops \<Rightarrow> bitcoin_lib \<Rightarrow> script_pool \<Rightarrow> block \<Rightarrow> hash256 list option \<Rightarrow> u32 \<Rightarrow> u64 \<Rightarrow> u32
     \<Rightarrow> u64 \<Rightarrow> u32 \<Rightarrow> bool \<Rightarrow> u64 \<Rightarrow> bool
     \<Rightarrow> ('st, block_error, applied_block \<times> deferred_script_check list) pst" where
  "apply_prevalidated_block_with_deployments_inner ops L P block transaction_ids height now mtp
     window flags csv_on subsidy defer_scripts =
     pst_bind (apply_transactions ops L P transaction_ids
                 (block_tx_context block height now mtp flags csv_on)
                 window 0 (txdata block) ([], [], 0, 0))
       (finish_block ops L P block now window subsidy defer_scripts)"

definition apply_prevalidated_block_with_deferred_scripts_and_txids ::
  "'st utxo_ops \<Rightarrow> bitcoin_lib \<Rightarrow> script_pool \<Rightarrow> block \<Rightarrow> hash256 list \<Rightarrow> u32 \<Rightarrow> u64 \<Rightarrow> u32
     \<Rightarrow> u64 \<Rightarrow> u32 \<Rightarrow> bool \<Rightarrow> u64
     \<Rightarrow> ('st, block_error, applied_block \<times> deferred_script_check list) pst" where
  "apply_prevalidated_block_with_deferred_scripts_and_txids ops L P block transaction_ids height now mtp
     window flags csv_on subsidy =
     (if length transaction_ids \<noteq> length (txdata block) then pst_err MerkleRoot
      else apply_prevalidated_block_with_deployments_inner ops L P block (Some transaction_ids) height now mtp
             window flags csv_on subsidy True)"

definition apply_prevalidated_block_with_deferred_scripts ::
  "'st utxo_ops \<Rightarrow> bitcoin_lib \<Rightarrow> script_pool \<Rightarrow> block \<Rightarrow> u32 \<Rightarrow> u64 \<Rightarrow> u32
     \<Rightarrow> u64 \<Rightarrow> u32 \<Rightarrow> bool \<Rightarrow> u64
     \<Rightarrow> ('st, block_error, applied_block \<times> deferred_script_check list) pst" where
  "apply_prevalidated_block_with_deferred_scripts ops L P block height now mtp window flags
     csv_on subsidy =
     apply_prevalidated_block_with_deferred_scripts_and_txids ops L P block
       (map (compute_txid L) (txdata block)) height now mtp window flags csv_on subsidy"

definition apply_prevalidated_block_with_deployments ::
  "'st utxo_ops \<Rightarrow> bitcoin_lib \<Rightarrow> script_pool \<Rightarrow> block \<Rightarrow> u32 \<Rightarrow> u64 \<Rightarrow> u32
     \<Rightarrow> u64 \<Rightarrow> u32 \<Rightarrow> bool \<Rightarrow> u64 \<Rightarrow> ('st, block_error, applied_block) pst" where
  "apply_prevalidated_block_with_deployments ops L P block height now mtp window flags
     csv_on subsidy =
     pst_bind (apply_prevalidated_block_with_deployments_inner ops L P block None height now mtp window
                 flags csv_on subsidy False)
       (\<lambda>(applied, _). pst_ret applied)"

definition apply_block_with_deployments ::
  "'st utxo_ops \<Rightarrow> bitcoin_lib \<Rightarrow> script_pool \<Rightarrow> block \<Rightarrow> u32 \<Rightarrow> u64 \<Rightarrow> u32
     \<Rightarrow> u64 \<Rightarrow> u32 \<Rightarrow> bool \<Rightarrow> bool \<Rightarrow> bool \<Rightarrow> bytes option \<Rightarrow> u64 \<Rightarrow> ('st, block_error, applied_block) pst" where
  "apply_block_with_deployments ops L P block height now mtp window flags bip34_on
     csv_on segwit_on challenge_script subsidy =
     pst_bind (pst_call (validate_block_structure_with_deployments L block height bip34_on
                           segwit_on challenge_script)) (\<lambda>_.
       apply_prevalidated_block_with_deployments ops L P block height now mtp window flags
         csv_on subsidy)"

definition apply_block_with_context ::
  "'st utxo_ops \<Rightarrow> bitcoin_lib \<Rightarrow> script_pool \<Rightarrow> block \<Rightarrow> u32 \<Rightarrow> u64 \<Rightarrow> u32
     \<Rightarrow> u64 \<Rightarrow> u32 \<Rightarrow> bool \<Rightarrow> ('st, block_error, applied_block) pst" where
  "apply_block_with_context ops L P block height now mtp window flags bip34_on =
     pst_bind (pst_expect (block_subsidy height)) (\<lambda>subsidy.
       apply_block_with_deployments ops L P block height now mtp window flags bip34_on False
         (flags AND verify_witness \<noteq> 0) None subsidy)"

definition apply_block_with_bip34 ::
  "'st utxo_ops \<Rightarrow> bitcoin_lib \<Rightarrow> script_pool \<Rightarrow> block \<Rightarrow> u32 \<Rightarrow> u64 \<Rightarrow> u32
     \<Rightarrow> u64 \<Rightarrow> u32 \<Rightarrow> bool \<Rightarrow> ('st, block_error, applied_block) pst" where
  "apply_block_with_bip34 ops L P block height now mtp window flags bip34_on =
     pst_bind (pst_expect (block_subsidy height)) (\<lambda>subsidy.
       apply_block_with_deployments ops L P block height now mtp window flags bip34_on False
         (flags AND verify_witness \<noteq> 0) None subsidy)"

definition apply_block ::
  "'st utxo_ops \<Rightarrow> bitcoin_lib \<Rightarrow> script_pool \<Rightarrow> block \<Rightarrow> u32 \<Rightarrow> u64 \<Rightarrow> u32
     \<Rightarrow> u64 \<Rightarrow> u32 \<Rightarrow> ('st, block_error, applied_block) pst" where
  "apply_block ops L P block height now mtp window flags =
     apply_block_with_bip34 ops L P block height now mtp window flags False"


section \<open>Preparation\<close>

record prepared_block =
  pb_hash :: hash256
  pb_transactions :: "prepared_transaction list"

text \<open>\<open>record_prepared\<close> is the callback by which the caller's view learns of each transaction.\<close>

fun prepare_transactions ::
  "'st utxo_ops \<Rightarrow> bitcoin_lib \<Rightarrow> script_pool \<Rightarrow> (prepared_transaction \<Rightarrow> 'st \<Rightarrow> 'st) \<Rightarrow> hash256 list
     \<Rightarrow> tx_context \<Rightarrow> nat \<Rightarrow> transaction list \<Rightarrow> prepared_transaction block_progress
     \<Rightarrow> ('st, block_error, prepared_transaction block_progress) pst" where
  "prepare_transactions ops L P record_prepared ids c index [] acc = pst_ret acc"
| "prepare_transactions ops L P record_prepared ids c index (tx # txs) (transactions, checks, sigop_cost, fees) =
     pst_bind (pst_expect (txid_at L (Some ids) index tx)) (\<lambda>txid.
     pst_match (prepare_transaction_for_block ops L tx txid c)
       (\<lambda>prepared.
          pst_bind (pst_call (account_transaction index
              (vt_input_value_sats (pt_validated prepared)) (vt_output_value_sats (pt_validated prepared))
              (vt_sigop_cost (pt_validated prepared)) sigop_cost fees))
            (\<lambda>(sigop_cost, fees). \<lambda>s.
               prepare_transactions ops L P record_prepared ids c (Suc index) txs
                 (transactions @ [prepared],
                  add_script_check checks index tx (pt_prevouts prepared) (cx_script_flags c),
                  sigop_cost, fees)
                 (record_prepared prepared s)))
       (\<lambda>source. pst_err (with_script_failure (verify_deferred_scripts L P checks)
                             (Block_Transaction index source))))"

definition prepare_prevalidated_block_with_deferred_scripts ::
  "'st utxo_ops \<Rightarrow> bitcoin_lib \<Rightarrow> script_pool \<Rightarrow> (prepared_transaction \<Rightarrow> 'st \<Rightarrow> 'st) \<Rightarrow> block
     \<Rightarrow> hash256 list \<Rightarrow> u32 \<Rightarrow> u64 \<Rightarrow> u32 \<Rightarrow> u32 \<Rightarrow> bool \<Rightarrow> u64
     \<Rightarrow> ('st, block_error, prepared_block \<times> deferred_script_check list) pst" where
  "prepare_prevalidated_block_with_deferred_scripts ops L P record_prepared block transaction_ids
     height now mtp flags csv_on subsidy =
     (if length transaction_ids \<noteq> length (txdata block) then pst_err MerkleRoot
      else pst_bind (prepare_transactions ops L P record_prepared transaction_ids
                       (block_tx_context block height now mtp flags csv_on)
                       0 (txdata block) ([], [], 0, 0))
        (\<lambda>(transactions, checks, sigop_cost, fees).
           pst_bind (pst_expect (case transactions of [] \<Rightarrow>
                if checked_add subsidy fees = None then Some 0 else None
              | t # _ \<Rightarrow> Some (vt_output_value_sats (pt_validated t)))) (\<lambda>claimed.
           pst_bind (pst_lift (coinbase_error L P checks claimed subsidy fees)) (\<lambda>_.
             pst_ret (\<lparr>pb_hash = block_hash L (b_header block), pb_transactions = transactions\<rparr>, checks)))))"

end
