(* ===== verification/Chainstate_Properties.thy ===== *)
theory Chainstate_Properties
  imports Chainstate Utxo_Store_Refine
begin

text \<open>
  The reference store, the simulation by which a run on any \<open>UtxoStore\<close> is compared
  with the run on its coin view, and what a prepared transaction guarantees: its spent
  coins exist and are distinct, its created coins are its own, its values add up.
\<close>

section \<open>The reference store\<close>

text \<open>The coin view itself as a store: the specification every other store is compared with.\<close>

definition coins_mutate ::
  "out_point_key list \<Rightarrow> coin_row list \<Rightarrow> (coins, utxo_error, utxo_undo) st" where
  "coins_mutate spent created v =
     (case coins_apply v spent created of Inl e \<Rightarrow> (Inl e, v) | Inr (undo, v') \<Rightarrow> (Inr undo, v'))"

definition coins_ops :: "coins utxo_ops" where
  "coins_ops =
     \<lparr>ops_get = (\<lambda>k v. (Inr (v k), v)),
      ops_apply_with_undo = coins_mutate,
      ops_apply_with_undo_fresh_outputs = coins_mutate,
      ops_apply_with_undo_fresh_outputs_from_prevouts = (\<lambda>spent prevouts. coins_mutate spent),
      ops_undo = (\<lambda>undo now window v. (Inr (), coins_undo v undo))\<rparr>"

lemma coins_mutate_implements:
  assumes "coins_ok v" "\<forall>r \<in> set created. row_ok r"
  shows "implements coins_ok id (\<lambda>_. UNIV) v (coins_apply v spent created) (coins_mutate spent created v)"
  using assms coins_ok_after [of v created spent]
  by (auto simp: implements_def coins_mutate_def coins_apply_Inr_iff split: sum.splits)

lemma coins_ok_undo:
  "coins_ok v \<Longrightarrow> \<forall>r \<in> set (undo_spent undo). row_ok r \<Longrightarrow> coins_ok (coins_undo v undo)"
  by (auto simp: coins_ok_def coins_undo_def map_add_def restrict_map_def
      split: option.splits if_splits dest!: map_of_SomeD)

interpretation ref_store: utxo_store coins_ops coins_ok id "\<lambda>_. UNIV"
proof
  fix s :: coins and undo :: utxo_undo and now window :: u64
  assume "coins_ok s" "\<forall>r \<in> set (undo_spent undo). row_ok r"
  then show "\<exists>s'. ops_undo coins_ops undo now window s = (Inr (), s') \<and> coins_ok s'
      \<and> id s' = coins_undo (id s) undo \<and> UNIV \<subseteq> (UNIV :: out_point_key set)"
    by (simp add: coins_ops_def coins_ok_undo)
qed (simp_all add: coins_ops_def coins_mutate_implements)


section \<open>Simulation\<close>

text \<open>A run on a store returns what the run on its view returns, and leaves that view behind.\<close>

definition sim ::
  "('st \<Rightarrow> bool) \<Rightarrow> ('st \<Rightarrow> coins) \<Rightarrow> ('st \<Rightarrow> out_point_key set)
     \<Rightarrow> ('st, 'e, 'a) pst \<Rightarrow> (coins, 'e, 'a) pst \<Rightarrow> 'st \<Rightarrow> bool" where
  "sim sound view known m a s \<longleftrightarrow>
     (case a (view s) of
        None \<Rightarrow> m s = None
      | Some (r, v) \<Rightarrow> \<exists>s'. m s = Some (r, s') \<and> sound s' \<and> view s' = v \<and> known s \<subseteq> known s')"

lemma sim_pure [simp]:
  "sound s \<Longrightarrow> sim sound view known (pst_ret x) (pst_ret x) s"
  "sound s \<Longrightarrow> sim sound view known (pst_err e) (pst_err e) s"
  "sound s \<Longrightarrow> sim sound view known (pst_lift r) (pst_lift r) s"
  "sound s \<Longrightarrow> sim sound view known (pst_expect opt) (pst_expect opt) s"
  "sound s \<Longrightarrow> sim sound view known (pst_call call) (pst_call call) s"
  by (auto simp: sim_def pst_expect_def pst_call_def split: option.splits)

lemma sim_bind:
  assumes "sim sound view known m a s"
    and "\<And>x s'. a (view s) = Some (Inr x, view s') \<Longrightarrow> m s = Some (Inr x, s') \<Longrightarrow> sound s'
           \<Longrightarrow> known s \<subseteq> known s' \<Longrightarrow> sim sound view known (f x) (g x) s'"
  shows "sim sound view known (pst_bind m f) (pst_bind a g) s"
proof (cases "a (view s)")
  case None
  with assms(1) show ?thesis by (simp add: sim_def pst_bind_step)
next
  case (Some p)
  obtain r v where p: "p = (r, v)" by (cases p)
  with assms(1) Some obtain s' where s': "m s = Some (r, s')" "sound s'" "view s' = v" "known s \<subseteq> known s'"
    by (auto simp: sim_def)
  show ?thesis
  proof (cases r)
    case (Inl e)
    with Some p s' show ?thesis by (simp add: sim_def pst_bind_step)
  next
    case (Inr x)
    with assms(2) Some p s' have "sim sound view known (f x) (g x) s'" by simp
    with Inr Some p s' show ?thesis by (auto simp: sim_def pst_bind_step split: option.splits)
  qed
qed

lemma sim_match:
  assumes "sim sound view known m a s"
    and "\<And>x s'. a (view s) = Some (Inr x, view s') \<Longrightarrow> m s = Some (Inr x, s') \<Longrightarrow> sound s'
           \<Longrightarrow> known s \<subseteq> known s' \<Longrightarrow> sim sound view known (f x) (g x) s'"
    and "\<And>e s'. a (view s) = Some (Inl e, view s') \<Longrightarrow> m s = Some (Inl e, s') \<Longrightarrow> sound s'
           \<Longrightarrow> sim sound view known (f' e) (g' e) s'"
  shows "sim sound view known (pst_match m f f') (pst_match a g g') s"
proof (cases "a (view s)")
  case None
  with assms(1) show ?thesis by (simp add: sim_def pst_match_step)
next
  case (Some p)
  obtain r v where p: "p = (r, v)" by (cases p)
  with assms(1) Some obtain s' where s': "m s = Some (r, s')" "sound s'" "view s' = v" "known s \<subseteq> known s'"
    by (auto simp: sim_def)
  show ?thesis
  proof (cases r)
    case (Inl e)
    with assms(3) Some p s' have "sim sound view known (f' e) (g' e) s'" by simp
    with Inl Some p s' show ?thesis by (auto simp: sim_def pst_match_step split: option.splits)
  next
    case (Inr x)
    with assms(2) Some p s' have "sim sound view known (f x) (g x) s'" by simp
    with Inr Some p s' show ?thesis by (auto simp: sim_def pst_match_step split: option.splits)
  qed
qed

lemma sim_match_call:
  assumes "sound s" "\<And>x. sim sound view known (f x) (g x) s" "\<And>e. sim sound view known (f' e) (g' e) s"
  shows "sim sound view known (pst_match (pst_call call) f f') (pst_match (pst_call call) g g') s"
proof (cases call)
  case None
  then show ?thesis by (simp add: sim_def)
next
  case (Some r)
  then show ?thesis using assms by (cases r) simp_all
qed

lemma sim_match_lift:
  assumes "sound s" "\<And>x. sim sound view known (f x) (g x) s" "\<And>e. sim sound view known (f' e) (g' e) s"
  shows "sim sound view known (pst_match (pst_lift r) f f') (pst_match (pst_lift r) g g') s"
  using assms by (cases r) simp_all

section \<open>Inputs on the reference store\<close>

definition input_key :: "txin \<Rightarrow> out_point_key" where
  "input_key input = key_of (previous_output input)"

definition total_value :: "utxo list \<Rightarrow> nat" where
  "total_value us = sum_list (map (\<lambda>u. unat (value_sats u)) us)"

lemma total_value_simps [simp]:
  "total_value [] = 0"
  "total_value (u # us) = unat (value_sats u) + total_value us"
  "total_value (us @ ws) = total_value us + total_value ws"
  by (simp_all add: total_value_def)

lemma check_spent_coin_value:
  "check_spent_coin L tx c input u iv = Inr iv' \<Longrightarrow> unat iv' = unat iv + unat (value_sats u) \<and> iv' \<le> max_money_sats"
  by (auto simp: check_spent_coin_def Let_def res_simps checked_add_eq_iff split: if_splits)

lemma resolve_input_coins:
  "resolve_input coins_ops L tx c (sp, pv, iv) input v =
     (bind_res (ok_or (v (input_key input)) (Chain_Utxo (Missing (input_key input)))) (\<lambda>u.
      bind_res (check_spent_coin L tx c input u iv) (\<lambda>iv'. Ok (sp @ [input_key input], pv @ [u], iv'))), v)"
  by (auto simp: resolve_input_def coins_ops_def Let_def input_key_def st_bind_def st_map_err_def
      split: option.splits sum.splits)

lemma resolve_inputs_keep: "snd (st_fold (resolve_input coins_ops L tx c) acc inputs v) = v"
proof (induction inputs arbitrary: acc)
  case (Cons i rest)
  obtain sp pv iv where acc: "acc = (sp, pv, iv)" by (cases acc)
  show ?case
    using Cons.IH
    by (auto simp: acc resolve_input_coins st_bind_def split: prod.splits sum.splits) 
qed simp

lemma resolve_inputs_coins:
  "st_fold (resolve_input coins_ops L tx c) (sp, pv, iv) inputs v = (Inr (sp', pv', iv'), v') \<Longrightarrow>
     sp' = sp @ map input_key inputs
     \<and> (\<exists>us. pv' = pv @ us \<and> map v (map input_key inputs) = map Some us
            \<and> unat iv' = unat iv + total_value us)"
proof (induction inputs arbitrary: sp pv iv)
  case (Cons i rest)
  from Cons.prems obtain acc1 v1 where step: "resolve_input coins_ops L tx c (sp, pv, iv) i v = (Inr acc1, v1)"
    and more: "st_fold (resolve_input coins_ops L tx c) acc1 rest v1 = (Inr (sp', pv', iv'), v')"
    by (auto simp: st_bind_eq_Inr)
  from step obtain u iv1 where u: "v (input_key i) = Some u" "check_spent_coin L tx c i u iv = Inr iv1"
    "acc1 = (sp @ [input_key i], pv @ [u], iv1)" "v1 = v"
    unfolding resolve_input_coins prod.inject bind_res_eq_Inr ok_or_eq_Inr by blast
  from Cons.IH [OF more [unfolded u(3,4)]] obtain us where
    "sp' = (sp @ [input_key i]) @ map input_key rest" "pv' = (pv @ [u]) @ us"
    "map v (map input_key rest) = map Some us" "unat iv' = unat iv1 + total_value us"
    by blast
  with check_spent_coin_value [OF u(2)] u(1) show ?case
    by (intro conjI exI [of _ "u # us"]) simp_all
qed auto

lemma check_unique_inputs_distinct:
  "check_unique_inputs L seen inputs = Inr () \<Longrightarrow>
     distinct (map input_key inputs) \<and> set (map input_key inputs) \<inter> seen = {}"
  by (induction L seen inputs rule: check_unique_inputs.induct)
    (auto simp: Let_def input_key_def split: if_splits)

section \<open>Created coins\<close>

lemma those_Some: "those xs = Some ys \<longleftrightarrow> xs = map Some ys"
proof (induction xs arbitrary: ys)
  case (Cons x xs)
  then show ?case by (cases x; cases ys) auto
qed auto

lemma those_map_total: "(\<And>x. x \<in> set xs \<Longrightarrow> f x \<noteq> None) \<Longrightarrow> \<exists>ys. those (map f xs) = Some ys"
proof (induction xs)
  case (Cons x xs)
  then obtain y ys where "f x = Some y" "those (map f xs) = Some ys" by fastforce
  then show ?case by simp
qed simp

definition tx_key :: "hash256 \<Rightarrow> nat \<Rightarrow> out_point_key" where
  "tx_key txid vout = key_of \<lparr>op_txid = txid, op_vout = word_of_nat vout\<rparr>"

lemma map_eq_map_Some:
  "map f xs = map Some ys \<Longrightarrow> (\<And>x y. f x = Some y \<longleftrightarrow> Q x \<and> y = g x) \<Longrightarrow> ys = map g xs \<and> (\<forall>x \<in> set xs. Q x)"
proof (induction xs arbitrary: ys)
  case (Cons x xs)
  then show ?case by (cases ys) auto
qed simp

text \<open>What \<open>created_outputs\<close> returns: one row per spendable output, under its own index.\<close>

lemma created_outputs_rows:
  assumes "created_outputs L tx txid h now mtp cb = Some rows"
  shows "\<exists>outs. outs = filter (\<lambda>(_, output). \<not> is_unspendable L (txo_script output)) (enumerate 0 (tx_output tx))
    \<and> (\<forall>(vout, _) \<in> set outs. vout < 2 ^ 32)
    \<and> rows = map (\<lambda>(vout, output). (tx_key txid vout,
        \<lparr>value_sats = txo_value output, utxo_height = h, is_coinbase = cb, last_touched = now,
         creation_mtp = mtp, script_pubkey = txo_script output\<rparr>)) outs"
proof -
  let ?outs = "filter (\<lambda>(_, output). \<not> is_unspendable L (txo_script output)) (enumerate 0 (tx_output tx))"
  let ?row = "\<lambda>(vout, output). (tx_key txid vout,
        \<lparr>value_sats = txo_value output, utxo_height = h, is_coinbase = cb, last_touched = now,
         creation_mtp = mtp, script_pubkey = txo_script output\<rparr>)"
  have one: "created_output txid h now mtp cb p = Some r \<longleftrightarrow> fst p < 2 ^ 32 \<and> r = ?row p" for p r
    by (cases p) (auto simp: created_output_def u32_try_from_def tx_key_def)
  have "map (created_output txid h now mtp cb) ?outs = map Some rows"
    using assms by (simp add: created_outputs_def those_Some)
  then have "rows = map ?row ?outs \<and> (\<forall>p \<in> set ?outs. fst p < 2 ^ 32)"
    by (rule map_eq_map_Some) (simp only: one)
  then show ?thesis by auto
qed

lemma created_outputs_total:
  assumes "length (tx_output tx) \<le> 2 ^ 32"
  shows "\<exists>rows. created_outputs L tx txid h now mtp cb = Some rows"
  unfolding created_outputs_def
  by (rule those_map_total)
    (use assms in \<open>auto simp: created_output_def u32_try_from_def in_set_enumerate_eq\<close>)

lemma tx_key_inject: "i < 2 ^ 32 \<Longrightarrow> j < 2 ^ 32 \<Longrightarrow> tx_key t i = tx_key u j \<longleftrightarrow> t = u \<and> i = j"
  by (auto simp: tx_key_def dest: arg_cong [where f = unat] simp: unat_word_of_nat_u32)

lemma created_keys_distinct:
  assumes "distinct vouts" "\<forall>vout \<in> set vouts. vout < 2 ^ 32"
  shows "distinct (map (tx_key txid) vouts)"
  using assms by (auto simp: distinct_map inj_on_def tx_key_inject)

lemma created_outputs_ok:
  assumes "created_outputs L tx txid h now mtp cb = Some rows"
  shows "distinct (map fst rows)" "\<forall>r \<in> set rows. row_ok r \<and> (\<exists>vout. fst r = tx_key txid vout)"
    "total_value (map snd rows) \<le> sum_list (map (\<lambda>o'. unat (txo_value o')) (tx_output tx))"
proof -
  obtain outs where outs: "outs = filter (\<lambda>(_, output). \<not> is_unspendable L (txo_script output)) (enumerate 0 (tx_output tx))"
    and small: "\<forall>(vout, _) \<in> set outs. vout < 2 ^ 32"
    and rows: "rows = map (\<lambda>(vout, output). (tx_key txid vout,
        \<lparr>value_sats = txo_value output, utxo_height = h, is_coinbase = cb, last_touched = now,
         creation_mtp = mtp, script_pubkey = txo_script output\<rparr>)) outs"
    using created_outputs_rows [OF assms] by blast
  have "distinct (map fst outs)"
    unfolding outs by (intro distinct_map_filter) (simp add: enumerate_eq_zip)
  from created_keys_distinct [OF this, of txid] small
  show "distinct (map fst rows)" by (force simp: rows case_prod_unfold comp_def)
  show "\<forall>r \<in> set rows. row_ok r \<and> (\<exists>vout. fst r = tx_key txid vout)"
    by (auto simp: rows row_ok_def outs is_unspendable_def max_script_size_def tx_key_def)
  have "total_value (map snd rows) = sum_list (map (\<lambda>p. unat (txo_value (snd p))) outs)"
    by (simp add: rows total_value_def case_prod_unfold comp_def)
  also have "\<dots> \<le> sum_list (map (\<lambda>p. unat (txo_value (snd p))) (enumerate 0 (tx_output tx)))"
    unfolding outs by (rule sum_list_filter_le_nat)
  also have "\<dots> = sum_list (map (\<lambda>o'. unat (txo_value o')) (tx_output tx))"
    using map_snd_enumerate [of 0 "tx_output tx"] by (metis (no_types, lifting) map_map comp_apply map_eq_conv)
  finally show "total_value (map snd rows) \<le> sum_list (map (\<lambda>o'. unat (txo_value o')) (tx_output tx))" .
qed

lemma sum_outputs_value:
  "sum_outputs outs = Inr amount \<Longrightarrow> unat amount = sum_list (map (\<lambda>o'. unat (txo_value o')) outs)"
proof -
  have "try_fold (\<lambda>sum output. if max_money_sats < txo_value output then Err MoneyRange
      else ok_or (checked_add sum (txo_value output)) ValueOverflow) acc outs = Inr amount \<Longrightarrow>
    unat amount = unat acc + sum_list (map (\<lambda>o'. unat (txo_value o')) outs)" for acc
    by (induction outs arbitrary: acc) (auto simp: res_simps checked_add_eq_iff split: if_splits)
  then show "sum_outputs outs = Inr amount \<Longrightarrow> unat amount = sum_list (map (\<lambda>o'. unat (txo_value o')) outs)"
    by (force simp: sum_outputs_def)
qed

section \<open>Prepared transactions\<close>

text \<open>
  What is assumed of the \<open>bitcoin\<close> crate: a coinbase has an input, and the serialised
  size of a transaction is at least the number of its outputs.
\<close>

definition tx_lib_ok :: "bitcoin_lib \<Rightarrow> bool" where
  "tx_lib_ok L \<longleftrightarrow> (\<forall>tx. tx_is_coinbase L tx \<longrightarrow> tx_input tx \<noteq> [])
     \<and> (\<forall>tx. length (tx_output tx) \<le> base_size L tx)"

definition chosen_txid :: "bitcoin_lib \<Rightarrow> transaction \<Rightarrow> hash256 option \<Rightarrow> hash256" where
  "chosen_txid L tx pre = (case pre of Some t \<Rightarrow> t | None \<Rightarrow> compute_txid L tx)"

text \<open>What a prepared transaction promises about the view it was prepared on.\<close>

definition prepared_ok :: "bitcoin_lib \<Rightarrow> transaction \<Rightarrow> coins \<Rightarrow> hash256 \<Rightarrow> prepared_transaction \<Rightarrow> bool" where
  "prepared_ok L tx v txid p \<longleftrightarrow>
     vt_txid (pt_validated p) = txid
     \<and> distinct (pt_spent p) \<and> map v (pt_spent p) = map Some (pt_prevouts p)
     \<and> distinct (map fst (pt_created p))
     \<and> (\<forall>r \<in> set (pt_created p). row_ok r \<and> (\<exists>vout. fst r = tx_key txid vout))
     \<and> unat (vt_input_value_sats (pt_validated p)) = total_value (pt_prevouts p)
     \<and> total_value (map snd (pt_created p)) \<le> unat (vt_output_value_sats (pt_validated p))
     \<and> (if tx_is_coinbase L tx then pt_spent p = []
        else vt_output_value_sats (pt_validated p) \<le> vt_input_value_sats (pt_validated p)
             \<and> pt_spent p = map input_key (tx_input tx))"

lemma check_transaction_outputs_Inr:
  assumes "check_transaction_outputs L tx c = Inr amount"
  shows "unat amount = sum_list (map (\<lambda>o'. unat (txo_value o')) (tx_output tx))"
    "base_size L tx \<le> 1000000"
  using assms
  by (auto simp: check_transaction_outputs_def oversize_def usize_saturating_mul_def usize_max_def res_simps
      sum_outputs_value split: if_splits)

lemma prepare_coinbase_ok:
  assumes "check_transaction_outputs L tx c = Inr amount" "tx_is_coinbase L tx"
    and "prepare_coinbase L tx txid c amount v = Some (r, v')"
  shows "v' = v \<and> (\<forall>p. r = Inr p \<longrightarrow> prepared_ok L tx v txid p)"
proof (cases "created_outputs L tx txid (cx_height c) (cx_now c) (cx_creation_mtp c) True")
  case None
  with assms(3) show ?thesis
    by (auto simp: prepare_coinbase_def split: list.splits if_splits)
next
  case (Some rows)
  with assms(2,3) created_outputs_ok [OF Some] check_transaction_outputs_Inr [OF assms(1)] show ?thesis
    by (auto simp: prepare_coinbase_def prepared_ok_def split: list.splits if_splits)
qed

lemma pst_of_id: "pst_of id m s = Some (m s)"
  by (simp add: pst_of_def map_err_def split: sum.splits prod.splits) (metis prod.collapse sum.exhaust)

lemma prepare_spend_ok:
  assumes amount: "check_transaction_outputs L tx c = Inr amount" and nc: "\<not> tx_is_coinbase L tx"
    and run: "prepare_spend coins_ops L tx txid c vs amount v = Some (Inr p, v')"
  shows "prepared_ok L tx v txid p"
proof -
  from run obtain spent prevouts iv v1 rows where
    unique: "check_unique_inputs L {} (tx_input tx) = Inr ()" and
    resolved: "st_fold (resolve_input coins_ops L tx c) ([], [], 0) (tx_input tx) v = (Inr (spent, prevouts, iv), v1)"
    and le: "amount \<le> iv" and rows: "created_outputs L tx txid (cx_height c) (cx_now c) (cx_creation_mtp c) False = Some rows"
    and p: "p = \<lparr>pt_validated = \<lparr>vt_txid = txid, vt_input_value_sats = iv, vt_output_value_sats = amount,
        vt_sigop_cost = transaction_sigop_cost L tx prevouts (cx_script_flags c)\<rparr>,
      pt_spent = spent, pt_created = rows, pt_prevouts = prevouts\<rparr>"
    by (auto simp: prepare_spend_def pst_bind_eq_Inr pst_of_id pst_expect_def guard_res_eq_Inr)
  from resolve_inputs_coins [OF resolved] check_unique_inputs_distinct [OF unique] created_outputs_ok [OF rows]
    check_transaction_outputs_Inr [OF amount] le nc
  show ?thesis by (auto simp: prepared_ok_def p)
qed

lemma prepare_spend_keeps:
  assumes "prepare_spend coins_ops L tx txid c vs amount v = Some (r, v')"
  shows "v' = v"
proof -
  have k: "snd (st_fold (resolve_input coins_ops L tx c) ([], [], 0) (tx_input tx) v) = v"
    by (rule resolve_inputs_keep)
  show ?thesis
  proof (cases r)
    case (Inl e)
    with assms k show ?thesis
      by (auto simp: prepare_spend_def pst_bind_eq_Inl pst_of_id pst_expect_def split: prod.splits)
  next
    case (Inr p)
    with assms k show ?thesis
      by (auto simp: prepare_spend_def pst_bind_eq_Inr pst_of_id pst_expect_def split: prod.splits)
  qed
qed

lemma prepare_ok:
  assumes "prepare_transaction_with_context coins_ops L tx pre c vs v = Some (r, v')"
  shows "v' = v \<and> (\<forall>p. r = Inr p \<longrightarrow> prepared_ok L tx v (chosen_txid L tx pre) p)"
proof (cases "check_transaction_outputs L tx c")
  case (Inl e)
  with assms show ?thesis by (auto simp: prepare_transaction_with_context_def)
next
  case (Inr amount)
  show ?thesis
  proof (cases "tx_is_coinbase L tx")
    case True
    with assms prepare_coinbase_ok [OF Inr True, of "chosen_txid L tx pre" v] Inr show ?thesis
      by (simp add: prepare_transaction_with_context_def chosen_txid_def)
  next
    case False
    from assms Inr False have
      run: "prepare_spend coins_ops L tx (chosen_txid L tx pre) c vs amount v = Some (r, v')"
      by (simp add: prepare_transaction_with_context_def chosen_txid_def)
    with prepare_spend_keeps [OF run] prepare_spend_ok [OF Inr False] show ?thesis by blast
  qed
qed

lemma prepare_total:
  assumes "tx_lib_ok L"
  shows "prepare_transaction_with_context coins_ops L tx pre c vs v \<noteq> None"
proof (cases "check_transaction_outputs L tx c")
  case (Inr amount)
  have "length (tx_output tx) \<le> base_size L tx" using assms by (simp add: tx_lib_ok_def)
  also have "\<dots> \<le> 1000000" using check_transaction_outputs_Inr [OF Inr] by simp
  finally have "length (tx_output tx) \<le> 2 ^ 32" by simp
  from created_outputs_total [OF this] obtain rows where
    rows: "\<And>cb. created_outputs L tx (chosen_txid L tx pre) (cx_height c) (cx_now c) (cx_creation_mtp c) cb = Some (rows cb)"
    by metis
  have "prepare_coinbase L tx (chosen_txid L tx pre) c amount v \<noteq> None" if "tx_is_coinbase L tx"
    using assms rows that by (auto simp: prepare_coinbase_def tx_lib_ok_def split: list.splits)
  moreover have "prepare_spend coins_ops L tx (chosen_txid L tx pre) c vs amount v \<noteq> None"
    using rows by (auto simp: prepare_spend_def pst_bind_def pst_of_id split: prod.splits sum.splits)
  ultimately show ?thesis using Inr by (auto simp: prepare_transaction_with_context_def chosen_txid_def Let_def)
qed (simp add: prepare_transaction_with_context_def)

section \<open>Preparation on any store\<close>

context utxo_reader
begin

lemma resolve_input_sim:
  assumes "sound s"
  shows "\<exists>s'. resolve_input ops L tx c acc input s = (fst (resolve_input coins_ops L tx c acc input (view s)), s')
    \<and> sound s' \<and> view s' = view s \<and> insert (input_key input) (known s) \<subseteq> known s'"
proof -
  obtain sp pv iv where acc: "acc = (sp, pv, iv)" by (cases acc)
  obtain s' where "ops_get ops (input_key input) s = (Inr (view s (input_key input)), s')" "sound s'"
    "view s' = view s" "insert (input_key input) (known s) \<subseteq> known s'"
    using getE [OF assms] .
  then show ?thesis unfolding acc resolve_input_coins
    by (auto simp: resolve_input_def Let_def st_bind_def st_map_err_def input_key_def
        split: option.splits sum.splits)
qed

lemma resolve_inputs_sim:
  assumes "sound s"
  shows "\<exists>s'. st_fold (resolve_input ops L tx c) acc inputs s =
      (fst (st_fold (resolve_input coins_ops L tx c) acc inputs (view s)), s')
    \<and> sound s' \<and> view s' = view s \<and> known s \<subseteq> known s'
    \<and> (\<forall>x. fst (st_fold (resolve_input coins_ops L tx c) acc inputs (view s)) = Inr x
         \<longrightarrow> input_key ` set inputs \<subseteq> known s')"
  using assms
proof (induction inputs arbitrary: acc s)
  case (Cons i rest)
  from resolve_input_sim [OF Cons.prems, of L tx c acc i] obtain s1 where
    s1: "resolve_input ops L tx c acc i s = (fst (resolve_input coins_ops L tx c acc i (view s)), s1)"
      "sound s1" "view s1 = view s" "insert (input_key i) (known s) \<subseteq> known s1" by blast
  have keep: "snd (resolve_input coins_ops L tx c acc i (view s)) = view s"
    by (cases acc) (simp add: resolve_input_coins)
  show ?case
  proof (cases "fst (resolve_input coins_ops L tx c acc i (view s))")
    case (Inl e)
    with s1 show ?thesis by (auto simp: st_bind_def split: prod.splits)
  next
    case (Inr acc1)
    from Cons.IH [OF s1(2), of acc1] obtain s2 where
      s2: "st_fold (resolve_input ops L tx c) acc1 rest s1 =
          (fst (st_fold (resolve_input coins_ops L tx c) acc1 rest (view s1)), s2)"
        "sound s2" "view s2 = view s1" "known s1 \<subseteq> known s2"
        "\<forall>x. fst (st_fold (resolve_input coins_ops L tx c) acc1 rest (view s1)) = Inr x
          \<longrightarrow> input_key ` set rest \<subseteq> known s2" by blast
    have a: "st_fold (resolve_input coins_ops L tx c) acc (i # rest) (view s) =
        st_fold (resolve_input coins_ops L tx c) acc1 rest (view s1)"
      using Inr keep s1(3) by (cases "resolve_input coins_ops L tx c acc i (view s)") (simp add: st_bind_def)
    have b: "st_fold (resolve_input ops L tx c) acc (i # rest) s = st_fold (resolve_input ops L tx c) acc1 rest s1"
      using Inr s1(1) by (simp add: st_bind_Inr)
    from s1 s2 show ?thesis unfolding a b by (intro exI [of _ s2]) auto
  qed
qed simp

lemma resolve_sim:
  assumes "sound s"
  shows "sim sound view known (pst_of id (st_fold (resolve_input ops L tx c) acc inputs))
    (pst_of id (st_fold (resolve_input coins_ops L tx c) acc inputs)) s"
  using resolve_inputs_sim [OF assms, of L tx c acc inputs] resolve_inputs_keep [of L tx c acc inputs "view s"]
  by (auto simp: sim_def pst_of_id split: prod.splits)

lemma prepare_sim:
  assumes "sound s"
  shows "sim sound view known (prepare_transaction_with_context ops L tx pre c vs)
    (prepare_transaction_with_context coins_ops L tx pre c vs) s"
  unfolding prepare_transaction_with_context_def prepare_spend_def prepare_coinbase_def Let_def
  using assms by (auto intro!: sim_bind resolve_sim split: prod.splits)

lemma prepare_known:
  assumes "sound s" "prepare_transaction_with_context ops L tx pre c vs s = Some (Inr p, s')"
  shows "set (pt_spent p) \<subseteq> known s'"
proof (cases "tx_is_coinbase L tx")
  case True
  with assms(2) show ?thesis
    by (auto simp: prepare_transaction_with_context_def Let_def pst_bind_eq_Inr prepare_coinbase_def
        split: if_splits)
next
  case False
  with assms(2) obtain spent prevouts iv s1 where
    run: "st_fold (resolve_input ops L tx c) ([], [], 0) (tx_input tx) s = (Inr (spent, prevouts, iv), s1)"
    and p: "pt_spent p = spent" "s' = s1"
    by (auto simp: prepare_transaction_with_context_def Let_def pst_bind_eq_Inr prepare_spend_def pst_of_id
        pst_expect_def)
  from resolve_inputs_sim [OF assms(1), of L tx c "([], [], 0)" "tx_input tx"] run
  have coins: "fst (st_fold (resolve_input coins_ops L tx c) ([], [], 0) (tx_input tx) (view s)) = Inr (spent, prevouts, iv)"
    and sub: "input_key ` set (tx_input tx) \<subseteq> known s1" by (metis Pair_inject)+
  from coins have "spent = map input_key (tx_input tx)"
    using resolve_inputs_coins [of L tx c "[]" "[]" 0 "tx_input tx" "view s" spent prevouts iv]
    by (metis append_Nil prod.collapse)
  with sub p show ?thesis by simp
qed

end

end
