(* ===== verification/Blockchain_Refine.thy ===== *)
theory Blockchain_Refine
  imports Blockchain Chainstate_Properties
begin

text \<open>
  Block application on any \<open>UtxoStore\<close>: it simulates the run on the coin view, its
  undo records lead back to the view before the block, and the value it creates is
  bounded. The locale \<open>utxo_store\<close> carries the results to every store.
\<close>

section \<open>Applying one transaction\<close>

definition prepared_undo :: "prepared_transaction \<Rightarrow> utxo_undo" where
  "prepared_undo p = \<lparr>undo_spent = zip (pt_spent p) (pt_prevouts p), undo_created = map fst (pt_created p)\<rparr>"

definition prepared_after :: "coins \<Rightarrow> prepared_transaction \<Rightarrow> coins" where
  "prepared_after v p = coins_after v (pt_spent p) (pt_created p)"

text \<open>No coin of this transaction exists: what BIP30 asks of a new transaction.\<close>

definition unused_txid :: "coins \<Rightarrow> hash256 \<Rightarrow> bool" where
  "unused_txid v txid \<longleftrightarrow> (\<forall>vout. v (tx_key txid vout) = None)"

lemma tx_key_txid: "tx_key t i = tx_key u j \<Longrightarrow> t = u"
  by (simp add: tx_key_def)

lemma prepared_lengths: "prepared_ok L tx v txid p \<Longrightarrow> length (pt_prevouts p) = length (pt_spent p)"
  unfolding prepared_ok_def by (metis length_map)

lemma prepared_apply:
  assumes "prepared_ok L tx v txid p" "unused_txid v txid"
  shows "coins_apply v (pt_spent p) (pt_created p) = Inr (prepared_undo p, prepared_after v p)"
proof -
  have m: "map v (pt_spent p) = map Some (pt_prevouts p)" using assms(1) by (simp add: prepared_ok_def)
  have "v k = Some u" if "(k, u) \<in> set (zip (pt_spent p) (pt_prevouts p))" for k u
  proof -
    from that obtain i where "i < length (pt_spent p)" "i < length (pt_prevouts p)"
      "k = pt_spent p ! i" "u = pt_prevouts p ! i" by (auto simp: set_zip)
    then show ?thesis using arg_cong [OF m, of "\<lambda>xs. xs ! i"] by simp
  qed
  with assms prepared_lengths [OF assms(1)] show ?thesis
    unfolding coins_apply_Inr_iff by (auto simp: prepared_ok_def prepared_undo_def prepared_after_def unused_txid_def)
qed

lemma prepared_spent_created_disjoint:
  assumes "prepared_ok L tx v txid p" "unused_txid v txid"
  shows "set (pt_spent p) \<inter> fst ` set (pt_created p) = {}"
proof -
  have "v k \<noteq> None" if "k \<in> set (pt_spent p)" for k
  proof -
    have "map v (pt_spent p) = map Some (pt_prevouts p)" using assms(1) by (simp add: prepared_ok_def)
    moreover have "v k \<in> set (map v (pt_spent p))" using that by simp
    ultimately have "v k \<in> set (map Some (pt_prevouts p))" by metis
    then show ?thesis by auto
  qed
  then show ?thesis using assms by (fastforce simp: prepared_ok_def unused_txid_def)
qed

lemma prepared_after_unused:
  assumes "prepared_ok L tx v txid p" "unused_txid v t" "t \<noteq> txid"
  shows "unused_txid (prepared_after v p) t"
proof -
  have "map_of (pt_created p) (tx_key t vout) = None" for vout
    using assms(1,3) by (fastforce simp: prepared_ok_def map_of_eq_None_iff dest: tx_key_txid)
  then show ?thesis
    using assms(2) by (simp add: unused_txid_def prepared_after_def coins_after_def map_add_def restrict_map_def)
qed

lemma prepared_after_ok: "prepared_ok L tx v txid p \<Longrightarrow> coins_ok v \<Longrightarrow> coins_ok (prepared_after v p)"
  unfolding prepared_after_def by (rule coins_ok_after) (auto simp: prepared_ok_def)

text \<open>The outcome on the reference store.\<close>

lemma deferred_coins:
  assumes run: "apply_transaction_with_deferred_scripts coins_ops L tx txid c v = Some (r, v')"
    and unused: "unused_txid v txid"
  shows "case r of Inl e \<Rightarrow> v' = v
    | Inr (t, prevouts) \<Rightarrow> \<exists>p. prepare_transaction_for_block coins_ops L tx txid c v = Some (Inr p, v)
        \<and> prepared_ok L tx v txid p \<and> t = applied_of (pt_validated p) (prepared_undo p)
        \<and> prevouts = pt_prevouts p \<and> v' = prepared_after v p"
proof (cases "prepare_transaction_with_context coins_ops L tx (Some txid) c False v")
  case None
  with run show ?thesis by (simp add: apply_transaction_with_deferred_scripts_def pst_bind_step)
next
  case (Some q)
  obtain r1 v1 where q: "q = (r1, v1)" by (cases q)
  from prepare_ok [OF Some [unfolded q]] have v1: "v1 = v"
    and ok: "\<And>p. r1 = Inr p \<Longrightarrow> prepared_ok L tx v txid p" by (simp_all add: chosen_txid_def)
  show ?thesis
  proof (cases r1)
    case (Inl e)
    with run Some q v1 show ?thesis by (auto simp: apply_transaction_with_deferred_scripts_def pst_bind_step)
  next
    case (Inr p)
    from prepared_apply [OF ok [OF Inr] unused] run Some q v1 Inr ok [OF Inr] show ?thesis
      by (auto simp: apply_transaction_with_deferred_scripts_def pst_bind_def pst_of_def coins_ops_def
          coins_mutate_def prepare_transaction_for_block_def)
  qed
qed

lemma deferred_total:
  assumes "tx_lib_ok L"
  shows "apply_transaction_with_deferred_scripts coins_ops L tx txid c v \<noteq> None"
  using prepare_total [OF assms, of tx "Some txid" c False v]
  by (auto simp: apply_transaction_with_deferred_scripts_def pst_bind_def pst_of_def split: sum.splits)

context utxo_store
begin

lemma apply_prevouts_sim:
  assumes s: "sound s" and p: "prepared_ok L tx (view s) txid p" and unused: "unused_txid (view s) txid"
    and known: "set (pt_spent p) \<subseteq> known s"
  shows "sim sound view known
    (pst_of g (ops_apply_with_undo_fresh_outputs_from_prevouts ops (pt_spent p) (pt_prevouts p) (pt_created p)))
    (pst_of g (ops_apply_with_undo_fresh_outputs_from_prevouts coins_ops (pt_spent p) (pt_prevouts p) (pt_created p))) s"
proof -
  have "implements sound view known s (coins_apply (view s) (pt_spent p) (pt_created p))
      (ops_apply_with_undo_fresh_outputs_from_prevouts ops (pt_spent p) (pt_prevouts p) (pt_created p) s)"
    using p unused by (intro prevouts_law s known) (auto simp: prepared_ok_def unused_txid_def)
  then show ?thesis unfolding prepared_apply [OF p unused]
    using prepared_apply [OF p unused]
    by (auto simp: implements_def sim_def pst_of_def coins_ops_def coins_mutate_def)
qed

lemma deferred_sim:
  assumes "sound s" "unused_txid (view s) txid"
  shows "sim sound view known (apply_transaction_with_deferred_scripts ops L tx txid c)
    (apply_transaction_with_deferred_scripts coins_ops L tx txid c) s"
  unfolding apply_transaction_with_deferred_scripts_def
proof (rule sim_bind [OF prepare_sim [OF assms(1)]])
  fix p s'
  assume coins: "prepare_transaction_with_context coins_ops L tx (Some txid) c False (view s) = Some (Inr p, view s')"
    and run: "prepare_transaction_with_context ops L tx (Some txid) c False s = Some (Inr p, s')"
    and s': "sound s'"
  from prepare_ok [OF coins] have v: "view s' = view s" and ok: "prepared_ok L tx (view s') txid p"
    by (auto simp: chosen_txid_def)
  from prepare_known [OF assms(1) run] v assms(2) ok s'
  have "sim sound view known
    (pst_of Chain_Utxo (ops_apply_with_undo_fresh_outputs_from_prevouts ops (pt_spent p) (pt_prevouts p) (pt_created p)))
    (pst_of Chain_Utxo (ops_apply_with_undo_fresh_outputs_from_prevouts coins_ops (pt_spent p) (pt_prevouts p) (pt_created p))) s'"
    by (intro apply_prevouts_sim) auto
  then show "sim sound view known
    (pst_bind (pst_of Chain_Utxo (ops_apply_with_undo_fresh_outputs_from_prevouts ops (pt_spent p) (pt_prevouts p)
        (pt_created p))) (\<lambda>undo. pst_ret (applied_of (pt_validated p) undo, pt_prevouts p)))
    (pst_bind (pst_of Chain_Utxo (ops_apply_with_undo_fresh_outputs_from_prevouts coins_ops (pt_spent p) (pt_prevouts p)
        (pt_created p))) (\<lambda>undo. pst_ret (applied_of (pt_validated p) undo, pt_prevouts p))) s'"
    by (rule sim_bind) simp
qed

end

section \<open>Undo chains\<close>

text \<open>The undo records of a run of mutations that leads from one view to another.\<close>

fun undo_chain :: "coins \<Rightarrow> utxo_undo list \<Rightarrow> coins \<Rightarrow> bool" where
  "undo_chain v [] v' \<longleftrightarrow> v' = v"
| "undo_chain v (undo # undos) v' \<longleftrightarrow>
     coins_ok v \<and> (\<exists>spent created v1. coins_apply v spent created = Inr (undo, v1)
       \<and> set spent \<inter> fst ` set created = {} \<and> undo_chain v1 undos v')"

lemma undo_chain_append:
  "undo_chain v (us @ ws) v' \<longleftrightarrow> (\<exists>v1. undo_chain v us v1 \<and> undo_chain v1 ws v')"
  by (induction us arbitrary: v) auto

lemma undo_chain_prepared:
  assumes "undo_chain v0 us v" "prepared_ok L tx v txid p" "unused_txid v txid" "coins_ok v"
  shows "undo_chain v0 (us @ [prepared_undo p]) (prepared_after v p)"
  using assms prepared_apply [OF assms(2,3)] prepared_spent_created_disjoint [OF assms(2,3)]
  by (auto simp: undo_chain_append)

context utxo_store
begin

lemma undo_step:
  assumes s: "sound s" and v: "coins_ok v" and spec: "coins_apply v spent created = Inr (undo, view s)"
    and fresh: "set spent \<inter> fst ` set created = {}"
  shows "\<exists>s'. ops_undo ops undo now window s = (Inr (), s') \<and> sound s' \<and> view s' = v \<and> known s \<subseteq> known s'"
proof -
  have spent: "map fst (undo_spent undo) = spent" "\<forall>(k, u) \<in> set (undo_spent undo). v k = Some u"
    using spec unfolding coins_apply_Inr_iff by blast+
  have ok: "\<forall>r \<in> set (undo_spent undo). row_ok r" using v spent(2) by (auto simp: coins_ok_def)
  have "\<forall>k \<in> fst ` set (undo_spent undo). view s k = None"
  proof
    fix k assume "k \<in> fst ` set (undo_spent undo)"
    then have "k \<in> set spent" using spent(1) by (metis image_set)
    then show "view s k = None" using coins_apply_spent_gone [OF spec] fresh by blast
  qed
  from undo_law [OF s ok coins_apply_undo_distinct [OF spec] this, of now window]
  show ?thesis using coins_undo_apply [OF spec] by auto
qed

text \<open>Undoing in reverse order leads back.\<close>

lemma undo_all_ok:
  "sound s \<Longrightarrow> undo_chain v us (view s) \<Longrightarrow>
     \<exists>s'. undo_all ops (rev us) now window s = (Inr (), s') \<and> sound s' \<and> view s' = v \<and> known s \<subseteq> known s'"
proof (induction us arbitrary: s rule: rev_induct)
  case (snoc u us)
  from snoc.prems(2) obtain v1 spent created where c: "undo_chain v us v1" "coins_ok v1"
    "coins_apply v1 spent created = Inr (u, view s)" "set spent \<inter> fst ` set created = {}"
    by (auto simp: undo_chain_append)
  from undo_step [OF snoc.prems(1) c(2-4), of now window] obtain s1 where
    s1: "ops_undo ops u now window s = (Inr (), s1)" "sound s1" "view s1 = v1" "known s \<subseteq> known s1" by blast
  from snoc.IH [OF s1(2)] c(1) s1(3) obtain s2 where
    "undo_all ops (rev us) now window s1 = (Inr (), s2)" "sound s2" "view s2 = v" "known s1 \<subseteq> known s2" by auto
  with s1 show ?case by (auto simp: st_bind_Inr)
qed simp

lemma rollback_ok:
  assumes "sound s" "undo_chain v (map at_undo applied) (view s)"
  shows "\<exists>s'. rollback ops applied now window s = Some (Inr (), s') \<and> sound s' \<and> view s' = v \<and> known s \<subseteq> known s'"
  using undo_all_ok [OF assms, of now window] by (auto simp: rollback_def pst_of_def rev_map)

end

lemma undo_all_coins: "undo_chain v us v' \<Longrightarrow> undo_all coins_ops (rev us) now window v' = (Inr (), v)"
proof (induction us arbitrary: v' rule: rev_induct)
  case (snoc u us)
  then obtain v1 spent created where "undo_chain v us v1" "coins_apply v1 spent created = Inr (u, v')"
    by (auto simp: undo_chain_append)
  with snoc.IH coins_undo_apply show ?case by (auto simp: st_bind_def coins_ops_def)
qed simp

lemma rollback_coins:
  "undo_chain v (map at_undo applied) v' \<Longrightarrow> rollback coins_ops applied now window v' = Some (Inr (), v)"
  using undo_all_coins [of v "map at_undo applied" v' now window] by (simp add: rollback_def pst_of_def rev_map)

context utxo_store
begin

lemma rollback_sim:
  assumes "sound s" "undo_chain v (map at_undo applied) (view s)"
  shows "sim sound view known (rollback ops applied now window) (rollback coins_ops applied now window) s"
  using rollback_ok [OF assms, of now window] rollback_coins [OF assms(2), of now window] by (auto simp: sim_def)

end

section \<open>Supply\<close>

definition coin_supply :: "coins \<Rightarrow> nat" where
  "coin_supply v = (\<Sum>k \<in> dom v. unat (value_sats (the (v k))))"

lemma supply_spent:
  assumes "distinct ks" "map v ks = map Some us"
  shows "(\<Sum>k \<in> set ks. unat (value_sats (the (v k)))) = total_value us"
proof -
  have "(\<Sum>k \<in> set ks. unat (value_sats (the (v k)))) = sum_list (map (\<lambda>o'. unat (value_sats (the o'))) (map v ks))"
    using sum_list_distinct_conv_sum_set [OF assms(1), of "\<lambda>k. unat (value_sats (the (v k)))"]
    by (simp add: comp_def)
  also have "\<dots> = total_value us" unfolding assms(2) by (simp add: total_value_def comp_def)
  finally show ?thesis .
qed

lemma map_map_of_rows: "distinct (map fst rows) \<Longrightarrow> map (map_of rows) (map fst rows) = map Some (map snd rows)"
  by (rule nth_equalityI) (auto simp: map_of_eq_Some_iff)

lemma supply_after:
  assumes "prepared_ok L tx v txid p" "unused_txid v txid" "finite (dom v)"
  shows "finite (dom (prepared_after v p))"
    "coin_supply (prepared_after v p) + total_value (pt_prevouts p) = coin_supply v + total_value (map snd (pt_created p))"
proof -
  let ?val = "\<lambda>w k. unat (value_sats (the (w k)))"
  let ?rows = "pt_created p" and ?new = "fst ` set (pt_created p)" and ?old = "set (pt_spent p)"
  have m: "map v (pt_spent p) = map Some (pt_prevouts p)" "distinct (pt_spent p)" "distinct (map fst ?rows)"
    using assms(1) by (simp_all add: prepared_ok_def)
  have unspent: "?old \<subseteq> dom v"
  proof
    fix k assume "k \<in> ?old"
    then have "v k \<in> set (map v (pt_spent p))" by simp
    then show "k \<in> dom v" unfolding m(1) by auto
  qed
  have fresh: "?new \<inter> dom v = {}"
    using assms(1,2) by (fastforce simp: prepared_ok_def unused_txid_def)
  have dom: "dom (prepared_after v p) = (dom v - ?old) \<union> ?new"
    by (auto simp: prepared_after_def coins_after_def dom_map_of_conv_image_fst)
  then show "finite (dom (prepared_after v p))" using assms(3) by simp
  have "coin_supply (prepared_after v p) = sum (?val (prepared_after v p)) (dom v - ?old) + sum (?val (prepared_after v p)) ?new"
    unfolding coin_supply_def dom using assms(3) fresh by (intro sum.union_disjoint) auto
  also have "sum (?val (prepared_after v p)) (dom v - ?old) = sum (?val v) (dom v - ?old)"
  proof (rule sum.cong)
    fix k assume k: "k \<in> dom v - ?old"
    with fresh have "map_of ?rows k = None" by (auto simp: map_of_eq_None_iff)
    with k show "?val (prepared_after v p) k = ?val v k"
      by (simp add: prepared_after_def coins_after_def map_add_def)
  qed simp
  also have "sum (?val (prepared_after v p)) ?new = sum (?val (map_of ?rows)) (set (map fst ?rows))"
  proof (rule sum.cong)
    fix k assume "k \<in> set (map fst ?rows)"
    then obtain u where "map_of ?rows k = Some u" by (metis map_of_eq_None_iff not_None_eq list.set_map)
    then show "?val (prepared_after v p) k = ?val (map_of ?rows) k"
      by (simp add: prepared_after_def coins_after_def map_add_def)
  qed simp
  also have "\<dots> = total_value (map snd ?rows)"
    by (rule supply_spent [OF m(3) map_map_of_rows [OF m(3)]])
  finally have "coin_supply (prepared_after v p) = sum (?val v) (dom v - ?old) + total_value (map snd ?rows)" .
  moreover have "coin_supply v = sum (?val v) (dom v - ?old) + total_value (pt_prevouts p)"
    unfolding coin_supply_def supply_spent [OF m(2,1), symmetric]
    using sum.subset_diff [OF unspent assms(3)] by simp
  ultimately show "coin_supply (prepared_after v p) + total_value (pt_prevouts p) = coin_supply v + total_value (map snd (pt_created p))"
    by simp
qed

section \<open>The block loop\<close>

fun ids_from :: "bitcoin_lib \<Rightarrow> hash256 list option \<Rightarrow> nat \<Rightarrow> transaction list \<Rightarrow> hash256 list" where
  "ids_from L ids index [] = []"
| "ids_from L ids index (tx # txs) =
     (case txid_at L ids index tx of None \<Rightarrow> [] | Some t \<Rightarrow> t # ids_from L ids (Suc index) txs)"

lemma ids_from_computed: "ids_from L None index txs = map (compute_txid L) txs"
  by (induction txs arbitrary: index) (auto simp: txid_at_def)

lemma ids_from_given: "length ids = index + length txs \<Longrightarrow> ids_from L (Some ids) index txs = drop index ids"
proof (induction txs arbitrary: index)
  case (Cons tx txs)
  then have "index < length ids" by simp
  with Cons show ?case by (simp add: txid_at_def Cons_nth_drop_Suc)
qed simp

text \<open>The identifiers are distinct and none of their coins exists.\<close>

definition fresh_txids :: "coins \<Rightarrow> hash256 list \<Rightarrow> bool" where
  "fresh_txids v ids \<longleftrightarrow> distinct ids \<and> (\<forall>t \<in> set ids. unused_txid v t)"

lemma fresh_txids_Cons:
  "fresh_txids v (t # ids) \<Longrightarrow> prepared_ok L tx v t p \<Longrightarrow> unused_txid v t \<and> fresh_txids (prepared_after v p) ids"
  by (auto simp: fresh_txids_def intro: prepared_after_unused)

definition claimed_value :: "applied_transaction list \<Rightarrow> nat" where
  "claimed_value applied = (case applied of [] \<Rightarrow> 0 | t # _ \<Rightarrow> unat (at_output_value_sats t))"

lemma claimed_value_simps [simp]:
  "claimed_value [] = 0"
  "claimed_value (t # ts) = unat (at_output_value_sats t)"
  by (simp_all add: claimed_value_def)

lemma claimed_value_snoc [simp]:
  "claimed_value (applied @ [t]) = (if applied = [] then unat (at_output_value_sats t) else claimed_value applied)"
  by (cases applied) (simp_all add: claimed_value_def)

text \<open>
  The state of the loop: the undo records lead back to the view before the block, and
  the coins created so far are paid for by the spent ones, the fees set aside and the
  value the coinbase claims.
\<close>

definition block_inv :: "coins \<Rightarrow> nat \<Rightarrow> applied_transaction block_progress \<Rightarrow> coins \<Rightarrow> bool" where
  "block_inv v0 index acc v \<longleftrightarrow>
     (case acc of (applied, checks, sigops, fees) \<Rightarrow>
       undo_chain v0 (map at_undo applied) v \<and> coins_ok v
       \<and> length applied = index \<and> (index = 0 \<longrightarrow> fees = 0) \<and> sigops \<le> max_block_sigops_cost
       \<and> (finite (dom v0) \<longrightarrow> finite (dom v) \<and> coin_supply v + unat fees \<le> coin_supply v0 + claimed_value applied)
       \<and> map dc_index checks = [1 ..< index])"

lemma account_transaction_Inr:
  assumes "account_transaction index iv ov cost sigops fees = Some (Inr (sigops', fees'))"
  shows "sigops' \<le> max_block_sigops_cost"
    "if index = 0 then fees' = fees else unat fees' + unat ov = unat fees + unat iv"
proof -
  show "sigops' \<le> max_block_sigops_cost"
    using assms by (auto simp: account_transaction_def res_simps split: if_splits)
  show "if index = 0 then fees' = fees else unat fees' + unat ov = unat fees + unat iv"
  proof (cases "index = 0")
    case False
    with assms obtain fee where "checked_sub iv ov = Some fee" "checked_add fees fee = Some fees'"
      by (auto simp: account_transaction_def account_fees_def res_simps split: if_splits)
    then show ?thesis using False
      by (auto simp: checked_sub_Some checked_add_eq_iff unat_sub_le word_le_nat_alt)
  qed (use assms in \<open>auto simp: account_transaction_def account_fees_def res_simps split: if_splits\<close>)
qed

lemma account_transaction_not_rollback:
  "account_transaction index iv ov cost sigops fees = Some (Inl e) \<Longrightarrow> e \<noteq> Rollback u"
  by (auto simp: account_transaction_def account_fees_def res_simps split: if_splits)

lemma block_inv_step:
  assumes inv: "block_inv v0 index (applied, checks, sigops, fees) v"
    and p: "prepared_ok L tx v txid p" "unused_txid v txid"
    and acc: "account_transaction index (vt_input_value_sats (pt_validated p))
      (vt_output_value_sats (pt_validated p)) cost sigops fees = Some (Inr (sigops', fees'))"
  shows "block_inv v0 (Suc index) (applied @ [applied_of (pt_validated p) (prepared_undo p)],
    add_script_check checks index tx (pt_prevouts p) flags, sigops', fees') (prepared_after v p)"
proof -
  let ?t = "applied_of (pt_validated p) (prepared_undo p)"
  have inv': "undo_chain v0 (map at_undo applied) v" "coins_ok v" "length applied = index"
    "index = 0 \<longrightarrow> fees = 0" "map dc_index checks = [1 ..< index]"
    "finite (dom v0) \<longrightarrow> finite (dom v) \<and> coin_supply v + unat fees \<le> coin_supply v0 + claimed_value applied"
    using inv by (simp_all add: block_inv_def)
  have vals: "unat (vt_input_value_sats (pt_validated p)) = total_value (pt_prevouts p)"
    "total_value (map snd (pt_created p)) \<le> unat (vt_output_value_sats (pt_validated p))"
    using p(1) by (simp_all add: prepared_ok_def)
  have "undo_chain v0 (map at_undo (applied @ [?t])) (prepared_after v p)"
    using undo_chain_prepared [OF inv'(1) p inv'(2)] by (simp add: applied_of_def)
  moreover have "coin_supply (prepared_after v p) + unat fees' \<le> coin_supply v0 + claimed_value (applied @ [?t])"
    if fin: "finite (dom v0)"
  proof -
    have "coin_supply (prepared_after v p) + total_value (pt_prevouts p) = coin_supply v + total_value (map snd (pt_created p))"
      using supply_after [OF p] inv'(6) fin by blast
    with inv'(3,4,6) fin vals account_transaction_Inr [OF acc] show ?thesis
      by (cases "index = 0") (auto simp: applied_of_def)
  qed
  ultimately show ?thesis
    using inv' account_transaction_Inr [OF acc] supply_after [OF p] prepared_after_ok [OF p(1)]
    by (auto simp: block_inv_def add_script_check_def)
qed

section \<open>The outcome of the loop\<close>

lemma rollback_then:
  "undo_chain v0 (map at_undo applied) v \<Longrightarrow>
     pst_bind (rollback coins_ops applied now window) (\<lambda>_. pst_err e) v = Some (Inl e, v0)"
  by (simp add: pst_bind_step(3) [OF rollback_coins])

lemma with_script_failure_not_rollback [simp]:
  "with_script_failure failure (Block_Transaction i e) \<noteq> Rollback u"
  "(\<And>u. e' \<noteq> Rollback u) \<Longrightarrow> with_script_failure failure e' \<noteq> Rollback u"
  by (auto simp: with_script_failure_def split: option.splits)

lemma apply_transactions_coins:
  assumes "apply_transactions coins_ops L P ids c window index txs acc v = Some (r, v')"
    and "block_inv v0 index acc v" "fresh_txids v (ids_from L ids index txs)"
  shows "case r of Inl e \<Rightarrow> v' = v0 \<and> (\<forall>u. e \<noteq> Rollback u)
    | Inr acc' \<Rightarrow> block_inv v0 (index + length txs) acc' v'"
  using assms
proof (induction coins_ops L P ids c window index txs acc arbitrary: v rule: apply_transactions.induct)
  case (2 L P ids c window index tx txs applied checks sigops fees)
  have chain: "undo_chain v0 (map at_undo applied) v" using 2(3) by (simp add: block_inv_def)
  from 2(2) obtain txid where txid: "txid_at L ids index tx = Some txid"
    by (cases "txid_at L ids index tx") auto
  with 2(4) have fresh: "fresh_txids v (txid # ids_from L ids (Suc index) txs)" by simp
  then have unused: "unused_txid v txid" by (simp add: fresh_txids_def)
  let ?apply = "apply_transaction_with_deferred_scripts coins_ops L tx txid c v"
  consider (panic) "?apply = None" | (err) e v1 where "?apply = Some (Inl e, v1)"
    | (ok) t prevouts v1 where "?apply = Some (Inr (t, prevouts), v1)"
    by (metis option.exhaust prod.exhaust sum.exhaust)
  then show ?case
  proof cases
    case panic
    with 2(2) txid show ?thesis by (simp add: pst_match_step)
  next
    case err
    with deferred_coins [OF err unused] 2(2) txid show ?thesis
      by (auto simp: pst_match_step rollback_then [OF chain])
  next
    case ok
    from deferred_coins [OF ok unused] obtain p where p: "prepared_ok L tx v txid p"
      and t: "t = applied_of (pt_validated p) (prepared_undo p)" "prevouts = pt_prevouts p" "v1 = prepared_after v p"
      by auto
    have chain1: "undo_chain v0 (map at_undo (applied @ [t])) v1"
      using undo_chain_prepared [OF chain p unused] 2(3) by (simp add: t block_inv_def applied_of_def)
    let ?acct = "account_transaction index (at_input_value_sats t) (at_output_value_sats t) (at_sigop_cost t) sigops fees"
    consider (none) "?acct = None" | (bad) e where "?acct = Some (Inl e)"
      | (good) sigops' fees' where "?acct = Some (Inr (sigops', fees'))"
      by (metis option.exhaust prod.exhaust sum.exhaust)
    then show ?thesis
    proof cases
      case none
      with 2(2) txid ok show ?thesis by (simp add: pst_match_step)
    next
      case bad
      with 2(2) txid ok account_transaction_not_rollback [OF bad] show ?thesis
        by (auto simp: pst_match_step rollback_then [OF chain1])
    next
      case good
      have next_run: "apply_transactions coins_ops L P ids c window (Suc index) txs
          (applied @ [t], add_script_check checks index tx prevouts (cx_script_flags c), sigops', fees') v1 = Some (r, v')"
        using 2(2) txid ok good by (simp add: pst_match_step)
      have inv: "block_inv v0 (Suc index)
          (applied @ [t], add_script_check checks index tx prevouts (cx_script_flags c), sigops', fees') v1"
        using block_inv_step [OF 2(3) p unused] good by (simp add: t applied_of_def)
      have "fresh_txids v1 (ids_from L ids (Suc index) txs)"
        using fresh_txids_Cons [OF fresh p] t(3) by simp
      from 2(1) [OF next_run inv this] show ?thesis by (cases r) simp_all
    qed
  qed
qed auto

text \<open>No panic: only the first transaction may be a coinbase, and every one has an identifier.\<close>

lemma account_transaction_total:
  "index = 0 \<or> ov \<le> iv \<Longrightarrow> account_transaction index iv ov cost sigops fees \<noteq> None"
  by (auto simp: account_transaction_def account_fees_def bind_call_def checked_sub_def ok_or_def
      split: option.splits)

definition later_spends :: "bitcoin_lib \<Rightarrow> nat \<Rightarrow> transaction list \<Rightarrow> bool" where
  "later_spends L index txs \<longleftrightarrow> (\<forall>tx \<in> set (if index = 0 then tl txs else txs). \<not> tx_is_coinbase L tx)"

lemma apply_transactions_total:
  assumes "tx_lib_ok L" "later_spends L index txs" "length (ids_from L ids index txs) = length txs"
    and "undo_chain v0 (map at_undo (fst acc)) v" "coins_ok v" "fresh_txids v (ids_from L ids index txs)"
  shows "apply_transactions coins_ops L P ids c window index txs acc v \<noteq> None"
  using assms(2-)
proof (induction txs arbitrary: index acc v)
  case (Cons tx txs)
  obtain applied checks sigops fees where acc: "acc = (applied, checks, sigops, fees)" by (cases acc)
  from Cons.prems obtain txid where txid: "txid_at L ids index tx = Some txid"
    and len: "length (ids_from L ids (Suc index) txs) = length txs"
    by (auto split: option.splits)
  with Cons.prems(5) have fresh: "fresh_txids v (txid # ids_from L ids (Suc index) txs)" by simp
  then have unused: "unused_txid v txid" by (simp add: fresh_txids_def)
  have chain: "undo_chain v0 (map at_undo applied) v" using Cons.prems(3) acc by simp
  obtain r v1 where run: "apply_transaction_with_deferred_scripts coins_ops L tx txid c v = Some (r, v1)"
    using deferred_total [OF assms(1), of tx txid c v] by auto
  show ?case
  proof (cases r)
    case (Inl e)
    with deferred_coins [OF run unused] run txid show ?thesis
      by (simp add: acc pst_match_step rollback_then [OF chain])
  next
    case (Inr q)
    obtain t prevouts where q: "q = (t, prevouts)" by (cases q)
    from deferred_coins [OF run unused] Inr q obtain p where p: "prepared_ok L tx v txid p"
      and t: "t = applied_of (pt_validated p) (prepared_undo p)" "prevouts = pt_prevouts p" "v1 = prepared_after v p"
      by auto
    have chain1: "undo_chain v0 (map at_undo (applied @ [t])) v1"
      using undo_chain_prepared [OF chain p unused Cons.prems(4)] by (simp add: t applied_of_def)
    have "index = 0 \<or> at_output_value_sats t \<le> at_input_value_sats t"
      using p Cons.prems(1) by (auto simp: later_spends_def prepared_ok_def t applied_of_def split: if_splits)
    from account_transaction_total [OF this, of "at_sigop_cost t" sigops fees] obtain ar where
      ar: "account_transaction index (at_input_value_sats t) (at_output_value_sats t) (at_sigop_cost t) sigops fees = Some ar"
      by auto
    show ?thesis
    proof (cases ar)
      case (Inl e)
      with run txid Inr q ar show ?thesis by (simp add: acc pst_match_step rollback_then [OF chain1])
    next
      case good: (Inr b)
      obtain sigops' fees' where b: "b = (sigops', fees')" by (cases b)
      have "later_spends L (Suc index) txs" using Cons.prems(1) by (auto simp: later_spends_def split: if_splits)
      moreover have "coins_ok v1" unfolding t(3) by (rule prepared_after_ok [OF p Cons.prems(4)])
      moreover have "fresh_txids v1 (ids_from L ids (Suc index) txs)"
        using fresh_txids_Cons [OF fresh p] t(3) by simp
      ultimately have "apply_transactions coins_ops L P ids c window (Suc index) txs
          (applied @ [t], add_script_check checks index tx prevouts (cx_script_flags c), sigops', fees') v1 \<noteq> None"
        using Cons.IH [OF _ len] chain1 by simp
      with run txid Inr q ar good b show ?thesis by (simp add: acc pst_match_step)
    qed
  qed
qed simp

section \<open>The whole block\<close>

lemma finish_block_coins:
  assumes run: "finish_block coins_ops L P block now window subsidy defer acc v = Some (r, v')"
    and inv: "block_inv v0 n acc v"
  shows "case r of Inl e \<Rightarrow> v' = v0 \<and> (\<forall>u. e \<noteq> Rollback u)
    | Inr (applied, checks) \<Rightarrow> v' = v \<and> undo_chain v0 (ab_transaction_undos applied) v
        \<and> length (ab_transaction_undos applied) = n
        \<and> (finite (dom v0) \<longrightarrow> coin_supply v \<le> coin_supply v0 + unat subsidy)
        \<and> (if defer then map dc_index checks = [1 ..< n] else checks = [])"
proof -
  obtain applied checks sigops fees where acc: "acc = (applied, checks, sigops, fees)" by (cases acc)
  have chain: "undo_chain v0 (map at_undo applied) v" using inv by (simp add: acc block_inv_def)
  note [simp] = rollback_then [OF chain]
  show ?thesis
  proof (cases "if defer then None else verify_deferred_scripts L P checks")
    case (Some f)
    with run show ?thesis by (cases f) (auto simp: finish_block_def acc)
  next
    case None
    let ?claimed = "case applied of [] \<Rightarrow> if checked_add subsidy fees = None then Some 0 else None
      | t # _ \<Rightarrow> Some (at_output_value_sats t)"
    let ?checks = "if defer then checks else []"
    from run None obtain claimed where claimed: "?claimed = Some claimed"
      by (cases ?claimed) (auto simp: finish_block_def acc Let_def simp del: split_paired_Ex)
    show ?thesis
    proof (cases "coinbase_error L P ?checks claimed subsidy fees")
      case (Inl e)
      have "\<forall>u. e \<noteq> Rollback u"
        using Inl by (auto simp: coinbase_error_def split: option.splits if_splits)
      with run None claimed Inl show ?thesis
        by (auto simp: finish_block_def acc Let_def pst_match_step)
    next
      case (Inr u)
      have r: "r = Inr (\<lparr>ab_hash = block_hash L (b_header block), ab_transaction_undos = map at_undo applied\<rparr>, ?checks)"
        "v' = v"
        using run None claimed Inr by (simp_all add: finish_block_def acc Let_def pst_match_step)
      from Inr obtain allowed where "checked_add subsidy fees = Some allowed" "claimed \<le> allowed"
        by (auto simp: coinbase_error_def split: option.splits if_splits)
      then have a: "unat claimed \<le> unat subsidy + unat fees"
        by (auto simp: checked_add_eq_iff word_le_nat_alt)
      have "claimed_value applied = unat claimed"
        using claimed \<open>checked_add subsidy fees = Some allowed\<close> by (auto split: list.splits)
      with inv a chain show ?thesis
        by (auto simp: r acc block_inv_def)
    qed
  qed
qed

lemma finish_block_total:
  assumes "block_inv v0 (Suc n) acc v"
  shows "finish_block coins_ops L P block now window subsidy defer acc v \<noteq> None"
proof -
  obtain applied checks sigops fees where acc: "acc = (applied, checks, sigops, fees)" by (cases acc)
  from assms have chain: "undo_chain v0 (map at_undo applied) v" and ne: "applied \<noteq> []"
    by (auto simp: acc block_inv_def)
  from ne obtain t ts where a: "applied = t # ts" by (cases applied) auto
  show ?thesis
    by (auto simp: finish_block_def acc a Let_def pst_match_def rollback_then [OF chain [unfolded a]]
        split: option.splits sum.splits)
qed

context utxo_store
begin

lemma rollback_then_sim:
  assumes "sound s" "undo_chain v0 (map at_undo applied) (view s)"
  shows "sim sound view known (pst_bind (rollback ops applied now window) (\<lambda>_. pst_err e))
    (pst_bind (rollback coins_ops applied now window) (\<lambda>_. pst_err e)) s"
  by (rule sim_bind [OF rollback_sim [OF assms]]) simp

lemma apply_transactions_sim:
  assumes "sound s" "undo_chain v0 (map at_undo (fst acc)) (view s)"
    "fresh_txids (view s) (ids_from L ids index txs)"
  shows "sim sound view known (apply_transactions ops L P ids c window index txs acc)
    (apply_transactions coins_ops L P ids c window index txs acc) s"
  using assms
proof (induction txs arbitrary: index acc s)
  case (Cons tx txs)
  obtain applied checks sigops fees where acc: "acc = (applied, checks, sigops, fees)" by (cases acc)
  have chain: "undo_chain v0 (map at_undo applied) (view s)" using Cons.prems(2) acc by simp
  show ?case
  proof (cases "txid_at L ids index tx")
    case None
    then show ?thesis by (simp add: acc sim_def)
  next
    case (Some txid)
    with Cons.prems(3) have fresh: "fresh_txids (view s) (txid # ids_from L ids (Suc index) txs)" by simp
    then have unused: "unused_txid (view s) txid" by (simp add: fresh_txids_def)
    show ?thesis
      unfolding acc apply_transactions.simps Some pst_bind_simps
    proof (rule sim_match [OF deferred_sim [OF Cons.prems(1) unused]])
      fix e s'
      assume run: "apply_transaction_with_deferred_scripts coins_ops L tx txid c (view s) = Some (Inl e, view s')"
        and s': "sound s'"
      from deferred_coins [OF run unused] chain s'
      show "sim sound view known
          (pst_bind (rollback ops applied (cx_now c) window) (\<lambda>_. pst_err
            (with_script_failure (verify_deferred_scripts L P checks) (Block_Transaction index e))))
          (pst_bind (rollback coins_ops applied (cx_now c) window) (\<lambda>_. pst_err
            (with_script_failure (verify_deferred_scripts L P checks) (Block_Transaction index e)))) s'"
        by (intro rollback_then_sim) auto
    next
      fix q s'
      assume run: "apply_transaction_with_deferred_scripts coins_ops L tx txid c (view s) = Some (Inr q, view s')"
        and s': "sound s'"
      obtain t prevouts where q: "q = (t, prevouts)" by (cases q)
      from deferred_coins [OF run unused] q obtain p where p: "prepared_ok L tx (view s) txid p"
        and t: "t = applied_of (pt_validated p) (prepared_undo p)" "view s' = prepared_after (view s) p"
        by auto
      have chain1: "undo_chain v0 (map at_undo (applied @ [t])) (view s')"
        using undo_chain_prepared [OF chain p unused view_ok [OF Cons.prems(1)]] by (simp add: t applied_of_def)
      have fresh1: "fresh_txids (view s') (ids_from L ids (Suc index) txs)"
        using fresh_txids_Cons [OF fresh p] t(2) by simp
      have onward: "sim sound view known
          (apply_transactions ops L P ids c window (Suc index) txs
             (applied @ [t], add_script_check checks index tx prevouts (cx_script_flags c), sg, fs))
          (apply_transactions coins_ops L P ids c window (Suc index) txs
             (applied @ [t], add_script_check checks index tx prevouts (cx_script_flags c), sg, fs)) s'" for sg fs
        using Cons.IH [OF s' _ fresh1] chain1 by simp
      have undone: "sim sound view known
          (pst_bind (rollback ops (applied @ [t]) (cx_now c) window) (\<lambda>_. pst_err e))
          (pst_bind (rollback coins_ops (applied @ [t]) (cx_now c) window) (\<lambda>_. pst_err e)) s'" for e
        by (rule rollback_then_sim [OF s' chain1])
      show "sim sound view known (case q of (t, prevouts) \<Rightarrow>
          pst_match (pst_call (account_transaction index (at_input_value_sats t) (at_output_value_sats t)
                                 (at_sigop_cost t) sigops fees))
            (\<lambda>(sigops, fees). apply_transactions ops L P ids c window (Suc index) txs
                 (applied @ [t], add_script_check checks index tx prevouts (cx_script_flags c), sigops, fees))
            (\<lambda>e. pst_bind (rollback ops (applied @ [t]) (cx_now c) window) (\<lambda>_. pst_err e)))
          (case q of (t, prevouts) \<Rightarrow>
          pst_match (pst_call (account_transaction index (at_input_value_sats t) (at_output_value_sats t)
                                 (at_sigop_cost t) sigops fees))
            (\<lambda>(sigops, fees). apply_transactions coins_ops L P ids c window (Suc index) txs
                 (applied @ [t], add_script_check checks index tx prevouts (cx_script_flags c), sigops, fees))
            (\<lambda>e. pst_bind (rollback coins_ops (applied @ [t]) (cx_now c) window) (\<lambda>_. pst_err e))) s'"
        unfolding q prod.case by (rule sim_match_call) (use s' in \<open>auto simp: onward undone\<close>)
    qed
  qed
qed simp

lemma finish_block_sim:
  assumes "sound s" "undo_chain v0 (map at_undo (fst acc)) (view s)"
  shows "sim sound view known (finish_block ops L P block now window subsidy defer acc)
    (finish_block coins_ops L P block now window subsidy defer acc) s"
proof -
  obtain applied checks sigops fees where acc: "acc = (applied, checks, sigops, fees)" by (cases acc)
  with assms have undone: "sim sound view known (pst_bind (rollback ops applied now window) (\<lambda>_. pst_err e))
      (pst_bind (rollback coins_ops applied now window) (\<lambda>_. pst_err e)) s" for e
    by (intro rollback_then_sim) auto
  show ?thesis
  proof (cases "if defer then None else verify_deferred_scripts L P checks")
    case (Some f)
    then show ?thesis by (cases f) (auto simp: finish_block_def acc undone)
  next
    case None
    let ?claimed = "case applied of [] \<Rightarrow> if checked_add subsidy fees = None then Some 0 else None
      | t # _ \<Rightarrow> Some (at_output_value_sats t)"
    show ?thesis
    proof (cases ?claimed)
      case none: None
      with None show ?thesis by (simp add: finish_block_def acc Let_def sim_def)
    next
      case (Some claimed)
      with None assms(1) show ?thesis
        by (auto simp: finish_block_def acc Let_def undone intro!: sim_match_lift)
    qed
  qed
qed

lemma apply_block_sim:
  assumes "sound s" "fresh_txids (view s) (ids_from L ids 0 (txdata block))"
  shows "sim sound view known
    (apply_prevalidated_block_with_deployments_inner ops L P block ids height now mtp window flags csv' subsidy defer)
    (apply_prevalidated_block_with_deployments_inner coins_ops L P block ids height now mtp window flags csv' subsidy defer) s"
  unfolding apply_prevalidated_block_with_deployments_inner_def
proof (rule sim_bind [OF apply_transactions_sim [OF assms(1) _ assms(2)]])
  fix acc s'
  assume run: "apply_transactions coins_ops L P ids (block_tx_context block height now mtp flags csv') window 0
      (txdata block) ([], [], 0, 0) (view s) = Some (Inr acc, view s')" and s': "sound s'"
  have "block_inv (view s) 0 ([], [], 0, 0) (view s)"
    using view_ok [OF assms(1)] by (simp add: block_inv_def)
  from apply_transactions_coins [OF run this assms(2)]
  have "undo_chain (view s) (map at_undo (fst acc)) (view s')" by (auto simp: block_inv_def split: prod.splits)
  with s' show "sim sound view known (finish_block ops L P block now window subsidy defer acc)
      (finish_block coins_ops L P block now window subsidy defer acc) s'"
    by (rule finish_block_sim)
qed simp

end

lemma apply_block_coins:
  assumes run: "apply_prevalidated_block_with_deployments_inner coins_ops L P block ids height now mtp window flags
      csv' subsidy defer v = Some (r, v')"
    and ok: "coins_ok v" and fresh: "fresh_txids v (ids_from L ids 0 (txdata block))"
  shows "case r of Inl e \<Rightarrow> v' = v \<and> (\<forall>u. e \<noteq> Rollback u)
    | Inr (applied, checks) \<Rightarrow> undo_chain v (ab_transaction_undos applied) v'
        \<and> length (ab_transaction_undos applied) = length (txdata block)
        \<and> (finite (dom v) \<longrightarrow> coin_supply v' \<le> coin_supply v + unat subsidy)
        \<and> (if defer then map dc_index checks = [1 ..< length (txdata block)] else checks = [])"
proof -
  let ?c = "block_tx_context block height now mtp flags csv'"
  have inv: "block_inv v 0 ([], [], 0, 0) v" using ok by (simp add: block_inv_def)
  show ?thesis
  proof (cases r)
    case (Inl e)
    from run [unfolded apply_prevalidated_block_with_deployments_inner_def Inl pst_bind_eq_Inl] consider
        "apply_transactions coins_ops L P ids ?c window 0 (txdata block) ([], [], 0, 0) v = Some (Inl e, v')"
      | acc v1 where
        "apply_transactions coins_ops L P ids ?c window 0 (txdata block) ([], [], 0, 0) v = Some (Inr acc, v1)"
        "finish_block coins_ops L P block now window subsidy defer acc v1 = Some (Inl e, v')" by blast
    then show ?thesis
    proof cases
      case 1
      from apply_transactions_coins [OF 1 inv fresh] Inl show ?thesis by simp
    next
      case 2
      from apply_transactions_coins [OF 2(1) inv fresh] finish_block_coins [OF 2(2)] Inl show ?thesis by simp
    qed
  next
    case (Inr q)
    from run [unfolded apply_prevalidated_block_with_deployments_inner_def Inr pst_bind_eq_Inr] obtain acc v1 where
      1: "apply_transactions coins_ops L P ids ?c window 0 (txdata block) ([], [], 0, 0) v = Some (Inr acc, v1)"
        "finish_block coins_ops L P block now window subsidy defer acc v1 = Some (Inr q, v')" by blast
    from apply_transactions_coins [OF 1(1) inv fresh] finish_block_coins [OF 1(2)] Inr
    show ?thesis by (auto split: prod.splits)
  qed
qed

text \<open>What structural validation has established: a coinbase, and no second one.\<close>

definition block_shape :: "bitcoin_lib \<Rightarrow> block \<Rightarrow> bool" where
  "block_shape L block \<longleftrightarrow> txdata block \<noteq> [] \<and> later_spends L 0 (txdata block)"

lemma apply_block_total:
  assumes "tx_lib_ok L" "block_shape L block" "coins_ok v"
    and fresh: "fresh_txids v (ids_from L ids 0 (txdata block))"
    and len: "length (ids_from L ids 0 (txdata block)) = length (txdata block)"
  shows "apply_prevalidated_block_with_deployments_inner coins_ops L P block ids height now mtp window flags
      csv' subsidy defer v \<noteq> None"
proof -
  let ?c = "block_tx_context block height now mtp flags csv'"
  have inv: "block_inv v 0 ([], [], 0, 0) v" using assms(3) by (simp add: block_inv_def)
  obtain r v1 where run: "apply_transactions coins_ops L P ids ?c window 0 (txdata block) ([], [], 0, 0) v = Some (r, v1)"
    using apply_transactions_total [OF assms(1) _ len _ assms(3) fresh, of v "([], [], 0, 0)" P ?c window] assms(2)
    by (auto simp: block_shape_def)
  show ?thesis
  proof (cases r)
    case (Inl e)
    with run show ?thesis by (simp add: apply_prevalidated_block_with_deployments_inner_def pst_bind_step)
  next
    case (Inr acc)
    from apply_transactions_coins [OF run inv fresh] Inr assms(2) have "block_inv v (Suc (length (txdata block) - 1)) acc v1"
      by (simp add: block_shape_def)
    from finish_block_total [OF this] run Inr show ?thesis
      by (simp add: apply_prevalidated_block_with_deployments_inner_def pst_bind_step)
  qed
qed

context utxo_store
begin

lemma apply_block_outcome:
  assumes lib: "tx_lib_ok L" and shape: "block_shape L block" and s: "sound s"
    and fresh: "fresh_txids (view s) (ids_from L ids 0 (txdata block))"
    and len: "length (ids_from L ids 0 (txdata block)) = length (txdata block)"
  shows "\<exists>r s'. apply_prevalidated_block_with_deployments_inner ops L P block ids height now mtp window flags
      csv' subsidy defer s = Some (r, s') \<and> sound s'
    \<and> apply_prevalidated_block_with_deployments_inner coins_ops L P block ids height now mtp window flags
      csv' subsidy defer (view s) = Some (r, view s')
    \<and> (case r of
         Inl e \<Rightarrow> view s' = view s \<and> (\<forall>u. e \<noteq> Rollback u)
       | Inr (applied, checks) \<Rightarrow>
           (finite (dom (view s)) \<longrightarrow> coin_supply (view s') \<le> coin_supply (view s) + unat subsidy)
           \<and> (\<forall>now' window'. \<exists>s''. disconnect_block ops applied now' window' s' = (Inr (), s'')
                \<and> sound s'' \<and> view s'' = view s))"
proof -
  let ?run = "\<lambda>o'. apply_prevalidated_block_with_deployments_inner o' L P block ids height now mtp window flags
      csv' subsidy defer"
  obtain r v' where coins: "?run coins_ops (view s) = Some (r, v')"
    using apply_block_total [OF lib shape view_ok [OF s] fresh len,
        of P height now mtp window flags csv' subsidy "defer"] by auto
  with apply_block_sim [OF s fresh, of P height now mtp window flags csv' subsidy "defer"] obtain s' where
    s': "?run ops s = Some (r, s')" "sound s'" "view s' = v'" by (auto simp: sim_def)
  note out = apply_block_coins [OF coins view_ok [OF s] fresh]
  have "case r of Inl e \<Rightarrow> view s' = view s \<and> (\<forall>u. e \<noteq> Rollback u)
       | Inr (applied, checks) \<Rightarrow>
           (finite (dom (view s)) \<longrightarrow> coin_supply (view s') \<le> coin_supply (view s) + unat subsidy)
           \<and> (\<forall>now' window'. \<exists>s''. disconnect_block ops applied now' window' s' = (Inr (), s'')
                \<and> sound s'' \<and> view s'' = view s)"
  proof (cases r)
    case (Inr q)
    obtain applied checks where q: "q = (applied, checks)" by (cases q)
    from out Inr q s'(3) have "undo_chain (view s) (ab_transaction_undos applied) (view s')" by simp
    from undo_all_ok [OF s'(2) this] out Inr q s'(3) show ?thesis
      by (simp add: disconnect_block_def) blast
  qed (use out s'(3) in simp)
  with s' coins show ?thesis by auto
qed

end

end
