(* ===== verification/Blockchain_Properties.thy ===== *)
theory Blockchain_Properties
  imports Blockchain_Refine "HOL-Library.Multiset"
begin

text \<open>
  The properties of block application on the database, of the deferred script checks
  and of the BIP34 height commitment.
\<close>

section \<open>Blocks on the database\<close>

lemma structure_shape:
  assumes "validate_block_structure_with_deployments_and_txids L block height bip34_on segwit_on challenge = Some (Inr ids)"
  shows "block_shape L block \<and> ids = map (compute_txid L) (txdata block)
    \<and> transaction_merkle_root L ids = (Some (merkle_root (b_header block)), False)"
  using assms
  by (auto simp: validate_block_structure_with_deployments_and_txids_def block_shape_def later_spends_def
      res_simps Let_def list_ex_iff split: list.splits if_splits prod.splits)

definition sample_block :: block where
  "sample_block =
     \<lparr>b_header = \<lparr>h_version = 1, prev_blockhash = 1, merkle_root = 6, h_time = 2000, h_bits = 5, h_nonce = 4\<rparr>,
      txdata =
        [\<lparr>tx_version = 1, tx_lock_time = 5,
          tx_input = [\<lparr>previous_output = null_outpoint, script_sig = [1, 2], in_sequence = - 1, witness = []\<rparr>],
          tx_output = [\<lparr>txo_value = 5000000700, txo_script = [0x51]\<rparr>]\<rparr>,
         \<lparr>tx_version = 1, tx_lock_time = 6,
          tx_input = [\<lparr>previous_output = \<lparr>op_txid = 1, op_vout = 0\<rparr>, script_sig = [], in_sequence = - 1, witness = []\<rparr>],
          tx_output = [\<lparr>txo_value = 4999999000, txo_script = [0x52]\<rparr>]\<rparr>]\<rparr>"

definition sample_pool :: script_pool where
  "sample_pool = \<lparr>pool_workers = 4, pool_arrival = rev\<rparr>"

lemma sample_lib_tx_ok: "tx_lib_ok sample_lib"
  by (auto simp: tx_lib_ok_def sample_lib_def split: list.splits)

lemma sample_block_shape: "block_shape sample_lib sample_block"
  by (simp add: block_shape_def later_spends_def sample_block_def sample_lib_def)

lemma sample_key_tx: "sample_key 1 = tx_key 1 0" "sample_key 2 = tx_key 2 0"
  by code_simp+

lemma sample_block_fresh: "fresh_txids (store_view sample_store) (map (compute_txid sample_lib) (txdata sample_block))"
  by (auto simp: fresh_txids_def unused_txid_def sample_store_ok(2) sample_key_tx sample_block_def sample_lib_def
      dest!: tx_key_txid)

lemma sample_block_structure:
  "validate_block_structure_with_deployments_and_txids sample_lib sample_block 200 False False None = Some (Inr [6, 7])"
  by code_simp

lemma sample_view: "store_view sample_store = [tx_key 1 0 \<mapsto> sample_coin 10 1, tx_key 2 0 \<mapsto> sample_coin 100 9]"
  by (simp add: sample_store_ok(2) sample_key_tx)

definition connected :: "(('e + ('a \<times> 'b list)) \<times> 's) option \<Rightarrow> bool" where
  "connected out = (case out of Some (Inr (applied, []), _) \<Rightarrow> True | _ \<Rightarrow> False)"

lemma sample_block_coins:
  "connected (apply_prevalidated_block_with_deployments_inner coins_ops sample_lib sample_pool sample_block None 200 60 7 10 0
      False 5000000000 False [tx_key 1 0 \<mapsto> sample_coin 10 1, tx_key 2 0 \<mapsto> sample_coin 100 9])"
  by code_simp

text \<open>
  C2. Block application is atomic. A block that structural validation has passed and
  whose transactions are new is applied without a panic, whatever its transactions,
  scripts and values are: either it fails, with an error other than a failed rollback,
  and every coin is as before; or it succeeds, and disconnecting it afterwards
  restores every coin.
\<close>
theorem block_application_atomic:
  assumes "tx_lib_ok L" "block_shape L block" "store_inv s"
    and "fresh_txids (store_view s) (map (compute_txid L) (txdata block))"
  shows "\<exists>r s'. apply_prevalidated_block_with_deployments store_ops L P block height now mtp window flags
      csv_on subsidy s = Some (r, s') \<and> store_inv s'
    \<and> (case r of
         Inl e \<Rightarrow> store_view s' = store_view s \<and> (\<forall>u. e \<noteq> Rollback u)
       | Inr applied \<Rightarrow> \<forall>now' window'. \<exists>s''. disconnect_block store_ops applied now' window' s' = (Inr (), s'')
           \<and> store_inv s'' \<and> store_view s'' = store_view s)"
proof -
  from redb.apply_block_outcome [OF assms(1-3), of None P height now mtp window flags csv_on subsidy False] assms(4)
  obtain r s' where run: "apply_prevalidated_block_with_deployments_inner store_ops L P block None height now mtp window
      flags csv_on subsidy False s = Some (r, s')" and inv: "store_inv s'"
    and out: "case r of Inl e \<Rightarrow> store_view s' = store_view s \<and> (\<forall>u. e \<noteq> Rollback u)
       | Inr (applied, checks) \<Rightarrow>
           (finite (dom (store_view s)) \<longrightarrow> coin_supply (store_view s') \<le> coin_supply (store_view s) + unat subsidy)
           \<and> (\<forall>now' window'. \<exists>s''. disconnect_block store_ops applied now' window' s' = (Inr (), s'')
                \<and> store_inv s'' \<and> store_view s'' = store_view s)"
    by (auto simp: ids_from_computed)
  show ?thesis
  proof (cases r)
    case (Inl e)
    with run inv out show ?thesis
      by (auto simp: apply_prevalidated_block_with_deployments_def pst_bind_step)
  next
    case (Inr q)
    with run inv out show ?thesis
      by (cases q) (auto simp: apply_prevalidated_block_with_deployments_def pst_bind_step)
  qed
qed

theorem block_application_atomic_witness:
  "\<exists>r s'. apply_prevalidated_block_with_deployments store_ops sample_lib sample_pool sample_block 200 60 7 10 0
      False 5000000000 sample_store = Some (r, s') \<and> store_inv s'"
  using block_application_atomic [OF sample_lib_tx_ok sample_block_shape sample_store_ok(1) sample_block_fresh]
  by blast

text \<open>
  C3. No inflation. When a block is connected, the total value of all unspent coins
  grows by at most the subsidy: fees are paid by the coins the block spends, and the
  coinbase claims no more than subsidy and fees.
\<close>
theorem connected_block_no_inflation:
  assumes "tx_lib_ok L" "store_inv s"
    and "fresh_txids (store_view s) (map (compute_txid L) (txdata block))"
    and "apply_block_with_deployments store_ops L P block height now mtp window flags bip34_on csv_on segwit_on
      challenge subsidy s = Some (Inr applied, s')"
  shows "coin_supply (store_view s') \<le> coin_supply (store_view s) + unat subsidy"
proof -
  from assms(4) obtain ids checks where
    "validate_block_structure_with_deployments_and_txids L block height bip34_on segwit_on challenge = Some (Inr ids)"
    and run: "apply_prevalidated_block_with_deployments_inner store_ops L P block None height now mtp window
      flags csv_on subsidy False s = Some (Inr (applied, checks), s')"
    by (auto simp: apply_block_with_deployments_def apply_prevalidated_block_with_deployments_def
        validate_block_structure_with_deployments_def pst_bind_eq_Inr pst_call_def bind_call_Inr)
  then have shape: "block_shape L block" using structure_shape by blast
  from redb.apply_block_outcome [OF assms(1) shape assms(2), of None P height now mtp window flags csv_on subsidy False]
    assms(3) run finite_store_view [of s]
  show ?thesis by (auto simp: ids_from_computed)
qed

theorem connected_block_no_inflation_witness:
  "\<exists>applied s'. apply_block_with_deployments store_ops sample_lib sample_pool sample_block 200 60 7 10 0 False
      False False None 5000000000 sample_store = Some (Inr applied, s')
     \<and> coin_supply (store_view s') \<le> coin_supply (store_view sample_store) + 5000000000"
proof -
  from redb.apply_block_outcome [OF sample_lib_tx_ok sample_block_shape sample_store_ok(1), of None sample_pool 200 60
      7 10 0 False 5000000000 False] sample_block_fresh
  obtain r s' where run: "apply_prevalidated_block_with_deployments_inner store_ops sample_lib sample_pool sample_block
      None 200 60 7 10 0 False 5000000000 False sample_store = Some (r, s')"
    and "apply_prevalidated_block_with_deployments_inner coins_ops sample_lib sample_pool sample_block
      None 200 60 7 10 0 False 5000000000 False (store_view sample_store) = Some (r, store_view s')"
    by (auto simp: ids_from_computed)
  with sample_block_coins obtain applied where "r = Inr (applied, [])"
    by (auto simp: sample_view connected_def split: sum.splits list.splits)
  with run sample_block_structure have
    "apply_block_with_deployments store_ops sample_lib sample_pool sample_block 200 60 7 10 0 False
      False False None 5000000000 sample_store = Some (Inr applied, s')"
    by (simp add: apply_block_with_deployments_def apply_prevalidated_block_with_deployments_def
        validate_block_structure_with_deployments_def pst_bind_def)
  with connected_block_no_inflation [OF sample_lib_tx_ok sample_store_ok(1) sample_block_fresh this]
  show ?thesis by auto
qed

section \<open>Deferred scripts\<close>

definition failure_of :: "bitcoin_lib \<Rightarrow> deferred_script_check \<Rightarrow> script_result" where
  "failure_of L check = (case check_scripts L check of
     Inl e \<Rightarrow> Some (dc_block_order check, dc_index check, e) | Inr _ \<Rightarrow> None)"

lemma execute_script_work_filter:
  "execute_script_work L jobs = (case List.map_filter (failure_of L) jobs of [] \<Rightarrow> None | r # _ \<Rightarrow> Some r)"
  by (induction jobs) (auto simp: failure_of_def map_filter_simps split: sum.splits)

lemma execute_script_work_in:
  "execute_script_work L jobs = Some r \<Longrightarrow> r \<in> set (List.map_filter (failure_of L) jobs)"
  by (cases "List.map_filter (failure_of L) jobs") (auto simp: execute_script_work_filter)

lemma first_script_failure_filter:
  "first_script_failure L checks = map_option snd (execute_script_work L checks)"
  by (induction checks) (auto split: sum.splits)

lemma concat_submit_loop: "concat (submit_loop jobs checks) = jobs @ checks"
  by (induction jobs checks rule: submit_loop.induct) (auto simp: Let_def)

text \<open>The checks come in the order of their positions in the chain.\<close>

definition check_before :: "deferred_script_check \<Rightarrow> deferred_script_check \<Rightarrow> bool" where
  "check_before a b \<longleftrightarrow> dc_block_order a < dc_block_order b
     \<or> dc_block_order a = dc_block_order b \<and> dc_index a < dc_index b"

lemma min_failure_least:
  assumes "\<forall>x \<in> set rs \<union> set_option best. x = r \<or> before r x" "r \<in> set rs \<union> set_option best"
  shows "min_failure best rs = Some r"
  using assms
proof (induction rs arbitrary: best)
  case Nil
  then show ?case by (cases best) auto
next
  case (Cons x rs)
  define best' where "best' = (case best of None \<Rightarrow> Some x | Some b \<Rightarrow> if before x b then Some x else Some b)"
  have asym: "before r y \<Longrightarrow> \<not> before y r" and irr: "\<not> before r r" for y
    by (auto simp: before_def)
  have "\<forall>y \<in> set rs \<union> set_option best'. y = r \<or> before r y"
    using Cons.prems(1) by (auto simp: best'_def split: option.splits if_splits)
  moreover have "r \<in> set rs \<union> set_option best'"
    using Cons.prems asym [of x] irr by (auto simp: best'_def simp del: split_paired_All split: option.splits if_splits)
  ultimately show ?case using Cons.IH [of best'] by (simp add: best'_def)
qed

lemma in_map_filter: "x \<in> set (List.map_filter f xs) \<longleftrightarrow> (\<exists>y \<in> set xs. f y = Some x)"
  by (induction xs) (auto simp: map_filter_simps split: option.splits)

lemma failures_sorted:
  assumes "sorted_wrt check_before checks"
  shows "sorted_wrt before (List.map_filter (failure_of L) checks)"
  using assms
proof (induction checks)
  case (Cons c cs)
  have "before r x" if "failure_of L c = Some r" "c' \<in> set cs" "failure_of L c' = Some x" for r x c'
    using that Cons.prems by (auto simp: failure_of_def before_def check_before_def split: sum.splits)
  with Cons show ?case
    by (auto simp: map_filter_simps in_map_filter simp del: split_paired_All split: option.splits)
qed (simp add: map_filter_simps)

lemma map_filter_append: "List.map_filter f (xs @ ys) = List.map_filter f xs @ List.map_filter f ys"
  by (induction xs) (auto simp: map_filter_simps split: option.splits)

lemma map_filter_concat: "List.map_filter f (concat xss) = concat (map (List.map_filter f) xss)"
  by (induction xss) (auto simp: map_filter_simps map_filter_append)

lemma finish_with_order_first:
  assumes sorted: "sorted_wrt check_before (concat batch)"
    and fair: "\<And>rs. mset (pool_arrival P rs) = mset rs"
  shows "finish_with_order L P batch = execute_script_work L (concat batch)"
proof -
  let ?fails = "List.map_filter (failure_of L)"
  let ?rs = "List.map_filter id (pool_arrival P (map (execute_script_work L) batch))"
  have "set (pool_arrival P (map (execute_script_work L) batch)) = set (map (execute_script_work L) batch)"
    by (metis fair mset_eq_setD)
  then have rs: "r \<in> set ?rs \<longleftrightarrow> (\<exists>jobs \<in> set batch. execute_script_work L jobs = Some r)" for r
    by (force simp: in_map_filter image_iff)
  have sub: "r \<in> set ?rs \<Longrightarrow> r \<in> set (?fails (concat batch))" for r
    by (auto simp: rs map_filter_concat dest!: execute_script_work_in)
  show ?thesis
  proof (cases "?fails (concat batch)")
    case Nil
    with sub have "set ?rs = {}" by (metis empty_iff empty_set equals0I)
    then have "?rs = []" by (simp only: set_empty)
    with Nil show ?thesis by (simp add: finish_with_order_def execute_script_work_filter)
  next
    case (Cons r fs)
    have before: "\<forall>x \<in> set ?rs. x = r \<or> before r x"
      using sub failures_sorted [OF sorted, of L] Cons by auto
    have "\<exists>jobs \<in> set batch. execute_script_work L jobs = Some r"
      using Cons unfolding map_filter_concat
    proof (induction batch)
      case (Cons jobs batch)
      then show ?case by (cases "?fails jobs") (auto simp: execute_script_work_filter)
    qed simp
    then have "r \<in> set ?rs" unfolding rs .
    with before Cons show ?thesis
      using min_failure_least [of ?rs None r] by (simp add: finish_with_order_def execute_script_work_filter)
  qed
qed

text \<open>
  C18. Parallel script validation reports the same failure as checking the scripts one
  by one: whatever the number of workers and in whatever order their results arrive,
  the failure of the earliest failing transaction is returned, and none exactly when
  every script passes.
\<close>
theorem deferred_scripts_deterministic:
  assumes "\<And>rs. mset (pool_arrival P rs) = mset rs" "sorted_wrt check_before checks"
  shows "verify_deferred_scripts L P checks = first_script_failure L checks"
  using finish_with_order_first [of "submit_loop [] checks" P L] assms
  by (simp add: verify_deferred_scripts_def batch_finish_def batch_submit_def concat_submit_loop
      first_script_failure_filter Let_def)

definition sample_checks :: "deferred_script_check list" where
  "sample_checks = map (\<lambda>i. \<lparr>dc_index = i, dc_block_order = 0,
     dc_transaction = \<lparr>tx_version = 1, tx_lock_time = word_of_nat i,
       tx_input = replicate 4 \<lparr>previous_output = \<lparr>op_txid = 1, op_vout = 0\<rparr>, script_sig = [], in_sequence = 0, witness = []\<rparr>,
       tx_output = []\<rparr>,
     dc_prevouts = replicate 4 (sample_coin 10 1), dc_script_flags = 0\<rparr>) [1, 2, 3]"

definition sample_failing_lib :: bitcoin_lib where
  "sample_failing_lib = sample_lib\<lparr>verify_scripts_with_flags :=
     (\<lambda>tx _ _. if tx_lock_time tx = 1 then Inr () else Inl (None, 3))\<rparr>"

theorem deferred_scripts_deterministic_witness:
  "verify_deferred_scripts sample_failing_lib \<lparr>pool_workers = 4, pool_arrival = rev\<rparr> sample_checks
     = Some (2, Consensus_Transaction 3)"
proof -
  have "sorted_wrt check_before sample_checks" by (simp add: sample_checks_def check_before_def)
  moreover have "first_script_failure sample_failing_lib sample_checks = Some (2, Consensus_Transaction 3)" by code_simp
  ultimately show ?thesis
    using deferred_scripts_deterministic [of "\<lparr>pool_workers = 4, pool_arrival = rev\<rparr>" sample_checks] by simp
qed

section \<open>BIP34 heights\<close>

lemma unat_drop_bit_8: "unat (drop_bit 8 v) = unat v div 256" for v :: u32
  by (simp only: unat_drop_bit_eq) (simp add: drop_bit_eq_div)

lemma unat_low_byte: "unat (ucast (v AND 0xFF) :: u8) = unat v mod 256" for v :: u32
proof -
  have "v AND 0xFF = take_bit 8 v" by (simp add: take_bit_eq_mask mask_eq_exp_minus_1)
  then show ?thesis by (simp add: unsigned_ucast_eq take_bit_eq_mod unat_mod)
qed

lemma le_nat_encode: "le_nat (encode_script_num v) = unat v"
proof (induction v rule: encode_script_num.induct)
  case (1 v)
  then show ?case
    by (cases "v = 0")
      (simp_all add: encode_script_num.simps [of v] encode_script_num.simps [of 0] unat_drop_bit_8 unat_low_byte)
qed

lemma le_nat_append_zero: "le_nat (bs @ [0]) = le_nat bs"
  by (induction bs) auto

lemma le_nat_encode_signed: "le_nat (encode_script_num_signed v) = unat v"
  by (simp add: encode_script_num_signed_def Let_def le_nat_encode le_nat_append_zero)

lemma length_encode: "unat v < 256 ^ n \<Longrightarrow> length (encode_script_num v) \<le> n"
proof (induction v arbitrary: n rule: encode_script_num.induct)
  case (1 v)
  show ?case
  proof (cases "v = 0")
    case True
    then show ?thesis by (simp add: encode_script_num.simps)
  next
    case False
    with "1.prems" obtain m where n: "n = Suc m"
      by (cases n) (auto simp: unat_eq_0)
    with "1.prems" have "unat (drop_bit 8 v) < 256 ^ m"
      by (simp add: unat_drop_bit_8 less_mult_imp_div_less mult.commute)
    with 1 False n show ?thesis by (simp add: encode_script_num.simps [of v])
  qed
qed

lemma encode_signed_length: "v \<noteq> 0 \<Longrightarrow> 0 < length (encode_script_num_signed v) \<and> length (encode_script_num_signed v) \<le> 5"
proof -
  assume "v \<noteq> 0"
  then have "encode_script_num v \<noteq> []" by (simp add: encode_script_num.simps [of v])
  moreover have "unat v < 256 ^ 4" using unsigned_less [of v, where ?'a = nat] by simp
  then have "length (encode_script_num v) \<le> 4" by (rule length_encode)
  ultimately show ?thesis by (auto simp: encode_script_num_signed_def Let_def)
qed

text \<open>The first byte of a push tells the three forms apart, and fixes its length.\<close>

lemma push_head:
  "\<exists>b rest. encode_script_num_push h = b # rest \<and>
     (if h = 0 then b = 0 \<and> rest = []
      else if h \<le> 16 then unat b = 0x50 + unat h \<and> rest = []
      else unat b = length rest \<and> 0 < unat b \<and> unat b \<le> 5 \<and> le_nat rest = unat h)"
proof -
  have small: "unat (0x50 + ucast h :: u8) = 0x50 + unat h" if "h \<le> 16"
  proof -
    from that have "unat h \<le> 16" by (simp add: word_le_nat_alt)
    then show ?thesis by (simp add: unat_word_ariths unsigned_ucast_eq take_bit_nat_eq_self)
  qed
  have "unat (word_of_nat (length (encode_script_num_signed h)) :: u8) = length (encode_script_num_signed h)"
    if "h \<noteq> 0" using encode_signed_length [OF that] by (simp add: unat_of_nat take_bit_nat_eq_self)
  with small encode_signed_length [of h] show ?thesis
    by (auto simp: encode_script_num_push_def Let_def le_nat_encode_signed)
qed

lemma push_prefix_free:
  assumes "take (length (encode_script_num_push h)) script = encode_script_num_push h"
    "take (length (encode_script_num_push h')) script = encode_script_num_push h'"
  shows "h = h'"
proof -
  obtain b rest b' rest' where e: "encode_script_num_push h = b # rest" "encode_script_num_push h' = b' # rest'"
    using push_head [of h] push_head [of h'] by metis
  obtain s where s1: "script = b # s" "take (length rest) s = rest"
    using assms(1) unfolding e(1) by (cases script) auto
  then have s2: "b' = b" "take (length rest') s = rest'"
    using assms(2) unfolding e(2) by simp_all
  note s = s1(1) s1(2) s2
  have "length rest' = length rest \<Longrightarrow> rest' = rest" using s by metis
  then have "unat h = unat h'"
    using push_head [of h] push_head [of h'] e s(3) by (auto simp: word_le_nat_alt split: if_splits)
  then show ?thesis by (simp add: word_unat_eq_iff)
qed

text \<open>
  The height a coinbase commits to under BIP34 is unique: one coinbase script
  passes the check for at most one height, so coinbases at different heights differ.
\<close>
theorem bip34_height_unique:
  assumes "coinbase_has_height tx height = Some True" "coinbase_has_height tx height' = Some True"
  shows "height = height'"
  using assms
  by (auto simp: coinbase_has_height_def Let_def split: list.splits intro: push_prefix_free)

definition sample_bip34_coinbase :: transaction where
  "sample_bip34_coinbase = \<lparr>tx_version = 1, tx_lock_time = 0,
     tx_input = [\<lparr>previous_output = null_outpoint, script_sig = encode_script_num_push 227931 @ [7],
                  in_sequence = 0, witness = []\<rparr>], tx_output = []\<rparr>"

theorem bip34_height_unique_witness:
  "coinbase_has_height sample_bip34_coinbase 227931 = Some True
   \<and> coinbase_has_height sample_bip34_coinbase 227930 \<noteq> Some True"
proof
  show has: "coinbase_has_height sample_bip34_coinbase 227931 = Some True"
    by (simp add: sample_bip34_coinbase_def coinbase_has_height_def Let_def)
  show "coinbase_has_height sample_bip34_coinbase 227930 \<noteq> Some True"
    using bip34_height_unique [OF _ has, of 227930] by auto
qed

end
