(* ===== verification/Utxo_Overlay.thy ===== *)
theory Utxo_Overlay
  imports Utxo_Store_Refine
begin

text \<open>
  The in-memory overlay \<open>UtxoOverlay\<close> of \<open>src/src/block_execution.rs\<close>: reads go through
  to a base store once and are cached, writes stay in memory, and the net change is
  what has to be written to the base. The shards of the source partition the keys by
  their first bytes and are one map here; debug assertions are off.
\<close>

section \<open>Model\<close>

record 'st overlay =
  ov_base :: 'st
  ov_original :: "(out_point_key, utxo option) fmap"
  ov_current :: "(out_point_key, utxo option) fmap"

definition ov_new :: "'st \<Rightarrow> 'st overlay" where
  "ov_new base = \<lparr>ov_base = base, ov_original = fmempty, ov_current = fmempty\<rparr>"

definition ov_cached :: "'st overlay \<Rightarrow> out_point_key \<Rightarrow> utxo option option" where
  "ov_cached o' k =
     (case fmlookup (ov_current o') k of Some v \<Rightarrow> Some v | None \<Rightarrow> fmlookup (ov_original o') k)"

definition ov_load ::
  "'st utxo_ops \<Rightarrow> out_point_key \<Rightarrow> ('st overlay, utxo_error, utxo option) st" where
  "ov_load base k o' =
     (case ov_cached o' k of
        Some v \<Rightarrow> (Inr v, o')
      | None \<Rightarrow>
          (case ops_get base k (ov_base o') of
             (Inl e, b) \<Rightarrow> (Inl e, o'\<lparr>ov_base := b\<rparr>)
           | (Inr v, b) \<Rightarrow> (Inr v, o'\<lparr>ov_base := b, ov_original := fmupd k v (ov_original o')\<rparr>)))"

text \<open>\<open>entry(k).or_insert(None)\<close>.\<close>

definition or_insert_none ::
  "out_point_key \<Rightarrow> (out_point_key, utxo option) fmap \<Rightarrow> (out_point_key, utxo option) fmap" where
  "or_insert_none k m = (case fmlookup m k of Some _ \<Rightarrow> m | None \<Rightarrow> fmupd k None m)"

definition write_spent :: "out_point_key \<Rightarrow> 'st overlay \<Rightarrow> 'st overlay" where
  "write_spent k o' =
     o'\<lparr>ov_original := or_insert_none k (ov_original o'), ov_current := fmupd k None (ov_current o')\<rparr>"

definition write_created :: "coin_row \<Rightarrow> 'st overlay \<Rightarrow> 'st overlay" where
  "write_created row o' =
     o'\<lparr>ov_original := or_insert_none (fst row) (ov_original o'),
        ov_current := fmupd (fst row) (Some (snd row)) (ov_current o')\<rparr>"

fun ov_load_spent ::
  "'st utxo_ops \<Rightarrow> out_point_key set \<Rightarrow> out_point_key list \<Rightarrow> ('st overlay, utxo_error, coin_row list) st" where
  "ov_load_spent base seen [] = st_ret []"
| "ov_load_spent base seen (k # ks) =
     (if k \<in> seen then st_err (DuplicateSpend k)
      else st_bind (ov_load base k) (\<lambda>v.
           st_bind (st_lift (ok_or v (Missing k))) (\<lambda>previous.
           st_bind (ov_load_spent base (insert k seen) ks) (\<lambda>undo_rows.
             st_ret ((k, previous) # undo_rows)))))"

fun ov_check_created ::
  "'st utxo_ops \<Rightarrow> out_point_key set \<Rightarrow> out_point_key set \<Rightarrow> coin_row list
     \<Rightarrow> ('st overlay, utxo_error, unit) st" where
  "ov_check_created base spent seen [] = st_ret ()"
| "ov_check_created base spent seen ((k, u) # rows) =
     (if k \<in> seen then st_err (Duplicate k)
      else if k \<in> spent then ov_check_created base spent (insert k seen) rows
      else st_bind (ov_load base k) (\<lambda>v.
             if v \<noteq> None then st_err (Duplicate k)
             else ov_check_created base spent (insert k seen) rows))"

text \<open>The check of the fast paths looks at the cache only.\<close>

fun ov_check_cached ::
  "'st overlay \<Rightarrow> out_point_key set \<Rightarrow> out_point_key set \<Rightarrow> coin_row list \<Rightarrow> utxo_error + unit" where
  "ov_check_cached o' spent seen [] = Ok ()"
| "ov_check_cached o' spent seen ((k, u) # rows) =
     (if k \<in> seen \<or> k \<notin> spent \<and> (case ov_cached o' k of Some (Some _) \<Rightarrow> True | _ \<Rightarrow> False)
      then Err (Duplicate k)
      else ov_check_cached o' spent (insert k seen) rows)"

definition ov_write ::
  "out_point_key list \<Rightarrow> coin_row list \<Rightarrow> coin_row list \<Rightarrow> ('st overlay, utxo_error, utxo_undo) st" where
  "ov_write spent created undo_rows o' =
     (Inr \<lparr>undo_spent = undo_rows, undo_created = map fst created\<rparr>,
      fold write_created created (fold write_spent spent o'))"

definition ov_apply_with_undo ::
  "'st utxo_ops \<Rightarrow> out_point_key list \<Rightarrow> coin_row list \<Rightarrow> ('st overlay, utxo_error, utxo_undo) st" where
  "ov_apply_with_undo base spent created =
     st_bind (ov_load_spent base {} spent) (\<lambda>undo_rows.
     st_bind (ov_check_created base (set spent) {} created) (\<lambda>_.
       ov_write spent created undo_rows))"

definition ov_apply_fresh ::
  "'st utxo_ops \<Rightarrow> out_point_key list \<Rightarrow> coin_row list \<Rightarrow> ('st overlay, utxo_error, utxo_undo) st" where
  "ov_apply_fresh base spent created =
     st_bind (ov_load_spent base {} spent) (\<lambda>undo_rows o'.
     st_bind (st_lift (ov_check_cached o' (set spent) {} created)) (\<lambda>_.
       ov_write spent created undo_rows) o')"

fun ov_check_prevouts ::
  "'st overlay \<Rightarrow> out_point_key set \<Rightarrow> (out_point_key \<times> utxo) list \<Rightarrow> utxo_error + unit" where
  "ov_check_prevouts o' seen [] = Ok ()"
| "ov_check_prevouts o' seen ((k, prevout) # rows) =
     (if k \<in> seen then Err (DuplicateSpend k)
      else case ov_cached o' k of
             Some (Some _) \<Rightarrow> ov_check_prevouts o' (insert k seen) rows
           | _ \<Rightarrow> Err (Missing k))"

definition ov_apply_from_prevouts ::
  "out_point_key list \<Rightarrow> utxo list \<Rightarrow> coin_row list \<Rightarrow> ('st overlay, utxo_error, utxo_undo) st" where
  "ov_apply_from_prevouts spent prevouts created o' =
     (if length prevouts \<noteq> length spent
      then (Inl (Malformed ''prevout count does not match spent count''), o')
      else st_bind (st_lift (ov_check_prevouts o' {} (zip spent prevouts))) (\<lambda>_.
           st_bind (st_lift (ov_check_cached o' (set spent) {} created)) (\<lambda>_.
             ov_write spent created (zip spent prevouts))) o')"

fun ov_undo_check ::
  "'st utxo_ops \<Rightarrow> coin_row list \<Rightarrow> ('st overlay, utxo_error, unit) st" where
  "ov_undo_check base [] = st_ret ()"
| "ov_undo_check base ((k, u) # rows) =
     st_bind (ov_load base k) (\<lambda>v. if v \<noteq> None then st_err (Duplicate k) else ov_undo_check base rows)"

fun ov_undo_created ::
  "'st utxo_ops \<Rightarrow> out_point_key list \<Rightarrow> ('st overlay, utxo_error, unit) st" where
  "ov_undo_created base [] = st_ret ()"
| "ov_undo_created base (k # ks) =
     st_bind (ov_load base k) (\<lambda>_ o'. ov_undo_created base ks (write_spent k o'))"

definition ov_undo ::
  "'st utxo_ops \<Rightarrow> utxo_undo \<Rightarrow> u64 \<Rightarrow> u64 \<Rightarrow> ('st overlay, utxo_error, unit) st" where
  "ov_undo base undo now window =
     st_bind (ov_undo_check base (undo_spent undo)) (\<lambda>_.
     st_bind (ov_undo_created base (undo_created undo)) (\<lambda>_ o'.
       (Inr (), fold write_created (undo_spent undo) o')))"

definition overlay_ops :: "'st utxo_ops \<Rightarrow> 'st overlay utxo_ops" where
  "overlay_ops base =
     \<lparr>ops_get = ov_load base,
      ops_apply_with_undo = ov_apply_with_undo base,
      ops_apply_with_undo_fresh_outputs = ov_apply_fresh base,
      ops_apply_with_undo_fresh_outputs_from_prevouts = ov_apply_from_prevouts,
      ops_undo = ov_undo base\<rparr>"


section \<open>Net changes\<close>

record utxo_changes =
  ch_spent :: "out_point_key list"
  ch_created :: "coin_row list"
  ch_undo :: utxo_undo

text \<open>
  The source visits the keys in the order of its hash maps and sorts the three lists
  afterwards; here the keys are visited in order.
\<close>

fun net_rows ::
  "(out_point_key, utxo option) fmap \<Rightarrow> (out_point_key \<times> utxo option) list
     \<Rightarrow> utxo_error + (out_point_key list \<times> coin_row list \<times> coin_row list)" where
  "net_rows original [] = Ok ([], [], [])"
| "net_rows original ((k, current) # rows) =
     bind_res (ok_or (fmlookup original k) (Malformed ''overlay original value'')) (\<lambda>orig.
     bind_res (net_rows original rows) (\<lambda>(spent, created, undo_rows).
       if orig = current then Ok (spent, created, undo_rows)
       else Ok (case orig of Some _ \<Rightarrow> k # spent | None \<Rightarrow> spent,
                case current of Some u \<Rightarrow> (k, u) # created | None \<Rightarrow> created,
                case orig of Some u \<Rightarrow> (k, u) # undo_rows | None \<Rightarrow> undo_rows)))"

definition current_rows :: "(out_point_key, utxo option) fmap \<Rightarrow> (out_point_key \<times> utxo option) list" where
  "current_rows m = map (\<lambda>k. (k, the (fmlookup m k))) (sorted_list_of_fset (fmdom m))"

definition net_changes :: "'st overlay \<Rightarrow> utxo_error + utxo_changes" where
  "net_changes o' =
     bind_res (net_rows (ov_original o') (current_rows (ov_current o'))) (\<lambda>(spent, created, undo_rows).
       Ok \<lparr>ch_spent = spent, ch_created = created,
           ch_undo = \<lparr>undo_spent = undo_rows, undo_created = map fst created\<rparr>\<rparr>)"

text \<open>Seeding the read cache with coins that were fetched ahead.\<close>

definition seed_prefetched :: "(out_point_key \<times> utxo option) list \<Rightarrow> 'st overlay \<Rightarrow> 'st overlay" where
  "seed_prefetched rows o' = o'\<lparr>ov_original := fold (\<lambda>(k, v). fmupd k v) rows (ov_original o')\<rparr>"

definition ov_prefetch ::
  "'st utxo_ops \<Rightarrow> out_point_key list \<Rightarrow> ('st overlay, utxo_error, unit) st" where
  "ov_prefetch base outpoints o' =
     (case ops_get_many base outpoints (ov_base o') of
        (Inl e, b) \<Rightarrow> (Inl e, o'\<lparr>ov_base := b\<rparr>)
      | (Inr rows, b) \<Rightarrow> (Inr (), seed_prefetched rows (o'\<lparr>ov_base := b\<rparr>)))"

end
