(* ===== verification/Utxo_Overlay_Refine.thy ===== *)
theory Utxo_Overlay_Refine
  imports Utxo_Overlay
begin

text \<open>
  The overlay of \<open>src/src/block_execution.rs\<close> over any lawful store is again a lawful
  store, and its net change is exact: applied to the coins of the base it gives the
  coins of the overlay, with the undo record that reverts it.
\<close>

section \<open>The overlay implements the trait\<close>

definition ov_view :: "('st \<Rightarrow> coins) \<Rightarrow> 'st overlay \<Rightarrow> coins" where
  "ov_view view o' k = (case ov_cached o' k of Some v \<Rightarrow> v | None \<Rightarrow> view (ov_base o') k)"

definition ov_known :: "'st overlay \<Rightarrow> out_point_key set" where
  "ov_known o' = fset (fmdom (ov_original o'))"

text \<open>
  Every cached original is the value of the base, every written key has a cached
  original, and the base still has the coins \<open>v\<close> the overlay was opened on.
\<close>

definition ov_sound :: "('st \<Rightarrow> bool) \<Rightarrow> ('st \<Rightarrow> coins) \<Rightarrow> coins \<Rightarrow> 'st overlay \<Rightarrow> bool" where
  "ov_sound sound view v o' \<longleftrightarrow> sound (ov_base o') \<and> view (ov_base o') = v
     \<and> (\<forall>k u. fmlookup (ov_original o') k = Some u \<longrightarrow> v k = u)
     \<and> fset (fmdom (ov_current o')) \<subseteq> ov_known o'
     \<and> coins_ok (ov_view view o')"

lemma ov_knownI: "fmlookup (ov_original o') k = Some u \<Longrightarrow> k \<in> ov_known o'"
  by (simp add: ov_known_def fmdomI)

lemma ov_known_iff: "k \<in> ov_known o' \<longleftrightarrow> (\<exists>u. fmlookup (ov_original o') k = Some u)"
  by (simp add: ov_known_def fmlookup_dom_iff)

lemma ov_known_cached:
  "ov_sound sound view v o' \<Longrightarrow> k \<in> ov_known o' \<longleftrightarrow> ov_cached o' k \<noteq> None"
  by (auto simp: ov_known_iff ov_cached_def ov_sound_def subset_iff fmlookup_dom_iff split: option.splits)

lemma ov_known_view:
  "ov_sound sound view v o' \<Longrightarrow> k \<in> ov_known o' \<Longrightarrow> ov_cached o' k = Some (ov_view view o' k)"
  by (auto simp: ov_known_cached ov_view_def)

lemma ov_unknown_view:
  "ov_sound sound view v o' \<Longrightarrow> k \<notin> ov_known o' \<Longrightarrow> ov_view view o' k = v k"
  by (auto simp: ov_known_cached ov_view_def ov_sound_def)

subsection \<open>Writes\<close>

lemma fmlookup_or_insert_none [simp]:
  "fmlookup (or_insert_none k m) k' =
     (if k = k' \<and> fmlookup m k = None then Some None else fmlookup m k')"
  by (auto simp: or_insert_none_def split: option.splits)

text \<open>Writing a key: the view changes there, and only a key whose original is absent may be new.\<close>

lemma write_view:
  "ov_view view (write_spent k o') = (ov_view view o')(k := None)"
  "ov_view view (write_created (k, u) o') = (ov_view view o')(k := Some u)"
  by (auto simp: ov_view_def ov_cached_def write_spent_def write_created_def fun_eq_iff split: option.splits)

lemma write_known [simp]:
  "ov_known (write_spent k o') = insert k (ov_known o')"
  "ov_known (write_created (k, u) o') = insert k (ov_known o')"
  by (auto simp: ov_known_iff write_spent_def write_created_def split: if_splits)

lemma write_sound:
  assumes "ov_sound sound view v o'" "k \<in> ov_known o' \<or> v k = None"
  shows "ov_sound sound view v (write_spent k o')"
    and "row_ok (k, u) \<Longrightarrow> ov_sound sound view v (write_created (k, u) o')"
proof -
  have "coins_ok ((ov_view view o')(k := None))" "row_ok (k, u) \<Longrightarrow> coins_ok ((ov_view view o')(k := Some u))"
    using assms(1) by (auto simp: ov_sound_def coins_ok_def)
  moreover have "\<forall>k' u. fmlookup (or_insert_none k (ov_original o')) k' = Some u \<longrightarrow> v k' = u"
    using assms by (auto simp: ov_sound_def ov_known_iff)
  ultimately show "ov_sound sound view v (write_spent k o')"
    and "row_ok (k, u) \<Longrightarrow> ov_sound sound view v (write_created (k, u) o')"
    using assms(1) unfolding ov_sound_def write_view write_known
    by (auto simp: write_spent_def write_created_def)
qed

lemma write_spents:
  assumes "ov_sound sound view v o'" "set ks \<subseteq> ov_known o'"
  shows "ov_sound sound view v (fold write_spent ks o')
    \<and> ov_view view (fold write_spent ks o') = ov_view view o' |` (- set ks)
    \<and> ov_known (fold write_spent ks o') = ov_known o'"
  using assms
proof (induction ks arbitrary: o')
  case (Cons k ks)
  then have "ov_sound sound view v (write_spent k o')" "set ks \<subseteq> ov_known (write_spent k o')"
    by (auto simp: write_sound)
  from Cons.IH [OF this] Cons.prems(2) show ?case
    by (auto simp: write_view fun_eq_iff restrict_map_def)
qed (auto simp: restrict_map_def fun_eq_iff)

lemma write_createds:
  assumes "ov_sound sound view v o'" "\<forall>r \<in> set rows. row_ok r" "distinct (map fst rows)"
    "\<forall>k \<in> fst ` set rows. k \<in> ov_known o' \<or> v k = None"
  shows "ov_sound sound view v (fold write_created rows o')
    \<and> ov_view view (fold write_created rows o') = ov_view view o' ++ map_of rows
    \<and> ov_known o' \<subseteq> ov_known (fold write_created rows o')"
  using assms
proof (induction rows arbitrary: o')
  case (Cons r rows)
  obtain k u where r: "r = (k, u)" by fastforce
  have "ov_sound sound view v (write_created (k, u) o')"
    using Cons.prems r by (auto intro: write_sound)
  moreover have "\<forall>k' \<in> fst ` set rows. k' \<in> ov_known (write_created (k, u) o') \<or> v k' = None"
    using Cons.prems(4) by auto
  moreover have "map_of rows k = None" using Cons.prems(3) r by (auto simp: map_of_eq_None_iff)
  ultimately show ?case using Cons.IH [of "write_created (k, u) o'"] Cons.prems(2,3)
    by (auto simp: r write_view fun_eq_iff map_add_def split: option.splits)
qed simp

text \<open>The write phase after checks that passed.\<close>

lemma ov_write_ok:
  assumes o: "ov_sound sound view v o'" and known: "set spent \<subseteq> ov_known o'"
    and rows: "\<forall>r \<in> set created. row_ok r" and d: "distinct (map fst created)"
    and fresh: "\<forall>k \<in> fst ` set created. k \<in> set spent \<or> ov_view view o' k = None"
  shows "\<exists>o''. ov_write spent created undo_rows o'
      = (Inr \<lparr>undo_spent = undo_rows, undo_created = map fst created\<rparr>, o'')
    \<and> ov_sound sound view v o'' \<and> ov_view view o'' = coins_after (ov_view view o') spent created
    \<and> ov_known o' \<subseteq> ov_known o''"
proof -
  let ?o = "fold write_spent spent o'"
  have s: "ov_sound sound view v ?o" "ov_view view ?o = ov_view view o' |` (- set spent)"
    "ov_known ?o = ov_known o'"
    using write_spents [OF o known] by blast+
  have "\<forall>k \<in> fst ` set created. k \<in> ov_known ?o \<or> v k = None"
  proof
    fix k assume "k \<in> fst ` set created"
    then have "k \<in> set spent \<or> ov_view view o' k = None" using fresh by (rule bspec [rotated])
    then show "k \<in> ov_known ?o \<or> v k = None"
      unfolding s(3) using known ov_unknown_view [OF o, of k] by (metis subsetD)
  qed
  from write_createds [OF s(1) rows d this] show ?thesis
    by (simp add: ov_write_def s coins_after_def)
qed

subsection \<open>Reads and checks\<close>

text \<open>A run that only reads: same outcome as the specification, same view.\<close>

definition ov_reads ::
  "('st \<Rightarrow> bool) \<Rightarrow> ('st \<Rightarrow> coins) \<Rightarrow> coins \<Rightarrow> out_point_key set \<Rightarrow> 'st overlay
     \<Rightarrow> 'e + 'a \<Rightarrow> ('e + 'a) \<times> 'st overlay \<Rightarrow> bool" where
  "ov_reads sound view v ks o' spec out \<longleftrightarrow>
     fst out = spec \<and> ov_sound sound view v (snd out) \<and> ov_view view (snd out) = ov_view view o'
     \<and> ov_known o' \<subseteq> ov_known (snd out) \<and> (spec \<in> range Inr \<longrightarrow> ks \<subseteq> ov_known (snd out))"

lemma ov_readsE:
  assumes "ov_reads sound view v ks o' spec out"
  obtains o'' where "out = (spec, o'')" "ov_sound sound view v o''" "ov_view view o'' = ov_view view o'"
    "ov_known o' \<subseteq> ov_known o''" "spec \<in> range Inr \<Longrightarrow> ks \<subseteq> ov_known o''"
  using assms by (cases out) (auto simp: ov_reads_def)

context utxo_reader
begin

lemma ov_load_ok:
  assumes o: "ov_sound sound view v o'"
  shows "ov_reads sound view v {k} o' (Inr (ov_view view o' k)) (ov_load ops k o')"
proof (cases "ov_cached o' k")
  case None
  have b: "sound (ov_base o')" "view (ov_base o') = v" using o by (auto simp: ov_sound_def)
  from getE [OF b(1)] obtain b' where
    g: "ops_get ops k (ov_base o') = (Inr (view (ov_base o') k), b')" "sound b'" "view b' = view (ov_base o')"
    by metis
  let ?o = "o'\<lparr>ov_base := b', ov_original := fmupd k (v k) (ov_original o')\<rparr>"
  have c: "fmlookup (ov_current o') k = None"
    using None by (auto simp: ov_cached_def split: option.splits)
  have view: "ov_view view ?o = ov_view view o'"
    using None g b c by (auto simp: ov_view_def ov_cached_def fun_eq_iff split: option.splits)
  have known: "ov_known ?o = insert k (ov_known o')" by (simp add: ov_known_def)
  have "ov_sound sound view v ?o"
    using o g b unfolding ov_sound_def view known by auto
  then show ?thesis
    using None g b view known by (auto simp: ov_reads_def ov_load_def ov_view_def)
next
  case (Some u)
  then show ?thesis using o ov_known_cached [OF o, of k]
    by (auto simp: ov_reads_def ov_load_def ov_view_def)
qed

lemma ov_load_spent_ok:
  assumes "ov_sound sound view v o'"
  shows "ov_reads sound view v (set ks) o' (coins_spend (ov_view view o') seen ks)
    (ov_load_spent ops seen ks o')"
  using assms
proof (induction ks arbitrary: o' seen)
  case (Cons k ks)
  show ?case
  proof (cases "k \<in> seen")
    case False
    obtain o1 where 1: "ov_load ops k o' = (Inr (ov_view view o' k), o1)" "ov_sound sound view v o1"
      "ov_view view o1 = ov_view view o'" "ov_known o' \<subseteq> ov_known o1" "k \<in> ov_known o1"
      using ov_readsE [OF ov_load_ok [OF Cons.prems, of k]] by (metis insert_subset rangeI)
    obtain o2 where 2: "ov_load_spent ops (insert k seen) ks o1
        = (coins_spend (ov_view view o') (insert k seen) ks, o2)" "ov_sound sound view v o2"
      "ov_view view o2 = ov_view view o'" "ov_known o1 \<subseteq> ov_known o2"
      "coins_spend (ov_view view o') (insert k seen) ks \<in> range Inr \<Longrightarrow> set ks \<subseteq> ov_known o2"
      using ov_readsE [OF Cons.IH [OF 1(2), of "insert k seen"]] 1(3) by metis
    show ?thesis
    proof (cases "ov_view view o' k")
      case None
      then show ?thesis using False 1 by (auto simp: ov_reads_def st_bind_def st_lift_def)
    next
      case (Some u)
      then show ?thesis using False 1 2
        by (cases "coins_spend (ov_view view o') (insert k seen) ks")
          (auto simp: ov_reads_def st_bind_def st_lift_def st_ret_def)
    qed
  qed (use Cons.prems in \<open>auto simp: ov_reads_def st_err_def\<close>)
qed (auto simp: ov_reads_def st_ret_def)

lemma ov_check_created_ok:
  assumes "ov_sound sound view v o'"
  shows "ov_reads sound view v {} o' (coins_create (ov_view view o') spent seen rows)
    (ov_check_created ops spent seen rows o')"
  using assms
proof (induction rows arbitrary: o' seen)
  case (Cons r rows)
  obtain k u where r: "r = (k, u)" by fastforce
  obtain o1 where 1: "ov_load ops k o' = (Inr (ov_view view o' k), o1)" "ov_sound sound view v o1"
    "ov_view view o1 = ov_view view o'" "ov_known o' \<subseteq> ov_known o1"
    using ov_readsE [OF ov_load_ok [OF Cons.prems, of k]] by metis
  show ?case
    using Cons.prems Cons.IH [OF Cons.prems, of "insert k seen"] Cons.IH [OF 1(2), of "insert k seen"] 1
    by (auto simp: r ov_reads_def st_bind_def st_err_def)
qed (auto simp: ov_reads_def st_ret_def)

lemma ov_check_cached_ok:
  assumes "ov_sound sound view v o'" "\<forall>r \<in> set rows. fst r \<in> spent \<or> ov_view view o' (fst r) = None"
  shows "ov_check_cached o' spent seen rows = coins_create (ov_view view o') spent seen rows"
  using assms(2)
  by (induction rows arbitrary: seen) (auto simp: ov_view_def split: option.splits)

lemma ov_check_prevouts_ok:
  assumes "ov_sound sound view v o'" "set ks \<subseteq> ov_known o'" "map (ov_view view o') ks = map Some us"
  shows "bind_res (ov_check_prevouts o' seen (zip ks us)) (\<lambda>_. Ok (zip ks us))
    = coins_spend (ov_view view o') seen ks"
  using assms(2,3)
proof (induction ks arbitrary: us seen)
  case (Cons k ks)
  then obtain u us' where us: "us = u # us'" "ov_view view o' k = Some u" by auto
  have c: "ov_cached o' k = Some (Some u)"
    using ov_known_view [OF assms(1), of k] Cons.prems us by auto
  show ?case
    using Cons.IH [of us' "insert k seen", symmetric] Cons.prems us c
    by (cases "ov_check_prevouts o' (insert k seen) (zip ks us')") auto
qed simp

end

subsection \<open>The laws\<close>

lemma coins_apply_split:
  "coins_apply v spent created =
     (case coins_spend v {} spent of
        Inl e \<Rightarrow> Inl e
      | Inr rows \<Rightarrow>
          (case coins_create v (set spent) {} created of
             Inl e \<Rightarrow> Inl e
           | Inr _ \<Rightarrow> Inr (\<lparr>undo_spent = rows, undo_created = map fst created\<rparr>, coins_after v spent created)))"
  by (simp add: coins_apply_def split: sum.splits)

context utxo_reader
begin

text \<open>After the spent coins were looked up, the checks decide and the write phase follows.\<close>

lemma ov_finish:
  assumes o: "ov_sound sound view v o1" and eq: "ov_view view o1 = ov_view view o'"
    and known: "ov_known o' \<subseteq> ov_known o1" "set spent \<subseteq> ov_known o1"
    and rows: "\<forall>r \<in> set created. row_ok r"
    and spend: "coins_spend (ov_view view o') {} spent = Inr us"
    and create: "coins_create (ov_view view o') (set spent) {} created = Inr ()"
  shows "implements (ov_sound sound view v) (ov_view view) ov_known o'
    (coins_apply (ov_view view o') spent created) (ov_write spent created us o1)"
proof -
  have "distinct (map fst created)" "\<forall>k \<in> fst ` set created. k \<in> set spent \<or> ov_view view o1 k = None"
    using create unfolding eq coins_create_Inr_iff by auto
  from ov_write_ok [OF o known(2) rows this, of us] obtain o2 where
    "ov_write spent created us o1 = (Inr \<lparr>undo_spent = us, undo_created = map fst created\<rparr>, o2)"
    "ov_sound sound view v o2" "ov_view view o2 = coins_after (ov_view view o1) spent created"
    "ov_known o1 \<subseteq> ov_known o2"
    by blast
  with known(1) eq show ?thesis
    by (auto simp: implements_def coins_apply_split spend create)
qed

lemma ov_apply_ok:
  assumes o: "ov_sound sound view v o'" and rows: "\<forall>r \<in> set created. row_ok r"
  shows "implements (ov_sound sound view v) (ov_view view) ov_known o'
    (coins_apply (ov_view view o') spent created) (ov_apply_with_undo ops spent created o')"
proof -
  obtain o1 where 1: "ov_load_spent ops {} spent o' = (coins_spend (ov_view view o') {} spent, o1)"
    "ov_sound sound view v o1" "ov_view view o1 = ov_view view o'" "ov_known o' \<subseteq> ov_known o1"
    "coins_spend (ov_view view o') {} spent \<in> range Inr \<Longrightarrow> set spent \<subseteq> ov_known o1"
    using ov_readsE [OF ov_load_spent_ok [OF o]] by metis
  obtain o2 where 2: "ov_check_created ops (set spent) {} created o1
      = (coins_create (ov_view view o') (set spent) {} created, o2)"
    "ov_sound sound view v o2" "ov_view view o2 = ov_view view o'" "ov_known o1 \<subseteq> ov_known o2"
    using ov_readsE [OF ov_check_created_ok [OF 1(2)]] 1(3) by metis
  show ?thesis
  proof (cases "coins_spend (ov_view view o') {} spent")
    case (Inl e)
    with 1 show ?thesis by (simp add: ov_apply_with_undo_def st_bind_def implements_def coins_apply_split)
  next
    case spend: (Inr us)
    show ?thesis
    proof (cases "coins_create (ov_view view o') (set spent) {} created")
      case (Inl e)
      with spend 1 2 show ?thesis
        by (auto simp: ov_apply_with_undo_def st_bind_def implements_def coins_apply_split)
    next
      case (Inr x)
      have "set spent \<subseteq> ov_known o2" using spend 1(5) 2(4) by auto
      from ov_finish [OF 2(2,3) _ this rows spend] Inr show ?thesis
        using spend 1 2 by (simp add: ov_apply_with_undo_def st_bind_def)
    qed
  qed
qed

lemma ov_fresh_ok:
  assumes o: "ov_sound sound view v o'" and rows: "\<forall>r \<in> set created. row_ok r"
    and fresh: "\<forall>r \<in> set created. fst r \<in> set spent \<or> ov_view view o' (fst r) = None"
  shows "implements (ov_sound sound view v) (ov_view view) ov_known o'
    (coins_apply (ov_view view o') spent created) (ov_apply_fresh ops spent created o')"
proof -
  obtain o1 where 1: "ov_load_spent ops {} spent o' = (coins_spend (ov_view view o') {} spent, o1)"
    "ov_sound sound view v o1" "ov_view view o1 = ov_view view o'" "ov_known o' \<subseteq> ov_known o1"
    "coins_spend (ov_view view o') {} spent \<in> range Inr \<Longrightarrow> set spent \<subseteq> ov_known o1"
    using ov_readsE [OF ov_load_spent_ok [OF o]] by metis
  have 2: "ov_check_cached o1 (set spent) {} created = coins_create (ov_view view o') (set spent) {} created"
    using ov_check_cached_ok [OF 1(2)] fresh 1(3) by simp
  show ?thesis
  proof (cases "coins_spend (ov_view view o') {} spent")
    case (Inl e)
    with 1 show ?thesis by (simp add: ov_apply_fresh_def st_bind_def implements_def coins_apply_split)
  next
    case spend: (Inr us)
    show ?thesis
    proof (cases "coins_create (ov_view view o') (set spent) {} created")
      case (Inl e)
      with spend 1 2 show ?thesis
        by (auto simp: ov_apply_fresh_def st_bind_def st_lift_def implements_def coins_apply_split)
    next
      case (Inr x)
      from ov_finish [OF 1(2,3,4) _ rows spend] Inr show ?thesis
        using spend 1 2 by (simp add: ov_apply_fresh_def st_bind_def st_lift_def)
    qed
  qed
qed

lemma ov_prevouts_ok:
  assumes o: "ov_sound sound view v o'" and rows: "\<forall>r \<in> set created. row_ok r"
    and fresh: "\<forall>r \<in> set created. fst r \<in> set spent \<or> ov_view view o' (fst r) = None"
    and known: "set spent \<subseteq> ov_known o'" and prev: "map (ov_view view o') spent = map Some prevouts"
  shows "implements (ov_sound sound view v) (ov_view view) ov_known o'
    (coins_apply (ov_view view o') spent created) (ov_apply_from_prevouts spent prevouts created o')"
proof -
  have len: "length prevouts = length spent" using prev by (metis length_map)
  have 1: "bind_res (ov_check_prevouts o' {} (zip spent prevouts)) (\<lambda>_. Ok (zip spent prevouts))
      = coins_spend (ov_view view o') {} spent"
    by (rule ov_check_prevouts_ok [OF o known prev])
  have 2: "ov_check_cached o' (set spent) {} created = coins_create (ov_view view o') (set spent) {} created"
    using ov_check_cached_ok [OF o fresh] .
  show ?thesis
  proof (cases "ov_check_prevouts o' {} (zip spent prevouts)")
    case (Inl e)
    with 1 have "coins_spend (ov_view view o') {} spent = Inl e" by simp
    with Inl o len show ?thesis
      by (simp add: ov_apply_from_prevouts_def st_bind_def st_lift_def implements_def coins_apply_split)
  next
    case check: (Inr x)
    with 1 have spend: "coins_spend (ov_view view o') {} spent = Inr (zip spent prevouts)" by simp
    show ?thesis
    proof (cases "coins_create (ov_view view o') (set spent) {} created")
      case (Inl e)
      with spend check o len 2 show ?thesis
        by (simp add: ov_apply_from_prevouts_def st_bind_def st_lift_def implements_def coins_apply_split)
    next
      case (Inr x)
      from ov_finish [OF o refl _ known rows spend] Inr show ?thesis
        using check len 2 by (simp add: ov_apply_from_prevouts_def st_bind_def st_lift_def)
    qed
  qed
qed

lemma ov_undo_check_ok:
  assumes "ov_sound sound view v o'" "\<forall>k \<in> fst ` set rows. ov_view view o' k = None"
  shows "ov_reads sound view v (fst ` set rows) o' (Inr ()) (ov_undo_check ops rows o')"
  using assms
proof (induction rows arbitrary: o')
  case (Cons r rows)
  obtain k u where r: "r = (k, u)" by fastforce
  obtain o1 where 1: "ov_load ops k o' = (Inr (ov_view view o' k), o1)" "ov_sound sound view v o1"
    "ov_view view o1 = ov_view view o'" "ov_known o' \<subseteq> ov_known o1" "k \<in> ov_known o1"
    using ov_readsE [OF ov_load_ok [OF Cons.prems(1), of k]] by (metis insert_subset rangeI)
  have "\<forall>k \<in> fst ` set rows. ov_view view o1 k = None" using Cons.prems(2) 1(3) by simp
  from Cons.IH [OF 1(2) this] Cons.prems(2) 1 show ?case
    by (auto simp: r ov_reads_def st_bind_def)
qed (auto simp: ov_reads_def st_ret_def)

lemma ov_undo_created_ok:
  assumes "ov_sound sound view v o'"
  shows "\<exists>o''. ov_undo_created ops ks o' = (Inr (), o'') \<and> ov_sound sound view v o''
    \<and> ov_view view o'' = ov_view view o' |` (- set ks) \<and> ov_known o' \<subseteq> ov_known o''"
  using assms
proof (induction ks arbitrary: o')
  case (Cons k ks)
  obtain o1 where 1: "ov_load ops k o' = (Inr (ov_view view o' k), o1)" "ov_sound sound view v o1"
    "ov_view view o1 = ov_view view o'" "ov_known o' \<subseteq> ov_known o1" "k \<in> ov_known o1"
    using ov_readsE [OF ov_load_ok [OF Cons.prems(1), of k]] by (metis insert_subset rangeI)
  have "ov_sound sound view v (write_spent k o1)" using write_sound(1) [OF 1(2)] 1(5) by blast
  from Cons.IH [OF this] 1 show ?case
    by (force simp: st_bind_def write_view restrict_map_def fun_eq_iff)
qed (auto simp: st_ret_def restrict_map_def fun_eq_iff)

lemma ov_undo_ok:
  assumes o: "ov_sound sound view v o'" and rows: "\<forall>r \<in> set (undo_spent undo). row_ok r"
    and d: "distinct (map fst (undo_spent undo))"
    and fresh: "\<forall>k \<in> fst ` set (undo_spent undo). ov_view view o' k = None"
  shows "\<exists>o''. ov_undo ops undo now window o' = (Inr (), o'') \<and> ov_sound sound view v o''
    \<and> ov_view view o'' = coins_undo (ov_view view o') undo \<and> ov_known o' \<subseteq> ov_known o''"
proof -
  obtain o1 where 1: "ov_undo_check ops (undo_spent undo) o' = (Inr (), o1)" "ov_sound sound view v o1"
    "ov_view view o1 = ov_view view o'" "ov_known o' \<subseteq> ov_known o1" "fst ` set (undo_spent undo) \<subseteq> ov_known o1"
    using ov_readsE [OF ov_undo_check_ok [OF o fresh]] by (metis rangeI)
  obtain o2 where 2: "ov_undo_created ops (undo_created undo) o1 = (Inr (), o2)" "ov_sound sound view v o2"
    "ov_view view o2 = ov_view view o1 |` (- set (undo_created undo))" "ov_known o1 \<subseteq> ov_known o2"
    using ov_undo_created_ok [OF 1(2)] by blast
  have "\<forall>k \<in> fst ` set (undo_spent undo). k \<in> ov_known o2 \<or> v k = None" using 1(5) 2(4) by blast
  from write_createds [OF 2(2) rows d this] 1 2 show ?thesis
    by (auto simp: ov_undo_def st_bind_def coins_undo_def)
qed

text \<open>So an overlay on any lawful store is a lawful store.\<close>

lemma overlay_utxo_store:
  "utxo_store (overlay_ops ops) (ov_sound sound view v) (ov_view view) ov_known"
proof unfold_locales
  fix s k assume "ov_sound sound view v s"
  from ov_readsE [OF ov_load_ok [OF this, of k]]
  show "\<exists>s'. ops_get (overlay_ops ops) k s = (Inr (ov_view view s k), s') \<and> ov_sound sound view v s'
    \<and> ov_view view s' = ov_view view s \<and> insert k (ov_known s) \<subseteq> ov_known s'"
    by (metis (no_types) insert_subset overlay_ops_def rangeI utxo_ops.select_convs(1))
qed (simp_all add: overlay_ops_def ov_apply_ok ov_fresh_ok ov_prevouts_ok ov_undo_ok, simp add: ov_sound_def)

lemma ov_new_sound: "sound s \<Longrightarrow> ov_sound sound view (view s) (ov_new s)"
  "ov_view view (ov_new s) = view s"
proof -
  show *: "ov_view view (ov_new s) = view s" by (simp add: fun_eq_iff ov_view_def ov_cached_def ov_new_def)
  show "ov_sound sound view (view s) (ov_new s)" if "sound s"
    unfolding ov_sound_def * using view_ok [OF that] that by (simp add: ov_new_def)
qed

end

interpretation overlay: utxo_store "overlay_ops store_ops" "ov_sound store_inv store_view v"
  "ov_view store_view" ov_known for v
  by (rule redb.overlay_utxo_store)

section \<open>Net changes\<close>

lemma net_rows_ok:
  assumes "\<forall>(k, c) \<in> set rows. fmlookup original k = Some (v k)" "distinct (map fst rows)"
  shows "net_rows original rows = Inr
     (map fst (filter (\<lambda>(k, c). v k \<noteq> c \<and> v k \<noteq> None) rows),
      map (\<lambda>(k, c). (k, the c)) (filter (\<lambda>(k, c). v k \<noteq> c \<and> c \<noteq> None) rows),
      map (\<lambda>(k, c). (k, the (v k))) (filter (\<lambda>(k, c). v k \<noteq> c \<and> v k \<noteq> None) rows))"
  using assms
proof (induction rows)
  case (Cons r rows)
  obtain k c where r: "r = (k, c)" by fastforce
  with Cons show ?case by (cases "v k"; cases c) auto
qed simp

lemma current_rows_set: "(k, c) \<in> set (current_rows m) \<longleftrightarrow> fmlookup m k = Some c"
  by (auto simp: current_rows_def image_iff fmlookup_dom_iff)

lemma current_rows_distinct: "distinct (map fst (current_rows m))"
  by (simp add: current_rows_def comp_def sorted_list_of_fset.rep_eq)

lemma current_rows_sorted: "sorted (map fst (current_rows m))"
  by (simp add: current_rows_def comp_def sorted_list_of_fset.rep_eq)

lemma map_of_net_created:
  assumes "distinct (map fst rows)"
  shows "map_of (map (\<lambda>(k, c). (k, the c)) (filter (\<lambda>(k, c). v k \<noteq> c \<and> c \<noteq> None) rows)) k
    = (case map_of rows k of Some (Some u) \<Rightarrow> if v k \<noteq> Some u then Some u else None | _ \<Rightarrow> None)"
  using assms
  by (induction rows) (auto simp: map_of_eq_None_iff image_iff split: option.splits)

lemma map_of_current_rows: "map_of (current_rows m) k = fmlookup m k"
  using current_rows_distinct [of m]
  by (cases "fmlookup m k") (auto simp: map_of_eq_None_iff current_rows_set image_iff)

lemma ov_view_rows:
  assumes "ov_sound sound view v o'"
  shows "ov_view view o' = (\<lambda>k. case map_of (current_rows (ov_current o')) k of Some c \<Rightarrow> c | None \<Rightarrow> v k)"
  using assms
  by (auto simp: ov_view_def ov_cached_def ov_sound_def map_of_current_rows fun_eq_iff split: option.splits)

lemma coins_after_net:
  assumes d: "distinct (map fst rows)"
  shows "coins_after v (map fst (filter (\<lambda>(k, c). v k \<noteq> c \<and> v k \<noteq> None) rows))
      (map (\<lambda>(k, c). (k, the c)) (filter (\<lambda>(k, c). v k \<noteq> c \<and> c \<noteq> None) rows))
    = (\<lambda>k. case map_of rows k of Some c \<Rightarrow> c | None \<Rightarrow> v k)"
    (is "coins_after v ?spent ?created = _")
proof
  fix k
  have s: "k \<in> set ?spent \<longleftrightarrow> (\<exists>c. map_of rows k = Some c \<and> v k \<noteq> c \<and> v k \<noteq> None)"
    using d by force
  show "coins_after v ?spent ?created k = (case map_of rows k of Some c \<Rightarrow> c | None \<Rightarrow> v k)"
    unfolding coins_after_def map_add_def restrict_map_def map_of_net_created [OF d] Compl_iff s
    by (auto split: option.splits)
qed

text \<open>
  Applying the net change to the coins the overlay was opened on gives the coins
  of the overlay, and the undo record of the change is exact.
\<close>

lemma net_changes_ok:
  assumes o: "ov_sound sound view v o'"
  shows "\<exists>ch. net_changes o' = Inr ch
    \<and> coins_apply v (ch_spent ch) (ch_created ch) = Inr (ch_undo ch, ov_view view o')
    \<and> set (ch_spent ch) \<union> fst ` set (ch_created ch) \<subseteq> ov_known o'
    \<and> sorted (ch_spent ch) \<and> sorted (map fst (ch_created ch)) \<and> (\<forall>r \<in> set (ch_created ch). row_ok r)"
proof -
  let ?rows = "current_rows (ov_current o')"
  let ?spent = "filter (\<lambda>(k, c). v k \<noteq> c \<and> v k \<noteq> None) ?rows"
  let ?created = "filter (\<lambda>(k, c). v k \<noteq> c \<and> c \<noteq> None) ?rows"
  let ?ch = "\<lparr>ch_spent = map fst ?spent, ch_created = map (\<lambda>(k, c). (k, the c)) ?created,
     ch_undo = \<lparr>undo_spent = map (\<lambda>(k, c). (k, the (v k))) ?spent,
       undo_created = map fst (map (\<lambda>(k, c). (k, the c)) ?created)\<rparr>\<rparr>"
  have orig: "fmlookup (ov_original o') k = Some (v k)" if "(k, c) \<in> set ?rows" for k c
    using o that by (auto simp: current_rows_set ov_sound_def ov_known_iff subset_iff fmlookup_dom_iff)
  have d: "distinct (map fst ?rows)" by (rule current_rows_distinct)
  have after: "ov_view view o' = coins_after v (ch_spent ?ch) (ch_created ?ch)"
    unfolding utxo_changes.simps coins_after_net [OF d] ov_view_rows [OF o] ..
  have dd: "distinct (map fst (filter P ?rows))" "sorted (map fst (filter P ?rows))" for P
    using d current_rows_sorted [of "ov_current o'"] by (simp_all add: distinct_map_filter sorted_filter)
  have fst: "map fst (ch_created ?ch) = map fst ?created" "map fst (undo_spent (ch_undo ?ch)) = ch_spent ?ch"
    "undo_created (ch_undo ?ch) = map fst (ch_created ?ch)"
    by (simp_all add: comp_def split_def)
  have "\<forall>(k, c) \<in> set ?rows. fmlookup (ov_original o') k = Some (v k)" using orig by blast
  from net_rows_ok [OF this d] have "net_changes o' = Inr ?ch" by (simp add: net_changes_def)
  moreover have "coins_apply v (ch_spent ?ch) (ch_created ?ch) = Inr (ch_undo ?ch, ov_view view o')"
    unfolding coins_apply_Inr_iff after fst
  proof (intro conjI refl)
    show "distinct (ch_spent ?ch)" "distinct (map fst ?created)" using dd by simp_all
    show "\<forall>(k, u) \<in> set (undo_spent (ch_undo ?ch)). v k = Some u" by auto
    show "\<forall>k \<in> fst ` set (ch_created ?ch). k \<in> set (ch_spent ?ch) \<or> v k = None" by force
  qed
  moreover have "\<forall>r \<in> set (ch_created ?ch). row_ok r"
  proof
    fix r assume "r \<in> set (ch_created ?ch)"
    then obtain k u where "r = (k, u)" "(k, Some u) \<in> set ?rows" by auto
    then have "ov_view view o' k = Some u" "r = (k, u)" using d by (auto simp: ov_view_rows [OF o])
    then show "row_ok r" using o by (auto simp: ov_sound_def coins_ok_def)
  qed
  moreover have "set (ch_spent ?ch) \<union> fst ` set (ch_created ?ch) \<subseteq> ov_known o'"
    using orig by (force simp: ov_known_iff)
  moreover have "sorted (ch_spent ?ch)" "sorted (map fst (ch_created ?ch))" using dd unfolding fst by simp_all
  ultimately show ?thesis by blast
qed

context utxo_reader
begin

text \<open>Coins fetched ahead from the base are what a lookup would have cached.\<close>

lemma seed_prefetched_sound:
  assumes "ov_sound sound view v o'" "\<forall>(k, u) \<in> set rows. v k = u"
  shows "ov_sound sound view v (seed_prefetched rows o')
    \<and> ov_view view (seed_prefetched rows o') = ov_view view o'
    \<and> ov_known (seed_prefetched rows o') = ov_known o' \<union> fst ` set rows"
  using assms
proof (induction rows arbitrary: o')
  case (Cons r rows)
  obtain k u where r: "r = (k, u)" "u = v k" using Cons.prems(2) by (cases r) auto
  let ?o = "o'\<lparr>ov_original := fmupd k u (ov_original o')\<rparr>"
  have known: "ov_known ?o = insert k (ov_known o')" by (simp add: ov_known_def)
  have view: "ov_view view ?o = ov_view view o'"
    using Cons.prems(1) r(2)
    by (auto simp: ov_view_def ov_cached_def ov_sound_def fun_eq_iff split: option.splits)
  have "ov_sound sound view v ?o"
    using Cons.prems(1) r(2) unfolding ov_sound_def view known by auto
  moreover have "seed_prefetched (r # rows) o' = seed_prefetched rows ?o"
    by (simp add: seed_prefetched_def r)
  ultimately show ?case using Cons.IH [of ?o] Cons.prems(2) view known r by auto
qed (simp add: seed_prefetched_def)

lemma ov_prefetch_ok:
  assumes o: "ov_sound sound view v o'"
  shows "ov_reads sound view v (set ks) o' (Inr ()) (ov_prefetch ops ks o')"
proof -
  have b: "sound (ov_base o')" "view (ov_base o') = v" using o by (auto simp: ov_sound_def)
  obtain b' where g: "ops_get_many ops ks (ov_base o') = (Inr (map (\<lambda>k. (k, v k)) ks), b')"
    "sound b'" "view b' = v"
    using get_many_ok [OF b(1), of ks] b(2) by auto
  let ?o = "o'\<lparr>ov_base := b'\<rparr>"
  have view: "ov_view view ?o = ov_view view o'" "ov_known ?o = ov_known o'"
    using g b by (auto simp: ov_view_def ov_cached_def ov_known_def fun_eq_iff split: option.splits)
  have "ov_sound sound view v ?o" using o g unfolding ov_sound_def view by auto
  from seed_prefetched_sound [OF this, of "map (\<lambda>k. (k, v k)) ks"] g view show ?thesis
    by (auto simp: ov_prefetch_def ov_reads_def image_image)
qed

end

end
