(* ===== verification/Validation_Delta.thy ===== *)
theory Validation_Delta
  imports Utxo_Store_Refine
begin

text \<open>
  The records of the validation journal of \<open>src/src/chain_store.rs\<close>: sorted delta
  rows, their split into shards under a manifest, the Bloom filters that skip rows,
  and the fold of a batch into one update per outpoint.
\<close>

section \<open>Bloom filters\<close>

definition validation_bloom_magic :: bytes where "validation_bloom_magic = [0x52, 0x56, 0x42, 0x31]"
definition validation_bloom_header_bytes :: nat where "validation_bloom_header_bytes = 48"
definition validation_bloom_bits_per_update :: nat where "validation_bloom_bits_per_update = 10"

record validation_bloom =
  bloom_bits :: bytes

definition validation_bloom_byte_count :: "nat \<Rightarrow> utxo_error + nat" where
  "validation_bloom_byte_count update_count =
     ok_or (map_option (\<lambda>bits. max (div_ceil bits 8) 1)
              (usize_checked_mul update_count validation_bloom_bits_per_update))
       (Malformed ''validation bloom size overflow'')"

definition with_update_count :: "nat \<Rightarrow> utxo_error + validation_bloom" where
  "with_update_count update_count =
     bind_res (validation_bloom_byte_count update_count) (\<lambda>byte_count.
       Ok \<lparr>bloom_bits = replicate byte_count 0\<rparr>)"

definition validation_bloom_hashes :: "out_point_key \<Rightarrow> u64 \<times> u64" where
  "validation_bloom_hashes k =
     (let word = (\<lambda>offset. u64_from_le (take 8 (drop offset (as_bytes k)))) in
        ((word 0 XOR word_rotl 23 (word 16)) XOR word 28,
         word_rotl 17 (word 8 XOR word_rotl 41 (word 24)) OR 1))"

text \<open>The bit a probe looks at; the filter is never empty.\<close>

definition bloom_bit :: "nat \<Rightarrow> out_point_key \<Rightarrow> u64 \<Rightarrow> nat" where
  "bloom_bit byte_count k probe =
     (case validation_bloom_hashes k of (first, step) \<Rightarrow>
        unat ((first + probe * step) mod word_of_nat (byte_count * 8)))"

definition bloom_set :: "nat \<Rightarrow> bytes \<Rightarrow> bytes" where
  "bloom_set i bits = bits[i div 8 := bits ! (i div 8) OR push_bit (i mod 8) 1]"

definition bloom_insert :: "out_point_key \<Rightarrow> validation_bloom \<Rightarrow> validation_bloom" where
  "bloom_insert k bloom =
     \<lparr>bloom_bits =
        fold (\<lambda>probe bits. bloom_set (bloom_bit (length bits) k probe) bits) [0, 1, 2] (bloom_bits bloom)\<rparr>"

definition might_contain :: "validation_bloom \<Rightarrow> out_point_key \<Rightarrow> bool" where
  "might_contain bloom k =
     list_all (\<lambda>probe.
       let i = bloom_bit (length (bloom_bits bloom)) k probe in
         bloom_bits bloom ! (i div 8) AND push_bit (i mod 8) 1 \<noteq> 0) [0, 1, 2]"

text \<open>\<open>None\<close> is the panic on a filter of \<open>2\<^sup>3\<^sup>2\<close> bytes or more; \<open>sha256\<close> is the digest crate's function.\<close>

definition encode_validation_bloom ::
  "(bytes \<Rightarrow> bytes) \<Rightarrow> validation_bloom \<Rightarrow> u64 \<Rightarrow> bytes option" where
  "encode_validation_bloom sha256 bloom utxo_count =
     map_option (\<lambda>len. validation_bloom_magic @ u64_to_le utxo_count @ u32_to_le len
                        @ sha256 (bloom_bits bloom) @ bloom_bits bloom)
       (u32_try_from (length (bloom_bits bloom)))"

definition decode_validation_bloom ::
  "(bytes \<Rightarrow> bytes) \<Rightarrow> bytes \<Rightarrow> nat \<Rightarrow> utxo_error + (u64 \<times> validation_bloom)" where
  "decode_validation_bloom sha256 encoded expected_bytes =
     (if length encoded \<noteq> usize_saturating_add validation_bloom_header_bytes expected_bytes
      then Err (Malformed ''validation bloom record length'')
      else if take 4 encoded \<noteq> validation_bloom_magic then Err (Malformed ''validation bloom format'')
      else if unat (u32_from_le (take 4 (drop 12 encoded))) \<noteq> expected_bytes
      then Err (Malformed ''validation bloom bit length'')
      else let bits = drop validation_bloom_header_bytes encoded in
        if take 32 (drop 16 encoded) \<noteq> sha256 bits then Err (Malformed ''validation bloom checksum'')
        else Ok (u64_from_le (take 8 (drop 4 encoded)), \<lparr>bloom_bits = bits\<rparr>))"

text \<open>
  Partitioning candidate indices by a filter; \<open>available_workers\<close> is the machine's
  parallelism, and the chunks are joined in order.
\<close>

definition min_parallel_validation_bloom_keys :: nat where
  "min_parallel_validation_bloom_keys = 16384"

definition partition_validation_bloom_matches ::
  "nat \<Rightarrow> validation_bloom \<Rightarrow> out_point_key list \<Rightarrow> nat list \<Rightarrow> nat list \<times> nat list" where
  "partition_validation_bloom_matches available_workers bloom outpoints indices =
     (let test = (\<lambda>index. might_contain bloom (outpoints ! index));
          workers = min available_workers (div_ceil (length indices) min_parallel_validation_bloom_keys) in
      if workers \<le> 1 then partition test indices
      else let jobs = map (partition test) (chunks (div_ceil (length indices) workers) indices) in
        (concat (map fst jobs), concat (map snd jobs)))"


section \<open>Delta records\<close>

definition max_validation_delta_record_bytes :: nat where
  "max_validation_delta_record_bytes = 512 * 1024 * 1024"
definition validation_delta_magic :: bytes where "validation_delta_magic = [0x52, 0x56, 0x44, 0x33]"
definition validation_sharded_delta_magic :: bytes where
  "validation_sharded_delta_magic = [0x52, 0x56, 0x44, 0x34]"
definition validation_compact_sharded_delta_magic :: bytes where
  "validation_compact_sharded_delta_magic = [0x52, 0x56, 0x44, 0x35]"
definition validation_delta_header_bytes :: nat where "validation_delta_header_bytes = 16"
definition validation_delta_index_bytes :: nat where "validation_delta_index_bytes = 45"
definition validation_rvd4_shard_count :: nat where "validation_rvd4_shard_count = 256"
definition validation_delta_shard_count :: nat where "validation_delta_shard_count = 16"
definition validation_delta_shard_bitmap_bytes :: nat where
  "validation_delta_shard_bitmap_bytes = validation_rvd4_shard_count div 8"
definition validation_sharded_delta_header_bytes :: nat where
  "validation_sharded_delta_header_bytes = 16 + validation_delta_shard_bitmap_bytes"
definition validation_compact_sharded_delta_header_bytes :: nat where
  "validation_compact_sharded_delta_header_bytes = 16 + validation_delta_shard_count div 8"

record validation_update =
  spent_in_batch :: bool
  upd_utxo :: "utxo option"

type_synonym validation_delta_updates = "(out_point_key \<times> validation_update) list"

definition record_too_large :: "bytes \<Rightarrow> bool" where
  "record_too_large bs \<longleftrightarrow> max_validation_delta_record_bytes < length bs"

lemma record_too_large_code [code]: "record_too_large bs \<longleftrightarrow> 536870912 < int (length bs)"
  by (simp add: record_too_large_def max_validation_delta_record_bytes_def)

definition update_state :: "validation_update \<Rightarrow> u8" where
  "update_state u =
     (if upd_utxo u \<noteq> None then 1 else 0) OR push_bit 1 (if spent_in_batch u then 1 else 0)"

text \<open>One turn of the encoding loop: the index grows by an entry, the data by the coin.\<close>

definition encode_delta_entry ::
  "nat \<Rightarrow> bytes \<times> bytes \<Rightarrow> out_point_key \<times> validation_update \<Rightarrow> utxo_error + (bytes \<times> bytes)" where
  "encode_delta_entry data_start = (\<lambda>(encoded, data) (k, u).
     bind_res (ok_or (usize_checked_add data_start (length data))
       (Malformed ''validation delta data offset overflow'')) (\<lambda>offset.
     bind_res (ok_or (u32_try_from offset) (Malformed ''validation delta data offset'')) (\<lambda>offset.
     bind_res (case upd_utxo u of None \<Rightarrow> Ok data | Some coin \<Rightarrow> utxo_encode_into coin data) (\<lambda>data'.
     bind_res (ok_or (u32_try_from (length data' - length data))
       (Malformed ''validation delta UTXO length'')) (\<lambda>len.
       Ok (encoded @ as_bytes k @ [update_state u] @ u32_to_le offset @ u32_to_le len, data'))))))"

definition encode_validation_delta ::
  "validation_delta_updates \<Rightarrow> u64 \<Rightarrow> utxo_error + bytes" where
  "encode_validation_delta updates utxo_count =
     bind_res (ok_or (u32_try_from (length updates)) (Malformed ''validation delta update count'')) (\<lambda>count.
     bind_res (ok_or (usize_checked_mul (length updates) validation_delta_index_bytes)
       (Malformed ''validation delta index overflow'')) (\<lambda>index_bytes.
     bind_res (ok_or (usize_checked_add validation_delta_header_bytes index_bytes)
       (Malformed ''validation delta index overflow'')) (\<lambda>data_start.
     bind_res (try_fold (encode_delta_entry data_start)
       (validation_delta_magic @ u64_to_le utxo_count @ u32_to_le count, []) updates) (\<lambda>(encoded, data).
       if record_too_large (encoded @ data) then Err (Malformed ''validation delta record too large'')
       else Ok (encoded @ data)))))"

definition validation_delta_header :: "bytes \<Rightarrow> utxo_error + (u64 \<times> nat \<times> nat)" where
  "validation_delta_header encoded =
     (if length encoded < validation_delta_header_bytes \<or> record_too_large encoded
      then Err (Malformed ''validation delta record length'')
      else if take 4 encoded \<noteq> validation_delta_magic then Err (Malformed ''validation delta format'')
      else
        let utxo_count = u64_from_le (take 8 (drop 4 encoded));
            count = unat (u32_from_le (take 4 (drop 12 encoded))) in
        bind_res (ok_or (usize_checked_mul count validation_delta_index_bytes)
          (Malformed ''validation delta index overflow'')) (\<lambda>index_bytes.
          case usize_checked_add validation_delta_header_bytes index_bytes of
            Some data_start \<Rightarrow>
              if data_start \<le> length encoded then Ok (utxo_count, count, data_start)
              else Err (Malformed ''validation delta update count exceeds record'')
          | None \<Rightarrow> Err (Malformed ''validation delta update count exceeds record'')))"

definition validation_delta_index_entry ::
  "bytes \<Rightarrow> nat \<Rightarrow> utxo_error + (out_point_key \<times> u8 \<times> nat \<times> nat)" where
  "validation_delta_index_entry encoded index =
     bind_res (ok_or (usize_checked_mul index validation_delta_index_bytes)
       (Malformed ''validation delta index overflow'')) (\<lambda>before.
     bind_res (ok_or (usize_checked_add validation_delta_header_bytes before)
       (Malformed ''validation delta index overflow'')) (\<lambda>start.
     bind_res (ok_or (Option.bind (usize_checked_add start validation_delta_index_bytes)
         (\<lambda>e. if e \<le> length encoded then Some e else None))
       (Malformed ''truncated validation delta index'')) (\<lambda>_.
     let entry = take validation_delta_index_bytes (drop start encoded) in
     bind_res (key_from_bytes (take 36 entry)) (\<lambda>k.
       Ok (k, entry ! 36, unat (u32_from_le (take 4 (drop 37 entry))),
           unat (u32_from_le (take 4 (drop 41 entry))))))))"

definition delta_data_end :: "bytes \<Rightarrow> nat \<Rightarrow> nat \<Rightarrow> utxo_error + nat" where
  "delta_data_end encoded offset len =
     ok_or (Option.bind (usize_checked_add offset len)
         (\<lambda>e. if e \<le> length encoded then Some e else None))
       (Malformed ''truncated validation delta UTXO'')"

text \<open>The state of the inspection loop: previous key, expected offset and the two filters.\<close>

type_synonym inspection = "out_point_key option \<times> nat \<times> validation_bloom \<times> validation_bloom option"

definition inspect_delta_entry ::
  "bytes \<Rightarrow> inspection \<Rightarrow> nat \<Rightarrow> utxo_error + inspection" where
  "inspect_delta_entry encoded = (\<lambda>(previous, expected_offset, bloom, aggregate_bloom) index.
     bind_res (validation_delta_index_entry encoded index) (\<lambda>(k, state, offset, len).
     if (case previous of Some p \<Rightarrow> k \<le> p | None \<Rightarrow> False)
     then Err (Malformed ''validation delta outpoints are not strictly ordered'')
     else if 3 < state then Err (Malformed ''unknown validation delta state'')
     else if offset \<noteq> expected_offset \<or> state AND 1 = 0 \<and> len \<noteq> 0
     then Err (Malformed ''non-canonical validation delta data index'')
     else
     bind_res (delta_data_end encoded offset len) (\<lambda>e.
     bind_res (if state AND 1 \<noteq> 0 then utxo_validate_encoded (take len (drop offset encoded)) else Ok ())
       (\<lambda>_. Ok (Some k, e, bloom_insert k bloom, map_option (bloom_insert k) aggregate_bloom)))))"

definition inspect_validation_delta ::
  "bytes \<Rightarrow> validation_bloom option
     \<Rightarrow> utxo_error + (u64 \<times> nat \<times> validation_bloom \<times> validation_bloom option)" where
  "inspect_validation_delta encoded aggregate_bloom =
     bind_res (validation_delta_header encoded) (\<lambda>(utxo_count, count, data_start).
     bind_res (with_update_count count) (\<lambda>bloom.
     bind_res (try_fold (inspect_delta_entry encoded) (None, data_start, bloom, aggregate_bloom) [0..<count])
       (\<lambda>(_, expected_offset, bloom, aggregate_bloom).
         if expected_offset \<noteq> length encoded then Err (Malformed ''trailing validation delta bytes'')
         else Ok (utxo_count, count, bloom, aggregate_bloom))))"

definition delta_update :: "bytes \<Rightarrow> u8 \<Rightarrow> nat \<Rightarrow> nat \<Rightarrow> utxo_error + validation_update" where
  "delta_update encoded state offset len =
     bind_res (delta_data_end encoded offset len) (\<lambda>_.
     bind_res (if state AND 1 \<noteq> 0
               then bind_res (utxo_decode (take len (drop offset encoded))) (\<lambda>u. Ok (Some u))
               else Ok None) (\<lambda>utxo'.
       Ok \<lparr>spent_in_batch = (state AND 2 \<noteq> 0), upd_utxo = utxo'\<rparr>))"

function delta_search ::
  "bytes \<Rightarrow> out_point_key \<Rightarrow> nat \<Rightarrow> nat \<Rightarrow> utxo_error + validation_update option" where
  "delta_search encoded k left right =
     (if left < right then
        let middle = left + (right - left) div 2 in
        bind_res (validation_delta_index_entry encoded middle) (\<lambda>(candidate, state, offset, len).
          if candidate < k then delta_search encoded k (middle + 1) right
          else if k < candidate then delta_search encoded k left middle
          else bind_res (delta_update encoded state offset len) (\<lambda>u. Ok (Some u)))
      else Ok None)"
  by pat_completeness auto
termination by (relation "measure (\<lambda>(_, _, left, right). right - left)") auto

declare delta_search.simps [simp del]

definition validation_delta_lookup :: "bytes \<Rightarrow> out_point_key \<Rightarrow> utxo_error + validation_update option" where
  "validation_delta_lookup encoded k =
     bind_res (validation_delta_header encoded) (\<lambda>(_, count, _). delta_search encoded k 0 count)"

function delta_position :: "bytes \<Rightarrow> out_point_key \<Rightarrow> nat \<Rightarrow> nat \<Rightarrow> utxo_error + nat" where
  "delta_position encoded after left right =
     (if left < right then
        let middle = left + (right - left) div 2 in
        bind_res (validation_delta_index_entry encoded middle) (\<lambda>(candidate, _).
          if candidate \<le> after then delta_position encoded after (middle + 1) right
          else delta_position encoded after left middle)
      else Ok left)"
  by pat_completeness auto
termination by (relation "measure (\<lambda>(_, _, left, right). right - left)") auto

declare delta_position.simps [simp del]

definition validation_delta_key_page ::
  "bytes \<Rightarrow> out_point_key option \<Rightarrow> nat \<Rightarrow> utxo_error + (u64 \<times> out_point_key list)" where
  "validation_delta_key_page encoded after limit =
     bind_res (validation_delta_header encoded) (\<lambda>(utxo_count, count, _).
       if limit = 0 then Ok (utxo_count, [])
       else
       bind_res (case after of None \<Rightarrow> Ok 0 | Some k \<Rightarrow> delta_position encoded k 0 count) (\<lambda>left.
       bind_res (collect_res (\<lambda>index. bind_res (validation_delta_index_entry encoded index) (\<lambda>e. Ok (fst e)))
                   [left..<min (usize_saturating_add left limit) count]) (\<lambda>keys.
         Ok (utxo_count, keys))))"

definition decode_delta_entry :: "bytes \<Rightarrow> nat \<Rightarrow> utxo_error + (out_point_key \<times> validation_update)" where
  "decode_delta_entry encoded index =
     bind_res (validation_delta_index_entry encoded index) (\<lambda>(k, state, offset, len).
     bind_res (delta_update encoded state offset len) (\<lambda>u. Ok (k, u)))"

definition decode_validation_delta :: "bytes \<Rightarrow> utxo_error + (u64 \<times> validation_delta_updates)" where
  "decode_validation_delta encoded =
     bind_res (inspect_validation_delta encoded None) (\<lambda>(utxo_count, count, _).
     bind_res (collect_res (decode_delta_entry encoded) [0..<count]) (\<lambda>updates.
       Ok (utxo_count, updates)))"

section \<open>Sharded records\<close>

record sharded_header =
  sh_utxo_count :: u64
  sh_update_count :: nat
  sh_shard_count :: nat
  sh_populated_shards :: bytes

text \<open>The decoder below lets only the two shard counts through, so the match has two cases.\<close>

definition validation_delta_shard :: "out_point_key \<Rightarrow> nat \<Rightarrow> u8" where
  "validation_delta_shard k shard_count =
     (if shard_count = validation_rvd4_shard_count then as_bytes k ! 0 else drop_bit 4 (as_bytes k ! 0))"

definition validation_delta_shard_key :: "u32 \<Rightarrow> u8 \<Rightarrow> bytes" where
  "validation_delta_shard_key height shard = rev (u32_to_le height) @ [shard]"

text \<open>The runs of updates with the same shard, in order.\<close>

function shard_runs :: "validation_delta_updates \<Rightarrow> (u8 \<times> validation_delta_updates) list" where
  "shard_runs [] = []"
| "shard_runs (u # us) =
     (let shard = validation_delta_shard (fst u) validation_delta_shard_count;
          same = (\<lambda>v. validation_delta_shard (fst v) validation_delta_shard_count = shard) in
        (shard, u # takeWhile same us) # shard_runs (dropWhile same us))"
  by pat_completeness auto
termination by (relation "measure length") (auto simp: le_imp_less_Suc length_dropWhile_le)

definition populate_shard :: "u8 \<Rightarrow> bytes \<Rightarrow> bytes" where
  "populate_shard shard bitmap =
     bitmap[unat shard div 8 := bitmap ! (unat shard div 8) OR push_bit (unat shard mod 8) 1]"

definition encode_sharded_validation_delta ::
  "validation_delta_updates \<Rightarrow> u64 \<Rightarrow> utxo_error + (bytes \<times> (u8 \<times> bytes) list)" where
  "encode_sharded_validation_delta updates utxo_count =
     bind_res (ok_or (u32_try_from (length updates)) (Malformed ''validation delta update count''))
       (\<lambda>update_count.
     bind_res (collect_res (\<lambda>(shard, run).
         bind_res (encode_validation_delta run utxo_count) (\<lambda>encoded. Ok (shard, encoded)))
       (shard_runs updates)) (\<lambda>shards.
     let populated_shards = fold (\<lambda>(shard, _). populate_shard shard) shards
           (replicate validation_delta_shard_bitmap_bytes 0) in
       Ok (validation_compact_sharded_delta_magic @ u64_to_le utxo_count @ u32_to_le update_count
             @ take (validation_delta_shard_count div 8) populated_shards, shards)))"

definition starts_with :: "bytes \<Rightarrow> bytes \<Rightarrow> bool" where
  "starts_with bs p \<longleftrightarrow> take (length p) bs = p"

definition decode_sharded_validation_delta_header :: "bytes \<Rightarrow> utxo_error + sharded_header" where
  "decode_sharded_validation_delta_header encoded =
     bind_res
       (if starts_with encoded validation_sharded_delta_magic
           \<and> length encoded = validation_sharded_delta_header_bytes then Ok validation_rvd4_shard_count
        else if starts_with encoded validation_compact_sharded_delta_magic
           \<and> length encoded = validation_compact_sharded_delta_header_bytes then Ok validation_delta_shard_count
        else Err (Malformed ''sharded validation delta manifest'')) (\<lambda>shard_count.
     let update_count = unat (u32_from_le (take 4 (drop 12 encoded)));
         populated_shards = drop 16 encoded
           @ replicate (validation_delta_shard_bitmap_bytes - (length encoded - 16)) 0 in
     if update_count = 0 \<and> list_ex (\<lambda>byte. byte \<noteq> 0) populated_shards
     then Err (Malformed ''empty sharded validation delta has populated shards'')
     else Ok \<lparr>sh_utxo_count = u64_from_le (take 8 (drop 4 encoded)), sh_update_count = update_count,
              sh_shard_count = shard_count, sh_populated_shards = populated_shards\<rparr>)"

definition validation_shard_is_populated :: "sharded_header \<Rightarrow> u8 \<Rightarrow> bool" where
  "validation_shard_is_populated header shard \<longleftrightarrow>
     sh_populated_shards header ! (unat shard div 8) AND push_bit (unat shard mod 8) 1 \<noteq> 0"

datatype validation_delta_record_header = Legacy u64 nat | Sharded sharded_header

definition read_record_header :: "bytes \<Rightarrow> utxo_error + validation_delta_record_header" where
  "read_record_header encoded =
     (if starts_with encoded validation_delta_magic
      then bind_res (validation_delta_header encoded) (\<lambda>(utxo_count, update_count, _).
             Ok (Legacy utxo_count update_count))
      else if starts_with encoded validation_sharded_delta_magic
           \<or> starts_with encoded validation_compact_sharded_delta_magic
      then bind_res (decode_sharded_validation_delta_header encoded) (\<lambda>h. Ok (Sharded h))
      else Err (Malformed ''validation delta format''))"

text \<open>One shard of the loop over a manifest; \<open>load_shard\<close> reads the shard table.\<close>

definition decode_shard ::
  "sharded_header \<Rightarrow> (u8 \<Rightarrow> utxo_error + bytes) \<Rightarrow> validation_delta_updates \<Rightarrow> nat
     \<Rightarrow> utxo_error + validation_delta_updates" where
  "decode_shard header load_shard updates index =
     (let shard = word_of_nat index in
      if \<not> validation_shard_is_populated header shard then Ok updates
      else
      bind_res (load_shard shard) (\<lambda>encoded_shard.
      bind_res (decode_validation_delta encoded_shard) (\<lambda>(shard_utxo_count, shard_updates).
        if shard_utxo_count \<noteq> sh_utxo_count header \<or> shard_updates = []
           \<or> list_ex (\<lambda>(k, _). validation_delta_shard k (sh_shard_count header) \<noteq> shard) shard_updates
        then Err (Malformed ''validation delta shard content mismatch'')
        else Ok (updates @ shard_updates))))"

definition decode_validation_delta_record ::
  "bytes \<Rightarrow> (u8 \<Rightarrow> utxo_error + bytes) \<Rightarrow> utxo_error + (u64 \<times> validation_delta_updates)" where
  "decode_validation_delta_record encoded load_shard =
     bind_res (read_record_header encoded) (\<lambda>header.
       case header of
         Legacy _ _ \<Rightarrow> decode_validation_delta encoded
       | Sharded header \<Rightarrow>
           bind_res (try_fold (decode_shard header load_shard) [] [0..<sh_shard_count header]) (\<lambda>updates.
             if length updates \<noteq> sh_update_count header
             then Err (Malformed ''validation delta shard count mismatch'')
             else Ok (sh_utxo_count header, updates)))"

definition inspect_validation_delta_record ::
  "bytes \<Rightarrow> (u8 \<Rightarrow> utxo_error + bytes) \<Rightarrow> validation_bloom option
     \<Rightarrow> utxo_error + (u64 \<times> nat \<times> validation_bloom \<times> validation_bloom option)" where
  "inspect_validation_delta_record encoded load_shard aggregate_bloom =
     (if starts_with encoded validation_delta_magic then inspect_validation_delta encoded aggregate_bloom
      else
      bind_res (decode_validation_delta_record encoded load_shard) (\<lambda>(utxo_count, updates).
      bind_res (with_update_count (length updates)) (\<lambda>bloom.
        Ok (utxo_count, length updates, fold (\<lambda>(k, _). bloom_insert k) updates bloom,
            map_option (fold (\<lambda>(k, _). bloom_insert k) updates) aggregate_bloom))))"

text \<open>The lookup of one outpoint in one row, as the store's \<open>get\<close> does it.\<close>

definition record_lookup ::
  "bytes \<Rightarrow> (u8 \<Rightarrow> utxo_error + bytes) \<Rightarrow> out_point_key \<Rightarrow> utxo_error + validation_update option" where
  "record_lookup encoded load_shard k =
     bind_res (read_record_header encoded) (\<lambda>header.
       case header of
         Legacy _ _ \<Rightarrow> validation_delta_lookup encoded k
       | Sharded header \<Rightarrow>
           let shard = validation_delta_shard k (sh_shard_count header) in
           if validation_shard_is_populated header shard
           then bind_res (load_shard shard) (\<lambda>encoded_shard. validation_delta_lookup encoded_shard k)
           else Ok None)"


section \<open>Folding a batch\<close>

fun fold_validation_updates :: "out_point_key list \<Rightarrow> coin_row list \<Rightarrow> validation_delta_updates" where
  "fold_validation_updates [] [] = []"
| "fold_validation_updates (s # spent) [] =
     (s, \<lparr>spent_in_batch = True, upd_utxo = None\<rparr>) # fold_validation_updates spent []"
| "fold_validation_updates [] ((c, u) # created) =
     (c, \<lparr>spent_in_batch = False, upd_utxo = Some u\<rparr>) # fold_validation_updates [] created"
| "fold_validation_updates (s # spent) ((c, u) # created) =
     (if s < c then
        (s, \<lparr>spent_in_batch = True, upd_utxo = None\<rparr>) # fold_validation_updates spent ((c, u) # created)
      else if s = c then
        (s, \<lparr>spent_in_batch = True, upd_utxo = Some u\<rparr>) # fold_validation_updates spent created
      else
        (c, \<lparr>spent_in_batch = False, upd_utxo = Some u\<rparr>) # fold_validation_updates (s # spent) created)"

end
