(* ===== verification/Validation_Delta_Properties.thy ===== *)
theory Validation_Delta_Properties
  imports Validation_Delta
begin

text \<open>
  The journal records are read back as they were written, in one piece or in shards;
  the binary search of a record that decodes is the lookup in its updates, a page of
  keys is the next keys after the cursor, and a filter never hides a key.
\<close>

section \<open>What a decodable record holds\<close>

lemma strict_sorted_last: "sorted_wrt (<) ks \<Longrightarrow> x \<in> set ks \<Longrightarrow> x \<le> last ks" for x :: "'a::linorder"
  by (induction ks) (auto intro: less_imp_le)

lemma inspect_entries:
  assumes "try_fold (inspect_delta_entry bs) (None, e0, b, agg) [0..<n] = Inr (prev, e, b', agg')"
  shows "\<exists>ks. length ks = n \<and> (\<forall>i<n. \<exists>rest. validation_delta_index_entry bs i = Inr (ks ! i, rest))
    \<and> sorted_wrt (<) ks \<and> prev = (if ks = [] then None else Some (last ks))
    \<and> b' = fold bloom_insert ks b
    \<and> (\<forall>a. try_fold (inspect_delta_entry bs) (None, e0, b, a) [0..<n]
         = Inr (prev, e, b', map_option (fold bloom_insert ks) a))"
  using assms
proof (induction n arbitrary: prev e b' agg')
  case (Suc n)
  from Suc.prems obtain p1 e1 b1 a1 where
    1: "try_fold (inspect_delta_entry bs) (None, e0, b, agg) [0..<n] = Inr (p1, e1, b1, a1)"
    and 2: "inspect_delta_entry bs (p1, e1, b1, a1) n = Inr (prev, e, b', agg')"
    by (auto simp: try_fold_append res_simps)
  from Suc.IH [OF 1] obtain ks where ks: "length ks = n"
    "\<forall>i<n. \<exists>rest. validation_delta_index_entry bs i = Inr (ks ! i, rest)"
    "sorted_wrt (<) ks" "p1 = (if ks = [] then None else Some (last ks))" "b1 = fold bloom_insert ks b"
    "\<forall>a. try_fold (inspect_delta_entry bs) (None, e0, b, a) [0..<n]
       = Inr (p1, e1, b1, map_option (fold bloom_insert ks) a)" by blast
  from 2 obtain k rest where k: "validation_delta_index_entry bs n = Inr (k, rest)"
    "\<not> (case p1 of Some p \<Rightarrow> k \<le> p | None \<Rightarrow> False)" "prev = Some k" "b' = bloom_insert k b1"
    and step: "\<And>a. inspect_delta_entry bs (p1, e1, b1, a) n = Inr (prev, e, b', map_option (bloom_insert k) a)"
    unfolding inspect_delta_entry_def by (auto simp: res_simps split: if_splits)
  have "x < k" if "x \<in> set ks" for x
    using strict_sorted_last [OF ks(3) that] k(2) ks(4) that by (cases ks rule: rev_cases) auto
  then show ?case
    using ks k step by (intro exI [of _ "ks @ [k]"])
      (simp add: sorted_wrt_append nth_append less_Suc_eq option.map_comp comp_def try_fold_append
         del: split_paired_Ex split_paired_All)
qed (simp add: option.map_id0)


text \<open>
  The shape of a record that decodes: its header counts the updates, entry \<open>i\<close> of the
  index is update \<open>i\<close>, and the keys are strictly increasing.
\<close>

lemma collect_res_nth:
  "collect_res f xs = Inr ys \<Longrightarrow> length ys = length xs \<and> (\<forall>i < length xs. f (xs ! i) = Inr (ys ! i))"
proof (induction xs arbitrary: ys)
  case (Cons x xs)
  then show ?case by (auto simp: res_simps less_Suc_eq_0_disj)
qed simp

lemma decode_validation_delta_shape:
  assumes "decode_validation_delta bs = Inr (n, us)"
  shows "\<exists>e. validation_delta_header bs = Inr (n, length us, e)"
    and "\<And>i. i < length us \<Longrightarrow> \<exists>state offset len.
      validation_delta_index_entry bs i = Inr (fst (us ! i), state, offset, len)
      \<and> delta_update bs state offset len = Inr (snd (us ! i))"
    and "sorted_wrt (<) (map fst us)"
    and "\<forall>k \<in> fst ` set us. valid_key k"
    and "\<exists>bloom. with_update_count (length us) = Inr bloom
      \<and> inspect_validation_delta bs agg = Inr (n, length us, fold bloom_insert (map fst us) bloom,
           map_option (fold bloom_insert (map fst us)) agg)"
proof -
  from assms obtain count b a where i: "inspect_validation_delta bs None = Inr (n, count, b, a)"
    and c: "collect_res (decode_delta_entry bs) [0..<count] = Inr us"
    by (auto simp: decode_validation_delta_def res_simps)
  from i obtain e bloom p e' where h: "validation_delta_header bs = Inr (n, count, e)"
    and w: "with_update_count count = Inr bloom"
    and f: "try_fold (inspect_delta_entry bs) (None, e, bloom, None) [0..<count] = Inr (p, e', b, a)"
    by (auto simp: inspect_validation_delta_def res_simps split: if_splits)
  note us = collect_res_nth [OF c]
  have ent: "\<exists>state offset len. validation_delta_index_entry bs i = Inr (fst (us ! i), state, offset, len)
      \<and> delta_update bs state offset len = Inr (snd (us ! i))" if "i < length us" for i
    using us that by (cases "us ! i") (auto simp: decode_delta_entry_def res_simps dest!: spec [of _ i])
  from inspect_entries [OF f] obtain ks where ks: "length ks = count"
    "\<forall>i<count. \<exists>rest. validation_delta_index_entry bs i = Inr (ks ! i, rest)" "sorted_wrt (<) ks"
    "b = fold bloom_insert ks bloom"
    "\<forall>a. try_fold (inspect_delta_entry bs) (None, e, bloom, a) [0..<count]
       = Inr (p, e', b, map_option (fold bloom_insert ks) a)"
    by blast
  have eq: "ks = map fst us"
    using us ks ent by (intro nth_equalityI) (force simp: )+
  with ks(3) show "sorted_wrt (<) (map fst us)" by simp
  show "\<exists>e. validation_delta_header bs = Inr (n, length us, e)" using h us by simp
  show "\<exists>state offset len. validation_delta_index_entry bs i = Inr (fst (us ! i), state, offset, len)
      \<and> delta_update bs state offset len = Inr (snd (us ! i))" if "i < length us" for i
    using ent that .
  show "\<forall>k \<in> fst ` set us. valid_key k"
    using ent by (fastforce simp: in_set_conv_nth validation_delta_index_entry_def Let_def res_simps valid_key_def)
  show "\<exists>bloom. with_update_count (length us) = Inr bloom
      \<and> inspect_validation_delta bs agg = Inr (n, length us, fold bloom_insert (map fst us) bloom,
           map_option (fold bloom_insert (map fst us)) agg)"
    using h w us ks(4,5) i by (auto simp: inspect_validation_delta_def eq split: if_splits)
qed

section \<open>Lookups and pages\<close>

lemma delta_search_ok:
  assumes d: "decode_validation_delta bs = Inr (n, us)"
    and "right \<le> length us"
    and "\<forall>i < left. fst (us ! i) < k" "\<forall>i < length us. right \<le> i \<longrightarrow> k < fst (us ! i)"
  shows "delta_search bs k left right = Inr (map_of us k)"
  using assms(2-)
proof (induction "right - left" arbitrary: left right rule: less_induct)
  case less
  have sorted: "fst (us ! i) < fst (us ! j)" if "i < j" "j < length us" for i j
    using sorted_wrt_nth_less [OF decode_validation_delta_shape(3) [OF d]] that by simp
  have dist: "distinct (map fst us)" using decode_validation_delta_shape(3) [OF d] by (simp add: strict_sorted_iff)
  show ?case
  proof (cases "left < right")
    case True
    define mid where "mid = left + (right - left) div 2"
    have m: "left \<le> mid" "mid < right" "mid < length us" using True less.prems by (auto simp: mid_def)
    from decode_validation_delta_shape(2) [OF d m(3)] obtain state offset len where
      e: "validation_delta_index_entry bs mid = Inr (fst (us ! mid), state, offset, len)"
      "delta_update bs state offset len = Inr (snd (us ! mid))" by blast
    consider "fst (us ! mid) < k" | "k < fst (us ! mid)" | "fst (us ! mid) = k" by fastforce
    then show ?thesis
    proof cases
      case 1
      have "\<forall>i < mid + 1. fst (us ! i) < k"
        using 1 sorted m(3) by (metis Suc_eq_plus1 less_Suc_eq less_trans)
      with less.hyps [of right "mid + 1"] less.prems True m 1 e show ?thesis
        by (subst delta_search.simps) (simp add: mid_def [symmetric] Let_def)
    next
      case 2
      have "\<forall>i < length us. mid \<le> i \<longrightarrow> k < fst (us ! i)"
        using 2 sorted by (metis le_neq_implies_less less_trans)
      moreover have "\<not> fst (us ! mid) < k" "mid - left < right - left" using 2 m by simp_all
      ultimately show ?thesis using less.hyps [of mid left] less.prems True m 2 e
        by (subst delta_search.simps) (simp add: mid_def [symmetric] Let_def)
    next
      case 3
      have "map_of us k = Some (snd (us ! mid))"
        using map_of_is_SomeI [OF dist, of k "snd (us ! mid)"] nth_mem [OF m(3)] 3 by (metis prod.collapse)
      with True m 3 e show ?thesis
        by (subst delta_search.simps) (simp add: mid_def [symmetric] Let_def)
    qed
  next
    case False
    have "fst (us ! i) \<noteq> k" if "i < length us" for i
      using less.prems(2,3) False that by (metis less_irrefl not_le order_trans)
    then have "map_of us k = None" by (force simp: map_of_eq_None_iff in_set_conv_nth)
    with False show ?thesis by (subst delta_search.simps) simp
  qed
qed

text \<open>The binary search of a record that decodes is the lookup in what it decodes to.\<close>

lemma validation_delta_lookup_ok:
  assumes "decode_validation_delta bs = Inr (n, us)"
  shows "validation_delta_lookup bs k = Inr (map_of us k)"
  using decode_validation_delta_shape(1) [OF assms] delta_search_ok [OF assms, of "length us" 0 k]
  by (auto simp: validation_delta_lookup_def)

lemma delta_position_ok:
  assumes d: "decode_validation_delta bs = Inr (n, us)"
    and "left \<le> right" "right \<le> length us"
    and "\<forall>i < left. fst (us ! i) \<le> k" "\<forall>i < length us. right \<le> i \<longrightarrow> k < fst (us ! i)"
  shows "delta_position bs k left right = Inr (length (filter (\<lambda>x. x \<le> k) (map fst us)))"
  using assms(2-)
proof (induction "right - left" arbitrary: left right rule: less_induct)
  case less
  have sorted: "fst (us ! i) < fst (us ! j)" if "i < j" "j < length us" for i j
    using sorted_wrt_nth_less [OF decode_validation_delta_shape(3) [OF d]] that by simp
  show ?case
  proof (cases "left < right")
    case True
    define mid where "mid = left + (right - left) div 2"
    have m: "left \<le> mid" "mid < right" "mid < length us" using True less.prems by (auto simp: mid_def)
    from decode_validation_delta_shape(2) [OF d m(3)] obtain rest where
      e: "validation_delta_index_entry bs mid = Inr (fst (us ! mid), rest)" by blast
    show ?thesis
    proof (cases "fst (us ! mid) \<le> k")
      case le: True
      have "\<forall>i < mid + 1. fst (us ! i) \<le> k"
        using le sorted m(3) by (metis Suc_eq_plus1 less_Suc_eq less_imp_le order_trans)
      with less.hyps [of right "mid + 1"] less.prems True m le e show ?thesis
        by (subst delta_position.simps) (simp add: mid_def [symmetric] Let_def)
    next
      case gt: False
      have "\<forall>i < length us. mid \<le> i \<longrightarrow> k < fst (us ! i)"
        using gt sorted by (metis le_neq_implies_less less_trans not_le)
      moreover have "mid - left < right - left" using m by simp
      ultimately show ?thesis using less.hyps [of mid left] less.prems True m gt e
        by (subst delta_position.simps) (simp add: mid_def [symmetric] Let_def)
    qed
  next
    case False
    have "take left (map fst us) @ drop left (map fst us) = map fst us" by simp
    moreover have "\<forall>x \<in> set (take left (map fst us)). x \<le> k"
      using less.prems by (auto simp: in_set_conv_nth)
    moreover have "\<forall>x \<in> set (drop left (map fst us)). \<not> x \<le> k"
      using less.prems False by (auto simp: in_set_conv_nth not_le)
    ultimately have "length (filter (\<lambda>x. x \<le> k) (map fst us)) = length (take left (map fst us))"
      by (metis append_Nil2 filter_False filter_True filter_append)
    with False less.prems show ?thesis by (subst delta_position.simps) simp
  qed
qed

lemma drop_filter_sorted:
  "sorted_wrt (<) xs \<Longrightarrow> drop (length (filter (\<lambda>x. x \<le> k) xs)) xs = filter (\<lambda>x. k < x) xs"
  for k :: "'a::linorder"
proof (induction xs)
  case (Cons x xs)
  then show ?case
  proof (cases "x \<le> k")
    case False
    with Cons.prems have "\<forall>y \<in> set xs. k < y" by auto
    with False show ?thesis by (auto simp: not_le filter_empty_conv intro: filter_True [symmetric])
  qed (auto simp: not_less)
qed simp

lemma map_nth_upt_take:
  "map (\<lambda>i. map f xs ! i) [p..<min (p + l) (length xs)] = take l (drop p (map f xs))"
proof (rule nth_equalityI)
  fix i assume "i < length (map (\<lambda>i. map f xs ! i) [p..<min (p + l) (length xs)])"
  then have "p + i < min (p + l) (length xs)" by (simp only: length_map length_upt less_diff_conv add.commute)
  then show "map (\<lambda>i. map f xs ! i) [p..<min (p + l) (length xs)] ! i = take l (drop p (map f xs)) ! i"
    by (simp add: nth_upt del: min_less_iff_conj)
qed simp

lemma validation_delta_key_page_ok:
  assumes d: "decode_validation_delta bs = Inr (n, us)" and small: "length us + limit \<le> usize_max"
  shows "validation_delta_key_page bs after limit = Inr (n, take limit
     (case after of None \<Rightarrow> map fst us | Some k \<Rightarrow> filter (\<lambda>x. k < x) (map fst us)))"
proof -
  let ?pos = "case after of None \<Rightarrow> 0 | Some k \<Rightarrow> length (filter (\<lambda>x. x \<le> k) (map fst us))"
  have pos: "?pos \<le> length us"
    by (auto split: option.splits simp del: filter_map intro: order_trans [OF length_filter_le])
  have p: "(case after of None \<Rightarrow> Inr 0 | Some k \<Rightarrow> delta_position bs k 0 (length us)) = Inr ?pos"
    using delta_position_ok [OF d, of 0 "length us"] by (auto split: option.splits)
  have key: "bind_res (validation_delta_index_entry bs i) (\<lambda>e. Ok (fst e)) = Inr (map fst us ! i)"
    if "i < length us" for i
    using decode_validation_delta_shape(2) [OF d that] that by auto
  let ?e = "min (usize_saturating_add ?pos limit) (length us)"
  have e: "?e = min (?pos + limit) (length us)"
    using small pos by (simp add: usize_saturating_add_def)
  have c: "collect_res (\<lambda>i. bind_res (validation_delta_index_entry bs i) (\<lambda>e. Ok (fst e))) [?pos..<?e]
      = Inr (map (\<lambda>i. map fst us ! i) [?pos..<?e])"
    by (rule collect_res_Inr) (use key in auto)
  have "map (\<lambda>i. map fst us ! i) [?pos..<?e] = take limit (drop ?pos (map fst us))"
    unfolding e by (rule map_nth_upt_take)
  also have "drop ?pos (map fst us) = (case after of None \<Rightarrow> map fst us | Some k \<Rightarrow> filter (\<lambda>x. k < x) (map fst us))"
    using drop_filter_sorted [OF decode_validation_delta_shape(3) [OF d]] by (auto split: option.splits)
  finally show ?thesis
    using decode_validation_delta_shape(1) [OF d] c p
    by (cases "limit = 0") (auto simp: validation_delta_key_page_def)
qed

section \<open>The filters have no false negatives\<close>

definition bloom_ok :: "validation_bloom \<Rightarrow> bool" where
  "bloom_ok b \<longleftrightarrow> bloom_bits b \<noteq> [] \<and> length (bloom_bits b) < 2 ^ 61"

definition has_bit :: "bytes \<Rightarrow> nat \<Rightarrow> bool" where
  "has_bit bits i \<longleftrightarrow> bit (bits ! (i div 8)) (i mod 8)"

lemma might_contain_iff:
  "might_contain b k \<longleftrightarrow> (\<forall>p \<in> {0, 1, 2}. has_bit (bloom_bits b) (bloom_bit (length (bloom_bits b)) k p))"
  by (simp add: might_contain_def has_bit_def Let_def bit_iff_and_push_bit_not_eq_0)

lemma length_bloom_set [simp]: "length (bloom_set i bits) = length bits"
  by (simp add: bloom_set_def)

lemma length_bloom_insert [simp]: "length (bloom_bits (bloom_insert k b)) = length (bloom_bits b)"
  by (simp add: bloom_insert_def)

lemma bloom_ok_insert [simp]: "bloom_ok (bloom_insert k b) = bloom_ok b"
  using length_bloom_insert [of k b] unfolding bloom_ok_def by (metis length_0_conv)

lemma has_bit_mono: "has_bit bits j \<Longrightarrow> has_bit (bloom_set i bits) j"
  by (cases "i div 8 < length bits")
     (auto simp: has_bit_def bloom_set_def nth_list_update bit_or_iff list_update_beyond not_less)

lemma has_bit_set: "i div 8 < length bits \<Longrightarrow> has_bit (bloom_set i bits) i"
  by (simp add: has_bit_def bloom_set_def bit_or_iff bit_exp_iff)

lemma bloom_bit_less:
  assumes "0 < n" "n < 2 ^ 61"
  shows "bloom_bit n k p div 8 < n"
proof -
  define m where "m = n * 8"
  have m: "0 < m" "m < 2 ^ 64" using assms by (auto simp: m_def)
  have "unat (word_of_nat m :: u64) = m" using m by (simp add: unat_of_nat take_bit_nat_eq_self)
  then have "unat (x mod word_of_nat m :: u64) < m" for x
    using m(1) by (simp add: unat_mod_distrib)
  then have "bloom_bit n k p < n * 8" by (simp add: bloom_bit_def split_def m_def del: of_nat_mult)
  then show ?thesis by (simp add: div_less_iff_less_mult)
qed

lemma bloom_insert_contains:
  assumes "bloom_ok b"
  shows "might_contain (bloom_insert k b) k"
proof -
  let ?n = "length (bloom_bits b)"
  have "bloom_bit ?n k p div 8 < ?n" for p
    using bloom_bit_less [of ?n] assms by (auto simp: bloom_ok_def)
  then show ?thesis
    by (simp add: might_contain_iff) (simp add: bloom_insert_def has_bit_set has_bit_mono)
qed

lemma bloom_insert_mono: "might_contain b k' \<Longrightarrow> might_contain (bloom_insert k b) k'"
  by (simp add: might_contain_iff) (simp add: bloom_insert_def has_bit_mono)

lemma bloom_fold_contains:
  assumes "bloom_ok b" "k \<in> set ks \<or> might_contain b k"
  shows "might_contain (fold bloom_insert ks b) k"
  using assms
  by (induction ks arbitrary: b) (auto simp: bloom_insert_contains bloom_insert_mono)

lemma bloom_ok_fold [simp]: "bloom_ok (fold bloom_insert ks b) = bloom_ok b"
  by (induction ks arbitrary: b) auto

lemma length_bloom_fold [simp]: "length (bloom_bits (fold bloom_insert ks b)) = length (bloom_bits b)"
  by (induction ks arbitrary: b) auto

lemma bloom_fold_update_rows:
  "fold (\<lambda>(k, _). bloom_insert k) us b = fold bloom_insert (map fst us) b"
  by (induction us arbitrary: b) auto

lemma with_update_count_ok:
  assumes "with_update_count n = Inr b" "n < 2 ^ 60"
  shows "bloom_ok b"
proof -
  have "max (div_ceil (n * 10) 8) 1 < 2 ^ 61"
    using assms(2) by (auto simp: div_ceil_def usize_max_def div_less_iff_less_mult)
  with assms(1) show ?thesis
    by (auto simp: with_update_count_def validation_bloom_byte_count_def bloom_ok_def res_simps
        checked_arith validation_bloom_bits_per_update_def)
qed

text \<open>Reading back a stored filter, with a digest of 32 bytes.\<close>

lemma decode_validation_bloom_encode:
  assumes "encode_validation_bloom sha256 b n = Some bs" "length (sha256 (bloom_bits b)) = 32"
  shows "decode_validation_bloom sha256 bs (length (bloom_bits b)) = Inr (n, b)"
proof -
  let ?l = "word_of_nat (length (bloom_bits b)) :: u32"
  from assms(1) have len: "length (bloom_bits b) < 2 ^ 32"
    and bs: "bs = validation_bloom_magic @ u64_to_le n @ u32_to_le ?l @ sha256 (bloom_bits b) @ bloom_bits b"
    by (auto simp: encode_validation_bloom_def checked_arith)
  have "length bs = 48 + length (bloom_bits b)" "take 4 bs = validation_bloom_magic"
    "take 8 (drop 4 bs) = u64_to_le n" "take 4 (drop 12 bs) = u32_to_le ?l"
    "take 32 (drop 16 bs) = sha256 (bloom_bits b)" "drop 48 bs = bloom_bits b"
    by (simp_all add: bs validation_bloom_magic_def assms(2))
  then show ?thesis
    using len by (simp add: decode_validation_bloom_def validation_bloom_header_bytes_def
        usize_saturating_add_def usize_max_def unat_word_of_nat_u32)
qed

text \<open>Partitioning in parallel chunks is partitioning.\<close>

lemma concat_map_filter: "concat (map (filter P) xss) = filter P (concat xss)"
  by (induction xss) auto

lemma partition_validation_bloom_matches_ok:
  "partition_validation_bloom_matches w b ks xs
     = (filter (\<lambda>i. might_contain b (ks ! i)) xs, filter (\<lambda>i. \<not> might_contain b (ks ! i)) xs)"
proof -
  let ?ws = "min w (div_ceil (length xs) min_parallel_validation_bloom_keys)"
  have "0 < div_ceil (length xs) ?ws" if "\<not> ?ws \<le> 1"
  proof -
    have "xs \<noteq> []" using that by (auto simp: div_ceil_def min_parallel_validation_bloom_keys_def)
    then show ?thesis using that by (intro div_ceil_pos) auto
  qed
  then show ?thesis
    by (auto simp: partition_validation_bloom_matches_def Let_def comp_def concat_map_filter)
qed

section \<open>Round trip of a delta record\<close>

definition coin_bytes :: "validation_update \<Rightarrow> bytes" where
  "coin_bytes u = (case upd_utxo u of None \<Rightarrow> []
     | Some coin \<Rightarrow> (case utxo_encode coin of Inl _ \<Rightarrow> [] | Inr bs \<Rightarrow> bs))"

definition data_bytes :: "validation_delta_updates \<Rightarrow> bytes" where
  "data_bytes us = concat (map (coin_bytes \<circ> snd) us)"

definition update_ok :: "validation_update \<Rightarrow> bool" where
  "update_ok u \<longleftrightarrow> (\<forall>coin. upd_utxo u = Some coin \<longrightarrow> utxo_encode coin = Inr (coin_bytes u))
     \<and> length (coin_bytes u) < 2 ^ 32"

text \<open>The index: one entry of 45 bytes per update, with running offsets.\<close>

fun delta_index :: "nat \<Rightarrow> validation_delta_updates \<Rightarrow> bytes list" where
  "delta_index offset [] = []"
| "delta_index offset ((k, u) # us) =
     (as_bytes k @ [update_state u] @ u32_to_le (word_of_nat offset)
        @ u32_to_le (word_of_nat (length (coin_bytes u)))) # delta_index (offset + length (coin_bytes u)) us"

lemma data_bytes_simps [simp]:
  "data_bytes [] = []"
  "data_bytes (u # us) = coin_bytes (snd u) @ data_bytes us"
  "data_bytes (us @ vs) = data_bytes us @ data_bytes vs"
  by (simp_all add: data_bytes_def)

lemma utxo_encode_into_append:
  "utxo_encode_into coin data = Inr data' \<longleftrightarrow> (\<exists>bs. utxo_encode coin = Inr bs \<and> data' = data @ bs)"
  by (auto simp: utxo_encode_def utxo_encode_into_def res_simps)

lemma encode_delta_entries:
  assumes "try_fold (encode_delta_entry ds) (enc, data) us = Inr (enc', data')"
  shows "enc' = enc @ concat (delta_index (ds + length data) us) \<and> data' = data @ data_bytes us
    \<and> (\<forall>u \<in> snd ` set us. update_ok u)
    \<and> (\<forall>i < length us. ds + length data + length (data_bytes (take i us)) < 2 ^ 32)"
  using assms
proof (induction us arbitrary: enc data)
  case (Cons r us)
  obtain k u where r: "r = (k, u)" by fastforce
  from Cons.prems obtain enc1 data1 where
    1: "encode_delta_entry ds (enc, data) (k, u) = Inr (enc1, data1)"
    and 2: "try_fold (encode_delta_entry ds) (enc1, data1) us = Inr (enc', data')"
    by (auto simp: r res_simps)
  have u: "data1 = data @ coin_bytes u" "update_ok u" "ds + length data < 2 ^ 32"
    "enc1 = enc @ as_bytes k @ [update_state u] @ u32_to_le (word_of_nat (ds + length data))
        @ u32_to_le (word_of_nat (length (coin_bytes u)))"
    using 1 by (auto simp: encode_delta_entry_def res_simps checked_arith coin_bytes_def update_ok_def
        utxo_encode_into_append simp del: utxo_encode_Inr split: option.splits)
  have "ds + length data + length (data_bytes (take i (r # us))) < 2 ^ 32" if "i < Suc (length us)" for i
    using Cons.IH [OF 2] u(1,3) that by (cases i) (auto simp: r add.assoc)
  then show ?case using Cons.IH [OF 2] u by (auto simp: r add.assoc)
qed simp

lemma length_delta_index [simp]: "length (delta_index offset us) = length us"
  by (induction offset us rule: delta_index.induct) auto

lemma delta_index_slots:
  "\<forall>k \<in> fst ` set us. valid_key k \<Longrightarrow> \<forall>e \<in> set (delta_index offset us). length e = 45"
  by (induction offset us rule: delta_index.induct) (auto simp: valid_key_def)

lemma delta_index_nth:
  "i < length us \<Longrightarrow> delta_index offset us ! i =
     as_bytes (fst (us ! i)) @ [update_state (snd (us ! i))]
       @ u32_to_le (word_of_nat (offset + length (data_bytes (take i us))))
       @ u32_to_le (word_of_nat (length (coin_bytes (snd (us ! i)))))"
proof (induction us arbitrary: i offset)
  case (Cons r us)
  obtain k u where r: "r = (k, u)" by fastforce
  show ?case
  proof (cases i)
    case (Suc j)
    then show ?thesis using Cons.IH [of j "offset + length (coin_bytes u)"] Cons.prems
      by (simp add: r add.assoc del: of_nat_add)
  qed (simp add: r)
qed simp

lemma length_concat_slots: "\<forall>e \<in> set es. length e = n \<Longrightarrow> length (concat es) = n * length es"
  by (induction es) auto

lemma concat_slot:
  "\<forall>e \<in> set es. length e = n \<Longrightarrow> i < length es \<Longrightarrow> take n (drop (n * i) (concat es @ rest)) = es ! i"
proof (induction es arbitrary: i)
  case (Cons e es)
  then show ?case by (cases i) auto
qed simp

lemma update_state_bits:
  "update_state u AND 1 = 0 \<longleftrightarrow> upd_utxo u = None"
  "update_state u AND 2 = 0 \<longleftrightarrow> \<not> spent_in_batch u"
  "update_state u \<le> 3"
  by (auto simp: update_state_def)

text \<open>The bytes of an encoded record, and what its readers find there.\<close>

definition data_start_of :: "validation_delta_updates \<Rightarrow> nat" where
  "data_start_of us = 16 + 45 * length us"

lemma encode_layout:
  assumes "encode_validation_delta us n = Inr bs"
  shows "bs = validation_delta_magic @ u64_to_le n @ u32_to_le (word_of_nat (length us))
      @ concat (delta_index (data_start_of us) us) @ data_bytes us"
    "length us < 2 ^ 32" "\<not> record_too_large bs" "\<forall>u \<in> snd ` set us. update_ok u"
    "\<forall>i < length us. data_start_of us + length (data_bytes (take i us)) < 2 ^ 32"
proof -
  let ?h = "validation_delta_magic @ u64_to_le n @ u32_to_le (word_of_nat (length us))"
  from assms obtain encoded data where len: "length us < 2 ^ 32"
    and f: "try_fold (encode_delta_entry (data_start_of us)) (?h, []) us = Inr (encoded, data)"
    and bs: "bs = encoded @ data" "\<not> record_too_large bs"
    by (auto simp: encode_validation_delta_def res_simps checked_arith data_start_of_def mult.commute
        validation_delta_header_bytes_def validation_delta_index_bytes_def split: if_splits)
  from encode_delta_entries [OF f] len bs show
    "bs = validation_delta_magic @ u64_to_le n @ u32_to_le (word_of_nat (length us))
      @ concat (delta_index (data_start_of us) us) @ data_bytes us"
    "length us < 2 ^ 32" "\<not> record_too_large bs" "\<forall>u \<in> snd ` set us. update_ok u"
    "\<forall>i < length us. data_start_of us + length (data_bytes (take i us)) < 2 ^ 32"
    by simp_all
qed

lemma index_entry_at:
  assumes "16 + 45 * i + 45 \<le> length bs" "16 + 45 * i + 45 \<le> usize_max"
    and e: "e = take 45 (drop (16 + 45 * i) bs)"
  shows "validation_delta_index_entry bs i = bind_res (key_from_bytes (take 36 e)) (\<lambda>k.
       Ok (k, e ! 36, unat (u32_from_le (take 4 (drop 37 e))), unat (u32_from_le (take 4 (drop 41 e)))))"
  using assms(1,2) unfolding e
  by (simp add: validation_delta_index_entry_def validation_delta_header_bytes_def Let_def mult.commute
      validation_delta_index_bytes_def usize_checked_mul_def usize_checked_add_def)

lemma encoded_parts:
  assumes enc: "encode_validation_delta us n = Inr bs" and keys: "\<forall>k \<in> fst ` set us. valid_key k"
  shows "length bs = data_start_of us + length (data_bytes us)"
    "validation_delta_header bs = Inr (n, length us, data_start_of us)"
    "i < length us \<Longrightarrow> validation_delta_index_entry bs i =
       Inr (fst (us ! i), update_state (snd (us ! i)),
            data_start_of us + length (data_bytes (take i us)), length (coin_bytes (snd (us ! i))))"
    "i < length us \<Longrightarrow> take (length (coin_bytes (snd (us ! i))))
       (drop (data_start_of us + length (data_bytes (take i us))) bs) = coin_bytes (snd (us ! i))"
proof -
  note L = encode_layout [OF enc]
  let ?ix = "delta_index (data_start_of us) us"
  note slots = delta_index_slots [OF keys, of "data_start_of us"]
  have ixl: "length (concat ?ix) = 45 * length us"
    using length_concat_slots [OF slots] by simp
  show len: "length bs = data_start_of us + length (data_bytes us)"
    by (subst L(1)) (simp add: ixl [unfolded data_start_of_def] data_start_of_def validation_delta_magic_def)
  have small: "45 * length us < 2 ^ 38" using L(2) by simp
  have "take 4 bs = validation_delta_magic" "take 8 (drop 4 bs) = u64_to_le n"
    "take 4 (drop 12 bs) = u32_to_le (word_of_nat (length us))"
    by (subst L(1), simp add: validation_delta_magic_def)+
  with len L(2,3) small show "validation_delta_header bs = Inr (n, length us, data_start_of us)"
    by (simp add: validation_delta_header_def validation_delta_header_bytes_def data_start_of_def
        validation_delta_index_bytes_def unat_word_of_nat_u32 usize_checked_mul_def usize_checked_add_def
        usize_max_def mult.commute Let_def)
  let ?pre = "validation_delta_magic @ u64_to_le n @ u32_to_le (word_of_nat (length us)) @ concat ?ix"
  have "length ?pre = data_start_of us" by (simp add: ixl) (simp add: data_start_of_def validation_delta_magic_def)
  moreover have "bs = ?pre @ data_bytes us" using L(1) by simp
  ultimately have data: "drop (data_start_of us) bs = data_bytes us" by (metis append_eq_conv_conj)
  show "take (length (coin_bytes (snd (us ! i))))
       (drop (data_start_of us + length (data_bytes (take i us))) bs) = coin_bytes (snd (us ! i))"
    if i: "i < length us" for i
  proof -
    have "us = take i us @ us ! i # drop (Suc i) us" using i by (simp add: id_take_nth_drop [symmetric])
    then have "data_bytes us = data_bytes (take i us) @ coin_bytes (snd (us ! i)) @ data_bytes (drop (Suc i) us)"
      by (metis data_bytes_simps(2,3))
    then show ?thesis by (simp add: drop_drop [symmetric] add.commute [of "data_start_of us"] data del: drop_drop)
  qed
  show "validation_delta_index_entry bs i =
       Inr (fst (us ! i), update_state (snd (us ! i)),
            data_start_of us + length (data_bytes (take i us)), length (coin_bytes (snd (us ! i))))"
    if i: "i < length us" for i
  proof -
    let ?e = "?ix ! i"
    have "drop 16 bs = concat ?ix @ data_bytes us" by (subst L(1)) (simp add: validation_delta_magic_def)
    then have "drop (16 + 45 * i) bs = drop (45 * i) (concat ?ix @ data_bytes us)"
      by (metis drop_drop add.commute)
    then have "take 45 (drop (16 + 45 * i) bs) = ?e"
      using concat_slot [OF slots, of i "data_bytes us"] i by (simp only: length_delta_index)
    moreover have k: "length (as_bytes (fst (us ! i))) = 36" "update_ok (snd (us ! i))"
      using keys L(4) i by (auto simp: valid_key_def)
    moreover have "take 36 ?e = as_bytes (fst (us ! i))" "?e ! 36 = update_state (snd (us ! i))"
      "take 4 (drop 37 ?e) = u32_to_le (word_of_nat (data_start_of us + length (data_bytes (take i us))))"
      "take 4 (drop 41 ?e) = u32_to_le (word_of_nat (length (coin_bytes (snd (us ! i)))))"
      using k by (simp_all add: delta_index_nth [OF i] nth_append del: of_nat_add)
    moreover have "16 + 45 * i + 45 \<le> length bs" using i len by (simp add: data_start_of_def)
    moreover have "16 + 45 * i + 45 \<le> usize_max" using i small by (simp add: usize_max_def)
    ultimately show ?thesis
      using index_entry_at [of i bs ?e] L(5) i
      by (simp add: key_from_bytes_def unat_word_of_nat_u32 update_ok_def del: of_nat_add)
  qed
qed

lemma utxo_validate_of_encode: "utxo_encode u = Inr bs \<Longrightarrow> utxo_validate_encoded bs = Inr ()"
  using utxo_decode_encode [of u bs] by (simp add: utxo_decode_def res_simps)

lemma delta_update_encoded:
  assumes enc: "encode_validation_delta us n = Inr bs" and keys: "\<forall>k \<in> fst ` set us. valid_key k"
    and i: "i < length us"
  shows "delta_data_end bs (data_start_of us + length (data_bytes (take i us))) (length (coin_bytes (snd (us ! i))))
      = Inr (data_start_of us + length (data_bytes (take (Suc i) us)))"
    "delta_update bs (update_state (snd (us ! i))) (data_start_of us + length (data_bytes (take i us)))
       (length (coin_bytes (snd (us ! i)))) = Inr (snd (us ! i))"
proof -
  have s: "take (Suc i) us = take i us @ [us ! i]" using i by (rule take_Suc_conv_app_nth)
  have "data_bytes us = data_bytes (take (Suc i) us) @ data_bytes (drop (Suc i) us)"
    by (metis append_take_drop_id data_bytes_simps(3))
  then have le: "data_start_of us + length (data_bytes (take (Suc i) us)) \<le> length bs"
    unfolding encoded_parts(1) [OF enc keys] by simp
  have "length bs \<le> usize_max" using encode_layout(3) [OF enc]
    by (simp add: record_too_large_def max_validation_delta_record_bytes_def usize_max_def)
  with le show e: "delta_data_end bs (data_start_of us + length (data_bytes (take i us)))
      (length (coin_bytes (snd (us ! i)))) = Inr (data_start_of us + length (data_bytes (take (Suc i) us)))"
    by (simp add: delta_data_end_def usize_checked_add_def s)
  have "update_ok (snd (us ! i))" using encode_layout(4) [OF enc] i by simp
  then show "delta_update bs (update_state (snd (us ! i))) (data_start_of us + length (data_bytes (take i us)))
       (length (coin_bytes (snd (us ! i)))) = Inr (snd (us ! i))"
    using e encoded_parts(4) [OF enc keys i]
    by (cases "upd_utxo (snd (us ! i))")
       (auto simp: delta_update_def update_state_bits update_ok_def utxo_decode_encode)
qed

lemma inspect_encoded:
  assumes enc: "encode_validation_delta us n = Inr bs" and keys: "\<forall>k \<in> fst ` set us. valid_key k"
    and sorted: "sorted_wrt (<) (map fst us)" and "m \<le> length us"
  shows "\<exists>p b' agg'. try_fold (inspect_delta_entry bs) (None, data_start_of us, b, agg) [0..<m]
      = Inr (p, data_start_of us + length (data_bytes (take m us)), b', agg')
    \<and> p = (if m = 0 then None else Some (fst (us ! (m - 1))))"
  using assms(4)
proof (induction m)
  case (Suc m)
  then obtain p b' agg' where IH: "try_fold (inspect_delta_entry bs) (None, data_start_of us, b, agg) [0..<m]
      = Inr (p, data_start_of us + length (data_bytes (take m us)), b', agg')"
    "p = (if m = 0 then None else Some (fst (us ! (m - 1))))" by auto
  have m: "m < length us" using Suc.prems by simp
  have "\<not> (case p of Some q \<Rightarrow> fst (us ! m) \<le> q | None \<Rightarrow> False)"
    using sorted_wrt_nth_less [OF sorted, of "m - 1" m] m by (auto simp: IH(2) not_le)
  moreover have "update_state (snd (us ! m)) AND 1 = 0 \<Longrightarrow> coin_bytes (snd (us ! m)) = []"
    by (simp add: update_state_bits coin_bytes_def)
  moreover have "utxo_validate_encoded (coin_bytes (snd (us ! m))) = Inr ()"
    if "update_state (snd (us ! m)) AND 1 \<noteq> 0"
  proof -
    have "update_ok (snd (us ! m))" using encode_layout(4) [OF enc] m by simp
    with that show ?thesis by (auto simp: update_state_bits update_ok_def dest: utxo_validate_of_encode)
  qed
  ultimately have "\<exists>b'' agg''. inspect_delta_entry bs
      (p, data_start_of us + length (data_bytes (take m us)), b', agg') m
      = Inr (Some (fst (us ! m)), data_start_of us + length (data_bytes (take (Suc m) us)), b'', agg'')"
    using encoded_parts(3,4) [OF enc keys m] delta_update_encoded(1) [OF enc keys m]
      update_state_bits(3) [of "snd (us ! m)"]
    by (simp add: inspect_delta_entry_def not_less)
  with IH(1) show ?case by (fastforce simp: try_fold_append)
qed simp

text \<open>Decoding an encoded record gives back its updates and count.\<close>

lemma decode_validation_delta_encode:
  assumes enc: "encode_validation_delta us n = Inr bs" and keys: "\<forall>k \<in> fst ` set us. valid_key k"
    and sorted: "sorted_wrt (<) (map fst us)"
  shows "decode_validation_delta bs = Inr (n, us)"
proof -
  have small: "length us * 10 \<le> usize_max" using encode_layout(2) [OF enc] by (simp add: usize_max_def)
  then obtain bloom where w: "with_update_count (length us) = Inr bloom"
    by (simp add: with_update_count_def validation_bloom_byte_count_def usize_checked_mul_def
        validation_bloom_bits_per_update_def)
  from inspect_encoded [OF enc keys sorted order.refl, of bloom None] obtain p b' agg' where
    "try_fold (inspect_delta_entry bs) (None, data_start_of us, bloom, None) [0..<length us]
      = Inr (p, length bs, b', agg')"
    unfolding encoded_parts(1) [OF enc keys] by auto
  then have "inspect_validation_delta bs None = Inr (n, length us, b', agg')"
    using encoded_parts(2) [OF enc keys] w by (simp add: inspect_validation_delta_def)
  moreover have "collect_res (decode_delta_entry bs) [0..<length us] = Inr (map ((!) us) [0..<length us])"
    by (rule collect_res_Inr)
       (simp add: decode_delta_entry_def encoded_parts(3) [OF enc keys] delta_update_encoded(2) [OF enc keys])
  ultimately show ?thesis by (simp add: decode_validation_delta_def map_nth)
qed

section \<open>Round trip of a sharded record\<close>

lemma concat_shard_runs: "concat (map snd (shard_runs us)) = us"
  by (induction us rule: shard_runs.induct) (simp_all add: Let_def)

lemma shard_runs_shape:
  "(s, run) \<in> set (shard_runs us) \<Longrightarrow> run \<noteq> [] \<and> set run \<subseteq> set us
     \<and> (\<forall>(k, u) \<in> set run. validation_delta_shard k validation_delta_shard_count = s)"
proof (induction us rule: shard_runs.induct)
  case (2 u us)
  let ?same = "\<lambda>v. validation_delta_shard (fst v) validation_delta_shard_count
    = validation_delta_shard (fst u) validation_delta_shard_count"
  from "2.prems" consider "run = u # takeWhile ?same us"
      "s = validation_delta_shard (fst u) validation_delta_shard_count"
    | "(s, run) \<in> set (shard_runs (dropWhile ?same us))" by (auto simp: Let_def)
  then show ?case
  proof cases
    case 1
    then show ?thesis by (auto dest: set_takeWhileD)
  next
    case 2
    with "2.IH" [OF refl refl] show ?thesis by (fastforce dest: set_dropWhileD)
  qed
qed simp

lemma shard_mono:
  assumes "valid_key k" "valid_key k'" "k \<le> k'"
  shows "validation_delta_shard k validation_delta_shard_count \<le> validation_delta_shard k' validation_delta_shard_count"
proof -
  obtain a as b bs where k: "as_bytes k = a # as" "as_bytes k' = b # bs"
    using assms(1,2) by (cases "as_bytes k"; cases "as_bytes k'") (auto simp: valid_key_def)
  with assms(3) have "a \<le> b" by (auto simp: less_eq_out_point_key_def)
  then have "drop_bit 4 a \<le> drop_bit 4 b"
    by (simp add: word_le_nat_alt drop_bit_eq_div unat_div_distrib div_le_mono)
  with k show ?thesis
    by (simp add: validation_delta_shard_def validation_delta_shard_count_def validation_rvd4_shard_count_def)
qed

lemma shard_small:
  "unat (validation_delta_shard k validation_delta_shard_count) < 16"
  using unsigned_less [where 'a = nat, of "as_bytes k ! 0"]
  by (simp add: validation_delta_shard_def validation_delta_shard_count_def validation_rvd4_shard_count_def
      unat_div_distrib drop_bit_eq_div div_less_iff_less_mult)

lemma shard_runs_sorted:
  assumes "sorted_wrt (<) (map fst us)" "\<forall>k \<in> fst ` set us. valid_key k"
  shows "sorted_wrt (<) (map fst (shard_runs us))"
  using assms
proof (induction us rule: shard_runs.induct)
  case (2 u us)
  let ?sh = "\<lambda>v. validation_delta_shard (fst v) validation_delta_shard_count"
  let ?rest = "dropWhile (\<lambda>v. ?sh v = ?sh u) us"
  have sub: "set ?rest \<subseteq> set us" by (rule set_dropWhileD [THEN subsetI])
  have sorted: "sorted_wrt (<) (map fst ?rest)"
    using "2.prems"(1) by (metis list.simps(9) sorted_wrt.simps(2) sorted_wrt_append takeWhile_dropWhile_id map_append)
  have IH: "sorted_wrt (<) (map fst (shard_runs ?rest))"
    using "2.IH" [OF refl refl sorted] "2.prems"(2) sub by auto
  have "?sh u < s" if "(s, run) \<in> set (shard_runs ?rest)" for s run
  proof -
    from shard_runs_shape [OF that] obtain k v where kv: "(k, v) \<in> set ?rest"
      "validation_delta_shard k validation_delta_shard_count = s"
      by (cases run) auto
    then obtain d ds where d: "?rest = d # ds" by (cases ?rest) auto
    then have ne: "?sh d \<noteq> ?sh u" using hd_dropWhile [of "\<lambda>v. ?sh v = ?sh u" us] by simp
    have "fst u < fst d" using "2.prems"(1) d sub by auto
    moreover have "fst d \<le> k" using sorted kv d by (auto intro: less_imp_le)
    moreover have "valid_key (fst u)" "valid_key (fst d)" "valid_key k"
      using "2.prems"(2) d sub kv by force+
    ultimately have "?sh u \<le> ?sh d" "?sh d \<le> s" using shard_mono kv(2) by (auto simp: less_imp_le)
    with ne show ?thesis by simp
  qed
  with IH show ?case by (fastforce simp: Let_def)
qed simp

lemma populate_shard_bloom: "populate_shard s bits = bloom_set (unat s) bits"
  by (simp add: populate_shard_def bloom_set_def)

lemma has_bit_set_iff:
  "i div 8 < length bits \<Longrightarrow> has_bit (bloom_set i bits) j \<longleftrightarrow> has_bit bits j \<or> j = i"
proof (cases "j div 8 = i div 8")
  case True
  assume "i div 8 < length bits"
  moreover have "j mod 8 = i mod 8 \<longleftrightarrow> j = i" using True by (metis div_mult_mod_eq)
  ultimately show ?thesis
    using True by (auto simp: has_bit_def bloom_set_def bit_or_iff bit_exp_iff)
next
  case False
  then have "j \<noteq> i" by auto
  with False show ?thesis by (simp add: has_bit_def bloom_set_def)
qed

lemma populated_bits:
  "\<forall>s \<in> set ss. unat (s :: u8) div 8 < length bits \<Longrightarrow>
     has_bit (fold populate_shard ss bits) j \<longleftrightarrow> has_bit bits j \<or> j \<in> unat ` set ss"
  by (induction ss arbitrary: bits) (auto simp: populate_shard_bloom has_bit_set_iff)

lemma length_populate [simp]: "length (fold populate_shard ss bits) = length bits"
  by (induction ss arbitrary: bits) (auto simp: populate_shard_bloom)

text \<open>What decoding a manifest reads: the updates of shard \<open>i\<close>, in shard order.\<close>

definition shard_part :: "sharded_header \<Rightarrow> (u8 \<Rightarrow> utxo_error + bytes) \<Rightarrow> nat \<Rightarrow> validation_delta_updates" where
  "shard_part header load i =
     (if validation_shard_is_populated header (word_of_nat i)
      then case bind_res (load (word_of_nat i)) decode_validation_delta of Inr r \<Rightarrow> snd r | Inl _ \<Rightarrow> []
      else [])"

lemma decode_shards:
  "try_fold (decode_shard h load) [] [0..<m] = Inr acc \<longleftrightarrow>
     acc = concat (map (shard_part h load) [0..<m])
     \<and> (\<forall>i < m. validation_shard_is_populated h (word_of_nat i) \<longrightarrow>
          (\<exists>bs. load (word_of_nat i) = Inr bs
             \<and> decode_validation_delta bs = Inr (sh_utxo_count h, shard_part h load i)
             \<and> shard_part h load i \<noteq> []
             \<and> (\<forall>k \<in> fst ` set (shard_part h load i).
                  validation_delta_shard k (sh_shard_count h) = word_of_nat i)))"
proof (induction m arbitrary: acc)
  case (Suc m)
  have step: "decode_shard h load acc1 m = Inr acc \<longleftrightarrow> acc = acc1 @ shard_part h load m
     \<and> (validation_shard_is_populated h (word_of_nat m) \<longrightarrow>
          (\<exists>bs. load (word_of_nat m) = Inr bs
             \<and> decode_validation_delta bs = Inr (sh_utxo_count h, shard_part h load m)
             \<and> shard_part h load m \<noteq> []
             \<and> (\<forall>k \<in> fst ` set (shard_part h load m).
                  validation_delta_shard k (sh_shard_count h) = word_of_nat m)))" for acc1 acc
    by (cases "load (word_of_nat m)"; cases "bind_res (load (word_of_nat m)) decode_validation_delta")
       (auto simp: decode_shard_def shard_part_def Let_def list_ex_iff split_def split: if_splits)
  show ?case
    unfolding upt_Suc_append [OF le0] try_fold_append bind_res_eq_Inr try_fold.simps step Suc.IH
    by (auto simp: less_Suc_eq)
qed auto

text \<open>
  Looking a key up in the shard it belongs to is looking it up in the whole record.
\<close>

lemma shard_lookup:
  assumes "try_fold (decode_shard h load) [] [0..<m] = Inr us" "m \<le> 256"
    and m: "unat (validation_delta_shard k (sh_shard_count h)) < m"
  shows "map_of us k = map_of (shard_part h load (unat (validation_delta_shard k (sh_shard_count h)))) k"
  using assms(1,2,3)
proof (induction m arbitrary: us)
  case (Suc m)
  let ?s = "unat (validation_delta_shard k (sh_shard_count h))"
  note D = Suc.prems(1) [unfolded decode_shards]
  have IH: "try_fold (decode_shard h load) [] [0..<m] = Inr (concat (map (shard_part h load) [0..<m]))"
    using D unfolding decode_shards by auto
  have other: "map_of (shard_part h load i) k = None" if "i < Suc m" "i \<noteq> ?s" for i
  proof (cases "validation_shard_is_populated h (word_of_nat i)")
    case True
    have "unat (word_of_nat i :: u8) = i" using that Suc.prems(2) by (simp add: unat_of_nat take_bit_nat_eq_self)
    with D True that show ?thesis by (fastforce simp: map_of_eq_None_iff)
  qed (simp add: shard_part_def)
  have us: "us = concat (map (shard_part h load) [0..<m]) @ shard_part h load m" using D by simp
  show ?case
  proof (cases "?s = m")
    case True
    have "k \<notin> fst ` set (shard_part h load i)" if "i < m" for i
      using other [of i] True that by (simp add: map_of_eq_None_iff)
    then have "map_of (concat (map (shard_part h load) [0..<m])) k = None"
      unfolding map_of_eq_None_iff by (auto simp: image_iff)
    with True show ?thesis by (simp add: us map_add_def)
  next
    case False
    with Suc.IH [OF IH] Suc.prems(2,3) other [of m] show ?thesis
      by (simp add: us map_add_def split: option.splits)
  qed
qed simp

lemma concat_slots_sorted:
  assumes "sorted_wrt (<) (map fst rs)" "\<forall>i \<in> fst ` set rs. i < n"
  shows "concat (map (\<lambda>i. case map_of rs i of Some r \<Rightarrow> r | None \<Rightarrow> []) [0..<n]) = concat (map snd rs)"
  using assms
proof (induction n arbitrary: rs)
  case (Suc n)
  show ?case
  proof (cases "n \<in> fst ` set rs")
    case True
    then have ne: "rs \<noteq> []" by auto
    then obtain rs' j r where rs: "rs = rs' @ [(j, r)]" by (metis rev_exhaust surj_pair)
    then have "j = n" using True Suc.prems by (fastforce simp: sorted_wrt_append)
    have less: "\<forall>i \<in> fst ` set rs'. i < n" using Suc.prems(1) by (auto simp: rs \<open>j = n\<close> sorted_wrt_append)
    have e: "map (\<lambda>i. case map_of rs i of Some r \<Rightarrow> r | None \<Rightarrow> []) [0..<n]
        = map (\<lambda>i. case map_of rs' i of Some r \<Rightarrow> r | None \<Rightarrow> []) [0..<n]"
      by (auto simp: rs \<open>j = n\<close> map_add_def split: option.splits)
    have r: "map_of rs n = Some r"
      using less map_of_SomeD [of rs' n] by (force simp: rs \<open>j = n\<close> map_add_def split: option.splits)
    have "sorted_wrt (<) (map fst rs')" using Suc.prems(1) by (simp add: rs sorted_wrt_append)
    from Suc.IH [OF this less] show ?thesis
      unfolding upt_Suc_append [OF le0] map_append concat_append e by (simp add: r) (simp add: rs)
  next
    case False
    then have "\<forall>i \<in> fst ` set rs. i < n" "map_of rs n = None"
      using Suc.prems(2) by (auto simp: map_of_eq_None_iff less_Suc_eq)
    with Suc.IH [OF Suc.prems(1)] show ?thesis by simp
  qed
qed simp


lemma runs_lookup:
  assumes "collect_res (\<lambda>(s, run). bind_res (encode_validation_delta run n) (\<lambda>bs. Ok (s, bs))) runs = Inr shards"
  shows "map fst shards = map fst runs"
    "\<And>s. map_of runs s = None \<Longrightarrow> map_of shards s = None"
    "\<And>s run. map_of runs s = Some run \<Longrightarrow> \<exists>bs. map_of shards s = Some bs \<and> encode_validation_delta run n = Inr bs"
  using assms
proof (induction runs arbitrary: shards)
  case (Cons r runs)
  { case 1 then show ?case using Cons.IH(1) by (auto simp: res_simps split_def) }
  { case (2 s) then show ?case using Cons.IH(2) by (fastforce simp: res_simps split_def split: if_splits) }
  { case (3 s run) then show ?case using Cons.IH(3) by (fastforce simp: res_simps split_def split: if_splits) }
qed (auto)

definition load_from :: "(u8 \<times> bytes) list \<Rightarrow> u8 \<Rightarrow> utxo_error + bytes" where
  "load_from shards s = ok_or (map_of shards s) (Malformed ''missing validation delta shard'')"

lemma unat_image_u8: "i < 256 \<Longrightarrow> i \<in> unat ` S \<longleftrightarrow> word_of_nat i \<in> S" for S :: "u8 set"
proof -
  assume "i < 256"
  then have i: "unat (word_of_nat i :: u8) = i" by (simp add: unat_of_nat take_bit_nat_eq_self)
  show ?thesis
  proof
    assume "word_of_nat i \<in> S"
    then show "i \<in> unat ` S" using i by (metis image_eqI)
  qed auto
qed

lemma manifest_header:
  assumes enc: "encode_sharded_validation_delta us n = Inr (manifest, shards)"
  shows "\<exists>h. read_record_header manifest = Inr (Sharded h) \<and> sh_utxo_count h = n
    \<and> sh_update_count h = length us \<and> sh_shard_count h = 16
    \<and> (\<forall>i < 16. validation_shard_is_populated h (word_of_nat i) \<longleftrightarrow> word_of_nat i \<in> fst ` set (shard_runs us))"
proof -
  let ?ss = "map fst (shard_runs us)"
  let ?bm = "fold populate_shard ?ss (replicate 32 0)"
  have small: "unat s < 16" if "s \<in> set ?ss" for s
  proof -
    from that obtain run where "(s, run) \<in> set (shard_runs us)" by auto
    from shard_runs_shape [OF this] shard_small show ?thesis by (cases run) auto
  qed
  from enc have len: "length us < 2 ^ 32" and sh: "map fst shards = ?ss"
    and m: "manifest = validation_compact_sharded_delta_magic @ u64_to_le n
      @ u32_to_le (word_of_nat (length us)) @ take 2 (fold (\<lambda>p. populate_shard (fst p)) shards (replicate 32 0))"
    by (auto simp: encode_sharded_validation_delta_def res_simps checked_arith Let_def split_def
        validation_delta_shard_count_def validation_delta_shard_bitmap_bytes_def validation_rvd4_shard_count_def
        dest!: runs_lookup(1) [unfolded split_def])
  have "fold (\<lambda>p. populate_shard (fst p)) shards (replicate 32 0) = ?bm"
    unfolding sh [symmetric] by (simp add: fold_map comp_def)
  note manifest = m [unfolded this]
  have l: "length manifest = 18" "take 4 manifest = validation_compact_sharded_delta_magic"
    "take 8 (drop 4 manifest) = u64_to_le n" "take 4 (drop 12 manifest) = u32_to_le (word_of_nat (length us))"
    "drop 16 manifest = take 2 ?bm"
    by (simp_all add: manifest validation_compact_sharded_delta_magic_def)
  let ?ps = "take 2 ?bm @ replicate 30 0"
  have bit: "has_bit ?ps i \<longleftrightarrow> word_of_nat i \<in> set ?ss" if "i < 16" for i
  proof -
    have "i div 8 < 2" using that by auto
    then have "has_bit ?ps i \<longleftrightarrow> has_bit ?bm i" by (simp add: has_bit_def nth_append)
    also have "\<dots> \<longleftrightarrow> i \<in> unat ` set ?ss"
      using populated_bits [of ?ss "replicate 32 0" i] small that by (fastforce simp: has_bit_def)
    also have "\<dots> \<longleftrightarrow> word_of_nat i \<in> set ?ss"
      using that by (intro unat_image_u8) simp
    finally show ?thesis .
  qed
  have zero: "\<not> list_ex (\<lambda>byte. byte \<noteq> 0) ?ps" if "length us = 0"
    using that by (simp add: list_ex_iff)
  have "validation_compact_sharded_delta_magic \<noteq> validation_sharded_delta_magic"
    "validation_compact_sharded_delta_magic \<noteq> validation_delta_magic"
    by (simp_all add: validation_compact_sharded_delta_magic_def validation_sharded_delta_magic_def
        validation_delta_magic_def)
  moreover have "length validation_compact_sharded_delta_magic = 4" "length validation_sharded_delta_magic = 4"
    "length validation_delta_magic = 4"
    by (simp_all add: validation_compact_sharded_delta_magic_def validation_sharded_delta_magic_def
        validation_delta_magic_def)
  ultimately have "read_record_header manifest = Inr (Sharded
     \<lparr>sh_utxo_count = n, sh_update_count = length us, sh_shard_count = 16, sh_populated_shards = ?ps\<rparr>)"
    using zero len l
    by (simp add: read_record_header_def decode_sharded_validation_delta_header_def starts_with_def Let_def
        validation_compact_sharded_delta_header_bytes_def validation_delta_shard_count_def
        validation_delta_shard_bitmap_bytes_def validation_rvd4_shard_count_def unat_word_of_nat_u32)
  moreover have "unat (word_of_nat i :: u8) = i" if "i < 16" for i
    using that by (simp add: unat_of_nat take_bit_nat_eq_self)
  ultimately show ?thesis
    using bit by (auto simp: validation_shard_is_populated_def has_bit_def bit_iff_and_push_bit_not_eq_0)
qed

lemma sorted_concat_part:
  assumes "sorted_wrt (<) (map fst (concat xss))" "xs \<in> set xss"
  shows "sorted_wrt (<) (map fst xs)"
  using assms by (induction xss) (auto simp: sorted_wrt_append)

lemma shard_run_decodes:
  assumes sorted: "sorted_wrt (<) (map fst us)" and keys: "\<forall>k \<in> fst ` set us. valid_key k"
    and "map_of (shard_runs us) s = Some run" "encode_validation_delta run n = Inr bs"
  shows "decode_validation_delta bs = Inr (n, run)"
proof -
  have m: "(s, run) \<in> set (shard_runs us)" using assms(3) by (rule map_of_SomeD)
  have "sorted_wrt (<) (map fst run)"
    by (rule sorted_concat_part [of "map snd (shard_runs us)"])
       (use sorted m in \<open>auto simp: concat_shard_runs image_iff\<close>, metis snd_conv m)
  moreover have "\<forall>k \<in> fst ` set run. valid_key k" using shard_runs_shape [OF m] keys by auto
  ultimately show ?thesis using decode_validation_delta_encode [OF assms(4)] by blast
qed

lemma concat_runs_by_shard:
  assumes sorted: "sorted_wrt (<) (map fst us)" and keys: "\<forall>k \<in> fst ` set us. valid_key k"
  shows "concat (map (\<lambda>i. case map_of (shard_runs us) (word_of_nat i) of Some r \<Rightarrow> r | None \<Rightarrow> []) [0..<16]) = us"
proof -
  let ?rs = "map (\<lambda>(s, run). (unat s, run)) (shard_runs us)"
  have s: "sorted_wrt (<) (map fst ?rs)"
    using shard_runs_sorted [OF sorted keys]
    by (simp add: sorted_wrt_map split_def comp_def word_less_nat_alt)
  have "map_of (map (\<lambda>(s, run). (unat s, run)) xs) i = map_of xs (word_of_nat i :: u8)" if "i < 16"
    for i and xs :: "(u8 \<times> validation_delta_updates) list"
  proof -
    have "unat (word_of_nat i :: u8) = i" using that by (simp add: unat_of_nat take_bit_nat_eq_self)
    then show ?thesis by (induction xs) (auto split: prod.splits)
  qed
  then have "concat (map (\<lambda>i. case map_of (shard_runs us) (word_of_nat i) of Some r \<Rightarrow> r | None \<Rightarrow> []) [0..<16])
      = concat (map (\<lambda>i. case map_of ?rs i of Some r \<Rightarrow> r | None \<Rightarrow> []) [0..<16])"
    by (intro arg_cong [of _ _ concat] map_cong) auto
  also have "\<dots> = concat (map snd ?rs)"
  proof (rule concat_slots_sorted [OF s], rule)
    fix i assume "i \<in> fst ` set ?rs"
    then obtain s run where "i = unat s" "(s, run) \<in> set (shard_runs us)" by auto
    with shard_runs_shape [of s run us] shard_small show "i < 16" by (cases run) auto
  qed
  also have "\<dots> = us" by (simp add: split_def comp_def concat_shard_runs)
  finally show ?thesis .
qed

text \<open>Decoding the manifest with the shards it was written with gives back the updates.\<close>

lemma decode_sharded_encode:
  assumes enc: "encode_sharded_validation_delta us n = Inr (manifest, shards)"
    and sorted: "sorted_wrt (<) (map fst us)" and keys: "\<forall>k \<in> fst ` set us. valid_key k"
    and load: "\<And>s bs. map_of shards s = Some bs \<Longrightarrow> load s = Inr bs"
  shows "decode_validation_delta_record manifest load = Inr (n, us)"
proof -
  let ?runs = "shard_runs us"
  from manifest_header [OF enc] obtain h where h: "read_record_header manifest = Inr (Sharded h)"
    "sh_utxo_count h = n" "sh_update_count h = length us" "sh_shard_count h = 16"
    "\<forall>i < 16. validation_shard_is_populated h (word_of_nat i) \<longleftrightarrow> word_of_nat i \<in> fst ` set ?runs" by blast
  from enc have "collect_res (\<lambda>(s, run). bind_res (encode_validation_delta run n) (\<lambda>bs. Ok (s, bs))) ?runs
      = Inr shards"
    by (auto simp: encode_sharded_validation_delta_def res_simps Let_def)
  note R = runs_lookup [OF this]
  have run: "\<exists>bs. load (word_of_nat i) = Inr bs \<and> decode_validation_delta bs = Inr (n, run)"
    if "map_of ?runs (word_of_nat i) = Some run" for i run
    using R(3) [OF that] shard_run_decodes [OF sorted keys that] load by blast
  have part: "shard_part h load i = (case map_of ?runs (word_of_nat i) of Some run \<Rightarrow> run | None \<Rightarrow> [])"
    if "i < 16" for i
  proof (cases "map_of ?runs (word_of_nat i)")
    case None
    then have "word_of_nat i \<notin> fst ` set ?runs" by (simp add: map_of_eq_None_iff)
    with h(5) that None show ?thesis by (simp add: shard_part_def)
  next
    case (Some r)
    then have "word_of_nat i \<in> fst ` set ?runs" by (metis map_of_SomeD image_eqI fst_conv)
    with run [OF Some] h(5) that Some show ?thesis by (auto simp: shard_part_def)
  qed
  have "concat (map (shard_part h load) [0..<16])
      = concat (map (\<lambda>i. case map_of ?runs (word_of_nat i) of Some r \<Rightarrow> r | None \<Rightarrow> []) [0..<16])"
    using part by (intro arg_cong [of _ _ concat] map_cong) auto
  note all = this [unfolded concat_runs_by_shard [OF sorted keys]]
  have "try_fold (decode_shard h load) [] [0..<16] = Inr us"
    unfolding decode_shards all
  proof (intro conjI refl allI impI)
    fix i :: nat assume i: "i < 16" "validation_shard_is_populated h (word_of_nat i)"
    then obtain r where r: "map_of ?runs (word_of_nat i) = Some r"
      using h(5) map_of_eq_None_iff [of ?runs "word_of_nat i"] by auto
    with run [OF r] part [OF i(1)] shard_runs_shape [OF map_of_SomeD [OF r]] h(2,4)
    show "\<exists>bs. load (word_of_nat i) = Inr bs
        \<and> decode_validation_delta bs = Inr (sh_utxo_count h, shard_part h load i)
        \<and> shard_part h load i \<noteq> []
        \<and> (\<forall>k \<in> fst ` set (shard_part h load i). validation_delta_shard k (sh_shard_count h) = word_of_nat i)"
      by (auto simp: validation_delta_shard_count_def split_def)
  qed
  then show ?thesis using h by (simp add: decode_validation_delta_record_def)
qed


section \<open>Lookup in a record of either format\<close>

lemma sharded_header_count:
  "decode_sharded_validation_delta_header bs = Inr h \<Longrightarrow> sh_shard_count h = 16 \<or> sh_shard_count h = 256"
  by (auto simp: decode_sharded_validation_delta_header_def Let_def res_simps validation_delta_shard_count_def
      validation_rvd4_shard_count_def split: if_splits)

lemma shard_in_range:
  "sh_shard_count h = 16 \<or> sh_shard_count h = 256 \<Longrightarrow>
     unat (validation_delta_shard k (sh_shard_count h)) < sh_shard_count h"
  using shard_small [of k] unsigned_less [where 'a = nat, of "as_bytes k ! 0"]
  by (auto simp: validation_delta_shard_count_def validation_delta_shard_def validation_rvd4_shard_count_def)

lemma record_lookup_ok:
  assumes "decode_validation_delta_record encoded load = Inr (n, us)"
  shows "record_lookup encoded load k = Inr (map_of us k)"
proof -
  from assms obtain header where h: "read_record_header encoded = Inr header"
    by (auto simp: decode_validation_delta_record_def res_simps)
  show ?thesis
  proof (cases header)
    case (Legacy a b)
    then show ?thesis using assms h
      by (simp add: decode_validation_delta_record_def record_lookup_def validation_delta_lookup_ok)
  next
    case (Sharded sh)
    let ?s = "validation_delta_shard k (sh_shard_count sh)"
    from assms h Sharded have f: "try_fold (decode_shard sh load) [] [0..<sh_shard_count sh] = Inr us"
      by (auto simp: decode_validation_delta_record_def res_simps split: if_splits)
    have count: "sh_shard_count sh = 16 \<or> sh_shard_count sh = 256"
      using h Sharded by (auto simp: read_record_header_def res_simps split: if_splits dest: sharded_header_count)
    have r: "unat ?s < sh_shard_count sh" by (rule shard_in_range [OF count])
    then have m: "map_of us k = map_of (shard_part sh load (unat ?s)) k"
      using shard_lookup [OF f] count by auto
    show ?thesis
    proof (cases "validation_shard_is_populated sh ?s")
      case True
      with f r obtain bs where "load ?s = Inr bs"
        "decode_validation_delta bs = Inr (sh_utxo_count sh, shard_part sh load (unat ?s))"
        unfolding decode_shards by (fastforce dest: spec [of _ "unat ?s"])
      with True h Sharded m show ?thesis
        by (simp add: record_lookup_def Let_def validation_delta_lookup_ok)
    next
      case False
      with h Sharded m show ?thesis by (simp add: record_lookup_def Let_def shard_part_def)
    qed
  qed
qed

section \<open>Folding a batch\<close>

lemma fold_validation_updates_keys:
  "fst ` set (fold_validation_updates spent created) = set spent \<union> fst ` set created"
  by (induction spent created rule: fold_validation_updates.induct) auto

lemma fold_validation_updates_ball:
  "(\<forall>x \<in> set (fold_validation_updates spent created). P (fst x)) \<longleftrightarrow>
     (\<forall>x \<in> set spent. P x) \<and> (\<forall>x \<in> set created. P (fst x))"
  by (induction spent created rule: fold_validation_updates.induct) auto

lemma fold_validation_updates_sorted:
  "sorted_wrt (<) spent \<Longrightarrow> sorted_wrt (<) (map fst created) \<Longrightarrow>
     sorted_wrt (<) (map fst (fold_validation_updates spent created))"
proof (induction spent created rule: fold_validation_updates.induct)
  case (4 s spent c u created)
  consider "s < c" | "s = c" | "c < s" by fastforce
  then show ?case
    by cases (use 4 in \<open>auto simp: fold_validation_updates_ball [where P = "\<lambda>x. _ < x"] intro: less_trans\<close>)
qed (auto simp: fold_validation_updates_ball [where P = "\<lambda>x. _ < x"])

text \<open>A sorted batch folds to one update per key: what it becomes, and whether it was spent.\<close>

lemma fold_validation_updates_lookup:
  assumes "sorted_wrt (<) spent" "sorted_wrt (<) (map fst created)"
  shows "map_of (fold_validation_updates spent created) k =
    (if k \<in> set spent \<or> k \<in> fst ` set created
     then Some \<lparr>spent_in_batch = (k \<in> set spent), upd_utxo = map_of created k\<rparr> else None)"
  using assms
proof (induction spent created rule: fold_validation_updates.induct)
  case (4 s spent c u created)
  have n: "s \<notin> set spent" "c \<notin> fst ` set created" "s < c \<Longrightarrow> s \<notin> fst ` set created"
    "c < s \<Longrightarrow> c \<notin> set spent" "map_of created c = None" "s < c \<Longrightarrow> map_of created s = None"
    using "4.prems" by (fastforce simp: map_of_eq_None_iff)+
  consider "s < c" | "s = c" | "c < s" by fastforce
  then show ?case
  proof cases
    case 1
    have "map_of (fold_validation_updates spent ((c, u) # created)) k =
      (if k \<in> set spent \<or> k \<in> fst ` set ((c, u) # created)
       then Some \<lparr>spent_in_batch = (k \<in> set spent), upd_utxo = map_of ((c, u) # created) k\<rparr> else None)"
      using "4.IH"(1) [OF 1] "4.prems" by simp
    with 1 n show ?thesis by (cases "k = c"; cases "k = s") auto
  next
    case 2
    have "map_of (fold_validation_updates spent created) k =
      (if k \<in> set spent \<or> k \<in> fst ` set created
       then Some \<lparr>spent_in_batch = (k \<in> set spent), upd_utxo = map_of created k\<rparr> else None)"
      using "4.IH"(2) [OF _ 2] 2 "4.prems" by simp
    with 2 n show ?thesis by (cases "k = s") auto
  next
    case 3
    have "map_of (fold_validation_updates (s # spent) created) k =
      (if k \<in> set (s # spent) \<or> k \<in> fst ` set created
       then Some \<lparr>spent_in_batch = (k \<in> set (s # spent)), upd_utxo = map_of created k\<rparr> else None)"
      using "4.IH"(3) 3 "4.prems" by simp
    moreover have "\<not> s < c" "s \<noteq> c" using 3 by auto
    ultimately show ?thesis using 3 n by (cases "k = c"; cases "k = s") auto
  qed
next
  case (3 c u created)
  then have "map_of created c = None" by (fastforce simp: map_of_eq_None_iff)
  with 3 show ?case by auto
qed auto

section \<open>What a stored record promises\<close>

text \<open>
  C21. Whatever bytes the decoder of a delta record accepts are well formed: the keys are outpoints of
  36 bytes in strictly increasing order, as many as the header says, and the binary search over
  the raw index answers every outpoint like the decoded updates, also where it is absent.
\<close>

theorem decoded_delta_wellformed:
  assumes "decode_validation_delta bs = Inr (n, us)"
  shows "sorted_wrt (<) (map fst us) \<and> (\<forall>k \<in> fst ` set us. length (as_bytes k) = 36)
    \<and> (\<exists>data. validation_delta_header bs = Inr (n, length us, data))
    \<and> (\<forall>k. validation_delta_lookup bs k = Inr (map_of us k))"
  using decode_validation_delta_shape(1,3,4) [OF assms] validation_delta_lookup_ok [OF assms]
  by (auto simp: valid_key_def)

text \<open>
  C22. A sharded record reads back: with the shards it was written with, decoding the manifest gives
  the updates and the count, and the lookup that opens one shard answers every outpoint.
\<close>

theorem sharded_delta_roundtrip:
  assumes "encode_sharded_validation_delta us n = Inr (manifest, shards)"
    and "sorted_wrt (<) (map fst us)" "\<forall>k \<in> fst ` set us. valid_key k"
    and "\<forall>s bs. map_of shards s = Some bs \<longrightarrow> load s = Inr bs"
  shows "decode_validation_delta_record manifest load = Inr (n, us)
    \<and> (\<forall>k. record_lookup manifest load k = Inr (map_of us k))"
proof -
  have "decode_validation_delta_record manifest load = Inr (n, us)"
    by (rule decode_sharded_encode [OF assms(1-3)]) (use assms(4) in blast)
  then show ?thesis using record_lookup_ok by blast
qed

definition sample_delta :: validation_delta_updates where
  "sample_delta = [(sample_key 3, \<lparr>spent_in_batch = True, upd_utxo = None\<rparr>),
     (sample_key 200, \<lparr>spent_in_batch = False, upd_utxo = Some (sample_coin 10 1)\<rparr>)]"

lemma sample_delta_ok: "sorted_wrt (<) (map fst sample_delta)" "\<forall>k \<in> fst ` set sample_delta. valid_key k"
  by (simp_all add: sample_delta_def sample_key_less)

theorem decoded_delta_wellformed_witness:
  "\<exists>bs. encode_validation_delta sample_delta 7 = Inr bs
    \<and> validation_delta_lookup bs (sample_key 200) = Inr (Some \<lparr>spent_in_batch = False, upd_utxo = Some (sample_coin 10 1)\<rparr>)
    \<and> validation_delta_lookup bs (sample_key 4) = Inr None"
proof -
  have "\<not> isl (encode_validation_delta sample_delta 7)" by code_simp
  then obtain bs where bs: "encode_validation_delta sample_delta 7 = Inr bs"
    by (cases "encode_validation_delta sample_delta 7") auto
  from decoded_delta_wellformed [OF decode_validation_delta_encode [OF bs sample_delta_ok(2,1)]] bs show ?thesis
    by (auto simp: sample_delta_def sample_key_def)
qed

theorem sharded_delta_roundtrip_witness:
  "\<exists>manifest shards. encode_sharded_validation_delta sample_delta 7 = Inr (manifest, shards)
    \<and> decode_validation_delta_record manifest (\<lambda>s. ok_or (map_of shards s) (Malformed ''missing'')) = Inr (7, sample_delta)"
proof -
  have "\<not> isl (encode_sharded_validation_delta sample_delta 7)" by code_simp
  then obtain manifest shards where m: "encode_sharded_validation_delta sample_delta 7 = Inr (manifest, shards)"
    by (cases "encode_sharded_validation_delta sample_delta 7") auto
  from sharded_delta_roundtrip [OF m sample_delta_ok, of "\<lambda>s. ok_or (map_of shards s) (Malformed ''missing'')"] m show ?thesis by simp
qed

end
