(* ===== verification/Chain_Store.thy ===== *)
theory Chain_Store
  imports Validation_Delta Undo_Store Headers "HOL-Library.Product_Lexorder"
begin

text \<open>
  The unified chainstate of \<open>src/src/chain_store.rs\<close>: coins, block undo and execution
  metadata in one database, the spent-age histogram kept with them, the commits
  that connect and disconnect blocks in one transaction, the validation journal with
  its materialization and migration, assumed snapshots, and opening. Locks are left
  out: every operation holds the write lock.
\<close>

section \<open>Data\<close>

datatype chain_store_error =
    Damaged
  | ValidationDeltaModeRequired
  | ValidationDeltaRetainsUndo
  | LegacyLayout
  | Chain_Database
  | Chain_Transaction
  | Chain_Table
  | Chain_Storage
  | Chain_Commit
  | Chain_Compaction
  | Chain_Utxo utxo_error
  | Chain_Undo undo_store_error
  | Chain_Execution execution_store_error
  | SnapshotNotFresh
  | SnapshotDigestMismatch
  | SnapshotCountMismatch u64 u64
  | SnapshotSizeMismatch u64 u64
  | NoAssumedSnapshot
  | ValidationChainstateIsAssumed
  | ValidationTipMismatch u32 hash256 u32 hash256
  | ValidationConsensusMismatch
  | Chain_ValidationTargetMismatch
  | SnapshotBaseNotActive u32 hash256
  | ExecutionTipNotActive u32 hash256
  | ValidationContentMismatch

record chain_store_options =
  opt_quick_repair :: bool
  opt_retain_block_undo :: bool
  opt_cache_size_bytes :: nat
  opt_validation_delta_journal :: bool

definition default_options :: chain_store_options where
  "default_options = \<lparr>opt_quick_repair = True, opt_retain_block_undo = True,
     opt_cache_size_bytes = 1024 * 1024 * 1024, opt_validation_delta_journal = False\<rparr>"

record snapshot_content_identity =
  sc_records_sha256 :: bytes
  sc_utxo_count :: u64
  sc_records_bytes :: u64

record validation_journal_row =
  jr_height :: u32
  jr_bloom :: validation_bloom

record validation_journal =
  jn_rows :: "validation_journal_row list"
  jn_groups :: "validation_bloom list"
  jn_legacy_hits :: "(u32, u64) fmap"
  jn_utxo_count :: u64

text \<open>
  The one physical database. A table that was never created reads as an empty one.
\<close>

record chain_db =
  db_utxos :: utxo_tables
  db_undos :: undo_tables
  db_meta :: meta
  db_deltas :: "(u32, bytes) fmap"
  db_shards :: "(bytes, bytes) fmap"
  db_row_blooms :: "(u32, bytes) fmap"
  db_group_blooms :: "(u32, bytes) fmap"
  db_spent_ages :: "(u32, u64) fmap"
  db_spent_age_meta :: "(u8, u32) fmap"

record chain_store =
  cs_db :: chain_db
  cs_options :: chain_store_options
  cs_journal :: "validation_journal option"

record connect_transition =
  ct_expected_parent :: hash256
  ct_next :: execution_tip
  ct_spent :: "out_point_key list"
  ct_created :: "coin_row list"
  ct_transaction_undos :: "utxo_undo list"

definition validation_rows_per_bloom_group :: nat where "validation_rows_per_bloom_group = 16"
definition validation_group_bloom_updates :: nat where "validation_group_bloom_updates = 16000000"
definition spent_age_start_height :: u8 where "spent_age_start_height = 0"
definition spent_age_end_height :: u8 where "spent_age_end_height = 1"


section \<open>Transactions\<close>

text \<open>
  One redb write transaction: the body threads the tables and only a body that
  succeeds is committed. The bodies of the component stores run on their tables.
\<close>

type_synonym 'a tx = "chain_db \<Rightarrow> chain_store_error + ('a \<times> chain_db)"

definition tx_bind :: "'a tx \<Rightarrow> ('a \<Rightarrow> 'b tx) \<Rightarrow> 'b tx" where
  "tx_bind m f = (\<lambda>db. bind_res (m db) (\<lambda>(x, db'). f x db'))"

definition tx_ret :: "'a \<Rightarrow> 'a tx" where
  "tx_ret x = (\<lambda>db. Ok (x, db))"

definition tx_lift :: "chain_store_error + 'a \<Rightarrow> 'a tx" where
  "tx_lift r = (\<lambda>db. bind_res r (\<lambda>x. Ok (x, db)))"

definition in_utxos :: "(utxo_tables \<Rightarrow> utxo_error + ('a \<times> utxo_tables)) \<Rightarrow> 'a tx" where
  "in_utxos f = (\<lambda>db. bind_res (map_err Chain_Utxo (f (db_utxos db))) (\<lambda>(x, t). Ok (x, db\<lparr>db_utxos := t\<rparr>)))"

definition in_undos :: "(undo_tables \<Rightarrow> undo_store_error + ('a \<times> undo_tables)) \<Rightarrow> 'a tx" where
  "in_undos f = (\<lambda>db. bind_res (map_err Chain_Undo (f (db_undos db))) (\<lambda>(x, t). Ok (x, db\<lparr>db_undos := t\<rparr>)))"

definition in_execution :: "(meta \<Rightarrow> execution_store_error + ('a \<times> meta)) \<Rightarrow> 'a tx" where
  "in_execution f = (\<lambda>db. bind_res (map_err Chain_Execution (f (db_meta db))) (\<lambda>(x, t). Ok (x, db\<lparr>db_meta := t\<rparr>)))"

fun tx_each :: "('b \<Rightarrow> unit tx) \<Rightarrow> 'b list \<Rightarrow> unit tx" where
  "tx_each f [] = tx_ret ()"
| "tx_each f (x # xs) = tx_bind (f x) (\<lambda>_. tx_each f xs)"

definition commit_tx :: "'a tx \<Rightarrow> (chain_store, chain_store_error, 'a) st" where
  "commit_tx body s =
     (case body (cs_db s) of Inl e \<Rightarrow> (Inl e, s) | Inr (x, db) \<Rightarrow> (Inr x, s\<lparr>cs_db := db\<rparr>))"


section \<open>The spent-age histogram\<close>

definition count_age ::
  "u32 \<Rightarrow> (u32, u64) fmap \<Rightarrow> coin_row \<Rightarrow> utxo_error + (u32, u64) fmap" where
  "count_age spend_height counts row =
     bind_res (ok_or (checked_sub spend_height (utxo_height (snd row)))
       (Malformed ''spent coin height exceeds block'')) (\<lambda>age.
     bind_res (ok_or (checked_add (case fmlookup counts age of Some c \<Rightarrow> c | None \<Rightarrow> 0) 1)
       (Malformed ''spent-age sample overflow'')) (\<lambda>count.
       Ok (fmupd age count counts)))"

definition spent_age_counts ::
  "(u32 \<times> utxo_undo list) list \<Rightarrow> utxo_error + (u32, u64) fmap" where
  "spent_age_counts blocks =
     try_fold (\<lambda>counts (spend_height, undos).
       try_fold (count_age spend_height) counts (concat (map undo_spent undos))) fmempty blocks"

definition add_age :: "(u32, u64) fmap \<Rightarrow> u32 \<times> u64 \<Rightarrow> utxo_error + (u32, u64) fmap" where
  "add_age ages = (\<lambda>(age, increment).
     bind_res (ok_or (checked_add (case fmlookup ages age of Some c \<Rightarrow> c | None \<Rightarrow> 0) increment)
       (Malformed ''spent-age histogram overflow'')) (\<lambda>updated. Ok (fmupd age updated ages)))"

definition connect_spent_ages_transaction :: "(u32, u64) fmap \<Rightarrow> u32 \<Rightarrow> u32 \<Rightarrow> unit tx" where
  "connect_spent_ages_transaction counts start_height end_height = (\<lambda>db.
     let meta = db_spent_age_meta db in
     bind_res (map_err Chain_Utxo
       (case (fmlookup meta spent_age_start_height, fmlookup meta spent_age_end_height) of
          (None, None) \<Rightarrow> Ok (fmupd spent_age_start_height start_height meta)
        | (Some _, Some previous_end) \<Rightarrow>
            (if checked_add previous_end 1 = Some start_height then Ok meta
             else Err (Malformed ''spent-age histogram coverage is not contiguous''))
        | _ \<Rightarrow> Err (Malformed ''spent-age histogram coverage is not contiguous''))) (\<lambda>meta.
     bind_res (map_err Chain_Utxo (try_fold add_age (db_spent_ages db) (fmap_entries counts))) (\<lambda>ages.
       Ok ((), db\<lparr>db_spent_age_meta := fmupd spent_age_end_height end_height meta,
                  db_spent_ages := ages\<rparr>))))"

definition subtract_age :: "(u32, u64) fmap \<Rightarrow> u32 \<times> u64 \<Rightarrow> utxo_error + (u32, u64) fmap" where
  "subtract_age ages = (\<lambda>(age, decrement).
     bind_res (ok_or (fmlookup ages age) (Malformed ''missing spent-age histogram row'')) (\<lambda>current.
     bind_res (ok_or (checked_sub current decrement) (Malformed ''spent-age histogram underflow''))
       (\<lambda>updated. Ok (if updated = 0 then fmdrop age ages else fmupd age updated ages))))"

definition disconnect_spent_ages_transaction :: "(u32, u64) fmap \<Rightarrow> u32 \<Rightarrow> u32 \<Rightarrow> unit tx" where
  "disconnect_spent_ages_transaction counts current_height parent_height = (\<lambda>db.
     let meta = db_spent_age_meta db in
     case fmlookup meta spent_age_start_height of
       None \<Rightarrow> Ok ((), db)
     | Some start_height \<Rightarrow>
         bind_res (map_err Chain_Utxo (ok_or (fmlookup meta spent_age_end_height)
           (Malformed ''incomplete spent-age metadata''))) (\<lambda>end_height.
         if end_height \<noteq> current_height
         then Err (Chain_Utxo (Malformed ''spent-age histogram tip does not match disconnect''))
         else
         bind_res (map_err Chain_Utxo (try_fold subtract_age (db_spent_ages db) (fmap_entries counts))) (\<lambda>ages.
           if current_height = start_height
           then Ok ((), db\<lparr>db_spent_ages := fmempty, db_spent_age_meta := fmempty\<rparr>)
           else Ok ((), db\<lparr>db_spent_ages := ages,
                          db_spent_age_meta := fmupd spent_age_end_height parent_height meta\<rparr>))))"

record spent_age_histogram =
  sa_start_height :: "u32 option"
  sa_end_height :: "u32 option"
  sa_samples :: u64
  sa_rows :: "(u32 \<times> u64) list"

definition hits_within :: "spent_age_histogram \<Rightarrow> u32 \<Rightarrow> u64" where
  "hits_within h blocks = sum_list (map snd (takeWhile (\<lambda>(age, _). age \<le> blocks) (sa_rows h)))"

definition add_sample :: "u64 \<Rightarrow> u32 \<times> u64 \<Rightarrow> utxo_error + u64" where
  "add_sample samples = (\<lambda>(age, count).
     if count = 0 then Err (Malformed ''empty spent-age histogram row'')
     else ok_or (checked_add samples count) (Malformed ''spent-age sample overflow''))"

definition read_spent_age_histogram :: "chain_db \<Rightarrow> chain_store_error + spent_age_histogram" where
  "read_spent_age_histogram db =
     (let start_height = fmlookup (db_spent_age_meta db) spent_age_start_height;
          end_height = fmlookup (db_spent_age_meta db) spent_age_end_height;
          rows = fmap_entries (db_spent_ages db) in
      if (start_height \<noteq> None) \<noteq> (end_height \<noteq> None)
      then Err (Chain_Utxo (Malformed ''incomplete spent-age metadata''))
      else
      bind_res (map_err Chain_Utxo (try_fold add_sample 0 rows)) (\<lambda>samples.
        if start_height = None \<and> rows \<noteq> []
        then Err (Chain_Utxo (Malformed ''spent-age rows exist without coverage metadata''))
        else Ok \<lparr>sa_start_height = start_height, sa_end_height = end_height, sa_samples = samples,
                 sa_rows = rows\<rparr>))"

section \<open>Reads through the journal\<close>

definition load_shard :: "chain_db \<Rightarrow> u32 \<Rightarrow> u8 \<Rightarrow> utxo_error + bytes" where
  "load_shard db height shard =
     ok_or (fmlookup (db_shards db) (validation_delta_shard_key height shard))
       (Malformed ''missing validation delta shard'')"

definition load_delta :: "chain_db \<Rightarrow> u32 \<Rightarrow> utxo_error + bytes" where
  "load_delta db height =
     ok_or (fmlookup (db_deltas db) height) (Malformed ''missing validation delta row'')"

text \<open>The rows of one group, newest first; then the groups, newest first.\<close>

fun search_rows ::
  "chain_db \<Rightarrow> out_point_key \<Rightarrow> validation_journal_row list \<Rightarrow> utxo_error + utxo option option" where
  "search_rows db k [] = Ok None"
| "search_rows db k (row # rows) =
     (if \<not> might_contain (jr_bloom row) k then search_rows db k rows
      else
      bind_res (load_delta db (jr_height row)) (\<lambda>encoded.
      bind_res (record_lookup encoded (load_shard db (jr_height row)) k) (\<lambda>update.
        case update of
          Some u \<Rightarrow> Ok (Some (upd_utxo u))
        | None \<Rightarrow> search_rows db k rows)))"

definition group_rows :: "validation_journal \<Rightarrow> nat \<Rightarrow> validation_journal_row list" where
  "group_rows j group_index =
     (let start = group_index * validation_rows_per_bloom_group;
          stop = min (start + validation_rows_per_bloom_group) (length (jn_rows j)) in
      take (stop - start) (drop start (jn_rows j)))"

fun search_groups ::
  "chain_db \<Rightarrow> validation_journal \<Rightarrow> out_point_key \<Rightarrow> (nat \<times> validation_bloom) list
     \<Rightarrow> utxo_error + utxo option option" where
  "search_groups db j k [] = Ok None"
| "search_groups db j k ((group_index, aggregate) # groups) =
     (if \<not> might_contain aggregate k then search_groups db j k groups
      else
      bind_res (search_rows db k (rev (group_rows j group_index))) (\<lambda>found.
        case found of
          Some v \<Rightarrow> Ok (Some v)
        | None \<Rightarrow> search_groups db j k groups))"

definition chain_get :: "chain_store \<Rightarrow> out_point_key \<Rightarrow> utxo_error + utxo option" where
  "chain_get s k =
     (case cs_journal s of
        None \<Rightarrow> store_get (db_utxos (cs_db s)) k
      | Some j \<Rightarrow>
          bind_res (search_groups (cs_db s) j k (rev (enumerate 0 (jn_groups j)))) (\<lambda>found.
            case found of
              Some v \<Rightarrow> Ok v
            | None \<Rightarrow> store_get (db_utxos (cs_db s)) k))"

definition decode_row_at :: "chain_db \<Rightarrow> u32 \<Rightarrow> utxo_error + (u64 \<times> validation_delta_updates)" where
  "decode_row_at db height =
     bind_res (load_delta db height) (\<lambda>encoded.
       decode_validation_delta_record encoded (load_shard db height))"

definition apply_update :: "out_point_key \<times> validation_update \<Rightarrow> (out_point_key, utxo) fmap \<Rightarrow> (out_point_key, utxo) fmap" where
  "apply_update = (\<lambda>(k, u) entries. case upd_utxo u of Some coin \<Rightarrow> fmupd k coin entries | None \<Rightarrow> fmdrop k entries)"

definition chain_snapshot_entries :: "chain_store \<Rightarrow> utxo_error + (out_point_key, utxo) fmap" where
  "chain_snapshot_entries s =
     bind_res (snapshot_entries (db_utxos (cs_db s))) (\<lambda>entries.
       case cs_journal s of
         None \<Rightarrow> Ok entries
       | Some j \<Rightarrow>
           try_fold (\<lambda>entries row.
             bind_res (decode_row_at (cs_db s) (jr_height row)) (\<lambda>(_, updates).
               Ok (fold apply_update updates entries))) entries (jn_rows j))"

definition chain_tier_stats :: "chain_store \<Rightarrow> tier_stats" where
  "chain_tier_stats s =
     (case cs_journal s of
        None \<Rightarrow> store_tier_stats (db_utxos (cs_db s))
      | Some j \<Rightarrow> \<lparr>stats_hot = unat (jn_utxo_count j), stats_cold = 0\<rparr>)"

text \<open>The single-mutation methods of the trait.\<close>

definition refuse_journal ::
  "string \<Rightarrow> (utxo_tables, utxo_error, 'a) st \<Rightarrow> (chain_store, utxo_error, 'a) st" where
  "refuse_journal message f s =
     (if cs_journal s \<noteq> None then (Inl (Malformed message), s)
      else case f (db_utxos (cs_db s)) of (r, t) \<Rightarrow> (r, s\<lparr>cs_db := (cs_db s)\<lparr>db_utxos := t\<rparr>\<rparr>))"

definition chain_apply_with_undo ::
  "out_point_key list \<Rightarrow> coin_row list \<Rightarrow> (chain_store, utxo_error, utxo_undo) st" where
  "chain_apply_with_undo spent created =
     refuse_journal ''validation journal requires atomic checkpoint commits'' (store_apply_with_undo spent created)"

definition chain_undo :: "utxo_undo \<Rightarrow> u64 \<Rightarrow> u64 \<Rightarrow> (chain_store, utxo_error, unit) st" where
  "chain_undo undo now window =
     refuse_journal ''validation journal cannot disconnect blocks'' (store_undo undo now window)"

definition chain_age_to_cold :: "u64 \<Rightarrow> u64 \<Rightarrow> (chain_store, utxo_error, u64) st" where
  "chain_age_to_cold now window s =
     (if cs_journal s \<noteq> None then (Inr 0, s)
      else case age_to_cold now window (db_utxos (cs_db s)) of (r, t) \<Rightarrow>
             (r, s\<lparr>cs_db := (cs_db s)\<lparr>db_utxos := t\<rparr>\<rparr>))"

definition chain_replace_all :: "(chain_store, utxo_error, unit) st" where
  "chain_replace_all = st_err (Malformed ''unified chainstate requires trusted assumed snapshot activation'')"

definition retier_utxos_by_height_batch ::
  "u32 \<Rightarrow> u32 \<Rightarrow> nat \<Rightarrow> (chain_store, utxo_error, height_retier_progress) st" where
  "retier_utxos_by_height_batch tip hot_window_blocks scan_limit =
     refuse_journal ''height re-tier requires materialized chainstate''
       (retier_by_height_batch tip hot_window_blocks scan_limit)"


section \<open>Connecting and disconnecting\<close>

definition commit_connect ::
  "hash256 \<Rightarrow> execution_tip \<Rightarrow> out_point_key list \<Rightarrow> coin_row list \<Rightarrow> utxo_undo list
     \<Rightarrow> (chain_store, chain_store_error, utxo_undo) st" where
  "commit_connect expected_parent next_tip spent created transaction_undos s =
     (if cs_journal s \<noteq> None
      then (Inl (Chain_Utxo (Malformed ''validation journal requires atomic checkpoint commits'')), s)
      else
      st_bind (st_lift (map_err Chain_Utxo (spent_age_counts [(tip_height next_tip, transaction_undos)])))
        (\<lambda>age_counts.
      commit_tx
        (tx_bind (in_utxos (apply_with_undo_transaction spent created)) (\<lambda>undo.
         tx_bind (if opt_retain_block_undo (cs_options s)
                  then in_undos (undo_insert_transaction (tip_hash next_tip) transaction_undos)
                  else tx_ret ()) (\<lambda>_.
         tx_bind (connect_spent_ages_transaction age_counts (tip_height next_tip) (tip_height next_tip)) (\<lambda>_.
         tx_bind (in_execution (advance_transaction expected_parent next_tip)) (\<lambda>_.
           tx_ret undo)))))) s)"

text \<open>The fold of a batch: coins created and spent inside it disappear.\<close>

type_synonym batch_fold = "out_point_key fset \<times> (out_point_key, utxo) fmap"

definition fold_spent :: "batch_fold \<Rightarrow> out_point_key \<Rightarrow> utxo_error + batch_fold" where
  "fold_spent = (\<lambda>(spent, created) k.
     if k |\<in>| fmdom created then Ok (spent, fmdrop k created)
     else if k |\<in>| spent then Err (DuplicateSpend k)
     else Ok (finsert k spent, created))"

definition fold_created :: "batch_fold \<Rightarrow> coin_row \<Rightarrow> utxo_error + batch_fold" where
  "fold_created = (\<lambda>(spent, created) (k, u).
     if k |\<in>| fmdom created then Err (Duplicate k) else Ok (spent, fmupd k u created))"

definition fold_transition :: "batch_fold \<Rightarrow> connect_transition \<Rightarrow> utxo_error + batch_fold" where
  "fold_transition acc t =
     bind_res (try_fold fold_spent acc (ct_spent t)) (\<lambda>acc. try_fold fold_created acc (ct_created t))"

definition batch_age_counts :: "connect_transition list \<Rightarrow> utxo_error + (u32, u64) fmap" where
  "batch_age_counts transitions =
     spent_age_counts (map (\<lambda>t. (tip_height (ct_next t), ct_transaction_undos t)) transitions)"

definition insert_batch_undos :: "chain_store_options \<Rightarrow> connect_transition list \<Rightarrow> unit tx" where
  "insert_batch_undos options transitions =
     (if opt_retain_block_undo options
      then tx_each (\<lambda>t. in_undos (undo_insert_transaction (tip_hash (ct_next t)) (ct_transaction_undos t)))
             transitions
      else tx_ret ())"

definition advance_batch :: "connect_transition list \<Rightarrow> unit tx" where
  "advance_batch = tx_each (\<lambda>t. in_execution (advance_transaction (ct_expected_parent t) (ct_next t)))"

text \<open>The journal write of a batch, inside its transaction.\<close>

definition write_delta_rows ::
  "u32 \<Rightarrow> bytes \<Rightarrow> (u8 \<times> bytes) list \<Rightarrow> bytes \<Rightarrow> u32 \<Rightarrow> bytes \<Rightarrow> unit tx" where
  "write_delta_rows final_height encoded encoded_shards encoded_bloom group_index encoded_group = (\<lambda>db.
     if fmlookup (db_deltas db) final_height \<noteq> None
     then Err (Chain_Utxo (Malformed ''duplicate validation delta checkpoint''))
     else Ok ((), db\<lparr>
       db_deltas := fmupd final_height encoded (db_deltas db),
       db_shards := fold (\<lambda>(shard, bs). fmupd (validation_delta_shard_key final_height shard) bs)
                      encoded_shards (db_shards db),
       db_row_blooms := fmupd final_height encoded_bloom (db_row_blooms db),
       db_group_blooms := fmupd group_index encoded_group (db_group_blooms db)\<rparr>))"

text \<open>\<open>None\<close> is a panic of an \<open>expect\<close>; \<open>sha256\<close> is the digest of the filters.\<close>

definition commit_validation_batch ::
  "(bytes \<Rightarrow> bytes) \<Rightarrow> validation_journal \<Rightarrow> connect_transition list \<Rightarrow> out_point_key list \<Rightarrow> coin_row list
     \<Rightarrow> (chain_store, chain_store_error, unit) pst" where
  "commit_validation_batch sha256 journal transitions spent created s =
     (let created_count = word_of_nat (length created) :: u64;
          spent_count = word_of_nat (length spent) :: u64;
          updates = fold_validation_updates spent created;
          final_height = tip_height (ct_next (last transitions));
          first_height = tip_height (ct_next (hd transitions)) in
      pst_bind (pst_lift (map_err Chain_Utxo (batch_age_counts transitions))) (\<lambda>age_counts.
      pst_bind (pst_lift (map_err Chain_Utxo (ok_or
          (Option.bind (checked_sub (jn_utxo_count journal) spent_count) (\<lambda>c. checked_add c created_count))
          (Malformed ''validation UTXO count overflow'')))) (\<lambda>next_utxo_count.
      pst_bind (pst_lift (map_err Chain_Utxo (encode_sharded_validation_delta updates next_utxo_count)))
        (\<lambda>(encoded, encoded_shards).
      pst_bind (pst_lift (map_err Chain_Utxo (with_update_count (length updates)))) (\<lambda>bloom.
      let starts_group = (length (jn_rows journal) mod validation_rows_per_bloom_group = 0) in
      pst_bind (if starts_group
                then pst_lift (map_err Chain_Utxo (with_update_count validation_group_bloom_updates))
                else pst_expect (if jn_groups journal = [] then None else Some (last (jn_groups journal))))
        (\<lambda>aggregate.
      let bloom = fold bloom_insert (map fst updates) bloom;
          updated_group = fold bloom_insert (map fst updates) aggregate in
      pst_bind (pst_expect (encode_validation_bloom sha256 bloom next_utxo_count)) (\<lambda>encoded_bloom.
      pst_bind (pst_expect (encode_validation_bloom sha256 updated_group 0)) (\<lambda>encoded_group.
      pst_bind (pst_lift (map_err Chain_Utxo (ok_or
          (u32_try_from (length (jn_rows journal) div validation_rows_per_bloom_group))
          (Malformed ''validation bloom group index overflow'')))) (\<lambda>group_index.
      pst_bind (pst_of id (commit_tx
        (tx_bind (write_delta_rows final_height encoded encoded_shards encoded_bloom group_index encoded_group) (\<lambda>_.
         tx_bind (insert_batch_undos (cs_options s) transitions) (\<lambda>_.
         tx_bind (advance_batch transitions) (\<lambda>_.
         connect_spent_ages_transaction age_counts first_height final_height)))))) (\<lambda>_ s'.
      Some (Inr (), s'\<lparr>cs_journal := Some (journal\<lparr>
        jn_groups := (if starts_group then jn_groups journal @ [updated_group]
                      else butlast (jn_groups journal) @ [updated_group]),
        jn_rows := jn_rows journal @ [\<lparr>jr_height = final_height, jr_bloom = bloom\<rparr>],
        jn_utxo_count := next_utxo_count\<rparr>)\<rparr>)))))))))) s)"

definition commit_connect_batch ::
  "(bytes \<Rightarrow> bytes) \<Rightarrow> connect_transition list \<Rightarrow> (chain_store, chain_store_error, unit) pst" where
  "commit_connect_batch sha256 transitions s =
     (if transitions = [] then Some (Inr (), s)
      else
      pst_bind (pst_lift (map_err Chain_Utxo (try_fold fold_transition ({||}, fmempty) transitions)))
        (\<lambda>(spent, created).
      let spent = sorted_list_of_fset spent; created = fmap_entries created in
      case cs_journal s of
        Some journal \<Rightarrow> commit_validation_batch sha256 journal transitions spent created
      | None \<Rightarrow>
          pst_bind (pst_lift (map_err Chain_Utxo (batch_age_counts transitions))) (\<lambda>age_counts.
          pst_of id (commit_tx
            (tx_bind (in_utxos (\<lambda>t. bind_res (apply_validated_changes_transaction spent created t)
                                     (\<lambda>t'. Ok ((), t')))) (\<lambda>_.
             tx_bind (insert_batch_undos (cs_options s) transitions) (\<lambda>_.
             tx_bind (advance_batch transitions) (\<lambda>_.
             connect_spent_ages_transaction age_counts (tip_height (ct_next (hd transitions)))
               (tip_height (ct_next (last transitions)))))))))) s)"

section \<open>Materializing and disconnecting\<close>

definition merge_update ::
  "out_point_key \<times> validation_update \<Rightarrow> (out_point_key, validation_update) fmap
     \<Rightarrow> (out_point_key, validation_update) fmap" where
  "merge_update = (\<lambda>(k, u) updates.
     case fmlookup updates k of
       Some current \<Rightarrow> fmupd k (current\<lparr>upd_utxo := upd_utxo u\<rparr>) updates
     | None \<Rightarrow> fmupd k u updates)"

definition merged_updates ::
  "chain_db \<Rightarrow> validation_journal_row list \<Rightarrow> utxo_error + (out_point_key, validation_update) fmap" where
  "merged_updates db rows =
     try_fold (\<lambda>updates row.
       bind_res (decode_row_at db (jr_height row)) (\<lambda>(_, decoded). Ok (fold merge_update decoded updates)))
       fmempty rows"

definition update_spent :: "(out_point_key, validation_update) fmap \<Rightarrow> out_point_key list" where
  "update_spent updates = map fst (filter (\<lambda>(_, u). spent_in_batch u) (fmap_entries updates))"

definition update_created :: "(out_point_key, validation_update) fmap \<Rightarrow> coin_row list" where
  "update_created updates =
     map (\<lambda>(k, u). (k, the (upd_utxo u))) (filter (\<lambda>(_, u). upd_utxo u \<noteq> None) (fmap_entries updates))"

definition clear_journal_tables :: "unit tx" where
  "clear_journal_tables = (\<lambda>db. Ok ((), db\<lparr>db_deltas := fmempty, db_shards := fmempty,
     db_row_blooms := fmempty, db_group_blooms := fmempty\<rparr>))"

definition materialize_validation_deltas :: "(chain_store, chain_store_error, u64) st" where
  "materialize_validation_deltas s =
     (case cs_journal s of
        None \<Rightarrow> (Inr 0, s)
      | Some journal \<Rightarrow>
          if jn_rows journal = [] then (Inr 0, s)
          else
          st_bind (st_lift (map_err Chain_Utxo (merged_updates (cs_db s) (jn_rows journal)))) (\<lambda>updates.
          st_bind (commit_tx
            (tx_bind (in_utxos (\<lambda>t. bind_res (apply_validated_changes_transaction
                (update_spent updates) (update_created updates) t) (\<lambda>t'. Ok ((), t')))) (\<lambda>_.
             clear_journal_tables))) (\<lambda>_ s'.
            (Inr (word_of_nat (fcard (fmdom updates))),
             s'\<lparr>cs_journal := Some (journal\<lparr>jn_rows := [], jn_groups := []\<rparr>)\<rparr>))) s)"

definition remove_tip_undo :: "hash256 \<Rightarrow> unit tx" where
  "remove_tip_undo hash =
     tx_bind (in_undos (undo_remove_transaction hash)) (\<lambda>removed.
       if removed then tx_ret ()
       else tx_lift (Err (Chain_Undo (Undo_Malformed ''missing atomic disconnect undo''))))"

definition commit_disconnect ::
  "execution_tip \<Rightarrow> execution_tip \<Rightarrow> out_point_key list \<Rightarrow> coin_row list \<Rightarrow> utxo_undo list
     \<Rightarrow> (chain_store, chain_store_error, utxo_undo) st" where
  "commit_disconnect expected_current parent spent created transaction_undos s =
     st_bind (if (case cs_journal s of Some j \<Rightarrow> jn_rows j \<noteq> [] | None \<Rightarrow> False)
              then st_bind materialize_validation_deltas (\<lambda>_. st_ret ()) else st_ret ()) (\<lambda>_.
     st_bind (st_lift (map_err Chain_Utxo
         (spent_age_counts [(tip_height expected_current, transaction_undos)]))) (\<lambda>age_counts.
     commit_tx
       (tx_bind (in_utxos (apply_with_undo_transaction spent created)) (\<lambda>undo.
        tx_bind (disconnect_spent_ages_transaction age_counts (tip_height expected_current)
                   (tip_height parent)) (\<lambda>_.
        tx_bind (in_execution (rewind_transaction expected_current parent)) (\<lambda>_.
        tx_bind (remove_tip_undo (tip_hash expected_current)) (\<lambda>_.
          tx_ret undo))))))) s"


section \<open>Undo pruning\<close>

definition undo_with_height :: "header_dag \<Rightarrow> hash256 \<Rightarrow> chain_store_error + (u32 \<times> hash256)" where
  "undo_with_height headers hash =
     (case dag_get headers hash of
        Some info \<Rightarrow> Ok (hi_height info, hash)
      | None \<Rightarrow> Err (Chain_Undo (Undo_Malformed ''block undo references an unknown header'')))"

fun remove_undos :: "u64 \<Rightarrow> hash256 list \<Rightarrow> u64 tx" where
  "remove_undos removed [] = tx_ret removed"
| "remove_undos removed (hash # hashes) =
     tx_bind (in_undos (undo_remove_transaction hash)) (\<lambda>existed.
       remove_undos (removed + (if existed then 1 else 0)) hashes)"

definition prune_block_undos_before ::
  "header_dag \<Rightarrow> u32 \<Rightarrow> (chain_store, chain_store_error, u64) st" where
  "prune_block_undos_before headers retain_from_height s =
     (if \<not> opt_retain_block_undo (cs_options s) then (Inr 0, s)
      else
      st_bind (st_lift (map_err Chain_Undo (undo_hashes (db_undos (cs_db s))))) (\<lambda>hashes.
      st_bind (st_lift (collect_res (undo_with_height headers) hashes)) (\<lambda>known.
      let expired = sort_key (\<lambda>(height, hash). (height, hash_to_bytes hash))
            (filter (\<lambda>(height, _). height < retain_from_height) known) in
      if expired = [] then st_ret 0 else commit_tx (remove_undos 0 (map snd expired)))) s)"


section \<open>Legacy journal rows\<close>

record shard_migration =
  sm_height :: u32
  sm_legacy_bytes :: u64
  sm_shard_count :: nat

text \<open>\<open>max_by_key\<close> over \<open>(hits, height)\<close>.\<close>

definition hotter :: "u32 \<times> u64 \<Rightarrow> u32 \<times> u64 \<Rightarrow> u32 \<times> u64" where
  "hotter = (\<lambda>(h', n') (h, n). if (n, h) \<le> (n', h') then (h', n') else (h, n))"

definition take_hottest_legacy_validation_delta :: "chain_store \<Rightarrow> u32 option \<times> chain_store" where
  "take_hottest_legacy_validation_delta s =
     (case cs_journal s of
        None \<Rightarrow> (None, s)
      | Some j \<Rightarrow>
          (case fmap_entries (jn_legacy_hits j) of
             [] \<Rightarrow> (None, s)
           | e # es \<Rightarrow>
               let height = fst (fold hotter es e) in
               (Some height,
                s\<lparr>cs_journal := Some (j\<lparr>jn_legacy_hits := fmdrop height (jn_legacy_hits j)\<rparr>)\<rparr>)))"

definition shard_legacy_row :: "u32 \<Rightarrow> shard_migration option tx" where
  "shard_legacy_row height =
     (\<lambda>db. bind_res (map_err Chain_Utxo (load_delta db height)) (\<lambda>encoded.
       if \<not> starts_with encoded validation_delta_magic then Ok (None, db)
       else
       bind_res (map_err Chain_Utxo (decode_validation_delta encoded)) (\<lambda>(utxo_count, updates).
       bind_res (map_err Chain_Utxo (encode_sharded_validation_delta updates utxo_count)) (\<lambda>(manifest, shards).
         Ok (Some \<lparr>sm_height = height, sm_legacy_bytes = word_of_nat (length encoded),
                   sm_shard_count = length shards\<rparr>,
             db\<lparr>db_deltas := fmupd height manifest (db_deltas db),
                db_shards := fold (\<lambda>(shard, bs). fmupd (validation_delta_shard_key height shard) bs)
                               shards (db_shards db)\<rparr>)))))"

definition shard_legacy_validation_delta ::
  "u32 \<Rightarrow> (chain_store, chain_store_error, shard_migration option) st" where
  "shard_legacy_validation_delta height s =
     (if cs_journal s = None then (Inr None, s) else commit_tx (shard_legacy_row height) s)"


section \<open>Assumed snapshots\<close>

definition assume_snapshot_entries ::
  "(bytes \<Rightarrow> bytes) \<Rightarrow> execution_tip \<Rightarrow> snapshot_content_identity \<Rightarrow> (utxo_error + coin_row) list
     \<Rightarrow> u64 \<Rightarrow> u64 \<Rightarrow> (chain_store, chain_store_error, unit) st" where
  "assume_snapshot_entries sha256 anchor content entries now hot_window_secs =
     commit_tx (\<lambda>db.
       if \<not> tables_empty_transaction (db_utxos db) \<or> \<not> undo_tables_empty_transaction (db_undos db)
       then Err SnapshotNotFresh
       else
       tx_bind (in_utxos (insert_snapshot_entries_transaction sha256 entries (sc_utxo_count content)
                  (sc_records_bytes content) now hot_window_secs))
         (\<lambda>(actual_count, actual_records_bytes, actual_digest, utxo_set_sha256).
       if actual_count \<noteq> sc_utxo_count content
       then tx_lift (Err (SnapshotCountMismatch (sc_utxo_count content) actual_count))
       else if actual_records_bytes \<noteq> sc_records_bytes content
       then tx_lift (Err (SnapshotSizeMismatch (sc_records_bytes content) actual_records_bytes))
       else if actual_digest \<noteq> sc_records_sha256 content then tx_lift (Err SnapshotDigestMismatch)
       else in_execution (assume_snapshot_transaction
              \<lparr>as_base = anchor, as_utxo_count = sc_utxo_count content,
               as_records_bytes = sc_records_bytes content,
               as_records_sha256 = sc_records_sha256 content,
               as_utxo_set_sha256 = utxo_set_sha256\<rparr>)) db)"

definition snapshot_record_bytes :: "u64 \<Rightarrow> coin_row \<Rightarrow> utxo_error + u64" where
  "snapshot_record_bytes total' row =
     bind_res (utxo_encode (snd row)) (\<lambda>encoded.
       ok_or (checked_add total' (word_of_nat (36 + length encoded)))
         (Malformed ''snapshot records length overflow''))"

definition assume_snapshot ::
  "(bytes \<Rightarrow> bytes) \<Rightarrow> execution_tip \<Rightarrow> bytes \<Rightarrow> (out_point_key, utxo) fmap \<Rightarrow> u64 \<Rightarrow> u64
     \<Rightarrow> (chain_store, chain_store_error, unit) st" where
  "assume_snapshot sha256 anchor records_sha256 entries now hot_window_secs =
     st_bind (st_lift (map_err Chain_Utxo (try_fold snapshot_record_bytes 0 (fmap_entries entries))))
       (\<lambda>records_bytes.
         assume_snapshot_entries sha256 anchor
           \<lparr>sc_records_sha256 = records_sha256, sc_utxo_count = word_of_nat (fcard (fmdom entries)),
            sc_records_bytes = records_bytes\<rparr>
           (map Ok (fmap_entries entries)) now hot_window_secs)"

section \<open>Opening\<close>

text \<open>The state of the loop that rebuilds the journal from its tables.\<close>

record journal_load =
  jl_journal :: validation_journal
  jl_migrated_rows :: "(u32 \<times> bytes) list"
  jl_migrated_groups :: "(u32 \<times> bytes) list"
  jl_previous_height :: "u32 option"

definition group_index_of :: "nat \<Rightarrow> utxo_error + u32" where
  "group_index_of n = ok_or (u32_try_from n) (Malformed ''validation bloom group index overflow'')"

text \<open>The filter a new group starts with: the stored one, or an empty one.\<close>

definition open_group :: "(bytes \<Rightarrow> bytes) \<Rightarrow> chain_db \<Rightarrow> nat \<Rightarrow> utxo_error + validation_bloom" where
  "open_group sha256 db groups =
     bind_res (group_index_of groups) (\<lambda>group_index.
       case fmlookup (db_group_blooms db) group_index of
         Some encoded \<Rightarrow>
           bind_res (validation_bloom_byte_count validation_group_bloom_updates) (\<lambda>expected.
           bind_res (decode_validation_bloom sha256 encoded expected) (\<lambda>(utxo_count, bloom).
             if utxo_count \<noteq> 0 then Err (Malformed ''validation group bloom carries a UTXO count'')
             else Ok bloom))
       | None \<Rightarrow> with_update_count validation_group_bloom_updates)"

definition header_counts :: "validation_delta_record_header \<Rightarrow> u64 \<times> nat" where
  "header_counts h = (case h of Legacy utxo_count update_count \<Rightarrow> (utxo_count, update_count)
     | Sharded sh \<Rightarrow> (sh_utxo_count sh, sh_update_count sh))"

text \<open>
  The filter of a row and of its group: a stored row filter is checked against the
  row while the group is not stored yet; a missing one is rebuilt and migrated.
  \<open>None\<close> is the panic of an oversized filter.
\<close>

definition open_row_bloom ::
  "(bytes \<Rightarrow> bytes) \<Rightarrow> chain_db \<Rightarrow> u32 \<Rightarrow> bytes \<Rightarrow> u64 \<Rightarrow> nat \<Rightarrow> bool \<Rightarrow> validation_bloom
     \<Rightarrow> (utxo_error + (validation_bloom \<times> validation_bloom \<times> (u32 \<times> bytes) list)) option" where
  "open_row_bloom sha256 db height encoded utxo_count expected_bloom_bytes persisted aggregate =
     (case fmlookup (db_row_blooms db) height of
        Some encoded_bloom \<Rightarrow> Some
          (bind_res (decode_validation_bloom sha256 encoded_bloom expected_bloom_bytes)
            (\<lambda>(bloom_utxo_count, bloom).
           if bloom_utxo_count \<noteq> utxo_count
           then Err (Malformed ''validation delta bloom UTXO count mismatch'')
           else if persisted then Ok (bloom, aggregate, [])
           else
           bind_res (inspect_validation_delta_record encoded (load_shard db height) (Some aggregate))
             (\<lambda>(_, _, inspected, aggregate').
           if bloom_bits inspected \<noteq> bloom_bits bloom
           then Err (Malformed ''validation delta bloom content mismatch'')
           else Ok (bloom, the aggregate', []))))
      | None \<Rightarrow>
          bind_call (Some (inspect_validation_delta_record encoded (load_shard db height)
              (if persisted then None else Some aggregate))) (\<lambda>(_, _, bloom, aggregate').
          bind_call (expect (encode_validation_bloom sha256 bloom utxo_count)) (\<lambda>encoded_bloom.
            Some (Ok (bloom, if persisted then aggregate else the aggregate', [(height, encoded_bloom)])))))"

definition load_journal_row ::
  "(bytes \<Rightarrow> bytes) \<Rightarrow> chain_db \<Rightarrow> journal_load \<Rightarrow> u32 \<times> bytes \<Rightarrow> (utxo_error + journal_load) option" where
  "load_journal_row sha256 db l = (\<lambda>(height, encoded).
     let j = jl_journal l in
     if (case jl_previous_height l of Some previous \<Rightarrow> height \<le> previous | None \<Rightarrow> False)
     then Some (Err (Malformed ''validation delta heights are not ordered''))
     else
     bind_call (Some (if length (jn_rows j) mod validation_rows_per_bloom_group = 0
         then bind_res (open_group sha256 db (length (jn_groups j))) (\<lambda>bloom. Ok (jn_groups j @ [bloom]))
         else Ok (jn_groups j))) (\<lambda>groups.
     bind_call (Some (group_index_of (length groups - 1))) (\<lambda>group_index.
     let persisted = (fmlookup (db_group_blooms db) group_index \<noteq> None) in
     bind_call (expect (if groups = [] then None else Some (last groups))) (\<lambda>aggregate.
     bind_call (Some (read_record_header encoded)) (\<lambda>header.
     let (utxo_count, update_count) = header_counts header in
     bind_call (Some (validation_bloom_byte_count update_count)) (\<lambda>expected_bloom_bytes.
     bind_call (open_row_bloom sha256 db height encoded utxo_count expected_bloom_bytes persisted aggregate)
       (\<lambda>(bloom, aggregate', migrated).
     bind_call (if (length (jn_rows j) + 1) mod validation_rows_per_bloom_group = 0 \<and> \<not> persisted
                then bind_call (expect (encode_validation_bloom sha256 aggregate' 0))
                       (\<lambda>bs. Some (Ok [(group_index, bs)]))
                else Some (Ok [])) (\<lambda>completed.
       Some (Ok (l\<lparr>
         jl_journal := j\<lparr>jn_groups := butlast groups @ [aggregate'],
           jn_rows := jn_rows j @ [\<lparr>jr_height = height, jr_bloom = bloom\<rparr>],
           jn_utxo_count := utxo_count\<rparr>,
         jl_migrated_rows := jl_migrated_rows l @ migrated,
         jl_migrated_groups := jl_migrated_groups l @ completed,
         jl_previous_height := Some height\<rparr>))))))))))"

fun load_journal_rows ::
  "(bytes \<Rightarrow> bytes) \<Rightarrow> chain_db \<Rightarrow> journal_load \<Rightarrow> (u32 \<times> bytes) list \<Rightarrow> (utxo_error + journal_load) option" where
  "load_journal_rows sha256 db l [] = Some (Ok l)"
| "load_journal_rows sha256 db l (r # rs) =
     bind_call (load_journal_row sha256 db l r) (\<lambda>l'. load_journal_rows sha256 db l' rs)"

definition close_last_group ::
  "(bytes \<Rightarrow> bytes) \<Rightarrow> chain_db \<Rightarrow> journal_load \<Rightarrow> (utxo_error + journal_load) option" where
  "close_last_group sha256 db l =
     (let j = jl_journal l in
      if jn_rows j \<noteq> [] \<and> length (jn_rows j) mod validation_rows_per_bloom_group \<noteq> 0
      then
        bind_call (Some (group_index_of (length (jn_groups j) - 1))) (\<lambda>group_index.
        if fmlookup (db_group_blooms db) group_index \<noteq> None then Some (Ok l)
        else
        bind_call (expect (if jn_groups j = [] then None else Some (last (jn_groups j)))) (\<lambda>aggregate.
        bind_call (expect (encode_validation_bloom sha256 aggregate 0)) (\<lambda>bs.
          Some (Ok (l\<lparr>jl_migrated_groups := jl_migrated_groups l @ [(group_index, bs)]\<rparr>)))))
      else Some (Ok l))"

definition load_journal ::
  "(bytes \<Rightarrow> bytes) \<Rightarrow> chain_db \<Rightarrow> (chain_store_error + journal_load) option" where
  "load_journal sha256 db =
     (let stats = store_tier_stats (db_utxos db) in
      bind_call (Some (map_err Chain_Utxo (ok_or (checked_add (word_of_nat (stats_hot stats)) (word_of_nat (stats_cold stats)))
          (Malformed ''validation UTXO count overflow'')))) (\<lambda>utxo_count.
      bind_call (map_option (map_err Chain_Utxo) (load_journal_rows sha256 db
          \<lparr>jl_journal = \<lparr>jn_rows = [], jn_groups = [], jn_legacy_hits = fmempty, jn_utxo_count = utxo_count\<rparr>,
           jl_migrated_rows = [], jl_migrated_groups = [], jl_previous_height = None\<rparr>
          (fmap_entries (db_deltas db)))) (\<lambda>l.
      bind_call (map_option (map_err Chain_Utxo) (close_last_group sha256 db l)) (\<lambda>l.
        case jl_previous_height l of
          None \<Rightarrow> Some (Ok l)
        | Some last_delta_height \<Rightarrow>
            bind_call (Some (map_err Chain_Execution (read_tip (db_meta db)))) (\<lambda>tip.
              if last_delta_height \<noteq> tip_height tip
              then Some (Err (Chain_Utxo (Malformed ''validation delta tip does not match execution tip'')))
              else Some (Ok l))))))"

definition chain_from_database ::
  "(bytes \<Rightarrow> bytes) \<Rightarrow> hash256 \<Rightarrow> chain_store_options
     \<Rightarrow> (chain_db, chain_store_error, chain_store) pst" where
  "chain_from_database sha256 genesis options db =
     (if \<not> metadata_exists (db_meta db) \<and> \<not> tables_empty_transaction (db_utxos db)
      then Some (Inl LegacyLayout, db)
      else
      pst_bind (\<lambda>db. Some (case exec_from_database genesis (db_meta db) of
           (r, meta) \<Rightarrow> (map_err Chain_Execution r, db\<lparr>db_meta := meta\<rparr>))) (\<lambda>_ db.
      if opt_validation_delta_journal options \<or> fmdom (db_deltas db) \<noteq> {||} \<or> fmdom (db_shards db) \<noteq> {||}
      then
        pst_bind (pst_call (load_journal sha256 db)) (\<lambda>l db.
        let db' = db\<lparr>
          db_row_blooms := fold (\<lambda>(h, bs). fmupd h bs) (jl_migrated_rows l) (db_row_blooms db),
          db_group_blooms := fold (\<lambda>(i, bs). fmupd i bs) (jl_migrated_groups l) (db_group_blooms db)\<rparr> in
        Some (Inr \<lparr>cs_db = db', cs_options = options, cs_journal = Some (jl_journal l)\<rparr>, db')) db
      else Some (Inr \<lparr>cs_db = db, cs_options = options, cs_journal = None\<rparr>, db)) db)"

text \<open>Opening a readable file: undo is dropped first when it is not retained.\<close>

definition open_with_options ::
  "(bytes \<Rightarrow> bytes) \<Rightarrow> hash256 \<Rightarrow> chain_store_options
     \<Rightarrow> (chain_db, chain_store_error, chain_store) pst" where
  "open_with_options sha256 genesis options =
     pst_bind (\<lambda>db. Some
       (if opt_retain_block_undo options then (Inr (), db)
        else case clear_block_undos_database (db_undos db) of
               (r, t) \<Rightarrow> (bind_res (map_err Chain_Undo r) (\<lambda>_. Ok ()), db\<lparr>db_undos := t\<rparr>)))
       (\<lambda>_. chain_from_database sha256 genesis options)"

end
