(* ===== verification/Chain_Store_Ages.thy ===== *)
theory Chain_Store_Ages
  imports Chain_Store Execution_Invariant Validation_Delta_Properties
begin

text \<open>
  The spent-age histogram of \<open>chain_store.rs\<close>, the transactions of one block and
  the round trip of connecting a block and disconnecting it.
\<close>

section \<open>The histogram is reversible\<close>

lemma add_age_eq:
  "add_age ages (age, c) = bind_res (ok_or (checked_add (case fmlookup ages age of Some x \<Rightarrow> x | None \<Rightarrow> 0) c)
       (Malformed ''spent-age histogram overflow'')) (\<lambda>updated. Ok (fmupd age updated ages))"
  by (simp add: add_age_def)

lemma subtract_age_eq:
  "fmlookup ages age = Some n \<Longrightarrow> c \<le> n \<Longrightarrow>
     subtract_age ages (age, c) = Ok (if n - c = 0 then fmdrop age ages else fmupd age (n - c) ages)"
  by (simp add: subtract_age_def checked_sub_def)

lemma add_ages_lookup:
  assumes "try_fold add_age ages es = Inr ages'" "distinct (map fst es)"
  shows "\<forall>a. case map_of es a of
      None \<Rightarrow> fmlookup ages' a = fmlookup ages a
    | Some c \<Rightarrow> \<exists>n. fmlookup ages' a = Some n
        \<and> unat n = unat (case fmlookup ages a of Some x \<Rightarrow> x | None \<Rightarrow> 0) + unat c"
  using assms
proof (induction es arbitrary: ages)
  case (Cons e es)
  obtain b c where e: "e = (b, c)" by fastforce
  from Cons.prems(1) obtain n where n: "unat n = unat (case fmlookup ages b of Some x \<Rightarrow> x | None \<Rightarrow> 0) + unat c"
    and rest: "try_fold add_age (fmupd b n ages) es = Inr ages'"
    by (auto simp: e add_age_eq res_simps checked_add_eq_iff)
  have "map_of es b = None" using Cons.prems(2) e by (simp add: map_of_eq_None_iff)
  have d: "distinct (map fst es)" using Cons.prems(2) by simp
  show ?case
  proof
    fix a
    show "case map_of (e # es) a of
        None \<Rightarrow> fmlookup ages' a = fmlookup ages a
      | Some c \<Rightarrow> \<exists>n. fmlookup ages' a = Some n
          \<and> unat n = unat (case fmlookup ages a of Some x \<Rightarrow> x | None \<Rightarrow> 0) + unat c"
      using Cons.IH [OF rest d, rule_format, of a] n \<open>map_of es b = None\<close>
      by (cases "a = b"; cases "map_of es a") (simp_all add: e)
  qed
qed simp

lemma subtract_ages_lookup:
  assumes "distinct (map fst es)" "\<forall>(a, c) \<in> set es. \<exists>n. fmlookup ages a = Some n \<and> c \<le> n"
  shows "\<exists>ages'. try_fold subtract_age ages es = Inr ages' \<and> (\<forall>a. fmlookup ages' a = (case map_of es a of
      None \<Rightarrow> fmlookup ages a
    | Some c \<Rightarrow> let n = the (fmlookup ages a) - c in if n = 0 then None else Some n))"
  using assms
proof (induction es arbitrary: ages)
  case (Cons e es)
  obtain b c where e: "e = (b, c)" by fastforce
  with Cons.prems(2) obtain n where n: "fmlookup ages b = Some n" "c \<le> n" by auto
  let ?m = "if n - c = 0 then fmdrop b ages else fmupd b (n - c) ages"
  have b: "map_of es b = None" using Cons.prems(1) e by (simp add: map_of_eq_None_iff)
  have "\<forall>(a, c) \<in> set es. \<exists>n. fmlookup ?m a = Some n \<and> c \<le> n"
  proof (rule ballI, clarify)
    fix a d assume a: "(a, d) \<in> set es"
    then have "a \<noteq> b" using Cons.prems(1) e by force
    moreover from Cons.prems(2) a obtain m where "fmlookup ages a = Some m" "d \<le> m" by auto
    ultimately show "\<exists>na. fmlookup ?m a = Some na \<and> d \<le> na" by simp
  qed
  from Cons.IH [OF _ this] Cons.prems(1) obtain ages' where
    r: "try_fold subtract_age ?m es = Inr ages'" and l: "\<And>a. fmlookup ages' a = (case map_of es a of
      None \<Rightarrow> fmlookup ?m a | Some c \<Rightarrow> let n = the (fmlookup ?m a) - c in if n = 0 then None else Some n)"
    by (auto simp: e)
  have "fmlookup ages' a = (case map_of (e # es) a of None \<Rightarrow> fmlookup ages a
      | Some c \<Rightarrow> let n = the (fmlookup ages a) - c in if n = 0 then None else Some n)" for a
    using l [of a] n b by (cases "a = b"; cases "map_of es a") (simp_all add: e)
  moreover have "try_fold subtract_age ages (e # es) = Inr ages'"
    using r subtract_age_eq [OF n] by (simp add: e)
  ultimately show ?case by blast
qed simp

lemma add_then_subtract:
  assumes add: "try_fold add_age ages (fmap_entries counts) = Inr ages'"
    and zero: "\<forall>a. fmlookup ages a \<noteq> Some 0" "\<forall>a. fmlookup counts a \<noteq> Some 0"
  shows "try_fold subtract_age ages' (fmap_entries counts) = Inr ages"
proof -
  note A = add_ages_lookup [OF add distinct_fmap_entries, unfolded map_of_fmap_entries]
  have "\<forall>(a, c) \<in> set (fmap_entries counts). \<exists>n. fmlookup ages' a = Some n \<and> c \<le> n"
  proof (rule ballI, clarify)
    fix a c assume "(a, c) \<in> set (fmap_entries counts)"
    then show "\<exists>n. fmlookup ages' a = Some n \<and> c \<le> n"
      using A [rule_format, of a] by (auto simp: set_fmap_entries word_le_nat_alt)
  qed
  from subtract_ages_lookup [OF distinct_fmap_entries this, unfolded map_of_fmap_entries] obtain ages'' where
    s: "try_fold subtract_age ages' (fmap_entries counts) = Inr ages''"
    and l: "\<forall>a. fmlookup ages'' a = (case fmlookup counts a of None \<Rightarrow> fmlookup ages' a
      | Some c \<Rightarrow> let n = the (fmlookup ages' a) - c in if n = 0 then None else Some n)" by blast
  have "fmlookup ages'' a = fmlookup ages a" for a
  proof (cases "fmlookup counts a")
    case None
    then show ?thesis using A [rule_format, of a] l [rule_format, of a] by simp
  next
    case (Some c)
    let ?old = "case fmlookup ages a of Some x \<Rightarrow> x | None \<Rightarrow> 0"
    from A [rule_format, of a] Some obtain n where n: "fmlookup ages' a = Some n" "unat n = unat ?old + unat c"
      by auto
    then have "c \<le> n" by (simp add: word_le_nat_alt)
    then have "unat (n - c) = unat ?old" using n(2) by (simp add: unat_sub)
    then have "n - c = ?old" by (simp add: word_unat_eq_iff)
    then show ?thesis using l [rule_format, of a] Some n(1) zero(1)
      by (auto simp: Let_def split: option.splits)
  qed
  then have "ages'' = ages" by (intro fmap_ext) auto
  with s show ?thesis by simp
qed

lemma count_age_Inr: "count_age h counts r = Inr c' \<Longrightarrow> \<exists>age n. n \<noteq> 0 \<and> c' = fmupd age n counts"
  by (auto simp: count_age_def res_simps checked_add_eq_iff) (metis nat.distinct(1) unat_0)

lemma count_age_positive:
  assumes "try_fold (count_age h) counts rows = Inr counts'" "\<forall>a. fmlookup counts a \<noteq> Some 0"
  shows "\<forall>a. fmlookup counts' a \<noteq> Some 0"
  using assms
proof (induction rows arbitrary: counts)
  case (Cons r rows)
  from Cons.prems(1) obtain age n where n: "n \<noteq> 0" "try_fold (count_age h) (fmupd age n counts) rows = Inr counts'"
    by (auto simp: res_simps dest!: count_age_Inr)
  show ?case by (rule Cons.IH [OF n(2)]) (use Cons.prems(2) n(1) in auto)
qed simp

lemma spent_age_counts_positive:
  "spent_age_counts blocks = Inr counts \<Longrightarrow> \<forall>a. fmlookup counts a \<noteq> Some 0"
proof -
  have "\<forall>a. fmlookup c' a \<noteq> Some 0" if
    "try_fold (\<lambda>counts (h, undos). try_fold (count_age h) counts (concat (map undo_spent undos))) c blocks = Inr c'"
    "\<forall>a. fmlookup c a \<noteq> Some 0" for c c'
    using that
  proof (induction blocks arbitrary: c)
    case (Cons b blocks)
    obtain h undos where b: "b = (h, undos)" by fastforce
    from Cons.prems(1) obtain c1 where
      "try_fold (count_age h) c (concat (map undo_spent undos)) = Inr c1"
      "try_fold (\<lambda>counts (h, undos). try_fold (count_age h) counts (concat (map undo_spent undos))) c1 blocks = Inr c'"
      by (auto simp: b res_simps)
    with Cons.IH count_age_positive Cons.prems(2) show ?case by blast
  qed simp
  then show "spent_age_counts blocks = Inr counts \<Longrightarrow> \<forall>a. fmlookup counts a \<noteq> Some 0"
    by (simp add: spent_age_counts_def)
qed

text \<open>Coverage is one interval, rows outside coverage do not exist, and no row is empty.\<close>

definition ages_ok :: "chain_db \<Rightarrow> bool" where
  "ages_ok db \<longleftrightarrow> (\<forall>a. fmlookup (db_spent_ages db) a \<noteq> Some 0)
     \<and> (case (fmlookup (db_spent_age_meta db) spent_age_start_height,
              fmlookup (db_spent_age_meta db) spent_age_end_height) of
          (None, None) \<Rightarrow> db_spent_ages db = fmempty \<and> db_spent_age_meta db = fmempty
        | (Some a, Some b) \<Rightarrow> a \<le> b
        | _ \<Rightarrow> False)"

lemma age_keys [simp]: "spent_age_start_height \<noteq> spent_age_end_height" "spent_age_end_height \<noteq> spent_age_start_height"
  by (simp_all add: spent_age_start_height_def spent_age_end_height_def)

lemma connect_disconnect_ages:
  assumes ok: "ages_ok db" and pos: "\<forall>a. fmlookup counts a \<noteq> Some 0"
    and run: "connect_spent_ages_transaction counts h h db = Inr ((), db')"
    and h: "checked_add p 1 = Some h"
  shows "disconnect_spent_ages_transaction counts h p db' = Inr ((), db)"
proof -
  let ?st = "fmlookup (db_spent_age_meta db) spent_age_start_height"
  let ?en = "fmlookup (db_spent_age_meta db) spent_age_end_height"
  note sub = add_then_subtract [OF _ _ pos]
  have zero: "\<forall>a. fmlookup (db_spent_ages db) a \<noteq> Some 0" using ok by (simp add: ages_ok_def)
  show ?thesis
  proof (cases ?st)
    case None
    with ok have "?en = None" "db_spent_ages db = fmempty" "db_spent_age_meta db = fmempty"
      by (auto simp: ages_ok_def split: option.splits)
    then show ?thesis
      using run zero sub
      by (auto simp: connect_spent_ages_transaction_def disconnect_spent_ages_transaction_def Let_def res_simps)
  next
    case (Some a)
    with ok obtain b where b: "?en = Some b" "a \<le> b" by (auto simp: ages_ok_def split: option.splits)
    with run Some obtain ages where c: "checked_add b 1 = Some h"
      and ages: "try_fold add_age (db_spent_ages db) (fmap_entries counts) = Inr ages"
      and db': "db' = db\<lparr>db_spent_age_meta := fmupd spent_age_end_height h (db_spent_age_meta db),
        db_spent_ages := ages\<rparr>"
      by (auto simp: connect_spent_ages_transaction_def Let_def res_simps split: if_splits)
    have "p = b" using c h by (auto simp: checked_add_eq_iff word_unat_eq_iff)
    have "h \<noteq> a" using c b(2) by (auto simp: checked_add_eq_iff word_le_nat_alt)
    have "fmupd spent_age_end_height b (fmupd spent_age_end_height h (db_spent_age_meta db)) = db_spent_age_meta db"
      using b(1) by (intro fmap_ext) auto
    then show ?thesis
      using sub [OF ages zero] Some \<open>p = b\<close> \<open>h \<noteq> a\<close>
      by (simp add: disconnect_spent_ages_transaction_def db')
  qed
qed

lemma connect_ages_ok:
  assumes ok: "ages_ok db" and pos: "\<forall>a. fmlookup counts a \<noteq> Some 0"
    and run: "connect_spent_ages_transaction counts first last' db = Inr ((), db')" and le: "first \<le> last'"
  shows "ages_ok db'"
proof -
  from run obtain meta ages where
    ages: "try_fold add_age (db_spent_ages db) (fmap_entries counts) = Inr ages"
    and db': "db' = db\<lparr>db_spent_age_meta := fmupd spent_age_end_height last' meta, db_spent_ages := ages\<rparr>"
    and meta: "case fmlookup (db_spent_age_meta db) spent_age_start_height of
        None \<Rightarrow> meta = fmupd spent_age_start_height first (db_spent_age_meta db)
      | Some a \<Rightarrow> meta = db_spent_age_meta db
          \<and> (\<exists>b. fmlookup meta spent_age_end_height = Some b \<and> checked_add b 1 = Some first)"
    by (auto simp: connect_spent_ages_transaction_def Let_def res_simps split: option.splits if_splits)
  have "fmlookup ages a \<noteq> Some 0" for a
    using add_ages_lookup [OF ages distinct_fmap_entries, unfolded map_of_fmap_entries, rule_format, of a] ok pos
    by (cases "fmlookup counts a") (auto simp: ages_ok_def unat_eq_0)
  moreover have "a \<le> last'" if "fmlookup (db_spent_age_meta db) spent_age_start_height = Some a"
    "fmlookup (db_spent_age_meta db) spent_age_end_height = Some b" "checked_add b 1 = Some first" for a b
    using ok that le by (auto simp: ages_ok_def checked_add_eq_iff word_le_nat_alt)
  ultimately show ?thesis
    using meta le by (auto simp: ages_ok_def db' split: option.splits)
qed

section \<open>Transactions\<close>

lemma tx_bind_Inr [res_simps]:
  "tx_bind m f db = Inr r \<longleftrightarrow> (\<exists>x db1. m db = Inr (x, db1) \<and> f x db1 = Inr r)"
  by (auto simp: tx_bind_def res_simps)

lemma tx_ret_eq [simp]: "tx_ret x db = Inr (x, db)"
  by (simp add: tx_ret_def)

lemma tx_lift_simps [simp]: "tx_lift (Inl e) db = Inl e" "tx_lift (Inr x) db = Inr (x, db)"
  by (simp_all add: tx_lift_def)

lemma in_utxos_Inr [res_simps]:
  "in_utxos f db = Inr (x, db') \<longleftrightarrow> (\<exists>t. f (db_utxos db) = Inr (x, t) \<and> db' = db\<lparr>db_utxos := t\<rparr>)"
  by (auto simp: in_utxos_def res_simps)

lemma in_undos_Inr [res_simps]:
  "in_undos f db = Inr (x, db') \<longleftrightarrow> (\<exists>t. f (db_undos db) = Inr (x, t) \<and> db' = db\<lparr>db_undos := t\<rparr>)"
  by (auto simp: in_undos_def res_simps)

lemma in_execution_Inr [res_simps]:
  "in_execution f db = Inr (x, db') \<longleftrightarrow> (\<exists>t. f (db_meta db) = Inr (x, t) \<and> db' = db\<lparr>db_meta := t\<rparr>)"
  by (auto simp: in_execution_def res_simps)

lemma commit_tx_Inr [res_simps]:
  "commit_tx body s = (Inr x, s') \<longleftrightarrow> (\<exists>db. body (cs_db s) = Inr (x, db) \<and> s' = s\<lparr>cs_db := db\<rparr>)"
  by (auto simp: commit_tx_def split: sum.splits)

lemma commit_tx_Inl [res_simps]:
  "commit_tx body s = (Inl e, s') \<longleftrightarrow> body (cs_db s) = Inl e \<and> s' = s"
  by (auto simp: commit_tx_def split: sum.splits)

text \<open>The histogram transactions touch only the histogram.\<close>

lemma connect_ages_frame:
  assumes "connect_spent_ages_transaction counts a b db = Inr (u, db')"
  shows "db' = db\<lparr>db_spent_ages := db_spent_ages db', db_spent_age_meta := db_spent_age_meta db'\<rparr>"
  using assms by (auto simp: connect_spent_ages_transaction_def Let_def res_simps)

lemma connect_ages_other:
  assumes "connect_spent_ages_transaction counts a b db = Inr ((), db')"
    and same: "db_spent_ages db2 = db_spent_ages db" "db_spent_age_meta db2 = db_spent_age_meta db"
  shows "connect_spent_ages_transaction counts a b db2
    = Inr ((), db2\<lparr>db_spent_ages := db_spent_ages db', db_spent_age_meta := db_spent_age_meta db'\<rparr>)"
  using assms(1) unfolding connect_spent_ages_transaction_def Let_def same by (auto simp: res_simps)

lemma disconnect_ages_other:
  assumes "disconnect_spent_ages_transaction counts a b db = Inr ((), db')"
    and same: "db_spent_ages db2 = db_spent_ages db" "db_spent_age_meta db2 = db_spent_age_meta db"
  shows "disconnect_spent_ages_transaction counts a b db2
    = Inr ((), db2\<lparr>db_spent_ages := db_spent_ages db', db_spent_age_meta := db_spent_age_meta db'\<rparr>)"
proof (cases "fmlookup (db_spent_age_meta db) spent_age_start_height")
  case None
  with assms(1) have "db' = db" by (simp add: disconnect_spent_ages_transaction_def)
  with None show ?thesis by (simp add: disconnect_spent_ages_transaction_def same [symmetric])
next
  case (Some x)
  with assms(1) same show ?thesis
    by (cases "a = x") (auto simp: disconnect_spent_ages_transaction_def Let_def res_simps split: if_splits)
qed

section \<open>Connect and disconnect\<close>

text \<open>What a connected block left behind, part by part.\<close>

lemma commit_connect_parts:
  assumes "commit_connect parent n spent created undos s = (Inr undo, s1)"
  obtains t counts ages age_meta u1 m1 where "cs_journal s = None"
    "apply_with_undo_transaction spent created (db_utxos (cs_db s)) = Inr (undo, t)"
    "spent_age_counts [(tip_height n, undos)] = Inr counts"
    "connect_spent_ages_transaction counts (tip_height n) (tip_height n) (cs_db s)
       = Inr ((), (cs_db s)\<lparr>db_spent_ages := ages, db_spent_age_meta := age_meta\<rparr>)"
    "advance_transaction parent n (db_meta (cs_db s)) = Inr ((), m1)"
    "if opt_retain_block_undo (cs_options s)
     then undo_insert_transaction (tip_hash n) undos (db_undos (cs_db s)) = Inr ((), u1)
     else u1 = db_undos (cs_db s)"
    "s1 = s\<lparr>cs_db := (cs_db s)\<lparr>db_utxos := t, db_undos := u1, db_meta := m1,
        db_spent_ages := ages, db_spent_age_meta := age_meta\<rparr>\<rparr>"
proof -
  from assms have j: "cs_journal s = None" by (auto simp: commit_connect_def split: if_splits)
  with assms obtain counts t undos' db3 meta where
    c: "spent_age_counts [(tip_height n, undos)] = Inr counts"
    and t: "apply_with_undo_transaction spent created (db_utxos (cs_db s)) = Inr (undo, t)"
    and u: "if opt_retain_block_undo (cs_options s)
     then undo_insert_transaction (tip_hash n) undos (db_undos (cs_db s)) = Inr ((), undos')
     else undos' = db_undos (cs_db s)"
    and a: "connect_spent_ages_transaction counts (tip_height n) (tip_height n)
       ((cs_db s)\<lparr>db_utxos := t, db_undos := undos'\<rparr>) = Inr ((), db3)"
    and m: "advance_transaction parent n (db_meta db3) = Inr ((), meta)"
    and s1: "s1 = s\<lparr>cs_db := db3\<lparr>db_meta := meta\<rparr>\<rparr>"
    unfolding commit_connect_def by (cases "opt_retain_block_undo (cs_options s)") (auto simp: res_simps)
  obtain ages age_meta where
    db3: "db3 = (cs_db s)\<lparr>db_utxos := t, db_undos := undos', db_spent_ages := ages, db_spent_age_meta := age_meta\<rparr>"
    using connect_ages_frame [OF a] by simp
  have "connect_spent_ages_transaction counts (tip_height n) (tip_height n) (cs_db s)
       = Inr ((), (cs_db s)\<lparr>db_spent_ages := ages, db_spent_age_meta := age_meta\<rparr>)"
    using connect_ages_other [OF a, of "cs_db s"] by (simp add: db3)
  from that [OF j t c this] m u s1 show thesis by (simp add: db3)
qed

lemma commit_connect_error: "commit_connect parent n spent created undos s = (Inl e, s') \<Longrightarrow> s' = s"
  by (auto simp: commit_connect_def res_simps split: if_splits)

lemma coins_apply_reverse:
  assumes "coins_apply v spent created = Inr (undo, v')"
  shows "\<exists>undo'. coins_apply v' (undo_created undo) (undo_spent undo) = Inr (undo', v)"
proof -
  note a = assms [unfolded coins_apply_Inr_iff]
  have created: "\<forall>k \<in> set (undo_created undo). v' k \<noteq> None"
    using a by (auto simp: coins_after_def map_add_def map_of_eq_None_iff split: option.splits)
  let ?us = "map (\<lambda>k. (k, the (v' k))) (undo_created undo)"
  have gone: "\<forall>k \<in> fst ` set (undo_spent undo). k \<in> set (undo_created undo) \<or> v' k = None"
    using a coins_apply_spent_gone [OF assms] by (metis image_set)
  have "coins_apply v' (undo_created undo) (undo_spent undo)
      = Inr (\<lparr>undo_spent = ?us, undo_created = map fst (undo_spent undo)\<rparr>,
             coins_after v' (undo_created undo) (undo_spent undo))"
    unfolding coins_apply_Inr_iff
    using a created gone by (auto simp: comp_def)
  moreover have "coins_after v' (undo_created undo) (undo_spent undo) = coins_undo v' undo"
    by (simp add: coins_after_def coins_undo_def)
  ultimately show ?thesis using coins_undo_apply [OF assms] by auto
qed


lemma apply_with_undo_transaction_Inr:
  assumes "store_inv t" "\<forall>r \<in> set created. row_ok r" "apply_with_undo_transaction spent created t = Inr (undo, t')"
  shows "coins_apply (store_view t) spent created = Inr (undo, store_view t')" "store_inv t'"
  using apply_with_undo_transaction_spec [OF assms(1,2), of spent] assms(3)
  by (auto split: sum.splits)

lemma advance_rewind_transaction:
  assumes "advance_transaction (tip_hash parent) n m = Inr ((), m')" "read_tip m = Inr parent"
  shows "rewind_transaction n parent m' = Inr ((), m)" "checked_add (tip_height parent) 1 = Some (tip_height n)"
    "read_tip m' = Inr n"
proof -
  from assms have m': "m' = fmupd tip_key (exec_encode_tip n) m"
    and c: "checked_add (tip_height parent) 1 = Some (tip_height n)"
    by (auto simp: advance_transaction_def res_simps split: if_splits)
  from assms(2) have "fmlookup m tip_key = Some (exec_encode_tip parent)"
    by (auto simp: read_tip_def res_simps dest: exec_encode_decode_tip)
  then have "fmupd tip_key (exec_encode_tip parent) m' = m" unfolding m' by (intro fmap_ext) auto
  then show "rewind_transaction n parent m' = Inr ((), m)"
    using c by (simp add: rewind_transaction_def m')
  show "checked_add (tip_height parent) 1 = Some (tip_height n)" "read_tip m' = Inr n"
    using c by (simp_all add: m')
qed

lemma undo_insert_remove:
  assumes "undo_insert_transaction h undos u = Inr ((), u')"
  shows "undo_remove_transaction h u' = Inr (True, u)"
proof -
  from assms obtain bs where u': "u' = u\<lparr>block_undos := fmupd (hash_to_bytes h) bs (block_undos u)\<rparr>"
    and n: "fmlookup (block_undos u) (hash_to_bytes h) = None"
    by (auto simp: undo_insert_transaction_def res_simps split: if_splits)
  have "fmdrop (hash_to_bytes h) (fmupd (hash_to_bytes h) bs (block_undos u)) = block_undos u"
    using n by (intro fmap_ext) auto
  then show ?thesis by (simp add: undo_remove_transaction_def u')
qed

text \<open>A disconnect by any change that leads back to the coins before the block restores the store.\<close>

lemma disconnect_restores:
  assumes inv: "store_inv (db_utxos (cs_db s))" "ages_ok (cs_db s)" and rows: "\<forall>r \<in> set created. row_ok r"
    and retain: "opt_retain_block_undo (cs_options s)" and tip: "read_tip (db_meta (cs_db s)) = Inr parent"
    and run: "commit_connect (tip_hash parent) n spent created undos s = (Inr undo, s1)"
    and reverse: "coins_apply (store_view (db_utxos (cs_db s1))) spent' created' = Inr (undo', store_view (db_utxos (cs_db s)))"
    and rows': "\<forall>r \<in> set created'. row_ok r"
  shows "\<exists>t. commit_disconnect n parent spent' created' undos s1
      = (Inr undo', s\<lparr>cs_db := (cs_db s)\<lparr>db_utxos := t\<rparr>\<rparr>)
    \<and> store_inv t \<and> store_view t = store_view (db_utxos (cs_db s))"
proof -
  from commit_connect_parts [OF run] retain obtain t counts ages age_meta u1 m1 where
    P: "cs_journal s = None" "apply_with_undo_transaction spent created (db_utxos (cs_db s)) = Inr (undo, t)"
    "spent_age_counts [(tip_height n, undos)] = Inr counts"
    "connect_spent_ages_transaction counts (tip_height n) (tip_height n) (cs_db s)
       = Inr ((), (cs_db s)\<lparr>db_spent_ages := ages, db_spent_age_meta := age_meta\<rparr>)"
    "advance_transaction (tip_hash parent) n (db_meta (cs_db s)) = Inr ((), m1)"
    "undo_insert_transaction (tip_hash n) undos (db_undos (cs_db s)) = Inr ((), u1)"
    and s1: "s1 = s\<lparr>cs_db := (cs_db s)\<lparr>db_utxos := t, db_undos := u1,
        db_meta := m1, db_spent_ages := ages, db_spent_age_meta := age_meta\<rparr>\<rparr>"
    by metis
  note A = advance_rewind_transaction [OF P(5) tip]
  have "store_inv t" by (rule apply_with_undo_transaction_Inr(2) [OF inv(1) rows P(2)])
  from apply_with_undo_transaction_spec [OF this rows', of spent'] reverse obtain t2 where
    t2: "apply_with_undo_transaction spent' created' t = Inr (undo', t2)"
    "store_inv t2" "store_view t2 = store_view (db_utxos (cs_db s))" by (auto simp: s1)
  let ?db = "(cs_db s)\<lparr>db_utxos := t2, db_undos := u1, db_meta := m1\<rparr>"
  have d: "disconnect_spent_ages_transaction counts (tip_height n) (tip_height parent)
      ((cs_db s)\<lparr>db_undos := u1, db_meta := m1, db_spent_ages := ages, db_spent_age_meta := age_meta,
        db_utxos := t2\<rparr>) = Inr ((), ?db)"
    using disconnect_ages_other [OF connect_disconnect_ages [OF inv(2) spent_age_counts_positive [OF P(3)] P(4) A(2)],
        of "(cs_db s)\<lparr>db_undos := u1, db_meta := m1, db_spent_ages := ages, db_spent_age_meta := age_meta,
          db_utxos := t2\<rparr>"] by simp
  have "commit_disconnect n parent spent' created' undos s1
      = (Inr undo', s1\<lparr>cs_db := (cs_db s)\<lparr>db_utxos := t2\<rparr>\<rparr>)"
    using t2(1) d A(1) undo_insert_remove [OF P(6)] P(1,3)
    by (simp add: s1 commit_disconnect_def commit_tx_def tx_bind_def in_utxos_def in_execution_def in_undos_def
        remove_tip_undo_def)
  moreover have "s1\<lparr>cs_db := (cs_db s)\<lparr>db_utxos := t2\<rparr>\<rparr> = s\<lparr>cs_db := (cs_db s)\<lparr>db_utxos := t2\<rparr>\<rparr>"
    by (simp add: s1)
  ultimately show ?thesis using t2(2,3) by auto
qed

lemma connect_then_disconnect:
  assumes inv: "store_inv (db_utxos (cs_db s))" "ages_ok (cs_db s)" and rows: "\<forall>r \<in> set created. row_ok r"
    and retain: "opt_retain_block_undo (cs_options s)" and tip: "read_tip (db_meta (cs_db s)) = Inr parent"
    and run: "commit_connect (tip_hash parent) n spent created undos s = (Inr undo, s1)"
  shows "\<exists>undo' t. commit_disconnect n parent (undo_created undo) (undo_spent undo) undos s1
      = (Inr undo', s\<lparr>cs_db := (cs_db s)\<lparr>db_utxos := t\<rparr>\<rparr>)
    \<and> store_inv t \<and> store_view t = store_view (db_utxos (cs_db s))"
proof -
  from commit_connect_parts [OF run] obtain t where
    t: "apply_with_undo_transaction spent created (db_utxos (cs_db s)) = Inr (undo, t)" "db_utxos (cs_db s1) = t" by force
  note T = apply_with_undo_transaction_Inr(1) [OF inv(1) rows t(1)]
  from coins_apply_reverse [OF T] obtain undo' where
    "coins_apply (store_view t) (undo_created undo) (undo_spent undo) = Inr (undo', store_view (db_utxos (cs_db s)))"
    by blast
  moreover have "\<forall>r \<in> set (undo_spent undo). row_ok r"
    using T redb.view_ok [OF inv(1)] unfolding coins_apply_Inr_iff coins_ok_def by auto
  ultimately show ?thesis using disconnect_restores [OF assms] t(2) by blast
qed

end
