(* ===== verification/Chain_Journal.thy ===== *)
theory Chain_Journal
  imports Chain_Store_Ages
begin

text \<open>
  The coins a journal-backed store shows, lookups through the filters of its rows and groups,
  and batches of blocks: the fold of a batch, the row it appends and its transaction.
\<close>

section \<open>The coins a journal-backed store shows\<close>

definition upd_view :: "coins \<Rightarrow> validation_delta_updates \<Rightarrow> coins" where
  "upd_view v us = (\<lambda>k. case map_of us k of Some u \<Rightarrow> upd_utxo u | None \<Rightarrow> v k)"

definition deltas_view :: "coins \<Rightarrow> validation_delta_updates list \<Rightarrow> coins" where
  "deltas_view v uss = foldl upd_view v uss"

definition row_updates :: "chain_db \<Rightarrow> validation_journal_row \<Rightarrow> validation_delta_updates" where
  "row_updates db row = (case decode_row_at db (jr_height row) of Inr r \<Rightarrow> snd r | Inl _ \<Rightarrow> [])"

definition chain_view :: "chain_store \<Rightarrow> coins" where
  "chain_view s = (case cs_journal s of
     None \<Rightarrow> store_view (db_utxos (cs_db s))
   | Some j \<Rightarrow> deltas_view (store_view (db_utxos (cs_db s))) (map (row_updates (cs_db s)) (jn_rows j)))"

text \<open>
  A row is valid on the coins below it: an update is marked as spent exactly when the
  outpoint exists there, and what it leaves can be stored.
\<close>

definition updates_ok :: "coins \<Rightarrow> validation_delta_updates \<Rightarrow> bool" where
  "updates_ok v us \<longleftrightarrow> sorted_wrt (<) (map fst us)
     \<and> (\<forall>(k, u) \<in> set us. valid_key k \<and> (spent_in_batch u \<longleftrightarrow> v k \<noteq> None)
          \<and> (\<forall>coin. upd_utxo u = Some coin \<longrightarrow> row_ok (k, coin)))"

fun deltas_ok :: "coins \<Rightarrow> validation_delta_updates list \<Rightarrow> bool" where
  "deltas_ok v [] \<longleftrightarrow> True"
| "deltas_ok v (us # uss) \<longleftrightarrow> updates_ok v us \<and> deltas_ok (upd_view v us) uss"

text \<open>
  The journal in memory agrees with its tables: each row decodes, its filter is the
  filter of its keys and is stored, and so are the filters of the groups.
\<close>

definition row_holds :: "(bytes \<Rightarrow> bytes) \<Rightarrow> chain_db \<Rightarrow> validation_journal_row \<Rightarrow> u64 \<Rightarrow> bool" where
  "row_holds sha db row n \<longleftrightarrow>
     decode_row_at db (jr_height row) = Inr (n, row_updates db row)
     \<and> length (row_updates db row) < 2 ^ 32
     \<and> (\<exists>b. with_update_count (length (row_updates db row)) = Inr b
          \<and> jr_bloom row = fold bloom_insert (map fst (row_updates db row)) b)
     \<and> (\<exists>bs. encode_validation_bloom sha (jr_bloom row) n = Some bs
          \<and> fmlookup (db_row_blooms db) (jr_height row) = Some bs)"

definition groups_hold :: "(bytes \<Rightarrow> bytes) \<Rightarrow> chain_db \<Rightarrow> validation_journal \<Rightarrow> bool" where
  "groups_hold sha db j \<longleftrightarrow>
     length (jn_groups j) = div_ceil (length (jn_rows j)) validation_rows_per_bloom_group
     \<and> length (jn_groups j) \<le> 2 ^ 32
     \<and> (\<forall>g < length (jn_groups j). \<exists>b bs. with_update_count validation_group_bloom_updates = Inr b
          \<and> jn_groups j ! g = fold bloom_insert
              (concat (map (map fst \<circ> row_updates db) (group_rows j g))) b
          \<and> encode_validation_bloom sha (jn_groups j ! g) 0 = Some bs
          \<and> fmlookup (db_group_blooms db) (word_of_nat g) = Some bs)"

definition journal_inv :: "(bytes \<Rightarrow> bytes) \<Rightarrow> chain_db \<Rightarrow> validation_journal \<Rightarrow> bool" where
  "journal_inv sha db j \<longleftrightarrow>
     (\<exists>ns. list_all2 (row_holds sha db) (jn_rows j) ns \<and> (ns \<noteq> [] \<longrightarrow> jn_utxo_count j = last ns))
     \<and> groups_hold sha db j
     \<and> sorted_wrt (<) (map jr_height (jn_rows j))
     \<and> (jn_rows j \<noteq> [] \<longrightarrow> (\<exists>t. read_tip (db_meta db) = Inr t \<and> jr_height (last (jn_rows j)) = tip_height t))
     \<and> fset (fmdom (db_deltas db)) = jr_height ` set (jn_rows j)
     \<and> deltas_ok (store_view (db_utxos db)) (map (row_updates db) (jn_rows j))"

definition chain_inv :: "(bytes \<Rightarrow> bytes) \<Rightarrow> chain_store \<Rightarrow> bool" where
  "chain_inv sha s \<longleftrightarrow> store_inv (db_utxos (cs_db s)) \<and> ages_ok (cs_db s)
     \<and> (case cs_journal s of None \<Rightarrow> True | Some j \<Rightarrow> journal_inv sha (cs_db s) j)"

text \<open>The count a journal keeps is the number of coins.\<close>

definition count_exact :: "chain_store \<Rightarrow> bool" where
  "count_exact s \<longleftrightarrow> (case cs_journal s of
     None \<Rightarrow> True | Some j \<Rightarrow> card (dom (chain_view s)) = unat (jn_utxo_count j))"

lemma deltas_view_simps [simp]:
  "deltas_view v [] = v"
  "deltas_view v (us # uss) = deltas_view (upd_view v us) uss"
  "deltas_view v (uss @ [us]) = upd_view (deltas_view v uss) us"
  by (simp_all add: deltas_view_def)

lemma deltas_ok_append: "deltas_ok v (uss @ vss) \<longleftrightarrow> deltas_ok v uss \<and> deltas_ok (deltas_view v uss) vss"
  by (induction uss arbitrary: v) auto

subsection \<open>Lookups\<close>

definition latest :: "out_point_key \<Rightarrow> validation_delta_updates list \<Rightarrow> utxo option option" where
  "latest k uss = foldl (\<lambda>r us. case map_of us k of Some u \<Rightarrow> Some (upd_utxo u) | None \<Rightarrow> r) None uss"

lemma latest_simps [simp]:
  "latest k [] = None"
  "latest k (uss @ [us]) = (case map_of us k of Some u \<Rightarrow> Some (upd_utxo u) | None \<Rightarrow> latest k uss)"
  unfolding latest_def by simp_all

lemma latest_append: "latest k (uss @ vss) = (case latest k vss of Some r \<Rightarrow> Some r | None \<Rightarrow> latest k uss)"
proof (induction vss rule: rev_induct)
  case (snoc us vss)
  then show ?case by (simp add: latest_simps(2) [of k "uss @ vss" us, simplified] split: option.splits)
qed simp

lemma deltas_view_latest: "deltas_view v uss k = (case latest k uss of Some r \<Rightarrow> r | None \<Rightarrow> v k)"
  by (induction uss rule: rev_induct) (auto simp: upd_view_def split: option.splits)

lemma latest_None: "\<forall>us \<in> set uss. k \<notin> fst ` set us \<Longrightarrow> latest k uss = None"
  by (induction uss rule: rev_induct) (auto simp: map_of_eq_None_iff split: option.splits dest!: map_of_SomeD)

lemma row_bloom_contains:
  assumes "row_holds sha db row n" "k \<in> fst ` set (row_updates db row)"
  shows "might_contain (jr_bloom row) k"
proof -
  from assms(1) obtain b where b: "with_update_count (length (row_updates db row)) = Inr b"
    "jr_bloom row = fold bloom_insert (map fst (row_updates db row)) b" "length (row_updates db row) < 2 ^ 32"
    by (auto simp: row_holds_def)
  have "bloom_ok b" using with_update_count_ok [OF b(1)] b(3) by simp
  with b(2) assms(2) show ?thesis by (simp add: bloom_fold_contains)
qed

lemma search_rows_ok:
  assumes "list_all2 (row_holds sha db) rows ns"
  shows "search_rows db k (rev rows) = Inr (latest k (map (row_updates db) rows))"
  using assms
proof (induction rows arbitrary: ns rule: rev_induct)
  case (snoc row rows)
  then obtain ns' n where ns: "ns = ns' @ [n]" "list_all2 (row_holds sha db) rows ns'" "row_holds sha db row n"
    by (auto simp: list_all2_append1 list_all2_Cons1)
  have IH: "search_rows db k (rev rows) = Inr (latest k (map (row_updates db) rows))" by (rule snoc.IH [OF ns(2)])
  show ?case
  proof (cases "might_contain (jr_bloom row) k")
    case False
    then have "map_of (row_updates db row) k = None"
      using row_bloom_contains [OF ns(3)] by (auto simp: map_of_eq_None_iff)
    with False IH show ?thesis by simp
  next
    case True
    from ns(3) obtain encoded where e: "load_delta db (jr_height row) = Inr encoded"
      "decode_validation_delta_record encoded (load_shard db (jr_height row)) = Inr (n, row_updates db row)"
      by (auto simp: row_holds_def decode_row_at_def res_simps)
    from record_lookup_ok [OF e(2), of k] e(1) True IH show ?thesis by (simp split: option.splits)
  qed
qed simp

lemma group_rows_eq: "group_rows j g = take 16 (drop (g * 16) (jn_rows j))"
  by (auto simp: group_rows_def Let_def validation_rows_per_bloom_group_def min_def)

lemma group_bloom_contains:
  assumes "groups_hold sha db j" "g < length (jn_groups j)" "row \<in> set (group_rows j g)"
    "k \<in> fst ` set (row_updates db row)"
  shows "might_contain (jn_groups j ! g) k"
proof -
  from assms(1,2) obtain b where b: "with_update_count validation_group_bloom_updates = Inr b"
    "jn_groups j ! g = fold bloom_insert (concat (map (map fst \<circ> row_updates db) (group_rows j g))) b"
    by (auto simp: groups_hold_def)
  have "bloom_ok b" using with_update_count_ok [OF b(1)] by (simp add: validation_group_bloom_updates_def)
  moreover have "k \<in> set (concat (map (map fst \<circ> row_updates db) (group_rows j g)))" using assms(3,4) by auto
  ultimately show ?thesis unfolding b(2) by (intro bloom_fold_contains disjI1)
qed

lemma search_groups_ok:
  assumes rows: "list_all2 (row_holds sha db) (jn_rows j) ns" and gs: "groups_hold sha db j"
    and "m \<le> length (jn_groups j)"
  shows "search_groups db j k (rev (enumerate 0 (take m (jn_groups j))))
    = Inr (latest k (map (row_updates db) (take (m * 16) (jn_rows j))))"
  using assms(3)
proof (induction m)
  case (Suc m)
  let ?g = "jn_groups j ! m" and ?rows = "group_rows j m"
  have e: "rev (enumerate 0 (take (Suc m) (jn_groups j))) = (m, ?g) # rev (enumerate 0 (take m (jn_groups j)))"
    using Suc.prems by (simp add: take_Suc_conv_app_nth enumerate_append_eq)
  have rows_eq: "take (Suc m * 16) (jn_rows j) = take (m * 16) (jn_rows j) @ ?rows"
    using take_add [of "m * 16" 16 "jn_rows j"] by (simp add: group_rows_eq add.commute)
  have sub: "\<exists>ns'. list_all2 (row_holds sha db) ?rows ns'"
    using rows unfolding group_rows_eq by (metis list_all2_dropI list_all2_takeI)
  have IH: "search_groups db j k (rev (enumerate 0 (take m (jn_groups j))))
    = Inr (latest k (map (row_updates db) (take (m * 16) (jn_rows j))))" using Suc by simp
  show ?case
  proof (cases "might_contain ?g k")
    case False
    have "latest k (map (row_updates db) ?rows) = None"
      by (rule latest_None) (use False group_bloom_contains [OF gs] Suc.prems in \<open>auto simp: Suc_le_eq\<close>)
    with False IH show ?thesis unfolding e rows_eq by (simp add: latest_append)
  next
    case True
    from sub obtain ns' where "list_all2 (row_holds sha db) ?rows ns'" ..
    from search_rows_ok [OF this, of k] True IH show ?thesis
      unfolding e rows_eq by (simp add: latest_append split: option.splits)
  qed
qed simp

text \<open>A lookup through the journal is a lookup in the folded coins.\<close>

lemma chain_get_ok:
  assumes "chain_inv sha s"
  shows "chain_get s k = Inr (chain_view s k)"
proof (cases "cs_journal s")
  case None
  then show ?thesis using assms by (simp add: chain_get_def chain_view_def chain_inv_def store_get_view)
next
  case (Some j)
  with assms obtain ns where j: "list_all2 (row_holds sha (cs_db s)) (jn_rows j) ns"
    "groups_hold sha (cs_db s) j" "store_inv (db_utxos (cs_db s))"
    by (auto simp: chain_inv_def journal_inv_def)
  have "length (jn_rows j) \<le> length (jn_groups j) * 16"
    using j(2) by (auto simp: groups_hold_def div_ceil_def validation_rows_per_bloom_group_def)
  with search_groups_ok [OF j(1,2) order.refl, of k] j(3) Some show ?thesis
    by (simp add: chain_get_def chain_view_def deltas_view_latest store_get_view split: option.splits)
qed

section \<open>Batches of blocks\<close>

fun run_transitions :: "coins \<Rightarrow> connect_transition list \<Rightarrow> utxo_error + coins" where
  "run_transitions v [] = Ok v"
| "run_transitions v (t # ts) =
     bind_res (coins_apply v (ct_spent t) (ct_created t)) (\<lambda>(_, v'). run_transitions v' ts)"

text \<open>The fold holds the net change from the coins below the batch.\<close>

definition folded :: "coins \<Rightarrow> batch_fold \<Rightarrow> coins \<Rightarrow> bool" where
  "folded v acc w \<longleftrightarrow> (\<forall>k. (k |\<in>| fst acc \<longrightarrow> v k \<noteq> None)
     \<and> (k |\<in>| fmdom (snd acc) \<longrightarrow> v k = None \<or> k |\<in>| fst acc)
     \<and> w k = (case fmlookup (snd acc) k of Some u \<Rightarrow> Some u
              | None \<Rightarrow> if k |\<in>| fst acc then None else v k))"

lemma folded_new: "folded v ({||}, fmempty) v"
  by (simp add: folded_def)

lemma fold_spent_folded:
  assumes "folded v acc w" "w k \<noteq> None"
  shows "\<exists>acc'. fold_spent acc k = Inr acc' \<and> folded v acc' (w(k := None)) \<and> fmdom (snd acc') |\<subseteq>| fmdom (snd acc)
    \<and> (\<forall>c u. fmlookup (snd acc') c = Some u \<longrightarrow> fmlookup (snd acc) c = Some u)"
proof -
  obtain S C where acc: "acc = (S, C)" by force
  note f = assms(1) [unfolded folded_def acc fst_conv snd_conv, rule_format]
  show ?thesis
  proof (cases "fmlookup C k")
    case None
    with f [of k] assms(2) have "k |\<notin>| S" "v k \<noteq> None" "k |\<notin>| fmdom C" by (auto split: if_splits)
    then show ?thesis
      using f None by (auto simp: acc fold_spent_def folded_def split: option.splits)
  next
    case (Some u)
    then have k: "k |\<in>| fmdom C" by (rule fmdomI)
    with f [of k] have "k |\<notin>| S \<longrightarrow> None = v k" by auto
    with k have "folded v (S, fmdrop k C) (w(k := None))"
      unfolding folded_def using f by (simp split: option.splits)
    with k show ?thesis by (auto simp: acc fold_spent_def)
  qed
qed

lemma try_fold_spent:
  assumes "folded v acc w" "\<forall>k \<in> set ks. w k \<noteq> None" "distinct ks"
  shows "\<exists>acc'. try_fold fold_spent acc ks = Inr acc' \<and> folded v acc' (w |` (- set ks))
    \<and> (\<forall>c u. fmlookup (snd acc') c = Some u \<longrightarrow> fmlookup (snd acc) c = Some u)"
  using assms
proof (induction ks arbitrary: acc w)
  case Nil
  then show ?case by (simp add: restrict_map_def)
next
  case (Cons k ks)
  then obtain acc1 where a: "fold_spent acc k = Inr acc1" "folded v acc1 (w(k := None))"
    "\<forall>c u. fmlookup (snd acc1) c = Some u \<longrightarrow> fmlookup (snd acc) c = Some u"
    using fold_spent_folded [of v acc w k] by auto
  have p: "\<forall>c \<in> set ks. (w(k := None)) c \<noteq> None" "distinct ks" using Cons.prems by auto
  have e: "(w(k := None)) |` (- set ks) = w |` (- set (k # ks))" by (auto simp: restrict_map_def fun_eq_iff)
  from Cons.IH [OF a(2) p] obtain acc' where b: "try_fold fold_spent acc1 ks = Inr acc'"
    "folded v acc' (w |` (- set (k # ks)))"
    "\<forall>c u. fmlookup (snd acc') c = Some u \<longrightarrow> fmlookup (snd acc1) c = Some u"
    unfolding e by blast
  from b(3) a(3) have "\<forall>c u. fmlookup (snd acc') c = Some u \<longrightarrow> fmlookup (snd acc) c = Some u" by blast
  with b a(1) show ?case by simp
qed

lemma fold_created_folded:
  assumes "folded v acc w" "w k = None"
  shows "fold_created acc (k, u) = Inr (fst acc, fmupd k u (snd acc))"
    "folded v (fst acc, fmupd k u (snd acc)) (w(k \<mapsto> u))"
proof -
  note f = assms(1) [unfolded folded_def, rule_format]
  have n: "fmlookup (snd acc) k = None" using f [of k] assms(2) by (auto split: option.splits)
  then show "fold_created acc (k, u) = Inr (fst acc, fmupd k u (snd acc))"
    by (cases acc) (auto simp: fold_created_def fmlookup_dom_iff)
  show "folded v (fst acc, fmupd k u (snd acc)) (w(k \<mapsto> u))"
    using f n assms(2) by (auto simp: folded_def split: option.splits if_splits)
qed

lemma try_fold_created:
  assumes "folded v acc w" "\<forall>k \<in> fst ` set cs. w k = None" "distinct (map fst cs)"
    and "\<forall>c u. fmlookup (snd acc) c = Some u \<longrightarrow> row_ok (c, u)" "\<forall>r \<in> set cs. row_ok r"
  shows "\<exists>acc'. try_fold fold_created acc cs = Inr acc' \<and> folded v acc' (w ++ map_of cs)
    \<and> (\<forall>c u. fmlookup (snd acc') c = Some u \<longrightarrow> row_ok (c, u))"
  using assms
proof (induction cs arbitrary: acc w)
  case (Cons r cs)
  obtain k u where r: "r = (k, u)" by force
  have k: "w k = None" using Cons.prems(2) by (simp add: r)
  note s = fold_created_folded [OF Cons.prems(1) k, of u]
  have p: "\<forall>c \<in> fst ` set cs. (w(k \<mapsto> u)) c = None" "distinct (map fst cs)"
    "\<forall>c u'. fmlookup (snd (fst acc, fmupd k u (snd acc))) c = Some u' \<longrightarrow> row_ok (c, u')" "\<forall>r \<in> set cs. row_ok r"
    using Cons.prems by (auto simp: r)
  have "map_of cs k = None" using Cons.prems(3) by (simp add: r map_of_eq_None_iff)
  then have e: "w(k \<mapsto> u) ++ map_of cs = w ++ map_of (r # cs)"
    by (auto simp: r map_add_def fun_eq_iff split: option.splits)
  have t: "try_fold fold_created acc (r # cs) = try_fold fold_created (fst acc, fmupd k u (snd acc)) cs"
    by (simp add: r s(1))
  show ?case unfolding t using Cons.IH [OF s(2) p] unfolding e .
qed simp

lemma fold_transition_folded:
  assumes "folded v acc w" "coins_apply w (ct_spent t) (ct_created t) = Inr (undo, w')"
    and "\<forall>c u. fmlookup (snd acc) c = Some u \<longrightarrow> row_ok (c, u)" "\<forall>r \<in> set (ct_created t). row_ok r"
  shows "\<exists>acc'. fold_transition acc t = Inr acc' \<and> folded v acc' w'
    \<and> (\<forall>c u. fmlookup (snd acc') c = Some u \<longrightarrow> row_ok (c, u))"
proof -
  note c = coins_apply_Inr_iff [THEN iffD1, OF assms(2)]
  have u: "ct_spent t = map fst (undo_spent undo)" using c by simp
  have "\<forall>k \<in> set (ct_spent t). w k \<noteq> None" unfolding u using c [THEN conjunct2, THEN conjunct2, THEN conjunct1] by fastforce
  moreover have "distinct (ct_spent t)" using c by simp
  ultimately obtain acc1 where a: "try_fold fold_spent acc (ct_spent t) = Inr acc1"
    "folded v acc1 (w |` (- set (ct_spent t)))"
    "\<forall>c u. fmlookup (snd acc1) c = Some u \<longrightarrow> fmlookup (snd acc) c = Some u"
    using try_fold_spent [OF assms(1)] by blast
  have p: "\<forall>k \<in> fst ` set (ct_created t). (w |` (- set (ct_spent t))) k = None" "distinct (map fst (ct_created t))"
    "\<forall>c u. fmlookup (snd acc1) c = Some u \<longrightarrow> row_ok (c, u)"
    using c a(3) assms(3) by (auto simp: restrict_map_def)
  from try_fold_created [OF a(2) p assms(4)] a(1) c show ?thesis
    by (simp add: fold_transition_def coins_after_def)
qed

lemma fold_transitions:
  assumes "folded v acc w" "run_transitions w ts = Inr w'"
    and "\<forall>c u. fmlookup (snd acc) c = Some u \<longrightarrow> row_ok (c, u)" "\<forall>t \<in> set ts. \<forall>r \<in> set (ct_created t). row_ok r"
  shows "\<exists>acc'. try_fold fold_transition acc ts = Inr acc' \<and> folded v acc' w'
    \<and> (\<forall>c u. fmlookup (snd acc') c = Some u \<longrightarrow> row_ok (c, u))"
  using assms
proof (induction ts arbitrary: acc w)
  case (Cons t ts)
  then obtain undo w1 where w1: "coins_apply w (ct_spent t) (ct_created t) = Inr (undo, w1)"
    "run_transitions w1 ts = Inr w'"
    by (auto simp: res_simps)
  with Cons.prems obtain acc1 where "fold_transition acc t = Inr acc1" "folded v acc1 w1"
    "\<forall>c u. fmlookup (snd acc1) c = Some u \<longrightarrow> row_ok (c, u)"
    using fold_transition_folded [OF Cons.prems(1) w1(1) Cons.prems(3)] by auto
  with Cons.IH [of acc1 w1] w1(2) Cons.prems(4) show ?case by simp
qed simp

text \<open>What a folded batch hands to the store is a valid sorted transition to the final coins.\<close>

lemma folded_changes:
  assumes "folded v (spent, created) w"
  shows "transition_ok v (sorted_list_of_fset spent) (fmap_entries created)"
    "coins_after v (sorted_list_of_fset spent) (fmap_entries created) = w"
    "sorted_wrt (<) (sorted_list_of_fset spent)" "sorted_wrt (<) (map fst (fmap_entries created))"
proof -
  note f = assms [unfolded folded_def fst_conv snd_conv, rule_format]
  show "transition_ok v (sorted_list_of_fset spent) (fmap_entries created)"
    using f by (force simp: transition_ok_def set_fmap_entries intro: fmdomI)
  show "coins_after v (sorted_list_of_fset spent) (fmap_entries created) = w"
    using f by (auto simp: coins_after_def map_add_def restrict_map_def fun_eq_iff split: option.splits)
  show "sorted_wrt (<) (sorted_list_of_fset spent)" "sorted_wrt (<) (map fst (fmap_entries created))"
    by (simp_all add: fmap_entries_keys sorted_list_of_fset.rep_eq)
qed

subsection \<open>Writing a row\<close>

lemma shard_key_inject [simp]:
  "validation_delta_shard_key h s = validation_delta_shard_key h' s' \<longleftrightarrow> h = h' \<and> s = s'"
  by (auto simp: validation_delta_shard_key_def dest: arg_cong [of _ _ u32_from_le])

lemma fold_shards_lookup:
  assumes "distinct (map fst shards)"
  shows "fmlookup (fold (\<lambda>(s, bs). fmupd (validation_delta_shard_key h s) bs) shards m)
      (validation_delta_shard_key h' s') =
    (case (if h' = h then map_of shards s' else None) of
       Some bs \<Rightarrow> Some bs | None \<Rightarrow> fmlookup m (validation_delta_shard_key h' s'))"
  using assms
proof (induction shards arbitrary: m)
  case (Cons p shards)
  obtain s bs where p: "p = (s, bs)" by force
  have "map_of shards s = None" using Cons.prems by (simp add: p map_of_eq_None_iff)
  then show ?case using Cons by (auto simp: p split: option.splits)
qed simp

lemma encode_sharded_shards:
  assumes enc: "encode_sharded_validation_delta us n = Inr (manifest, shards)"
    and sorted: "sorted_wrt (<) (map fst us)" and keys: "\<forall>k \<in> fst ` set us. valid_key k"
  shows "distinct (map fst shards)" "length us < 2 ^ 29"
proof -
  from enc have c: "collect_res (\<lambda>(s, run). bind_res (encode_validation_delta run n) (\<lambda>bs. Ok (s, bs)))
      (shard_runs us) = Inr shards"
    by (auto simp: encode_sharded_validation_delta_def res_simps Let_def)
  have d: "distinct (map fst (shard_runs us))"
    using shard_runs_sorted [OF sorted keys] strict_sorted_iff by blast
  with runs_lookup(1) [OF c] show "distinct (map fst shards)" by simp
  have small: "length run \<le> 2 ^ 24" if "(s, run) \<in> set (shard_runs us)" for s run
  proof -
    have "map_of (shard_runs us) s = Some run" using d that by (simp add: map_of_is_SomeI)
    from runs_lookup(3) [OF c this] obtain bs where bs: "encode_validation_delta run n = Inr bs" by blast
    have "\<forall>k \<in> fst ` set run. valid_key k" using shard_runs_shape [OF that] keys by auto
    from encoded_parts(1) [OF bs this] encode_layout(3) [OF bs] show ?thesis
      by (simp add: record_too_large_def max_validation_delta_record_bytes_def data_start_of_def)
  qed
  have "set (map fst (shard_runs us)) \<subseteq> word_of_nat ` {..<16}"
  proof
    fix s assume "s \<in> set (map fst (shard_runs us))"
    then obtain run where "(s, run) \<in> set (shard_runs us)" by auto
    from shard_runs_shape [OF this] shard_small have "unat s < 16" by (cases run) auto
    then show "s \<in> word_of_nat ` {..<16}" by (intro image_eqI [of _ _ "unat s"]) auto
  qed
  then have "card (set (map fst (shard_runs us))) \<le> 16"
    by (metis card_image_le card_mono finite_imageI finite_lessThan card_lessThan le_trans)
  with d have "length (shard_runs us) \<le> 16" by (metis distinct_card length_map)
  moreover have "length us \<le> length (shard_runs us) * 2 ^ 24"
  proof -
    have "length us = sum_list (map (length \<circ> snd) (shard_runs us))"
      by (metis concat_shard_runs length_concat map_map)
    also have "\<dots> \<le> sum_list (map (\<lambda>_. 2 ^ 24) (shard_runs us))"
      by (rule sum_list_mono) (use small in fastforce)
    finally show ?thesis by (simp add: sum_list_triv)
  qed
  ultimately show "length us < 2 ^ 29" by (simp add: order_le_less_trans)
qed

text \<open>The database after a row is written at a height that had none.\<close>

definition with_row :: "u32 \<Rightarrow> bytes \<Rightarrow> (u8 \<times> bytes) list \<Rightarrow> bytes \<Rightarrow> u32 \<Rightarrow> bytes \<Rightarrow> chain_db \<Rightarrow> chain_db" where
  "with_row h manifest shards bloom g group_bloom db = db\<lparr>
     db_deltas := fmupd h manifest (db_deltas db),
     db_shards := fold (\<lambda>(shard, bs). fmupd (validation_delta_shard_key h shard) bs) shards (db_shards db),
     db_row_blooms := fmupd h bloom (db_row_blooms db),
     db_group_blooms := fmupd g group_bloom (db_group_blooms db)\<rparr>"

lemma write_delta_rows_Inr:
  "write_delta_rows h manifest shards bloom g gb db = Inr (u, db') \<longleftrightarrow>
     fmlookup (db_deltas db) h = None \<and> db' = with_row h manifest shards bloom g gb db"
  by (auto simp: write_delta_rows_def with_row_def)

lemma with_row_other:
  assumes "distinct (map fst shards)" "h' \<noteq> h"
  shows "decode_row_at (with_row h manifest shards bloom g gb db) h' = decode_row_at db h'"
    "fmlookup (db_row_blooms (with_row h manifest shards bloom g gb db)) h' = fmlookup (db_row_blooms db) h'"
proof -
  have "load_shard (with_row h manifest shards bloom g gb db) h' = load_shard db h'"
    using assms by (simp add: load_shard_def with_row_def fold_shards_lookup fun_eq_iff)
  then show "decode_row_at (with_row h manifest shards bloom g gb db) h' = decode_row_at db h'"
    using assms(2) by (simp add: decode_row_at_def load_delta_def with_row_def)
  show "fmlookup (db_row_blooms (with_row h manifest shards bloom g gb db)) h' = fmlookup (db_row_blooms db) h'"
    using assms(2) by (simp add: with_row_def)
qed

lemma with_row_this:
  assumes enc: "encode_sharded_validation_delta us n = Inr (manifest, shards)"
    and sorted: "sorted_wrt (<) (map fst us)" and keys: "\<forall>k \<in> fst ` set us. valid_key k"
  shows "decode_row_at (with_row h manifest shards bloom g gb db) h = Inr (n, us)"
proof -
  have "load_shard (with_row h manifest shards bloom g gb db) h s = Inr bs" if "map_of shards s = Some bs" for s bs
    using that encode_sharded_shards(1) [OF assms] by (simp add: load_shard_def with_row_def fold_shards_lookup)
  from decode_sharded_encode [OF assms this] show ?thesis
    by (simp add: decode_row_at_def load_delta_def with_row_def)
qed

lemma row_updates_frame:
  "decode_row_at db' (jr_height row) = decode_row_at db (jr_height row) \<Longrightarrow> row_updates db' row = row_updates db row"
  by (simp add: row_updates_def)

lemma row_holds_frame:
  assumes "decode_row_at db' (jr_height row) = decode_row_at db (jr_height row)"
    "fmlookup (db_row_blooms db') (jr_height row) = fmlookup (db_row_blooms db) (jr_height row)"
  shows "row_holds sha db' row n = row_holds sha db row n"
  unfolding row_holds_def row_updates_frame [OF assms(1)] assms ..

text \<open>The tables a journal rests on.\<close>

lemma decode_row_at_tables:
  "db_deltas db' = db_deltas db \<Longrightarrow> db_shards db' = db_shards db \<Longrightarrow> decode_row_at db' = decode_row_at db"
  unfolding decode_row_at_def load_delta_def load_shard_def fun_eq_iff by simp

definition same_journal :: "chain_db \<Rightarrow> chain_db \<Rightarrow> bool" where
  "same_journal db' db \<longleftrightarrow> db_deltas db' = db_deltas db \<and> db_shards db' = db_shards db
     \<and> db_row_blooms db' = db_row_blooms db \<and> db_group_blooms db' = db_group_blooms db"

lemma same_journal_holds:
  assumes "same_journal db' db"
  shows "row_updates db' = row_updates db" "row_holds sha db' = row_holds sha db"
    "groups_hold sha db' j = groups_hold sha db j" "decode_row_at db' = decode_row_at db"
proof -
  show d: "decode_row_at db' = decode_row_at db" 
    by (rule decode_row_at_tables) (use assms in \<open>simp_all add: same_journal_def\<close>)
  then show u: "row_updates db' = row_updates db" by (simp add: row_updates_def fun_eq_iff)
  show "row_holds sha db' = row_holds sha db"
    using assms by (simp add: row_holds_def d u fun_eq_iff same_journal_def)
  show "groups_hold sha db' j = groups_hold sha db j"
    using assms by (simp add: groups_hold_def u same_journal_def)
qed

section \<open>The rest of a batch transaction\<close>

lemma insert_batch_undos_frame:
  assumes "insert_batch_undos options ts db = Inr ((), db')"
  shows "\<exists>u. db' = db\<lparr>db_undos := u\<rparr>"
proof -
  have "tx_each (\<lambda>t. in_undos (f t)) ts db = Inr ((), db') \<Longrightarrow> \<exists>u. db' = db\<lparr>db_undos := u\<rparr>"
    for f :: "connect_transition \<Rightarrow> undo_tables \<Rightarrow> undo_store_error + (unit \<times> undo_tables)" and db
  proof (induction ts arbitrary: db)
    case (Cons t ts)
    then obtain u where "tx_each (\<lambda>t. in_undos (f t)) ts (db\<lparr>db_undos := u\<rparr>) = Inr ((), db')"
      by (auto simp: res_simps)
    from Cons.IH [OF this] show ?case by auto
  qed (auto intro: exI [of _ "db_undos db'"])
  then show ?thesis
    using assms by (auto simp: insert_batch_undos_def split: if_splits intro: exI [of _ "db_undos db'"])
qed

lemma advance_batch_frame:
  assumes "advance_batch ts db = Inr ((), db')" "ts \<noteq> []"
  shows "\<exists>m. db' = db\<lparr>db_meta := m\<rparr>" "read_tip (db_meta db') = Inr (ct_next (last ts))"
    "tip_height (ct_next (hd ts)) \<le> tip_height (ct_next (last ts))"
    "\<exists>t. read_tip (db_meta db) = Inr t \<and> tip_hash t = ct_expected_parent (hd ts)
       \<and> unat (tip_height (ct_next (last ts))) = unat (tip_height t) + length ts"
proof -
  have "(\<exists>m. db' = db\<lparr>db_meta := m\<rparr>) \<and> read_tip (db_meta db') = Inr (ct_next (last ts))
    \<and> tip_height (ct_next (hd ts)) \<le> tip_height (ct_next (last ts))
    \<and> (\<exists>t. read_tip (db_meta db) = Inr t \<and> tip_hash t = ct_expected_parent (hd ts)
         \<and> unat (tip_height (ct_next (last ts))) = unat (tip_height t) + length ts)"
    using assms
  proof (induction ts arbitrary: db)
    case (Cons t ts)
    from Cons.prems(1) obtain m where
      a: "advance_transaction (ct_expected_parent t) (ct_next t) (db_meta db) = Inr ((), m)"
      and b: "advance_batch ts (db\<lparr>db_meta := m\<rparr>) = Inr ((), db')"
      by (auto simp: advance_batch_def res_simps)
    from a obtain cur where cur: "read_tip (db_meta db) = Inr cur" "tip_hash cur = ct_expected_parent t"
      by (auto simp: advance_transaction_def res_simps split: if_splits)
    from advance_rewind_transaction [OF _ cur(1), of "ct_next t" m] a cur(2)
    have m: "read_tip m = Inr (ct_next t)" "unat (tip_height (ct_next t)) = Suc (unat (tip_height cur))"
      by (auto simp: checked_arith)
    show ?case
    proof (cases "ts = []")
      case True
      with b m cur show ?thesis by (auto simp: advance_batch_def)
    next
      case False
      from Cons.IH [OF b False] m cur False show ?thesis
        by (auto simp: word_le_nat_alt)
    qed
  qed simp
  then show "\<exists>m. db' = db\<lparr>db_meta := m\<rparr>" "read_tip (db_meta db') = Inr (ct_next (last ts))"
    "tip_height (ct_next (hd ts)) \<le> tip_height (ct_next (last ts))"
    "\<exists>t. read_tip (db_meta db) = Inr t \<and> tip_hash t = ct_expected_parent (hd ts)
       \<and> unat (tip_height (ct_next (last ts))) = unat (tip_height t) + length ts"
    by blast+
qed

lemma insert_undos_stored:
  assumes "tx_each (\<lambda>t. in_undos (undo_insert_transaction (tip_hash (ct_next t)) (ct_transaction_undos t))) ts db
      = Inr ((), db')" "\<forall>t \<in> set ts. \<forall>u \<in> set (ct_transaction_undos t). undo_wf u"
  shows "\<forall>t \<in> set ts. undo_get (db_undos db') (tip_hash (ct_next t)) = Inr (Some (ct_transaction_undos t))"
    "\<forall>h us. undo_get (db_undos db) h = Inr (Some us) \<longrightarrow> undo_get (db_undos db') h = Inr (Some us)"
proof -
  have "(\<forall>t \<in> set ts. undo_get (db_undos db') (tip_hash (ct_next t)) = Inr (Some (ct_transaction_undos t)))
    \<and> (\<forall>h us. undo_get (db_undos db) h = Inr (Some us) \<longrightarrow> undo_get (db_undos db') h = Inr (Some us))"
    using assms
  proof (induction ts arbitrary: db)
    case (Cons t ts)
    from Cons.prems(1) obtain u where
      i: "undo_insert_transaction (tip_hash (ct_next t)) (ct_transaction_undos t) (db_undos db) = Inr ((), u)"
      and r: "tx_each (\<lambda>t. in_undos (undo_insert_transaction (tip_hash (ct_next t)) (ct_transaction_undos t))) ts
        (db\<lparr>db_undos := u\<rparr>) = Inr ((), db')"
      by (auto simp: res_simps)
    from i obtain bs where bs: "encode_block_undo (ct_transaction_undos t) = Inr bs"
      and n: "fmlookup (block_undos (db_undos db)) (hash_to_bytes (tip_hash (ct_next t))) = None"
      and u: "u = (db_undos db)\<lparr>block_undos := fmupd (hash_to_bytes (tip_hash (ct_next t))) bs (block_undos (db_undos db))\<rparr>"
      by (auto simp: undo_insert_transaction_def res_simps split: if_splits)
    have wf: "\<forall>u \<in> set (ct_transaction_undos t). undo_wf u" using Cons.prems(2) by simp
    have here: "undo_get u (tip_hash (ct_next t)) = Inr (Some (ct_transaction_undos t))"
      using decode_encode_block_undo [OF bs wf] by (simp add: undo_get_def u transpose_res_def)
    have keep: "undo_get u h = Inr (Some us)" if "undo_get (db_undos db) h = Inr (Some us)" for h us
      using that n by (auto simp: undo_get_def u transpose_res_def split: option.splits)
    from Cons.IH [OF r] Cons.prems(2) here keep show ?case by simp
  qed simp
  then show "\<forall>t \<in> set ts. undo_get (db_undos db') (tip_hash (ct_next t)) = Inr (Some (ct_transaction_undos t))"
    "\<forall>h us. undo_get (db_undos db) h = Inr (Some us) \<longrightarrow> undo_get (db_undos db') h = Inr (Some us)"
    by blast+
qed

lemma ages_ok_frame:
  assumes "ages_ok db" "db_spent_ages db' = db_spent_ages db" "db_spent_age_meta db' = db_spent_age_meta db"
  shows "ages_ok db'"
  using assms(1) unfolding ages_ok_def assms(2,3) .

text \<open>
  What every committed batch leaves besides the coins: the tip of its last block, one block after
  another from the old tip, and the undo of each block where the store retains it.
\<close>

definition batch_recorded :: "chain_store_options \<Rightarrow> connect_transition list \<Rightarrow> chain_db \<Rightarrow> chain_db \<Rightarrow> bool" where
  "batch_recorded options ts db db' \<longleftrightarrow>
     read_tip (db_meta db') = Inr (ct_next (last ts))
     \<and> (\<exists>t. read_tip (db_meta db) = Inr t \<and> tip_hash t = ct_expected_parent (hd ts)
          \<and> unat (tip_height (ct_next (last ts))) = unat (tip_height t) + length ts)
     \<and> (opt_retain_block_undo options \<longrightarrow>
          (\<forall>t \<in> set ts. undo_get (db_undos db') (tip_hash (ct_next t)) = Inr (Some (ct_transaction_undos t))))"

lemma batch_tail:
  assumes run: "tx_bind (insert_batch_undos options ts) (\<lambda>_. tx_bind (advance_batch ts) (\<lambda>_.
      connect_spent_ages_transaction counts (tip_height (ct_next (hd ts))) (tip_height (ct_next (last ts))))) db
      = Inr ((), db')"
    and ts: "ts \<noteq> []" "\<forall>t \<in> set ts. \<forall>u \<in> set (ct_transaction_undos t). undo_wf u"
    and counts: "batch_age_counts ts = Inr counts"
  obtains u m a b where "db' = db\<lparr>db_undos := u, db_meta := m, db_spent_ages := a, db_spent_age_meta := b\<rparr>"
    "batch_recorded options ts db db'" "ages_ok db \<longrightarrow> ages_ok db'"
proof -
  from run obtain db1 db2 where 1: "insert_batch_undos options ts db = Inr ((), db1)"
    and 2: "advance_batch ts db1 = Inr ((), db2)"
    and 3: "connect_spent_ages_transaction counts (tip_height (ct_next (hd ts))) (tip_height (ct_next (last ts))) db2
      = Inr ((), db')" by (auto simp: res_simps)
  obtain u where u: "db1 = db\<lparr>db_undos := u\<rparr>" using insert_batch_undos_frame [OF 1] by blast
  obtain m where m: "db2 = db1\<lparr>db_meta := m\<rparr>" using advance_batch_frame(1) [OF 2 ts(1)] by blast
  obtain a b where ab: "db' = db2\<lparr>db_spent_ages := a, db_spent_age_meta := b\<rparr>"
    using connect_ages_frame [OF 3] by blast
  have undos: "opt_retain_block_undo options \<longrightarrow>
      (\<forall>t \<in> set ts. undo_get u (tip_hash (ct_next t)) = Inr (Some (ct_transaction_undos t)))"
    using insert_undos_stored(1) [OF _ ts(2), of db db1] 1 by (auto simp: insert_batch_undos_def u)
  have "db' = db\<lparr>db_undos := u, db_meta := m, db_spent_ages := a, db_spent_age_meta := b\<rparr>"
    by (simp add: ab m u)
  moreover have "batch_recorded options ts db db'"
    using advance_batch_frame(2,4) [OF 2 ts(1)] undos by (simp add: batch_recorded_def ab m u)
  moreover have "ages_ok db'" if "ages_ok db"
  proof (rule connect_ages_ok [OF _ _ 3 advance_batch_frame(3) [OF 2 ts(1)]])
    show "ages_ok db2" by (rule ages_ok_frame [OF that]) (simp_all add: m u)
    show "\<forall>a. fmlookup counts a \<noteq> Some 0"
      using counts by (auto simp: batch_age_counts_def dest: spent_age_counts_positive)
  qed
  ultimately show ?thesis using that by blast
qed

text \<open>An operation that either reports an error and changes nothing, or reaches \<open>Q\<close>; it never panics.\<close>

definition all_or_nothing :: "'s \<Rightarrow> ('a \<Rightarrow> 's \<Rightarrow> bool) \<Rightarrow> ('e + 'a) \<times> 's \<Rightarrow> bool" where
  "all_or_nothing s Q out \<longleftrightarrow> (case fst out of Inl _ \<Rightarrow> snd out = s | Inr x \<Rightarrow> Q x (snd out))"

definition commits_to :: "'s \<Rightarrow> ('a \<Rightarrow> 's \<Rightarrow> bool) \<Rightarrow> ('s, 'e, 'a) pst \<Rightarrow> bool" where
  "commits_to s Q m \<longleftrightarrow> (\<exists>out. m s = Some out \<and> all_or_nothing s Q out)"

lemma commits_to_lift:
  "(\<And>x. r = Inr x \<Longrightarrow> commits_to s Q (f x)) \<Longrightarrow> commits_to s Q (pst_bind (pst_lift (map_err g r)) f)"
  by (cases r) (auto simp: commits_to_def pst_bind_def all_or_nothing_def)

lemma commits_to_expect:
  "v = Some x \<Longrightarrow> commits_to s Q (f x) \<Longrightarrow> commits_to s Q (pst_bind (pst_expect v) f)"
  by (auto simp: commits_to_def pst_bind_def)

lemma commits_to_tx:
  assumes "\<And>x db. body (cs_db s) = Inr (x, db) \<Longrightarrow> \<exists>y s'. f x (s\<lparr>cs_db := db\<rparr>) = Some (Inr y, s') \<and> Q y s'"
  shows "commits_to s Q (pst_bind (pst_of id (commit_tx body)) f)"
proof (cases "body (cs_db s)")
  case (Inl e)
  then show ?thesis by (auto simp: commits_to_def pst_bind_def pst_of_def commit_tx_def all_or_nothing_def)
next
  case (Inr r)
  obtain x db where r: "r = (x, db)" by force
  from assms [of x db] Inr r show ?thesis
    by (auto simp: commits_to_def pst_bind_def pst_of_def commit_tx_def all_or_nothing_def)
qed

lemma commits_to_tx_end:
  assumes "\<And>x db. body (cs_db s) = Inr (x, db) \<Longrightarrow> Q x (s\<lparr>cs_db := db\<rparr>)"
  shows "commits_to s Q (pst_of id (commit_tx body))"
  using assms by (cases "body (cs_db s)")
    (auto simp: commits_to_def pst_of_def commit_tx_def all_or_nothing_def)

subsection \<open>Appending a row to the journal\<close>

lemma group_rows_append:
  "16 * (g + 1) \<le> length (jn_rows j) \<Longrightarrow> group_rows (j\<lparr>jn_groups := gs, jn_rows := jn_rows j @ [r], jn_utxo_count := n\<rparr>) g = group_rows j g"
  "length (jn_rows j) = 16 * g + i \<Longrightarrow> i < 16 \<Longrightarrow>
     group_rows (j\<lparr>jn_groups := gs, jn_rows := jn_rows j @ [r], jn_utxo_count := n\<rparr>) g = group_rows j g @ [r]"
  by (simp_all add: group_rows_eq)

lemma group_rows_subset: "set (group_rows j g) \<subseteq> set (jn_rows j)"
  by (auto simp: group_rows_eq dest!: in_set_takeD in_set_dropD)

lemma div_ceil_16: "i < 16 \<Longrightarrow> div_ceil (16 * q + i) 16 = (if i = 0 then q else q + 1)"
  unfolding div_ceil_def by (auto intro: div_nat_eqI)

text \<open>The group filter a batch extends: a new one every sixteen rows, the newest otherwise.\<close>

definition open_aggregate :: "validation_journal \<Rightarrow> validation_bloom \<Rightarrow> bool" where
  "open_aggregate j b \<longleftrightarrow>
     (if length (jn_rows j) mod validation_rows_per_bloom_group = 0
      then with_update_count validation_group_bloom_updates = Inr b
      else jn_groups j \<noteq> [] \<and> b = last (jn_groups j))"

definition extend_groups :: "validation_journal \<Rightarrow> validation_bloom \<Rightarrow> validation_bloom list" where
  "extend_groups j b =
     (if length (jn_rows j) mod validation_rows_per_bloom_group = 0 then jn_groups j @ [b]
      else butlast (jn_groups j) @ [b])"

lemma groups_hold_append:
  assumes gs: "groups_hold sha db j" and agg: "open_aggregate j b"
    and upd: "updated = fold bloom_insert (map fst us) b"
    and enc: "encode_validation_bloom sha updated 0 = Some bs"
    and idx: "length (jn_rows j) div 16 < 2 ^ 32"
    and same: "\<forall>row \<in> set (jn_rows j). row_updates db' row = row_updates db row" and new: "row_updates db' r = us"
    and tab: "db_group_blooms db' = fmupd (word_of_nat (length (jn_rows j) div 16)) bs (db_group_blooms db)"
  shows "groups_hold sha db' (j\<lparr>jn_groups := extend_groups j updated, jn_rows := jn_rows j @ [r], jn_utxo_count := n\<rparr>)"
proof -
  let ?j = "j\<lparr>jn_groups := extend_groups j updated, jn_rows := jn_rows j @ [r], jn_utxo_count := n\<rparr>"
  obtain q i where L: "length (jn_rows j) = 16 * q + i" "i < 16"
    using mult_div_mod_eq [of 16 "length (jn_rows j)", symmetric] by (metis mod_less_divisor zero_less_numeral)
  then have dm: "length (jn_rows j) div 16 = q" "length (jn_rows j) mod 16 = i" by simp_all
  have len: "length (jn_groups j) = (if i = 0 then q else q + 1)"
    using gs by (simp add: groups_hold_def validation_rows_per_bloom_group_def L div_ceil_16)
  have map_same: "map (map fst \<circ> row_updates db') (group_rows j g) = map (map fst \<circ> row_updates db) (group_rows j g)" for g
    using same group_rows_subset [of j g] by (intro map_cong) auto
  have old: "\<exists>b bs. with_update_count validation_group_bloom_updates = Inr b
        \<and> jn_groups j ! g = fold bloom_insert (concat (map (map fst \<circ> row_updates db') (group_rows j g))) b
        \<and> encode_validation_bloom sha (jn_groups j ! g) 0 = Some bs
        \<and> fmlookup (db_group_blooms db) (word_of_nat g) = Some bs" if "g < length (jn_groups j)" for g
    unfolding map_same using gs that by (simp add: groups_hold_def)
  have at_q: "group_rows ?j q = group_rows j q @ [r]" by (rule group_rows_append(2) [OF L])
  have last_group: "\<exists>b0. with_update_count validation_group_bloom_updates = Inr b0
      \<and> updated = fold bloom_insert (concat (map (map fst \<circ> row_updates db') (group_rows j q @ [r]))) b0"
  proof (cases "i = 0")
    case True
    then have "group_rows j q = []" by (simp add: group_rows_eq L)
    then show ?thesis
      using agg True upd new by (auto simp: open_aggregate_def validation_rows_per_bloom_group_def dm)
  next
    case False
    then have q: "q < length (jn_groups j)" and b: "b = jn_groups j ! q"
      using agg len by (auto simp: open_aggregate_def validation_rows_per_bloom_group_def last_conv_nth dm)
    from old [OF q] show ?thesis by (auto simp: upd new b)
  qed
  have nth: "extend_groups j updated ! g = (if g = q then updated else jn_groups j ! g)" if "g \<le> q" for g
    using that len
    by (auto simp: extend_groups_def validation_rows_per_bloom_group_def dm nth_append nth_butlast)
  have len': "length (extend_groups j updated) = q + 1"
    using len by (auto simp: extend_groups_def validation_rows_per_bloom_group_def dm)
  have "length (extend_groups j updated) = div_ceil (16 * q + i + 1) 16"
    unfolding len' div_ceil_def using L(2) by (intro div_nat_eqI [symmetric]) auto
  moreover have "\<exists>b bs. with_update_count validation_group_bloom_updates = Inr b
        \<and> extend_groups j updated ! g = fold bloom_insert (concat (map (map fst \<circ> row_updates db') (group_rows ?j g))) b
        \<and> encode_validation_bloom sha (extend_groups j updated ! g) 0 = Some bs
        \<and> fmlookup (db_group_blooms db') (word_of_nat g) = Some bs" if "g < q + 1" for g
  proof (cases "g = q")
    case True
    then have "extend_groups j updated ! g = updated" "fmlookup (db_group_blooms db') (word_of_nat g) = Some bs"
      using nth [of q] by (simp_all add: tab dm)
    with last_group enc show ?thesis unfolding True at_q by metis
  next
    case False
    with that have g: "g < q" by simp
    then have "g < length (jn_groups j)" using len by auto
    note old [OF this]
    moreover have "group_rows ?j g = group_rows j g" by (rule group_rows_append(1)) (use g L(1) in simp)
    moreover have "unat (word_of_nat q :: u32) = q" "unat (word_of_nat g :: u32) = g"
      using g idx unfolding dm by (simp_all add: unat_word_of_nat_u32)
    then have "(word_of_nat g :: u32) \<noteq> word_of_nat q" using g by (metis less_irrefl)
    moreover have "extend_groups j updated ! g = jn_groups j ! g" using nth [of g] g by simp
    ultimately show ?thesis by (simp add: tab dm)
  qed
  moreover have "q + 1 \<le> 2 ^ 32" using idx unfolding dm by simp
  ultimately show ?thesis using len' L by (simp add: groups_hold_def validation_rows_per_bloom_group_def)
qed

lemma updates_ok_fold:
  assumes t: "transition_ok v spent created" and sorted: "sorted_wrt (<) spent" "sorted_wrt (<) (map fst created)"
    and rows: "\<forall>r \<in> set created. row_ok r" and v: "coins_ok v"
  shows "updates_ok v (fold_validation_updates spent created)"
    "upd_view v (fold_validation_updates spent created) = coins_after v spent created"
proof -
  let ?us = "fold_validation_updates spent created"
  note look = fold_validation_updates_lookup [OF sorted]
  have dist: "distinct (map fst ?us)"
    using fold_validation_updates_sorted [OF sorted] strict_sorted_iff by blast
  have "valid_key k \<and> (spent_in_batch u \<longleftrightarrow> v k \<noteq> None) \<and> (\<forall>coin. upd_utxo u = Some coin \<longrightarrow> row_ok (k, coin))"
    if "(k, u) \<in> set ?us" for k u
  proof -
    from that dist have "map_of ?us k = Some u" by simp
    then have k: "k \<in> set spent \<or> k \<in> fst ` set created"
      and u: "u = \<lparr>spent_in_batch = (k \<in> set spent), upd_utxo = map_of created k\<rparr>"
      by (auto simp: look split: if_splits)
    have c: "row_ok (k, coin)" if "map_of created k = Some coin" for coin
      using rows map_of_SomeD [OF that] by blast
    have "valid_key k" using k
    proof
      assume "k \<in> set spent"
      then show ?thesis using t v by (auto simp: transition_ok_def coins_ok_def row_ok_def)
    next
      assume "k \<in> fst ` set created"
      then show ?thesis using rows by (auto simp: row_ok_def)
    qed
    moreover have "k \<in> set spent \<longleftrightarrow> v k \<noteq> None" using k t unfolding transition_ok_def by metis
    ultimately show ?thesis using c by (simp add: u)
  qed
  then show "updates_ok v ?us"
    using fold_validation_updates_sorted [OF sorted] by (auto simp: updates_ok_def)
  show "upd_view v ?us = coins_after v spent created"
  proof
    fix k
    show "upd_view v ?us k = coins_after v spent created k"
      using map_of_eq_None_iff [of created k]
      by (cases "map_of created k") (auto simp: upd_view_def look coins_after_def map_add_def restrict_map_def)
  qed
qed

lemma transition_card:
  assumes t: "transition_ok v spent created" and "distinct spent" "distinct (map fst created)" "finite (dom v)"
  shows "card (dom (coins_after v spent created)) + length spent = card (dom v) + length created"
proof -
  let ?c = "fst ` set created"
  have d: "dom (coins_after v spent created) = (dom v - set spent) \<union> ?c"
    by (auto simp: coins_after_def map_add_def restrict_map_def dom_def map_of_eq_None_iff
        split: option.splits if_splits)
  have disj: "(dom v - set spent) \<inter> ?c = {}" using t by (fastforce simp: transition_ok_def)
  have sub: "set spent \<subseteq> dom v" using t by (auto simp: transition_ok_def)
  have "card (dom (coins_after v spent created)) = card (dom v - set spent) + card ?c"
    unfolding d using assms(4) disj by (simp add: card_Un_disjoint)
  moreover have "card ?c = length created" using assms(3) by (metis distinct_card length_map set_map)
  moreover have "card (dom v - set spent) = card (dom v) - length spent"
    using sub assms(2) by (simp add: card_Diff_subset distinct_card)
  moreover have "length spent \<le> card (dom v)"
    using card_mono [OF assms(4) sub] assms(2) by (simp add: distinct_card)
  ultimately show ?thesis by simp
qed

lemma upd_view_ok: "updates_ok v us \<Longrightarrow> coins_ok v \<Longrightarrow> coins_ok (upd_view v us)"
  by (fastforce simp: coins_ok_def updates_ok_def upd_view_def split: option.splits dest!: map_of_SomeD)

lemma deltas_view_ok: "deltas_ok v uss \<Longrightarrow> coins_ok v \<Longrightarrow> coins_ok (deltas_view v uss)"
  by (induction uss arbitrary: v) (auto simp: upd_view_ok)

lemma finite_upd_view: "finite (dom v) \<Longrightarrow> finite (dom (upd_view v us))"
  by (rule finite_subset [of _ "dom v \<union> fst ` set us"])
     (auto simp: upd_view_def split: option.splits dest!: map_of_SomeD, force)

lemma finite_deltas_view: "finite (dom v) \<Longrightarrow> finite (dom (deltas_view v uss))"
  by (induction uss arbitrary: v) (auto simp: finite_upd_view)

lemma chain_view_ok:
  assumes "chain_inv sha s"
  shows "coins_ok (chain_view s)" "finite (dom (chain_view s))"
  using assms
  by (auto simp: chain_view_def chain_inv_def journal_inv_def store_coins_ok finite_store_view
      intro!: deltas_view_ok finite_deltas_view split: option.splits)

lemma with_row_updates:
  assumes enc: "encode_sharded_validation_delta us n = Inr (manifest, shards)" and upd: "updates_ok v us"
    and new: "\<forall>row \<in> set rows. jr_height row \<noteq> h"
    and same: "same_journal db' (with_row h manifest shards eb g eg db)"
  shows "\<forall>row \<in> set rows. row_updates db' row = row_updates db row \<and> row_holds sha db' row = row_holds sha db row"
    "row_updates db' \<lparr>jr_height = h, jr_bloom = b\<rparr> = us" "decode_row_at db' h = Inr (n, us)"
proof -
  have us: "sorted_wrt (<) (map fst us)" "\<forall>k \<in> fst ` set us. valid_key k"
    using upd by (auto simp: updates_ok_def)
  note here = with_row_this [OF enc us, of h eb g eg db]
  show "decode_row_at db' h = Inr (n, us)" using here by (simp add: same_journal_holds(4) [OF same])
  then show "row_updates db' \<lparr>jr_height = h, jr_bloom = b\<rparr> = us" by (simp add: row_updates_def)
  note other = with_row_other [OF encode_sharded_shards(1) [OF enc us]]
  show "\<forall>row \<in> set rows. row_updates db' row = row_updates db row \<and> row_holds sha db' row = row_holds sha db row"
    unfolding same_journal_holds [OF same]
  proof
    fix row assume "row \<in> set rows"
    with new have "jr_height row \<noteq> h" by simp
    note o = other [OF this, of manifest eb g eg db]
    show "row_updates (with_row h manifest shards eb g eg db) row = row_updates db row
        \<and> row_holds sha (with_row h manifest shards eb g eg db) row = row_holds sha db row"
      using row_updates_frame [OF o(1)] row_holds_frame [OF o] by blast
  qed
qed

lemma journal_append:
  assumes inv: "journal_inv sha db j" and enc: "encode_sharded_validation_delta us n = Inr (manifest, shards)"
    and upd: "updates_ok (deltas_view (store_view (db_utxos db)) (map (row_updates db) (jn_rows j))) us"
    and blooms: "with_update_count (length us) = Inr b" "encode_validation_bloom sha (fold bloom_insert (map fst us) b) n = Some eb"
    and groups: "open_aggregate j a" "encode_validation_bloom sha (fold bloom_insert (map fst us) a) 0 = Some eg"
      "length (jn_rows j) div 16 < 2 ^ 32"
    and db': "same_journal db' (with_row h manifest shards eb (word_of_nat (length (jn_rows j) div 16)) eg db)"
      "db_utxos db' = db_utxos db"
    and tip: "read_tip (db_meta db') = Inr t" "tip_height t = h" "\<forall>row \<in> set (jn_rows j). jr_height row < h"
  defines "j' \<equiv> j\<lparr>jn_groups := extend_groups j (fold bloom_insert (map fst us) a),
      jn_rows := jn_rows j @ [\<lparr>jr_height = h, jr_bloom = fold bloom_insert (map fst us) b\<rparr>], jn_utxo_count := n\<rparr>"
  shows "journal_inv sha db' j'"
    "map (row_updates db') (jn_rows j') = map (row_updates db) (jn_rows j) @ [us]"
proof -
  let ?r = "\<lparr>jr_height = h, jr_bloom = fold bloom_insert (map fst us) b\<rparr>"
  have new: "\<forall>row \<in> set (jn_rows j). jr_height row \<noteq> h" using tip(3) by auto
  note W = with_row_updates [OF enc upd new db'(1)]
  have us: "sorted_wrt (<) (map fst us)" "\<forall>k \<in> fst ` set us. valid_key k" using upd by (auto simp: updates_ok_def)
  show m: "map (row_updates db') (jn_rows j') = map (row_updates db) (jn_rows j) @ [us]"
    using W(1,2) by (simp add: j'_def)
  from inv obtain ns where ns: "list_all2 (row_holds sha db) (jn_rows j) ns" by (auto simp: journal_inv_def)
  have tabs: "db_deltas db' = fmupd h manifest (db_deltas db)" "db_row_blooms db' = fmupd h eb (db_row_blooms db)"
    "db_group_blooms db' = fmupd (word_of_nat (length (jn_rows j) div 16)) eg (db_group_blooms db)"
    using db'(1) by (simp_all add: same_journal_def with_row_def)
  have "row_holds sha db' ?r n"
    using W(2,3) blooms encode_sharded_shards(2) [OF enc us] by (simp add: row_holds_def tabs)
  moreover have "list_all2 (row_holds sha db') (jn_rows j) ns"
    using ns W(1) by (auto simp: list_all2_conv_all_nth)
  ultimately have "\<exists>ns. list_all2 (row_holds sha db') (jn_rows j') ns \<and> (ns \<noteq> [] \<longrightarrow> jn_utxo_count j' = last ns)"
    by (intro exI [of _ "ns @ [n]"]) (simp add: j'_def list_all2_appendI)
  moreover have "groups_hold sha db' j'"
    unfolding j'_def
    by (rule groups_hold_append [OF _ groups(1) refl groups(2,3) _ W(2) tabs(3)])
       (use inv W(1) in \<open>auto simp: journal_inv_def\<close>)
  moreover have "sorted_wrt (<) (map jr_height (jn_rows j'))"
    using inv tip(3) by (simp add: j'_def journal_inv_def sorted_wrt_append)
  moreover have "\<exists>t. read_tip (db_meta db') = Inr t \<and> jr_height (last (jn_rows j')) = tip_height t"
    using tip by (simp add: j'_def)
  moreover have "fset (fmdom (db_deltas db')) = jr_height ` set (jn_rows j')"
    using inv by (simp add: journal_inv_def tabs j'_def)
  moreover have "deltas_ok (store_view (db_utxos db')) (map (row_updates db') (jn_rows j'))"
    using inv upd by (simp add: m db'(2) deltas_ok_append journal_inv_def)
  ultimately show "journal_inv sha db' j'" by (simp add: journal_inv_def)
qed

lemma chain_view_journal:
  "cs_journal s = Some j \<Longrightarrow>
     chain_view s = deltas_view (store_view (db_utxos (cs_db s))) (map (row_updates (cs_db s)) (jn_rows j))"
  by (simp add: chain_view_def)

lemma encode_bloom_Some:
  assumes "with_update_count n = Inr b" "n < 2 ^ 29"
  shows "\<exists>bs. encode_validation_bloom sha (fold bloom_insert ks b) m = Some bs"
proof -
  have "div_ceil (n * 10) 8 < 2 ^ 32" using assms(2) by (simp add: div_ceil_def div_less_iff_less_mult)
  then have "length (bloom_bits b) < 2 ^ 32"
    using assms(1) by (auto simp: with_update_count_def validation_bloom_byte_count_def res_simps checked_arith
        validation_bloom_bits_per_update_def)
  then show ?thesis by (simp add: encode_validation_bloom_def u32_try_from_def)
qed

lemma groups_encode_Some:
  assumes "groups_hold sha db j" "g \<in> set (jn_groups j)"
  shows "\<exists>bs. encode_validation_bloom sha (fold bloom_insert ks g) m = Some bs"
proof -
  from assms obtain b ks' where "with_update_count validation_group_bloom_updates = Inr b" "g = fold bloom_insert ks' b"
    by (fastforce simp: groups_hold_def in_set_conv_nth)
  with encode_bloom_Some [of validation_group_bloom_updates b sha "ks' @ ks" m] show ?thesis
    by (simp add: validation_group_bloom_updates_def)
qed

definition batch_committed :: "(bytes \<Rightarrow> bytes) \<Rightarrow> connect_transition list \<Rightarrow> chain_store \<Rightarrow> coins \<Rightarrow> chain_store \<Rightarrow> bool" where
  "batch_committed sha ts s v s' \<longleftrightarrow> chain_inv sha s' \<and> chain_view s' = v
     \<and> batch_recorded (cs_options s) ts (cs_db s) (cs_db s') \<and> cs_options s' = cs_options s
     \<and> (count_exact s \<longrightarrow> count_exact s')"

lemma commits_to_cong: "m s = m' s \<Longrightarrow> commits_to s Q m = commits_to s Q m'"
  by (simp add: commits_to_def)

text \<open>The count kept with the journal stays the number of coins.\<close>

lemma next_count:
  assumes t: "transition_ok v spent created" and d: "distinct spent" "distinct (map fst created)" "finite (dom v)"
    and c: "card (dom v) = unat (c :: u64)" and small: "length spent < 2 ^ 64" "length created < 2 ^ 64"
    and n: "Option.bind (checked_sub c (word_of_nat (length spent))) (\<lambda>c. checked_add c (word_of_nat (length created))) = Some n"
  shows "card (dom (coins_after v spent created)) = unat n"
  using transition_card [OF t d] n c small
  by (auto simp: checked_arith bind_eq_Some_conv unat_of_nat take_bit_nat_eq_self unat_sub word_le_nat_alt)

lemma journal_committed:
  assumes inv: "chain_inv sha s" and j: "cs_journal s = Some j"
    and ts: "ts \<noteq> []" "\<forall>t \<in> set ts. \<forall>u \<in> set (ct_transaction_undos t). undo_wf u"
    and upd: "updates_ok (chain_view s) us"
    and ages: "batch_age_counts ts = Inr counts" and enc: "encode_sharded_validation_delta us n = Inr (manifest, shards)"
    and n: "count_exact s \<longrightarrow> card (dom (upd_view (chain_view s) us)) = unat n"
    and blooms: "with_update_count (length us) = Inr b" "encode_validation_bloom sha (fold bloom_insert (map fst us) b) n = Some eb"
    and groups: "open_aggregate j a" "encode_validation_bloom sha (fold bloom_insert (map fst us) a) 0 = Some eg"
      "u32_try_from (length (jn_rows j) div validation_rows_per_bloom_group) = Some g"
    and run: "tx_bind (write_delta_rows (tip_height (ct_next (last ts))) manifest shards eb g eg) (\<lambda>_.
        tx_bind (insert_batch_undos (cs_options s) ts) (\<lambda>_. tx_bind (advance_batch ts) (\<lambda>_.
          connect_spent_ages_transaction counts (tip_height (ct_next (hd ts))) (tip_height (ct_next (last ts))))))
        (cs_db s) = Inr (x, db)"
  shows "batch_committed sha ts s (upd_view (chain_view s) us) (s\<lparr>cs_db := db, cs_journal := Some (j\<lparr>
        jn_groups := extend_groups j (fold bloom_insert (map fst us) a),
        jn_rows := jn_rows j @ [\<lparr>jr_height = tip_height (ct_next (last ts)), jr_bloom = fold bloom_insert (map fst us) b\<rparr>],
        jn_utxo_count := n\<rparr>)\<rparr>)"
proof -
  let ?h = "tip_height (ct_next (last ts))" and ?db = "cs_db s"
  have jinv: "journal_inv sha ?db j" using inv j by (simp add: chain_inv_def)
  from run obtain db1 where w: "fmlookup (db_deltas ?db) ?h = None" "db1 = with_row ?h manifest shards eb g eg ?db"
    and rest: "tx_bind (insert_batch_undos (cs_options s) ts) (\<lambda>_. tx_bind (advance_batch ts) (\<lambda>_.
          connect_spent_ages_transaction counts (tip_height (ct_next (hd ts))) ?h)) db1 = Inr ((), db)"
    by (auto simp: tx_bind_Inr [of "write_delta_rows _ _ _ _ _ _"] write_delta_rows_Inr)
  obtain u m aa bb where
    db: "db = db1\<lparr>db_undos := u, db_meta := m, db_spent_ages := aa, db_spent_age_meta := bb\<rparr>"
    and rec: "batch_recorded (cs_options s) ts db1 db" and ok: "ages_ok db1 \<longrightarrow> ages_ok db"
    by (rule batch_tail [OF rest ts ages]) (rule that)
  have g: "g = word_of_nat (length (jn_rows j) div 16)" "length (jn_rows j) div 16 < 2 ^ 32"
    using groups(3) by (auto simp: checked_arith validation_rows_per_bloom_group_def)
  have meta: "db_meta db1 = db_meta ?db" by (simp add: w with_row_def)
  have rec': "batch_recorded (cs_options s) ts ?db db" using rec by (simp add: batch_recorded_def meta)
  then obtain t where t: "read_tip (db_meta ?db) = Inr t" "tip_height t < ?h" "read_tip (db_meta db) = Inr (ct_next (last ts))"
    using ts(1) by (auto simp: batch_recorded_def word_less_nat_alt)
  have less: "\<forall>row \<in> set (jn_rows j). jr_height row < ?h"
  proof
    fix row assume row: "row \<in> set (jn_rows j)"
    then have "jr_height row \<le> jr_height (last (jn_rows j))"
      using jinv by (cases "jn_rows j" rule: rev_cases) (auto simp: journal_inv_def sorted_wrt_append less_imp_le)
    moreover have "jr_height (last (jn_rows j)) = tip_height t" using jinv row t(1) by (auto simp: journal_inv_def)
    ultimately show "jr_height row < ?h" using t(2) by simp
  qed
  have same: "same_journal db (with_row ?h manifest shards eb (word_of_nat (length (jn_rows j) div 16)) eg ?db)"
    by (simp add: same_journal_def db w g(1))
  have ut: "db_utxos db = db_utxos ?db" by (simp add: db w with_row_def)
  note A = journal_append [OF jinv enc upd [unfolded chain_view_journal [OF j]] blooms groups(1,2) g(2) same ut t(3) refl less]
  let ?s = "s\<lparr>cs_db := db, cs_journal := Some (j\<lparr>
        jn_groups := extend_groups j (fold bloom_insert (map fst us) a),
        jn_rows := jn_rows j @ [\<lparr>jr_height = ?h, jr_bloom = fold bloom_insert (map fst us) b\<rparr>],
        jn_utxo_count := n\<rparr>)\<rparr>"
  have "chain_view ?s = deltas_view (store_view (db_utxos db)) (map (row_updates (cs_db s)) (jn_rows j) @ [us])"
    unfolding A(2) [symmetric] by (simp add: chain_view_def)
  then have view: "chain_view ?s = upd_view (chain_view s) us" by (simp add: chain_view_journal [OF j] ut)
  have "ages_ok ?db" using inv by (simp add: chain_inv_def)
  then have "ages_ok db1" by (rule ages_ok_frame) (simp_all add: w with_row_def)
  then have "chain_inv sha ?s" using inv A(1) unfolding chain_inv_def by (simp add: ok ut)
  moreover have "count_exact s \<longrightarrow> count_exact ?s" using n unfolding count_exact_def view by simp
  ultimately show ?thesis using rec' view by (simp add: batch_committed_def)
qed

lemma ok_or_Some: "ok_or v e = Inr x \<Longrightarrow> v = Some x"
  by (cases v) simp_all

lemma commit_validation_batch_ok:
  assumes inv: "chain_inv sha s" and j: "cs_journal s = Some j"
    and ts: "ts \<noteq> []" "\<forall>t \<in> set ts. \<forall>u \<in> set (ct_transaction_undos t). undo_wf u"
    and t: "transition_ok (chain_view s) spent created" and rows: "\<forall>r \<in> set created. row_ok r"
    and sorted: "sorted_wrt (<) spent" "sorted_wrt (<) (map fst created)"
  shows "commits_to s (\<lambda>_. batch_committed sha ts s (coins_after (chain_view s) spent created))
    (commit_validation_batch sha j ts spent created)"
proof -
  let ?us = "fold_validation_updates spent created"
  let ?starts = "length (jn_rows j) mod validation_rows_per_bloom_group = 0"
  note U = updates_ok_fold [OF t sorted rows chain_view_ok(1) [OF inv]]
  have us: "sorted_wrt (<) (map fst ?us)" "\<forall>k \<in> fst ` set ?us. valid_key k" using U(1) by (auto simp: updates_ok_def)
  have dist: "distinct spent" "distinct (map fst created)" "distinct (map fst ?us)"
    using sorted us(1) strict_sorted_iff by blast+
  have gs: "groups_hold sha (cs_db s) j" using inv j by (simp add: chain_inv_def journal_inv_def)
  have le: "length spent \<le> length ?us" "length created \<le> length ?us"
    using fold_validation_updates_keys [of spent created] dist
    by (metis (no_types, opaque_lifting) List.finite_set card_mono distinct_card length_map list.set_map sup_ge1 sup_ge2)+
  have aggregate: "commits_to s Q (pst_bind (if ?starts
        then pst_lift (map_err chain_store_error.Chain_Utxo (with_update_count validation_group_bloom_updates))
        else pst_expect (if jn_groups j = [] then None else Some (last (jn_groups j)))) f)"
    if "\<And>a. open_aggregate j a \<Longrightarrow> \<exists>eg. encode_validation_bloom sha (fold bloom_insert (map fst ?us) a) 0 = Some eg
      \<Longrightarrow> commits_to s Q (f a)"
    for Q :: "unit \<Rightarrow> chain_store \<Rightarrow> bool" and f :: "validation_bloom \<Rightarrow> (chain_store, chain_store_error, unit) pst"
  proof (cases ?starts)
    case True
    show ?thesis unfolding if_P [OF True]
      by (rule commits_to_lift, rule that)
         (use True in \<open>auto simp: open_aggregate_def validation_group_bloom_updates_def intro: encode_bloom_Some\<close>)
  next
    case False
    then have "length (jn_groups j) \<noteq> 0" using gs by (auto simp: groups_hold_def div_ceil_def validation_rows_per_bloom_group_def)
    then show ?thesis using False groups_encode_Some [OF gs last_in_set]
      by (auto intro!: commits_to_expect that simp: open_aggregate_def)
  qed
  have "commits_to s (\<lambda>_. batch_committed sha ts s (upd_view (chain_view s) ?us))
    (commit_validation_batch sha j ts spent created)"
    unfolding commits_to_def commit_validation_batch_def Let_def
    unfolding commits_to_def [symmetric]
  proof (rule commits_to_lift, rule commits_to_lift, rule commits_to_lift, goal_cases)
    case (1 counts n enc)
    obtain manifest shards where enc: "enc = (manifest, shards)" by force
    note counts = 1(1) and e = 1(3) [unfolded enc]
    have small: "length ?us < 2 ^ 29" by (rule encode_sharded_shards(2) [OF e us])
    have n: "count_exact s \<longrightarrow> card (dom (upd_view (chain_view s) ?us)) = unat n"
    proof
      assume "count_exact s"
      then have count: "card (dom (chain_view s)) = unat (jn_utxo_count j)" by (simp add: count_exact_def j)
      show "card (dom (upd_view (chain_view s) ?us)) = unat n"
        unfolding U(2) using next_count [OF t dist(1,2) chain_view_ok(2) [OF inv] count] small le 1(2)
        by (auto simp: ok_or_def split: option.splits)
    qed
    show ?case unfolding enc prod.case
    proof (rule commits_to_lift, rule aggregate, elim exE, goal_cases)
      case (1 b a eg)
      from encode_bloom_Some [OF 1(1) small] obtain eb where
        eb: "encode_validation_bloom sha (fold bloom_insert (map fst ?us) b) n = Some eb" by blast
      show ?case
        by (rule commits_to_expect [OF eb], rule commits_to_expect [OF 1(3)], rule commits_to_lift, rule commits_to_tx,
            intro exI conjI, rule refl,
            unfold extend_groups_def [symmetric] )
           (erule journal_committed [OF inv j ts U(1) counts e n 1(1) eb 1(2,3) ok_or_Some, rotated])
    qed
  qed
  then show ?thesis unfolding U(2) .
qed

lemma commit_connect_batch_ok:
  assumes inv: "chain_inv sha s" and run: "run_transitions (chain_view s) ts = Inr v"
    and ts: "ts \<noteq> []" "\<forall>t \<in> set ts. \<forall>u \<in> set (ct_transaction_undos t). undo_wf u"
      "\<forall>t \<in> set ts. \<forall>r \<in> set (ct_created t). row_ok r"
  shows "commits_to s (\<lambda>_. batch_committed sha ts s v) (commit_connect_batch sha ts)"
proof -
  from fold_transitions [OF folded_new run _ ts(3)] obtain spent created where
    f: "try_fold fold_transition ({||}, fmempty) ts = Inr (spent, created)" "folded (chain_view s) (spent, created) v"
    "\<forall>c u. fmlookup created c = Some u \<longrightarrow> row_ok (c, u)" by auto
  note F = folded_changes [OF f(2)]
  have rows: "\<forall>r \<in> set (fmap_entries created). row_ok r" using f(3) by (auto simp: set_fmap_entries)
  show ?thesis
  proof (cases "cs_journal s")
    case (Some j)
    from commit_validation_batch_ok [OF inv Some ts(1,2) F(1) rows F(3,4)] show ?thesis
      using ts(1) by (simp add: commits_to_def commit_connect_batch_def f(1) Some F(2))
  next
    case None
    let ?spent = "sorted_list_of_fset spent" and ?created = "fmap_entries created"
    have s: "store_inv (db_utxos (cs_db s))" "ages_ok (cs_db s)" and view: "chain_view s = store_view (db_utxos (cs_db s))"
      using inv None by (simp_all add: chain_inv_def chain_view_def)
    have c: "commits (store_view (db_utxos (cs_db s))) ?spent ?created
        (apply_validated_changes_transaction ?spent ?created (db_utxos (cs_db s)))"
      unfolding apply_validated_changes_transaction_def
      by (rule merge_validated_spec [OF s(1) _ rows F(3,4)]) simp
    then obtain t where t: "apply_validated_changes_transaction ?spent ?created (db_utxos (cs_db s)) = Inr t"
      "store_inv t" "store_view t = v" using F(1,2) by (auto simp: commits_def view)
    have "commits_to s (\<lambda>_. batch_committed sha ts s v)
      (pst_bind (pst_lift (map_err chain_store_error.Chain_Utxo (batch_age_counts ts))) (\<lambda>age_counts.
          pst_of id (commit_tx
            (tx_bind (in_utxos (\<lambda>t. bind_res (apply_validated_changes_transaction ?spent ?created t)
                                     (\<lambda>t'. Ok ((), t')))) (\<lambda>_.
             tx_bind (insert_batch_undos (cs_options s) ts) (\<lambda>_.
             tx_bind (advance_batch ts) (\<lambda>_.
             connect_spent_ages_transaction age_counts (tip_height (ct_next (hd ts)))
               (tip_height (ct_next (last ts))))))))))"
    proof (rule commits_to_lift, rule commits_to_tx_end, goal_cases)
      case (1 counts x db)
      then have rest: "tx_bind (insert_batch_undos (cs_options s) ts) (\<lambda>_. tx_bind (advance_batch ts) (\<lambda>_.
          connect_spent_ages_transaction counts (tip_height (ct_next (hd ts))) (tip_height (ct_next (last ts)))))
          ((cs_db s)\<lparr>db_utxos := t\<rparr>) = Inr ((), db)"
        by (simp add: tx_bind_Inr [of "in_utxos _"] in_utxos_Inr t(1))
      obtain u m a b where db: "db = (cs_db s)\<lparr>db_utxos := t, db_undos := u, db_meta := m, db_spent_ages := a, db_spent_age_meta := b\<rparr>"
        "batch_recorded (cs_options s) ts ((cs_db s)\<lparr>db_utxos := t\<rparr>) db" "ages_ok ((cs_db s)\<lparr>db_utxos := t\<rparr>) \<longrightarrow> ages_ok db"
        by (rule batch_tail [OF rest ts(1,2) 1(1)]) (rule that)
      have "ages_ok ((cs_db s)\<lparr>db_utxos := t\<rparr>)" by (rule ages_ok_frame [OF s(2)]) simp_all
      then have "chain_inv sha (s\<lparr>cs_db := db\<rparr>)" using db(3) t(2) None by (simp add: chain_inv_def db(1))
      then show ?case using db(2) t(3) None by (simp add: batch_committed_def batch_recorded_def chain_view_def count_exact_def db(1))
    qed
    then show ?thesis using ts(1) by (simp add: commits_to_def commit_connect_batch_def f(1) None)
  qed
qed

end
