(* ===== verification/Chain_Journal_Maintenance.thy ===== *)
theory Chain_Journal_Maintenance
  imports Chain_Journal
begin

text \<open>
  Materializing the journal, disconnecting blocks below it, reopening its tables and
  rewriting legacy rows.
\<close>

section \<open>Materializing the journal\<close>

text \<open>
  The merged updates: of an outpoint the journal touches they keep whether the coins below the
  journal have it, and what the journal leaves of it.
\<close>

definition merged :: "coins \<Rightarrow> coins \<Rightarrow> (out_point_key, validation_update) fmap \<Rightarrow> bool" where
  "merged v w m \<longleftrightarrow> (\<forall>k. case fmlookup m k of
     None \<Rightarrow> w k = v k
   | Some u \<Rightarrow> (spent_in_batch u \<longleftrightarrow> v k \<noteq> None) \<and> upd_utxo u = w k)"

lemma upd_view_Cons:
  "k \<notin> fst ` set us \<Longrightarrow> upd_view w ((k, u) # us) = upd_view (w(k := upd_utxo u)) us"
  using map_of_eq_None_iff [of us k] by (auto simp: upd_view_def fun_eq_iff split: option.split)

lemma merged_step:
  assumes "merged v w m" "spent_in_batch u \<longleftrightarrow> w k \<noteq> None"
  shows "merged v (w(k := upd_utxo u)) (merge_update (k, u) m)"
proof -
  note at = assms(1) [unfolded merged_def, rule_format]
  show ?thesis
    unfolding merged_def
  proof
    fix c
    show "case fmlookup (merge_update (k, u) m) c of
        None \<Rightarrow> (w(k := upd_utxo u)) c = v c
      | Some x \<Rightarrow> (spent_in_batch x \<longleftrightarrow> v c \<noteq> None) \<and> upd_utxo x = (w(k := upd_utxo u)) c"
      using at [of c] at [of k] assms(2)
      by (cases "c = k"; cases "fmlookup m k"; cases "fmlookup m c") (simp_all add: merge_update_def)
  qed
qed

lemma merged_fold:
  assumes "merged v w m" "distinct (map fst us)" "\<forall>(k, u) \<in> set us. spent_in_batch u \<longleftrightarrow> w k \<noteq> None"
  shows "merged v (upd_view w us) (fold merge_update us m)"
  using assms
proof (induction us arbitrary: w m)
  case Nil
  then show ?case by (simp add: upd_view_def)
next
  case (Cons p us)
  obtain k u where p: "p = (k, u)" by force
  have k: "k \<notin> fst ` set us" using Cons.prems(2) by (simp add: p)
  have m: "merged v (w(k := upd_utxo u)) (merge_update (k, u) m)"
    by (rule merged_step [OF Cons.prems(1)]) (use Cons.prems(3) p in auto)
  have "\<forall>(c, x) \<in> set us. spent_in_batch x \<longleftrightarrow> (w(k := upd_utxo u)) c \<noteq> None"
    using Cons.prems(3) k by (force simp: image_iff)
  from Cons.IH [OF m _ this] Cons.prems(2) show ?case
    unfolding p upd_view_Cons [OF k] by (simp del: fun_upd_apply)
qed

lemma merged_rows:
  assumes "list_all2 (row_holds sha db) rows ns" "deltas_ok w (map (row_updates db) rows)" "merged v w m"
  shows "\<exists>m'. try_fold (\<lambda>updates row.
       bind_res (decode_row_at db (jr_height row)) (\<lambda>(_, decoded). Ok (fold merge_update decoded updates))) m rows
       = Inr m' \<and> merged v (deltas_view w (map (row_updates db) rows)) m'"
  using assms
proof (induction rows arbitrary: ns w m)
  case (Cons row rows)
  from Cons.prems(1) obtain n ns' where n: "row_holds sha db row n" "list_all2 (row_holds sha db) rows ns'"
    by (auto simp: list_all2_Cons1)
  let ?us = "row_updates db row"
  have u: "updates_ok w ?us" using Cons.prems(2) by simp
  have "merged v (upd_view w ?us) (fold merge_update ?us m)"
    by (rule merged_fold [OF Cons.prems(3)]) (use u strict_sorted_iff in \<open>auto simp: updates_ok_def\<close>)
  from Cons.IH [OF n(2) _ this] Cons.prems(2) n(1) show ?case by (simp add: row_holds_def)
qed simp

lemma merged_changes:
  assumes m: "merged v w m" and w: "coins_ok w"
  shows "transition_ok v (update_spent m) (update_created m)"
    "coins_after v (update_spent m) (update_created m) = w"
    "sorted_wrt (<) (update_spent m)" "sorted_wrt (<) (map fst (update_created m))"
    "\<forall>r \<in> set (update_created m). row_ok r"
proof -
  have look: "map_of (update_created m) k = Option.bind (fmlookup m k) upd_utxo" for k
  proof -
    have "map_of (map (\<lambda>(k, u). (k, the (upd_utxo u))) (filter (\<lambda>(_, u). upd_utxo u \<noteq> None) xs)) k
        = Option.bind (map_of xs k) upd_utxo" if "distinct (map fst xs)" for xs :: "(out_point_key \<times> validation_update) list"
      using that
    proof (induction xs)
      case (Cons r xs)
      obtain c u where r: "r = (c, u)" by force
      have "map_of xs c = None" using Cons.prems by (simp add: r map_of_eq_None_iff)
      with Cons show ?case by (cases "upd_utxo u") (auto simp: r)
    qed simp
    from this [OF distinct_fmap_entries] show ?thesis by (simp add: update_created_def)
  qed
  have spent: "k \<in> set (update_spent m) \<longleftrightarrow> (\<exists>u. fmlookup m k = Some u \<and> spent_in_batch u)" for k
    by (force simp: update_spent_def set_fmap_entries)
  have created: "k \<in> fst ` set (update_created m) \<longleftrightarrow> (\<exists>u. fmlookup m k = Some u \<and> upd_utxo u \<noteq> None)" for k
    using look [of k] map_of_eq_None_iff [of "update_created m" k] by (auto simp: bind_eq_None_conv split: Option.bind_split)
  note mk = m [unfolded merged_def, rule_format]
  show "transition_ok v (update_spent m) (update_created m)"
    unfolding transition_ok_def
  proof (intro conjI ballI)
    fix k assume "k \<in> set (update_spent m)"
    then show "v k \<noteq> None" using mk [of k] by (auto simp: spent)
  next
    fix k assume "k \<in> fst ` set (update_created m)"
    then show "k \<in> set (update_spent m) \<or> v k = None" using mk [of k] by (auto simp: created spent)
  qed
  show "coins_after v (update_spent m) (update_created m) = w"
  proof
    fix k
    show "coins_after v (update_spent m) (update_created m) k = w k"
      using mk [of k] by (auto simp: coins_after_def map_add_def look restrict_map_def spent split: option.splits)
  qed
  have "sorted_wrt (<) (map fst (fmap_entries m))"
    by (simp add: fmap_entries_keys sorted_list_of_fset.rep_eq)
  then have "sorted_wrt (<) (map fst (filter P (fmap_entries m)))" for P
    by (simp add: sorted_wrt_map sorted_wrt_filter)
  then show "sorted_wrt (<) (update_spent m)" "sorted_wrt (<) (map fst (update_created m))"
    by (simp_all add: update_spent_def update_created_def comp_def split_def)
  show "\<forall>r \<in> set (update_created m). row_ok r"
  proof
    fix r assume "r \<in> set (update_created m)"
    then obtain u where u: "fmlookup m (fst r) = Some u" "upd_utxo u = Some (snd r)"
      by (auto simp: update_created_def set_fmap_entries)
    then have "w (fst r) = Some (snd r)" using mk [of "fst r"] by simp
    then show "row_ok r" using w by (cases r) (simp add: coins_ok_def)
  qed
qed

lemma journal_inv_empty:
  assumes "jn_rows j = []" "jn_groups j = []" "fmdom (db_deltas db) = {||}"
  shows "journal_inv sha db j"
  using assms by (simp add: journal_inv_def groups_hold_def div_ceil_def validation_rows_per_bloom_group_def)

lemma ages_ok_db: "ages_ok (db\<lparr>db_utxos := t, db_deltas := a, db_shards := b, db_row_blooms := c, db_group_blooms := d\<rparr>) = ages_ok db"
  by (simp add: ages_ok_def cong: option.case_cong)

text \<open>Materializing always succeeds, empties the journal and keeps the coins.\<close>

lemma materialize_ok:
  assumes inv: "chain_inv sha s" and j: "cs_journal s = Some j" "jn_rows j \<noteq> []"
  shows "\<exists>n t. materialize_validation_deltas s = (Inr n, s\<lparr>
      cs_db := (cs_db s)\<lparr>db_utxos := t, db_deltas := fmempty, db_shards := fmempty, db_row_blooms := fmempty,
        db_group_blooms := fmempty\<rparr>,
      cs_journal := Some (j\<lparr>jn_rows := [], jn_groups := []\<rparr>)\<rparr>)
    \<and> store_inv t \<and> store_view t = chain_view s"
proof -
  let ?v = "store_view (db_utxos (cs_db s))"
  from inv j(1) obtain ns where rows: "list_all2 (row_holds sha (cs_db s)) (jn_rows j) ns"
    "deltas_ok ?v (map (row_updates (cs_db s)) (jn_rows j))" and s: "store_inv (db_utxos (cs_db s))"
    by (auto simp: chain_inv_def journal_inv_def)
  have "merged ?v ?v fmempty" by (simp add: merged_def)
  from merged_rows [OF rows this] obtain m where m: "merged_updates (cs_db s) (jn_rows j) = Inr m"
    "merged ?v (chain_view s) m"
    by (auto simp: merged_updates_def chain_view_journal [OF j(1)])
  note M = merged_changes [OF m(2) chain_view_ok(1) [OF inv]]
  have "commits ?v (update_spent m) (update_created m)
      (apply_validated_changes_transaction (update_spent m) (update_created m) (db_utxos (cs_db s)))"
    unfolding apply_validated_changes_transaction_def
    by (rule merge_validated_spec [OF s _ M(5,3,4)]) simp
  then obtain t where "apply_validated_changes_transaction (update_spent m) (update_created m) (db_utxos (cs_db s)) = Inr t"
    "store_inv t" "store_view t = chain_view s" using M(1,2) by (auto simp: commits_def)
  then show ?thesis
    using m(1) j by (auto simp: materialize_validation_deltas_def st_bind_def st_lift_def commit_tx_def tx_bind_def
        in_utxos_def clear_journal_tables_def)
qed

lemma materialized:
  assumes inv: "chain_inv sha s"
  shows "\<exists>n s'. materialize_validation_deltas s = (Inr n, s') \<and> chain_inv sha s' \<and> chain_view s' = chain_view s
    \<and> (count_exact s \<longrightarrow> count_exact s') \<and> db_meta (cs_db s') = db_meta (cs_db s) \<and> db_undos (cs_db s') = db_undos (cs_db s)
    \<and> cs_options s' = cs_options s
    \<and> (case cs_journal s' of None \<Rightarrow> cs_journal s = None | Some j \<Rightarrow> jn_rows j = [] \<and> cs_journal s \<noteq> None
        \<and> chain_view s' = store_view (db_utxos (cs_db s')))"
proof (cases "cs_journal s")
  case None
  then show ?thesis using inv by (simp add: materialize_validation_deltas_def)
next
  case (Some j)
  show ?thesis
  proof (cases "jn_rows j = []")
    case True
    then show ?thesis using inv Some by (simp add: materialize_validation_deltas_def chain_view_def)
  next
    case False
    from materialize_ok [OF inv Some this] obtain n t where
      m: "materialize_validation_deltas s = (Inr n, s\<lparr>
      cs_db := (cs_db s)\<lparr>db_utxos := t, db_deltas := fmempty, db_shards := fmempty, db_row_blooms := fmempty,
        db_group_blooms := fmempty\<rparr>,
      cs_journal := Some (j\<lparr>jn_rows := [], jn_groups := []\<rparr>)\<rparr>)" "store_inv t" "store_view t = chain_view s"
      by blast
    let ?s = "snd (materialize_validation_deltas s)"
    have view: "chain_view ?s = chain_view s" "store_view (db_utxos (cs_db ?s)) = chain_view s"
      using m by (simp_all add: chain_view_def)
    have "chain_inv sha ?s" using inv m by (simp add: chain_inv_def journal_inv_empty ages_ok_db)
    moreover have "count_exact s \<longrightarrow> count_exact ?s" using m unfolding count_exact_def view by (simp add: Some)
    ultimately show ?thesis using m view by (simp add: Some)
  qed
qed

section \<open>Disconnecting\<close>

lemma subtract_ages_nonzero:
  assumes "try_fold subtract_age ages es = Inr ages'" "\<forall>a. fmlookup ages a \<noteq> Some 0"
  shows "\<forall>a. fmlookup ages' a \<noteq> Some 0"
  using assms
proof (induction es arbitrary: ages)
  case (Cons e es)
  from Cons.prems(1) obtain ages1 where s: "subtract_age ages e = Inr ages1" "try_fold subtract_age ages1 es = Inr ages'"
    by (auto simp: res_simps)
  from s(1) obtain a n where "ages1 = (if n = 0 then fmdrop a ages else fmupd a n ages)"
    by (cases e) (auto simp: subtract_age_def res_simps)
  then have "\<forall>a. fmlookup ages1 a \<noteq> Some 0"
    using Cons.prems(2) by (cases "n = 0") auto
  then show ?case by (rule Cons.IH [OF s(2)])
qed simp

lemma disconnect_ages_ok:
  assumes ok: "ages_ok db" and run: "disconnect_spent_ages_transaction counts current parent db = Inr ((), db')"
    and next_height: "checked_add parent 1 = Some current"
  shows "ages_ok db'" "\<exists>a b. db' = db\<lparr>db_spent_ages := a, db_spent_age_meta := b\<rparr>"
proof -
  have "ages_ok db' \<and> (\<exists>a b. db' = db\<lparr>db_spent_ages := a, db_spent_age_meta := b\<rparr>)"
  proof (cases "fmlookup (db_spent_age_meta db) spent_age_start_height")
    case None
    with run have "db' = db" by (simp add: disconnect_spent_ages_transaction_def)
    moreover have "db = db\<lparr>db_spent_ages := db_spent_ages db, db_spent_age_meta := db_spent_age_meta db\<rparr>" by simp
    ultimately show ?thesis using ok by metis
  next
    case (Some start)
    with ok obtain e where e: "fmlookup (db_spent_age_meta db) spent_age_end_height = Some e" "start \<le> e"
      "\<forall>a. fmlookup (db_spent_ages db) a \<noteq> Some 0"
      by (auto simp: ages_ok_def split: option.splits)
    from run Some e(1) obtain ages where ages: "try_fold subtract_age (db_spent_ages db) (fmap_entries counts) = Inr ages"
      and cur: "e = current"
      and db': "db' = (if current = start then db\<lparr>db_spent_ages := fmempty, db_spent_age_meta := fmempty\<rparr>
          else db\<lparr>db_spent_ages := ages, db_spent_age_meta := fmupd spent_age_end_height parent (db_spent_age_meta db)\<rparr>)"
      by (auto simp: disconnect_spent_ages_transaction_def res_simps split: if_splits)
    have p: "unat current = Suc (unat parent)" using next_height by (auto simp: checked_arith)
    have "start \<le> parent" if "current \<noteq> start"
    proof -
      have "start < current" using that e(2) cur by simp
      then show ?thesis using p by (simp add: word_le_nat_alt word_less_nat_alt)
    qed
    then have "ages_ok db'"
      using subtract_ages_nonzero [OF ages e(3)] Some by (auto simp: ages_ok_def db')
    then show ?thesis unfolding db' by (cases "current = start") auto
  qed
  then show "ages_ok db'" "\<exists>a b. db' = db\<lparr>db_spent_ages := a, db_spent_age_meta := b\<rparr>" by blast+
qed

text \<open>
  A disconnect keeps the store's invariant whatever its outcome. On success the coins are those of
  the reverse mutation, the tip is the parent and the block's undo is gone; on failure the coins,
  the tip and the undo table are as before, even where the journal was materialized.
\<close>

definition disconnected :: "(bytes \<Rightarrow> bytes) \<Rightarrow> execution_tip \<Rightarrow> execution_tip \<Rightarrow> chain_store \<Rightarrow> utxo_undo \<times> coins
    \<Rightarrow> (chain_store_error + utxo_undo) \<times> chain_store \<Rightarrow> bool" where
  "disconnected sha current parent s spec out \<longleftrightarrow> (let s' = snd out in
     chain_inv sha s' \<and> cs_options s' = cs_options s
     \<and> (case fst out of
          Inl _ \<Rightarrow> chain_view s' = chain_view s \<and> db_meta (cs_db s') = db_meta (cs_db s)
            \<and> db_undos (cs_db s') = db_undos (cs_db s)
        | Inr undo \<Rightarrow> (undo, chain_view s') = spec \<and> read_tip (db_meta (cs_db s)) = Inr current
            \<and> read_tip (db_meta (cs_db s')) = Inr parent
            \<and> undo_get (db_undos (cs_db s')) (tip_hash current) = Inr None))"

lemma disconnect_transaction_ok:
  assumes inv: "chain_inv sha s" and flat: "\<forall>j. cs_journal s = Some j \<longrightarrow> jn_rows j = []"
    and spec: "coins_apply (chain_view s) spent created = Inr spec" and rows: "\<forall>r \<in> set created. row_ok r"
  shows "disconnected sha current parent s spec (commit_tx
       (tx_bind (in_utxos (apply_with_undo_transaction spent created)) (\<lambda>undo.
        tx_bind (disconnect_spent_ages_transaction counts (tip_height current) (tip_height parent)) (\<lambda>_.
        tx_bind (in_execution (rewind_transaction current parent)) (\<lambda>_.
        tx_bind (remove_tip_undo (tip_hash current)) (\<lambda>_. tx_ret undo))))) s)" (is "disconnected _ _ _ _ _ (commit_tx ?body s)")
proof (cases "?body (cs_db s)")
  case (Inl e)
  then show ?thesis using inv by (simp add: disconnected_def commit_tx_def)
next
  case (Inr r)
  obtain undo db where r: "r = (undo, db)" by force
  have view: "chain_view s = store_view (db_utxos (cs_db s))" and st: "store_inv (db_utxos (cs_db s))"
    and ages: "ages_ok (cs_db s)"
    using inv flat by (auto simp: chain_view_def chain_inv_def split: option.splits)
  from Inr r obtain t db2 m u where
    t: "apply_with_undo_transaction spent created (db_utxos (cs_db s)) = Inr (undo, t)"
    and a: "disconnect_spent_ages_transaction counts (tip_height current) (tip_height parent) ((cs_db s)\<lparr>db_utxos := t\<rparr>)
      = Inr ((), db2)"
    and m: "rewind_transaction current parent (db_meta db2) = Inr ((), m)"
    and u: "undo_remove_transaction (tip_hash current) (db_undos db2) = Inr (True, u)"
    and db: "db = db2\<lparr>db_meta := m, db_undos := u\<rparr>"
    by (auto simp: res_simps remove_tip_undo_def split: if_splits)
  have T: "store_inv t" "spec = (undo, store_view t)"
    using apply_with_undo_transaction_Inr [OF st rows t] spec by (auto simp: view)
  from m have tip: "read_tip (db_meta db2) = Inr current" "checked_add (tip_height parent) 1 = Some (tip_height current)"
    "m = fmupd tip_key (exec_encode_tip parent) (db_meta db2)"
    by (auto simp: rewind_transaction_def res_simps split: if_splits)
  have "ages_ok ((cs_db s)\<lparr>db_utxos := t\<rparr>)" by (rule ages_ok_frame [OF ages]) simp_all
  from disconnect_ages_ok [OF this a tip(2)] obtain x y where
    db2: "db2 = (cs_db s)\<lparr>db_utxos := t, db_spent_ages := x, db_spent_age_meta := y\<rparr>" and ok: "ages_ok db2" by auto
  have "ages_ok db" by (rule ages_ok_frame [OF ok]) (simp_all add: db)
  moreover have "journal_inv sha db j" if "cs_journal s = Some j" for j
    by (rule journal_inv_empty) (use inv flat that in \<open>auto simp: db db2 chain_inv_def journal_inv_def groups_hold_def
      div_ceil_def validation_rows_per_bloom_group_def\<close>)
  ultimately have "chain_inv sha (s\<lparr>cs_db := db\<rparr>)" using T(1) by (simp add: chain_inv_def db db2 split: option.splits)
  moreover have "chain_view (s\<lparr>cs_db := db\<rparr>) = store_view t"
    using flat by (simp add: chain_view_def db db2 split: option.splits)
  moreover have "undo_get u (tip_hash current) = Inr None"
    using u by (auto simp: undo_get_def undo_remove_transaction_def transpose_res_def)
  ultimately show ?thesis
    using Inr r T(2) tip by (simp add: disconnected_def commit_tx_def db db2)
qed

lemma commit_disconnect_ok:
  assumes inv: "chain_inv sha s"
    and spec: "coins_apply (chain_view s) spent created = Inr spec" and rows: "\<forall>r \<in> set created. row_ok r"
  shows "disconnected sha current parent s spec (commit_disconnect current parent spent created undos s)"
proof -
  let ?pending = "case cs_journal s of Some j \<Rightarrow> jn_rows j \<noteq> [] | None \<Rightarrow> False"
  obtain n s1 where m: "materialize_validation_deltas s = (Inr n, s1)" and s1: "chain_inv sha s1" "chain_view s1 = chain_view s"
    "db_meta (cs_db s1) = db_meta (cs_db s)" "db_undos (cs_db s1) = db_undos (cs_db s)" "cs_options s1 = cs_options s"
    "\<forall>j. cs_journal s1 = Some j \<longrightarrow> jn_rows j = []"
    using materialized [OF inv] by (auto split: option.splits)
  define s0 where "s0 = (if ?pending then s1 else s)"
  have s: "chain_inv sha s0" "chain_view s0 = chain_view s" "db_meta (cs_db s0) = db_meta (cs_db s)"
    "db_undos (cs_db s0) = db_undos (cs_db s)" "cs_options s0 = cs_options s" "\<forall>j. cs_journal s0 = Some j \<longrightarrow> jn_rows j = []"
    using s1 inv by (auto simp: s0_def split: option.splits)
  have lift: "disconnected sha current parent s0 spec out \<Longrightarrow> disconnected sha current parent s spec out" for out
    unfolding disconnected_def Let_def s(2-5) .
  have start: "(if ?pending then st_bind materialize_validation_deltas (\<lambda>_. st_ret ()) else st_ret ()) s = (Inr (), s0)"
    using m by (simp add: s0_def st_bind_def st_ret_def)
  have "commit_disconnect current parent spent created undos s =
    st_bind (st_lift (map_err chain_store_error.Chain_Utxo (spent_age_counts [(tip_height current, undos)]))) (\<lambda>age_counts.
     commit_tx
       (tx_bind (in_utxos (apply_with_undo_transaction spent created)) (\<lambda>undo.
        tx_bind (disconnect_spent_ages_transaction age_counts (tip_height current)
                   (tip_height parent)) (\<lambda>_.
        tx_bind (in_execution (rewind_transaction current parent)) (\<lambda>_.
        tx_bind (remove_tip_undo (tip_hash current)) (\<lambda>_.
          tx_ret undo)))))) s0"
    unfolding commit_disconnect_def st_bind_def [of "if _ then _ else _"] start by simp
  moreover have "disconnected sha current parent s0 spec \<dots>"
  proof (cases "spent_age_counts [(tip_height current, undos)]")
    case (Inl e)
    then show ?thesis using s(1) by (simp add: st_bind_def st_lift_def disconnected_def)
  next
    case (Inr counts)
    then show ?thesis
      using disconnect_transaction_ok [OF s(1,6) spec [folded s(2)] rows, of current parent counts]
      by (simp add: st_bind_def st_lift_def)
  qed
  ultimately show ?thesis using lift by simp
qed

section \<open>Reopening\<close>

lemma store_count:
  assumes "store_inv t"
  shows "card (dom (store_view t)) = fcard (fmdom (hot t)) + fcard (fmdom (cold t))"
proof -
  have dom: "dom (store_view t) = OutPointKey ` (fset (fmdom (hot t)) \<union> fset (fmdom (cold t)))"
  proof (intro set_eqI iffI)
    fix k assume "k \<in> dom (store_view t)"
    then have "as_bytes k \<in> fset (fmdom (hot t)) \<union> fset (fmdom (cold t))"
      by (auto simp: store_view_def decoded_def tier_lookup_def fmlookup_dom_iff split: option.splits)
    then show "k \<in> OutPointKey ` (fset (fmdom (hot t)) \<union> fset (fmdom (cold t)))"
      by (metis image_eqI out_point_key.exhaust_sel)
  next
    fix k assume "k \<in> OutPointKey ` (fset (fmdom (hot t)) \<union> fset (fmdom (cold t)))"
    then obtain b where b: "k = OutPointKey b" "b |\<in>| fmdom (hot t) \<or> b |\<in>| fmdom (cold t)" by blast
    then obtain v where k: "k = OutPointKey b" "tier_lookup t b = Some v"
      by (cases "fmlookup (hot t) b") (auto simp: tier_lookup_def fmlookup_dom_iff)
    then show "k \<in> dom (store_view t)"
      using store_inv_decode [OF assms k(2)] by (auto simp: store_view_def decoded_def)
  qed
  have "fset (fmdom (hot t)) \<inter> fset (fmdom (cold t)) = {}"
    using store_inv_disjoint [OF assms] by (auto simp: fmlookup_dom_iff)
  then show ?thesis
    unfolding dom by (simp add: card_image inj_on_def card_Un_disjoint fcard.rep_eq)
qed

lemma length_fold_bloom [simp]: "length (bloom_bits (fold bloom_insert ks b)) = length (bloom_bits b)"
  by (induction ks arbitrary: b) (auto simp: bloom_insert_def Let_def)

lemma decode_stored_bloom:
  assumes "with_update_count n = Inr b" "encode_validation_bloom sha (fold bloom_insert ks b) c = Some bs"
    and "\<forall>x. length (sha x) = 32"
  shows "\<exists>expected. validation_bloom_byte_count n = Inr expected
    \<and> decode_validation_bloom sha bs expected = Inr (c, fold bloom_insert ks b)"
proof -
  from assms(1) obtain e where e: "validation_bloom_byte_count n = Inr e" "length (bloom_bits b) = e"
    by (auto simp: with_update_count_def res_simps)
  then show ?thesis using decode_validation_bloom_encode [OF assms(2)] assms(3) by simp
qed

lemma decoded_header:
  assumes "decode_validation_delta_record encoded load = Inr (n, us)"
  shows "\<exists>h. read_record_header encoded = Inr h \<and> header_counts h = (n, length us)"
proof -
  from assms obtain h where h: "read_record_header encoded = Inr h"
    by (auto simp: decode_validation_delta_record_def res_simps)
  show ?thesis
  proof (cases h)
    case (Legacy c m)
    with assms h have d: "decode_validation_delta encoded = Inr (n, us)" by (simp add: decode_validation_delta_record_def)
    from h Legacy have "\<exists>x. validation_delta_header encoded = Inr (c, m, x)"
      by (auto simp: read_record_header_def res_simps split: if_splits)
    with d have "c = n \<and> m = length us"
      by (auto simp: decode_validation_delta_def inspect_validation_delta_def res_simps split: if_splits
          dest: collect_res_length)
    with h Legacy show ?thesis by (simp add: header_counts_def)
  next
    case (Sharded sh)
    with assms h have "sh_utxo_count sh = n \<and> sh_update_count sh = length us"
      by (auto simp: decode_validation_delta_record_def res_simps split: if_splits)
    with h Sharded show ?thesis by (simp add: header_counts_def)
  qed
qed

text \<open>The state of the loop after \<open>i\<close> rows.\<close>

definition loaded :: "validation_journal \<Rightarrow> u64 \<Rightarrow> u64 list \<Rightarrow> nat \<Rightarrow> journal_load" where
  "loaded j base ns i =
     \<lparr>jl_journal = \<lparr>jn_rows = take i (jn_rows j),
        jn_groups = take (div_ceil i 16) (jn_groups j), jn_legacy_hits = fmempty,
        jn_utxo_count = (if i = 0 then base else ns ! (i - 1))\<rparr>,
      jl_migrated_rows = [], jl_migrated_groups = [],
      jl_previous_height = (if i = 0 then None else Some (jr_height (jn_rows j ! (i - 1))))\<rparr>"

lemma div_ceil_Suc: "div_ceil (Suc i) 16 = i div 16 + 1" "div_ceil i 16 = (if i mod 16 = 0 then i div 16 else i div 16 + 1)"
proof -
  obtain q r where i: "i = 16 * q + r" "r < 16" by (metis mod_less_divisor mult_div_mod_eq zero_less_numeral)
  then have d: "i div 16 = q" "i mod 16 = r" by simp_all
  show "div_ceil i 16 = (if i mod 16 = 0 then i div 16 else i div 16 + 1)"
    unfolding d unfolding i(1) by (rule div_ceil_16 [OF i(2)])
  show "div_ceil (Suc i) 16 = i div 16 + 1"
  proof (cases "r = 15")
    case True
    then have "Suc i = 16 * (q + 1) + 0" using i(1) by simp
    then show ?thesis unfolding d by (simp only: div_ceil_16) simp
  next
    case False
    then have "Suc i = 16 * q + (r + 1)" "r + 1 < 16" using i by simp_all
    then show ?thesis unfolding d by (simp only: div_ceil_16) simp
  qed
qed

lemma open_group_stored:
  assumes gs: "groups_hold sha db j" "g < length (jn_groups j)" and sha: "\<forall>x. length (sha x) = 32"
  shows "open_group sha db g = Inr (jn_groups j ! g)" "group_index_of g = Inr (word_of_nat g)"
    "fmlookup (db_group_blooms db) (word_of_nat g) \<noteq> None"
proof -
  from gs obtain b bs where b: "with_update_count validation_group_bloom_updates = Inr b"
    "jn_groups j ! g = fold bloom_insert (concat (map (map fst \<circ> row_updates db) (group_rows j g))) b"
    "encode_validation_bloom sha (jn_groups j ! g) 0 = Some bs"
    "fmlookup (db_group_blooms db) (word_of_nat g) = Some bs"
    unfolding groups_hold_def by blast
  have "g < 2 ^ 32" using gs by (simp add: groups_hold_def)
  then show idx: "group_index_of g = Inr (word_of_nat g)" by (simp add: group_index_of_def u32_try_from_def)
  show "fmlookup (db_group_blooms db) (word_of_nat g) \<noteq> None" using b(4) by simp
  show "open_group sha db g = Inr (jn_groups j ! g)"
    using decode_stored_bloom [OF b(1) b(3) [unfolded b(2)] sha] b(2,4) idx by (auto simp: open_group_def)
qed

lemma stored_row:
  assumes row: "row_holds sha db row n" and enc: "fmlookup (db_deltas db) (jr_height row) = Some encoded"
    and sha: "\<forall>x. length (sha x) = 32"
  shows "\<exists>h expected. read_record_header encoded = Inr h \<and> header_counts h = (n, length (row_updates db row))
    \<and> validation_bloom_byte_count (length (row_updates db row)) = Inr expected
    \<and> (\<forall>a. open_row_bloom sha db (jr_height row) encoded n expected True a = Some (Inr (jr_bloom row, a, [])))"
proof -
  from row enc obtain h b bs where
    h: "read_record_header encoded = Inr h" "header_counts h = (n, length (row_updates db row))"
    and b: "with_update_count (length (row_updates db row)) = Inr b"
      "jr_bloom row = fold bloom_insert (map fst (row_updates db row)) b"
      "encode_validation_bloom sha (jr_bloom row) n = Some bs" "fmlookup (db_row_blooms db) (jr_height row) = Some bs"
    using decoded_header [of encoded "load_shard db (jr_height row)" n "row_updates db row"]
    by (auto simp: row_holds_def decode_row_at_def load_delta_def)
  from decode_stored_bloom [OF b(1) b(3) [unfolded b(2)] sha] obtain expected where
    e: "validation_bloom_byte_count (length (row_updates db row)) = Inr expected"
      "decode_validation_bloom sha bs expected = Inr (n, jr_bloom row)"
    unfolding b(2) by blast
  have "open_row_bloom sha db (jr_height row) encoded n expected True a = Some (Inr (jr_bloom row, a, []))" for a
    using b(4) e(2) by (simp add: open_row_bloom_def)
  with h e(1) show ?thesis by blast
qed

lemma load_journal_row_step:
  assumes rows: "list_all2 (row_holds sha db) (jn_rows j) ns" and gs: "groups_hold sha db j"
    and sorted: "sorted_wrt (<) (map jr_height (jn_rows j))" and sha: "\<forall>x. length (sha x) = 32"
    and i: "i < length (jn_rows j)" and enc: "fmlookup (db_deltas db) (jr_height (jn_rows j ! i)) = Some encoded"
  shows "load_journal_row sha db (loaded j base ns i) (jr_height (jn_rows j ! i), encoded) = Some (Inr (loaded j base ns (Suc i)))"
proof -
  let ?row = "jn_rows j ! i" and ?q = "i div 16"
  from rows i have row: "row_holds sha db ?row (ns ! i)" by (simp add: list_all2_conv_all_nth)
  have "i div 16 + 1 \<le> div_ceil (length (jn_rows j)) 16"
    unfolding div_ceil_Suc(1) [symmetric] div_ceil_def using i by (intro div_le_mono) simp
  then have q: "?q < length (jn_groups j)" using gs by (simp add: groups_hold_def validation_rows_per_bloom_group_def)
  note G = open_group_stored [OF gs q sha]
  have groups: "(if i mod 16 = 0 then bind_res (open_group sha db ?q) (\<lambda>b. Ok (take ?q (jn_groups j) @ [b]))
      else Ok (take (?q + 1) (jn_groups j))) = Inr (take (?q + 1) (jn_groups j))"
    using G(1) q by (simp add: take_Suc_conv_app_nth)
  from stored_row [OF row enc sha] obtain h expected where
    h: "read_record_header encoded = Inr h" "header_counts h = (ns ! i, length (row_updates db ?row))"
    and e: "validation_bloom_byte_count (length (row_updates db ?row)) = Inr expected"
    and open_row: "\<forall>a. open_row_bloom sha db (jr_height ?row) encoded (ns ! i) expected True a = Some (Inr (jr_bloom ?row, a, []))"
    by blast
  have prev: "\<not> (case if i = 0 then None else Some (jr_height (jn_rows j ! (i - 1))) of
      Some previous \<Rightarrow> jr_height ?row \<le> previous | None \<Rightarrow> False)"
    using sorted i by (auto simp: sorted_wrt_iff_nth_less not_le dest!: spec [of _ "i - 1"])
  have last: "last (take (?q + 1) (jn_groups j)) = jn_groups j ! ?q" "take (?q + 1) (jn_groups j) \<noteq> []"
    "butlast (take (?q + 1) (jn_groups j)) @ [jn_groups j ! ?q] = take (?q + 1) (jn_groups j)"
    "length (take (?q + 1) (jn_groups j)) - 1 = ?q"
    using q by (auto simp: take_Suc_conv_app_nth)
  have len: "length (take i (jn_rows j)) = i" "length (take (div_ceil i 16) (jn_groups j)) = div_ceil i 16"
    using i q by (auto simp: div_ceil_Suc(2))
  have start: "(if length (take i (jn_rows j)) mod 16 = 0
       then bind_res (open_group sha db (length (take (div_ceil i 16) (jn_groups j)))) (\<lambda>bloom. Ok (take (div_ceil i 16) (jn_groups j) @ [bloom]))
       else Ok (take (div_ceil i 16) (jn_groups j))) = Inr (take (?q + 1) (jn_groups j))"
    unfolding len using groups by (auto simp: div_ceil_Suc(2))
  obtain pb where pb: "fmlookup (db_group_blooms db) (word_of_nat ?q) = Some pb" using G(3) by blast
  have row_eq: "\<lparr>jr_height = jr_height ?row, jr_bloom = jr_bloom ?row\<rparr> = ?row" by simp
  show ?thesis
    unfolding load_journal_row_def loaded_def prod.case journal_load.simps validation_journal.simps Let_def
      validation_rows_per_bloom_group_def start
    using prev G(2) pb h e last i open_row row_eq
    by (simp add: div_ceil_Suc(1) take_Suc_conv_app_nth)
qed

lemma load_journal_rows_from:
  assumes rows: "list_all2 (row_holds sha db) (jn_rows j) ns" and gs: "groups_hold sha db j"
    and sorted: "sorted_wrt (<) (map jr_height (jn_rows j))" and sha: "\<forall>x. length (sha x) = 32"
    and i: "i \<le> length (jn_rows j)" and enc: "\<forall>row \<in> set (jn_rows j). fmlookup (db_deltas db) (jr_height row) = Some (f row)"
  shows "load_journal_rows sha db (loaded j base ns i) (map (\<lambda>row. (jr_height row, f row)) (drop i (jn_rows j)))
    = Some (Inr (loaded j base ns (length (jn_rows j))))"
  using i
proof (induction "length (jn_rows j) - i" arbitrary: i)
  case (Suc d)
  then have "i < length (jn_rows j)" by simp
  with load_journal_row_step [OF rows gs sorted sha this, of "f (jn_rows j ! i)" base] enc Suc.hyps(1) [of "Suc i"] Suc.hyps(2)
  show ?case by (simp add: Cons_nth_drop_Suc [symmetric])
qed simp

lemma journal_entries:
  assumes "sorted_wrt (<) (map jr_height rows)" "fset (fmdom m) = jr_height ` set rows"
  shows "fmap_entries m = map (\<lambda>row. (jr_height row, the (fmlookup m (jr_height row)))) rows"
proof -
  have "sorted_list_of_fset (fmdom m) = map jr_height rows"
    using assms by (simp add: sorted_list_of_fset.rep_eq strict_sorted_equal sorted_list_of_set.idem_if_sorted_distinct)
  then show ?thesis by (simp add: fmap_entries_def comp_def)
qed

lemma load_journal_ok:
  assumes inv: "journal_inv sha db j" "store_inv (db_utxos db)"
    and small: "card (dom (store_view (db_utxos db))) < 2 ^ 64" and sha: "\<forall>x. length (sha x) = 32"
    and count: "jn_rows j = [] \<longrightarrow> card (dom (store_view (db_utxos db))) = unat (jn_utxo_count j)"
  shows "\<exists>l. load_journal sha db = Some (Inr l) \<and> jl_journal l = j\<lparr>jn_legacy_hits := fmempty\<rparr>
    \<and> jl_migrated_rows l = [] \<and> jl_migrated_groups l = []"
proof -
  let ?stats = "store_tier_stats (db_utxos db)" and ?n = "length (jn_rows j)"
  from inv(1) obtain ns where ns: "list_all2 (row_holds sha db) (jn_rows j) ns" "ns \<noteq> [] \<longrightarrow> jn_utxo_count j = last ns"
    and gs: "groups_hold sha db j" and sorted: "sorted_wrt (<) (map jr_height (jn_rows j))"
    and keys: "fset (fmdom (db_deltas db)) = jr_height ` set (jn_rows j)"
    by (auto simp: journal_inv_def)
  have len: "length ns = ?n" using ns(1) by (simp add: list_all2_lengthD)
  note small' = small [unfolded store_count [OF inv(2)]]
  obtain base where base: "checked_add (word_of_nat (stats_hot ?stats)) (word_of_nat (stats_cold ?stats)) = Some (base :: u64)"
    "unat base = card (dom (store_view (db_utxos db)))"
    using small' by (auto simp: store_tier_stats_def checked_add_def store_count [OF inv(2)] unat_of_nat
        take_bit_nat_eq_self unat_word_ariths)
  have enc: "\<forall>row \<in> set (jn_rows j). fmlookup (db_deltas db) (jr_height row) = Some (the (fmlookup (db_deltas db) (jr_height row)))"
  proof
    fix row assume "row \<in> set (jn_rows j)"
    then have "jr_height row |\<in>| fmdom (db_deltas db)" using keys by auto
    then show "fmlookup (db_deltas db) (jr_height row) = Some (the (fmlookup (db_deltas db) (jr_height row)))"
      by (simp add: fmlookup_dom_iff option.collapse)
  qed
  let ?l = "loaded j base ns ?n"
  have run: "load_journal_rows sha db (loaded j base ns 0) (fmap_entries (db_deltas db)) = Some (Inr ?l)"
    using load_journal_rows_from [OF ns(1) gs sorted sha _ enc, of 0 base] by (simp add: journal_entries [OF sorted keys])
  have zero: "\<lparr>jl_journal = \<lparr>jn_rows = [], jn_groups = [], jn_legacy_hits = fmempty, jn_utxo_count = base\<rparr>,
      jl_migrated_rows = [], jl_migrated_groups = [], jl_previous_height = None\<rparr> = loaded j base ns 0"
    by (simp add: loaded_def div_ceil_def)
  have groups: "take (div_ceil ?n 16) (jn_groups j) = jn_groups j"
    using gs by (simp add: groups_hold_def validation_rows_per_bloom_group_def)
  have c: "(if ?n = 0 then base else ns ! (?n - 1)) = jn_utxo_count j"
    using count base(2) ns(2) len by (auto simp: last_conv_nth word_unat_eq_iff)
  have l: "jl_journal ?l = j\<lparr>jn_legacy_hits := fmempty\<rparr>"
    unfolding loaded_def journal_load.simps c groups by simp
  have close: "close_last_group sha db ?l = Some (Inr ?l)"
  proof (cases "?n mod 16 = 0")
    case False
    then have g: "length (jn_groups j) = ?n div 16 + 1"
      using gs div_ceil_Suc(2) [of ?n] by (simp add: groups_hold_def validation_rows_per_bloom_group_def)
    have "?n div 16 < length (jn_groups j)" using g by simp
    from open_group_stored(2,3) [OF gs this sha] g l False show ?thesis
      by (simp add: close_last_group_def Let_def validation_rows_per_bloom_group_def)
  qed (simp add: close_last_group_def l Let_def validation_rows_per_bloom_group_def)
  have tip: "?n \<noteq> 0 \<Longrightarrow> \<exists>t. read_tip (db_meta db) = Inr t \<and> jr_height (jn_rows j ! (?n - 1)) = tip_height t"
    using inv(1) by (auto simp: journal_inv_def last_conv_nth)
  have "load_journal sha db = Some (Inr ?l)"
    unfolding load_journal_def Let_def base(1) ok_or_simps map_err_simps bind_call_simps zero run option.map close
    using tip by (auto simp: loaded_def)
  with l show ?thesis by (simp add: loaded_def)
qed

lemma reopen_ok:
  assumes inv: "chain_inv sha s" "count_exact s" and j: "cs_journal s = Some j" and sha: "\<forall>x. length (sha x) = 32"
    and small: "card (dom (store_view (db_utxos (cs_db s)))) < 2 ^ 64"
    and meta: "metadata_exists (db_meta (cs_db s))" "exec_from_database genesis (db_meta (cs_db s)) = (Inr b, db_meta (cs_db s))"
    and options: "opt_validation_delta_journal options \<or> jn_rows j \<noteq> []"
  shows "chain_from_database sha genesis options (cs_db s)
    = Some (Inr (s\<lparr>cs_options := options, cs_journal := Some (j\<lparr>jn_legacy_hits := fmempty\<rparr>)\<rparr>), cs_db s)"
proof -
  have jinv: "journal_inv sha (cs_db s) j" "store_inv (db_utxos (cs_db s))" using inv(1) j by (simp_all add: chain_inv_def)
  have "jn_rows j = [] \<longrightarrow> card (dom (store_view (db_utxos (cs_db s)))) = unat (jn_utxo_count j)"
    using inv(2) j by (auto simp: count_exact_def chain_view_def)
  from load_journal_ok [OF jinv small sha this] obtain l where
    l: "load_journal sha (cs_db s) = Some (Inr l)" "jl_journal l = j\<lparr>jn_legacy_hits := fmempty\<rparr>"
    "jl_migrated_rows l = []" "jl_migrated_groups l = []" by blast
  have "opt_validation_delta_journal options \<or> fmdom (db_deltas (cs_db s)) \<noteq> {||} \<or> fmdom (db_shards (cs_db s)) \<noteq> {||}"
    using options jinv(1) by (auto simp: journal_inv_def)
  then show ?thesis
    using meta l by (simp add: chain_from_database_def pst_bind_def Let_def)
qed

section \<open>Rewriting a legacy row\<close>

lemma shard_legacy_row_ok:
  assumes inv: "chain_inv sha s"
  shows "case shard_legacy_validation_delta h s of (r, s') \<Rightarrow>
    chain_inv sha s' \<and> chain_view s' = chain_view s \<and> cs_journal s' = cs_journal s \<and> (\<forall>e. r = Inl e \<longrightarrow> s' = s)"
proof (cases "\<exists>j m db. cs_journal s = Some j \<and> shard_legacy_row h (cs_db s) = Inr (Some m, db)")
  case False
  then show ?thesis
    using inv by (auto simp: shard_legacy_validation_delta_def commit_tx_def shard_legacy_row_def res_simps Let_def
        split: sum.splits if_splits)
next
  case True
  then obtain j m db where j: "cs_journal s = Some j" and run: "shard_legacy_row h (cs_db s) = Inr (Some m, db)" by blast
  from run obtain encoded n us manifest shards where
    e: "fmlookup (db_deltas (cs_db s)) h = Some encoded" "starts_with encoded validation_delta_magic"
    and d: "decode_validation_delta encoded = Inr (n, us)" and s: "encode_sharded_validation_delta us n = Inr (manifest, shards)"
    and db: "db = (cs_db s)\<lparr>db_deltas := fmupd h manifest (db_deltas (cs_db s)),
        db_shards := fold (\<lambda>(shard, bs). fmupd (validation_delta_shard_key h shard) bs) shards (db_shards (cs_db s))\<rparr>"
    by (auto simp: shard_legacy_row_def load_delta_def res_simps split: if_splits)
  note shape = decode_validation_delta_shape(3,4) [OF d]
  have same: "decode_row_at db h' = decode_row_at (cs_db s) h'" for h'
  proof -
    let ?w = "with_row h manifest shards [] 0 [] (cs_db s)"
    have "decode_row_at db = decode_row_at ?w" by (rule decode_row_at_tables) (simp_all add: db with_row_def)
    moreover have "decode_row_at ?w h' = decode_row_at (cs_db s) h'" if "h' \<noteq> h"
      by (rule with_row_other(1) [OF encode_sharded_shards(1) [OF s shape] that])
    moreover have "decode_row_at (cs_db s) h = Inr (n, us)"
      using e d decode_validation_delta_shape(1) [OF d]
      by (auto simp: decode_row_at_def load_delta_def decode_validation_delta_record_def read_record_header_def)
    ultimately show ?thesis using with_row_this [OF s shape] by metis
  qed
  have tabs: "db_row_blooms db = db_row_blooms (cs_db s)" "db_group_blooms db = db_group_blooms (cs_db s)"
    "db_utxos db = db_utxos (cs_db s)" "db_meta db = db_meta (cs_db s)" by (simp_all add: db)
  have upd: "row_updates db = row_updates (cs_db s)" by (simp add: row_updates_def same fun_eq_iff)
  have hold: "row_holds sha db = row_holds sha (cs_db s)" by (simp add: row_holds_def same upd fun_eq_iff tabs)
  have gs: "groups_hold sha db j = groups_hold sha (cs_db s) j" by (simp add: groups_hold_def upd tabs)
  have dom: "fset (fmdom (db_deltas db)) = fset (fmdom (db_deltas (cs_db s)))" using e(1) by (auto simp: db intro: fmdomI)
  have "ages_ok db" by (rule ages_ok_frame [of "cs_db s"]) (use inv in \<open>simp_all add: db chain_inv_def\<close>)
  moreover have "journal_inv sha db j"
    using inv j unfolding chain_inv_def journal_inv_def hold gs dom upd by (simp add: tabs)
  ultimately have "chain_inv sha (s\<lparr>cs_db := db\<rparr>)" using inv j by (simp add: chain_inv_def tabs)
  moreover have "chain_view (s\<lparr>cs_db := db\<rparr>) = chain_view s"
    using j by (simp add: chain_view_def upd tabs)
  ultimately show ?thesis using run j by (simp add: shard_legacy_validation_delta_def commit_tx_def)
qed

end
