(* ===== verification/Chain_Store_Properties.thy ===== *)
theory Chain_Store_Properties
  imports Chain_Journal_Maintenance
begin

text \<open>
  The properties of the unified chainstate of \<open>chain_store.rs\<close>, with their witnesses.
\<close>

section \<open>Errors change nothing\<close>

definition fails_clean :: "'s \<Rightarrow> ('s, 'e, 'a) pst \<Rightarrow> bool" where
  "fails_clean s m \<longleftrightarrow> (\<forall>e s'. m s = Some (Inl e, s') \<longrightarrow> s' = s)"

lemma fails_clean_lift: "(\<And>x. fails_clean s (f x)) \<Longrightarrow> fails_clean s (pst_bind (pst_lift r) f)"
  by (cases r) (simp_all add: fails_clean_def pst_bind_def)

lemma fails_clean_expect: "(\<And>x. fails_clean s (f x)) \<Longrightarrow> fails_clean s (pst_bind (pst_expect v) f)"
  by (cases v) (simp_all add: fails_clean_def pst_bind_def)

lemma fails_clean_tx: "fails_clean s (pst_of id (commit_tx body))"
  by (auto simp: fails_clean_def pst_of_def commit_tx_def split: sum.splits)

lemma fails_clean_tx_then:
  "fails_clean s (pst_bind (pst_of id (commit_tx body)) (\<lambda>x s'. Some (Inr (f x), g x s')))"
  by (auto simp: fails_clean_def pst_bind_def pst_of_def commit_tx_def split: sum.splits)

lemma commit_connect_batch_fails_clean: "fails_clean s (commit_connect_batch sha ts)"
proof -
  have journal: "fails_clean s (commit_validation_batch sha j ts spent created)" for j spent created
    unfolding fails_clean_def commit_validation_batch_def Let_def
    unfolding fails_clean_def [symmetric]
    by (intro fails_clean_lift) (auto simp: split_def intro!: fails_clean_lift fails_clean_expect fails_clean_tx_then)
  show ?thesis
  proof (cases "ts = []")
    case True
    then show ?thesis by (simp add: fails_clean_def commit_connect_batch_def)
  next
    case False
    show ?thesis
      unfolding fails_clean_def commit_connect_batch_def Let_def if_not_P [OF False] split_def
      unfolding fails_clean_def [symmetric]
      by (cases "cs_journal s") (simp_all add: journal fails_clean_lift fails_clean_tx)
  qed
qed

lemma commit_tx_error: "commit_tx body s = (Inl e, s') \<Longrightarrow> s' = s"
  by (auto simp: commit_tx_Inl)

text \<open>
  C14. An operation of the unified chainstate that reports an error leaves it untouched: connecting a
  block, committing a batch of blocks in either mode, assuming a snapshot, pruning undo data and
  rewriting a legacy journal row. A failed disconnect may at most have folded the journal into
  the coin tables first.
\<close>

theorem chain_store_error_atomic:
  "(\<forall>e s'. commit_connect parent n spent created undos s = (Inl e, s') \<longrightarrow> s' = s)
   \<and> (\<forall>e s'. commit_connect_batch sha ts s = Some (Inl e, s') \<longrightarrow> s' = s)
   \<and> (\<forall>e s'. assume_snapshot_entries sha anchor content entries now window s = (Inl e, s') \<longrightarrow> s' = s)
   \<and> (\<forall>e s'. prune_block_undos_before headers height s = (Inl e, s') \<longrightarrow> s' = s)
   \<and> (\<forall>e s'. shard_legacy_validation_delta height s = (Inl e, s') \<longrightarrow> s' = s)
   \<and> (\<forall>e s'. commit_disconnect current parent' spent created undos s = (Inl e, s') \<longrightarrow>
        s' = s \<or> s' = snd (materialize_validation_deltas s))"
proof (intro conjI allI impI)
  fix e s'
  show "commit_connect parent n spent created undos s = (Inl e, s') \<Longrightarrow> s' = s" by (rule commit_connect_error)
  show "commit_connect_batch sha ts s = Some (Inl e, s') \<Longrightarrow> s' = s"
    using commit_connect_batch_fails_clean [of s sha ts] by (simp add: fails_clean_def)
  show "assume_snapshot_entries sha anchor content entries now window s = (Inl e, s') \<Longrightarrow> s' = s"
    unfolding assume_snapshot_entries_def by (rule commit_tx_error)
  show "prune_block_undos_before headers height s = (Inl e, s') \<Longrightarrow> s' = s"
    by (auto simp: prune_block_undos_before_def Let_def res_simps dest: commit_tx_error split: if_splits)
  show "shard_legacy_validation_delta height s = (Inl e, s') \<Longrightarrow> s' = s"
    by (auto simp: shard_legacy_validation_delta_def dest: commit_tx_error split: if_splits)
  show "commit_disconnect current parent' spent created undos s = (Inl e, s') \<Longrightarrow>
      s' = s \<or> s' = snd (materialize_validation_deltas s)"
    by (auto simp: commit_disconnect_def res_simps dest!: commit_tx_error split: if_splits)
qed

section \<open>When a batch is refused\<close>

text \<open>
  The bookkeeping of a batch: its spent ages count up, and the undo table, the tip and the
  histogram accept it. In a store without a journal a batch whose blocks apply in sequence is
  refused for no other reason.
\<close>

definition batch_bookkeeping :: "connect_transition list \<Rightarrow> chain_store \<Rightarrow> bool" where
  "batch_bookkeeping ts s = (case batch_age_counts ts of
     Inl _ \<Rightarrow> False
   | Inr counts \<Rightarrow> (case tx_bind (insert_batch_undos (cs_options s) ts) (\<lambda>_. tx_bind (advance_batch ts) (\<lambda>_.
         connect_spent_ages_transaction counts (tip_height (ct_next (hd ts))) (tip_height (ct_next (last ts)))))
         (cs_db s) of Inl _ \<Rightarrow> False | Inr _ \<Rightarrow> True))"

definition coin_free :: "'a tx \<Rightarrow> bool" where
  "coin_free f \<longleftrightarrow> (\<forall>db t. f (db\<lparr>db_utxos := t\<rparr>) = map_sum id (\<lambda>(x, db'). (x, db'\<lparr>db_utxos := t\<rparr>)) (f db))"

lemma coin_free_ret [intro]: "coin_free (tx_ret x)"
  by (simp add: coin_free_def tx_ret_def)

lemma coin_free_bind [intro]:
  assumes "coin_free m" "\<And>x. coin_free (f x)"
  shows "coin_free (tx_bind m f)"
  unfolding coin_free_def
proof (intro allI)
  fix db t
  have m: "m (db\<lparr>db_utxos := t\<rparr>) = map_sum id (\<lambda>(x, db'). (x, db'\<lparr>db_utxos := t\<rparr>)) (m db)"
    using assms(1) by (simp add: coin_free_def)
  show "tx_bind m f (db\<lparr>db_utxos := t\<rparr>) = map_sum id (\<lambda>(x, db'). (x, db'\<lparr>db_utxos := t\<rparr>)) (tx_bind m f db)"
    using assms(2) by (auto simp: tx_bind_def m coin_free_def split: prod.splits) (cases "m db", auto)
qed

lemma coin_free_undos [intro]: "coin_free (in_undos f)"
  unfolding coin_free_def in_undos_def by (auto simp: bind_res_def map_err_def split: sum.splits)

lemma coin_free_execution [intro]: "coin_free (in_execution f)"
  unfolding coin_free_def in_execution_def by (auto simp: bind_res_def map_err_def split: sum.splits)

lemma coin_free_each [intro]: "(\<And>x. coin_free (f x)) \<Longrightarrow> coin_free (tx_each f xs)"
  by (induction xs) auto

lemma coin_free_ages [intro]: "coin_free (connect_spent_ages_transaction counts a b)"
  unfolding coin_free_def
proof (intro allI)
  fix db t
  show "connect_spent_ages_transaction counts a b (db\<lparr>db_utxos := t\<rparr>)
    = map_sum id (\<lambda>(x, db'). (x, db'\<lparr>db_utxos := t\<rparr>)) (connect_spent_ages_transaction counts a b db)"
    by (cases "fmlookup (db_spent_age_meta db) spent_age_start_height";
        cases "fmlookup (db_spent_age_meta db) spent_age_end_height")
       (auto simp: connect_spent_ages_transaction_def bind_res_def map_err_def split: sum.splits)
qed

lemma coin_free_batch:
  "coin_free (tx_bind (insert_batch_undos opts ts) (\<lambda>_. tx_bind (advance_batch ts) (\<lambda>_. connect_spent_ages_transaction c a b)))"
  by (auto simp: insert_batch_undos_def advance_batch_def)

lemma plain_batch_commits_iff:
  assumes "chain_inv sha s" "run_transitions (chain_view s) ts = Inr v" "ts \<noteq> []"
    and "\<forall>t \<in> set ts. \<forall>r \<in> set (ct_created t). row_ok r" and plain: "cs_journal s = None"
    and r: "commit_connect_batch sha ts s = Some (r, s')"
  shows "(\<exists>u. r = Inr u) \<longleftrightarrow> batch_bookkeeping ts s"
proof -
  from fold_transitions [OF folded_new assms(2) _ assms(4)] obtain spent created where
    f: "try_fold fold_transition ({||}, fmempty) ts = Inr (spent, created)" "folded (chain_view s) (spent, created) v"
    "\<forall>c u. fmlookup created c = Some u \<longrightarrow> row_ok (c, u)" by auto
  note F = folded_changes [OF f(2)]
  let ?spent = "sorted_list_of_fset spent" and ?created = "fmap_entries created"
  have rows: "\<forall>r \<in> set ?created. row_ok r" using f(3) by (auto simp: set_fmap_entries)
  have inv: "store_inv (db_utxos (cs_db s))" and view: "chain_view s = store_view (db_utxos (cs_db s))"
    using assms(1) plain by (simp_all add: chain_inv_def chain_view_def)
  have "commits (store_view (db_utxos (cs_db s))) ?spent ?created
      (apply_validated_changes_transaction ?spent ?created (db_utxos (cs_db s)))"
    unfolding apply_validated_changes_transaction_def
    by (rule merge_validated_spec [OF inv _ rows F(3,4)]) simp
  then obtain t where t: "apply_validated_changes_transaction ?spent ?created (db_utxos (cs_db s)) = Inr t"
    using F(1) by (auto simp: commits_def view)
  show ?thesis
  proof (cases "batch_age_counts ts")
    case (Inl e)
    then show ?thesis using r assms(3) by (auto simp: batch_bookkeeping_def commit_connect_batch_def f(1) plain res_simps)
  next
    case (Inr counts)
    let ?rest = "tx_bind (insert_batch_undos (cs_options s) ts) (\<lambda>_. tx_bind (advance_batch ts) (\<lambda>_.
        connect_spent_ages_transaction counts (tip_height (ct_next (hd ts))) (tip_height (ct_next (last ts)))))"
    have rest: "?rest ((cs_db s)\<lparr>db_utxos := t\<rparr>) = map_sum id (\<lambda>(x, db'). (x, db'\<lparr>db_utxos := t\<rparr>)) (?rest (cs_db s))"
      using coin_free_batch [of "cs_options s" ts counts] by (simp add: coin_free_def)
    have run: "Some (r, s') = pst_of id (commit_tx (tx_bind (in_utxos (\<lambda>t. bind_res (apply_validated_changes_transaction ?spent ?created t)
        (\<lambda>t'. Ok ((), t')))) (\<lambda>_. ?rest))) s"
      using r assms(3) by (simp add: commit_connect_batch_def f(1) plain Inr res_simps)
    have applied: "tx_bind (in_utxos (\<lambda>t. bind_res (apply_validated_changes_transaction ?spent ?created t)
        (\<lambda>t'. Ok ((), t')))) (\<lambda>_. ?rest) (cs_db s) = ?rest ((cs_db s)\<lparr>db_utxos := t\<rparr>)"
      by (subst tx_bind_def) (simp add: in_utxos_def t)
    from run show ?thesis
      by (cases "?rest (cs_db s)") (auto simp: pst_of_def commit_tx_def batch_bookkeeping_def Inr applied rest split: prod.splits)
  qed
qed

section \<open>What the unified chainstate promises\<close>

text \<open>
  C4. A committed batch of blocks has the effect of applying its blocks one after another. Given
  blocks that apply in sequence to the coins the store shows, with or without a journal, the
  commit never panics; it either changes nothing, or the store keeps its invariant, every lookup
  returns the coins after the last block, the tip is the last block, and the undo data of every
  block is there when the store retains it. Without a journal it succeeds exactly when the undo
  table, the tip and the spent-age histogram accept the batch.
\<close>

theorem batch_commit_correct:
  assumes "chain_inv sha s" "run_transitions (chain_view s) ts = Inr v" "ts \<noteq> []"
    and "\<forall>t \<in> set ts. \<forall>u \<in> set (ct_transaction_undos t). undo_wf u"
    and "\<forall>t \<in> set ts. \<forall>r \<in> set (ct_created t). row_ok r"
  shows "\<exists>r s'. commit_connect_batch sha ts s = Some (r, s') \<and> (case r of
      Inl _ \<Rightarrow> s' = s
    | Inr _ \<Rightarrow> chain_inv sha s' \<and> (\<forall>k. chain_get s' k = Inr (v k))
        \<and> read_tip (db_meta (cs_db s')) = Inr (ct_next (last ts))
        \<and> (opt_retain_block_undo (cs_options s) \<longrightarrow> (\<forall>t \<in> set ts.
              undo_get (db_undos (cs_db s')) (tip_hash (ct_next t)) = Inr (Some (ct_transaction_undos t))))
        \<and> (count_exact s \<longrightarrow> count_exact s'))
    \<and> (cs_journal s = None \<longrightarrow> ((\<exists>u. r = Inr u) \<longleftrightarrow> batch_bookkeeping ts s))"
proof -
  from commit_connect_batch_ok [OF assms] obtain out where out: "commit_connect_batch sha ts s = Some out"
    "all_or_nothing s (\<lambda>_. batch_committed sha ts s v) out" by (auto simp: commits_to_def)
  obtain r s' where "out = (r, s')" by force
  moreover from this out(1) have "cs_journal s = None \<longrightarrow> ((\<exists>u. r = Inr u) \<longleftrightarrow> batch_bookkeeping ts s)"
    using plain_batch_commits_iff [OF assms(1-3,5)] by blast
  ultimately show ?thesis
    using out by (cases r) (auto simp: all_or_nothing_def batch_committed_def batch_recorded_def chain_get_ok)
qed

text \<open>
  C19. A lookup through the journal finds what a scan of every row would: filters only skip rows
  that cannot hold the outpoint, newer rows win over older ones, and the coin tables answer for
  outpoints no row mentions.
\<close>

theorem journal_lookup_correct:
  assumes "chain_inv sha s" "cs_journal s = Some j"
  shows "chain_get s k = Inr (deltas_view (store_view (db_utxos (cs_db s))) (map (row_updates (cs_db s)) (jn_rows j)) k)"
  using chain_get_ok [OF assms(1)] assms(2) by (simp add: chain_view_def)

text \<open>
  C13. Materializing the journal always completes: the coins stay as the journal showed them, now in
  the coin tables alone, the journal is empty, and neither the tip nor the undo data moves.
\<close>

theorem materialize_completes:
  assumes "chain_inv sha s"
  shows "\<exists>n s'. materialize_validation_deltas s = (Inr n, s') \<and> chain_inv sha s'
    \<and> store_view (db_utxos (cs_db s')) = chain_view s \<and> chain_view s' = chain_view s
    \<and> (\<forall>j. cs_journal s' = Some j \<longrightarrow> jn_rows j = [])
    \<and> db_meta (cs_db s') = db_meta (cs_db s) \<and> db_undos (cs_db s') = db_undos (cs_db s)"
proof -
  from materialized [OF assms] obtain n s' where m: "materialize_validation_deltas s = (Inr n, s')" "chain_inv sha s'"
    "chain_view s' = chain_view s" "db_meta (cs_db s') = db_meta (cs_db s)" "db_undos (cs_db s') = db_undos (cs_db s)"
    and j: "case cs_journal s' of None \<Rightarrow> cs_journal s = None | Some j \<Rightarrow> jn_rows j = [] \<and> cs_journal s \<noteq> None
        \<and> chain_view s' = store_view (db_utxos (cs_db s'))" by blast
  have "store_view (db_utxos (cs_db s')) = chain_view s" "\<forall>j. cs_journal s' = Some j \<longrightarrow> jn_rows j = []"
    using j m(3) by (auto simp: chain_view_def [of s'] split: option.splits)
  with m show ?thesis by blast
qed

text \<open>
  C12. Connecting a block and disconnecting it with its undo restores the chainstate: the tip, the
  undo table and the spent-age histogram are exactly as before, and so is every coin.
\<close>

theorem connect_disconnect_roundtrip:
  assumes "store_inv (db_utxos (cs_db s))" "ages_ok (cs_db s)" "\<forall>r \<in> set created. row_ok r"
    and "opt_retain_block_undo (cs_options s)" "read_tip (db_meta (cs_db s)) = Inr parent"
    and "commit_connect (tip_hash parent) n spent created undos s = (Inr undo, s1)"
  shows "read_tip (db_meta (cs_db s1)) = Inr n
    \<and> (\<exists>undo' t. commit_disconnect n parent (undo_created undo) (undo_spent undo) undos s1
        = (Inr undo', s\<lparr>cs_db := (cs_db s)\<lparr>db_utxos := t\<rparr>\<rparr>)
      \<and> store_inv t \<and> store_view t = store_view (db_utxos (cs_db s)))"
proof -
  from commit_connect_parts [OF assms(6)] obtain t counts ages age_meta u1 m1 where
    a: "advance_transaction (tip_hash parent) n (db_meta (cs_db s)) = Inr ((), m1)"
    and s1: "s1 = s\<lparr>cs_db := (cs_db s)\<lparr>db_utxos := t, db_undos := u1, db_meta := m1,
        db_spent_ages := ages, db_spent_age_meta := age_meta\<rparr>\<rparr>" by metis
  have "read_tip (db_meta (cs_db s1)) = Inr n" using advance_rewind_transaction(3) [OF a assms(5)] by (simp add: s1)
  with connect_then_disconnect [OF assms] show ?thesis by blast
qed

text \<open>
  C11. Reopening a journal-backed store after a clean stop or a crash between transactions gives
  back the same store: the same rows and filters, the same coins and count, and the database
  is not modified.
\<close>

theorem reopen_recovers:
  assumes "chain_inv sha s" "count_exact s" "cs_journal s = Some j" "\<forall>x. length (sha x) = 32"
    and "card (dom (store_view (db_utxos (cs_db s)))) < 2 ^ 64"
    and "metadata_exists (db_meta (cs_db s))" "exec_from_database genesis (db_meta (cs_db s)) = (Inr b, db_meta (cs_db s))"
    and "opt_validation_delta_journal options \<or> jn_rows j \<noteq> []"
  shows "chain_from_database sha genesis options (cs_db s)
      = Some (Inr (s\<lparr>cs_options := options, cs_journal := Some (j\<lparr>jn_legacy_hits := fmempty\<rparr>)\<rparr>), cs_db s)"
  by (rule reopen_ok [OF assms])

text \<open>
  C20. Disconnecting a block keeps the chainstate consistent on every path, a journal included: on
  success the coins are those of the reverse mutation, the tip is the parent and the block's
  undo is gone; on failure coins, tip and undo data are as before.
\<close>

theorem disconnect_correct:
  assumes "chain_inv sha s" "coins_apply (chain_view s) spent created = Inr spec" "\<forall>r \<in> set created. row_ok r"
  shows "disconnected sha current parent s spec (commit_disconnect current parent spent created undos s)"
  by (rule commit_disconnect_ok [OF assms])

lemma materialize_count:
  "map_option jn_utxo_count (cs_journal (snd (materialize_validation_deltas s))) = map_option jn_utxo_count (cs_journal s)"
  by (auto simp: materialize_validation_deltas_def st_bind_def st_lift_def commit_tx_def split: option.splits sum.splits)

lemma commit_tx_journal: "cs_journal (snd (commit_tx body s)) = cs_journal s"
  by (simp add: commit_tx_def split: sum.splits prod.splits)

lemma disconnect_count:
  "map_option jn_utxo_count (cs_journal (snd (commit_disconnect current parent spent created undos s)))
     = map_option jn_utxo_count (cs_journal s)"
proof -
  have "map_option jn_utxo_count (cs_journal (snd (st_bind (st_lift r) (\<lambda>x. commit_tx (body x)) s')))
      = map_option jn_utxo_count (cs_journal s')" for r s' and body :: "(u32, u64) fmap \<Rightarrow> utxo_undo tx"
    by (cases r) (simp_all add: st_bind_def st_lift_def commit_tx_journal)
  then show ?thesis
    using materialize_count [of s]
    by (cases "materialize_validation_deltas s"; cases "fst (materialize_validation_deltas s)")
       (simp_all add: commit_disconnect_def st_bind_def [of "if _ then _ else _"] st_bind_def [of materialize_validation_deltas] st_ret_def)
qed

text \<open>
  C39. The count a journal answers with is not kept by a disconnect: after disconnecting a block that
  changed the number of coins, a count that was exact before is wrong.
\<close>

theorem disconnect_leaves_count_stale:
  assumes "chain_inv sha s" "count_exact s" "cs_journal s = Some j" "\<forall>r \<in> set created. row_ok r"
    and "coins_apply (chain_view s) spent created = Inr (undo, v)"
    and "commit_disconnect current parent spent created undos s = (Inr undo', s')" "card (dom v) \<noteq> card (dom (chain_view s))"
  shows "\<not> count_exact s'"
proof -
  from commit_disconnect_ok [OF assms(1,5,4), of current parent undos] assms(6) have "chain_view s' = v"
    by (simp add: disconnected_def)
  with disconnect_count [of current parent spent created undos s] assms(2,3,6,7) show ?thesis
    by (auto simp: count_exact_def)
qed

section \<open>Witnesses\<close>

definition sample_chain_db :: chain_db where
  "sample_chain_db = \<lparr>db_utxos = sample_store, db_undos = \<lparr>block_undos = fmempty, pending_row = None\<rparr>, db_meta = sample_meta,
     db_deltas = fmempty, db_shards = fmempty, db_row_blooms = fmempty, db_group_blooms = fmempty,
     db_spent_ages = fmempty, db_spent_age_meta = fmempty\<rparr>"

definition sample_chain :: chain_store where
  "sample_chain = \<lparr>cs_db = sample_chain_db, 
     cs_options = \<lparr>opt_quick_repair = True, opt_retain_block_undo = True, opt_cache_size_bytes = 0,
       opt_validation_delta_journal = False\<rparr>, cs_journal = None\<rparr>"

definition sample_journal :: validation_journal where
  "sample_journal = \<lparr>jn_rows = [], jn_groups = [], jn_legacy_hits = fmempty, jn_utxo_count = 2\<rparr>"

definition sample_journal_chain :: chain_store where
  "sample_journal_chain = sample_chain\<lparr>cs_journal := Some sample_journal\<rparr>"

definition sample_transitions :: "connect_transition list" where
  "sample_transitions =
     [\<lparr>ct_expected_parent = 7, ct_next = \<lparr>tip_height = 1, tip_hash = 5\<rparr>, ct_spent = [sample_key 1],
       ct_created = [(sample_key 3, sample_coin 101 1)], ct_transaction_undos = [sample_undo]\<rparr>,
      \<lparr>ct_expected_parent = 5, ct_next = \<lparr>tip_height = 2, tip_hash = 6\<rparr>, ct_spent = [sample_key 3],
       ct_created = [(sample_key 4, sample_coin 102 2)],
       ct_transaction_undos = [\<lparr>undo_spent = [(sample_key 3, sample_coin 101 1)], undo_created = [sample_key 4]\<rparr>]\<rparr>]"

lemma sample_chain_ok:
  "chain_inv sha sample_chain" "chain_inv sha sample_journal_chain" "count_exact sample_journal_chain"
  "chain_view sample_chain = store_view sample_store" "chain_view sample_journal_chain = store_view sample_store"
proof -
  have ages: "ages_ok sample_chain_db" by (simp add: ages_ok_def sample_chain_db_def)
  show "chain_inv sha sample_chain"
    using ages sample_store_ok(1) by (simp add: chain_inv_def sample_chain_def) (simp add: sample_chain_db_def)
  have "journal_inv sha sample_chain_db sample_journal"
    by (rule journal_inv_empty) (simp_all add: sample_journal_def sample_chain_db_def)
  then show "chain_inv sha sample_journal_chain"
    using ages sample_store_ok(1) by (simp add: chain_inv_def sample_journal_chain_def sample_chain_def) (simp add: sample_chain_db_def)
  show v: "chain_view sample_chain = store_view sample_store" "chain_view sample_journal_chain = store_view sample_store"
    by (simp_all add: chain_view_def sample_journal_chain_def sample_chain_def sample_chain_db_def sample_journal_def)
  have "dom (store_view sample_store) = {sample_key 1, sample_key 2}" by (auto simp: sample_store_ok(2))
  then show "count_exact sample_journal_chain"
    unfolding count_exact_def v by (simp add: sample_journal_chain_def sample_journal_def)
qed

lemma sample_transitions_run:
  "run_transitions (store_view sample_store) sample_transitions
     = Inr [sample_key 2 \<mapsto> sample_coin 100 9, sample_key 4 \<mapsto> sample_coin 102 2]"
  by (auto simp: sample_transitions_def coins_apply_def sample_store_ok(2) coins_after_def restrict_map_def map_add_def fun_eq_iff)

lemma sample_transitions_wf:
  "sample_transitions \<noteq> []" "\<forall>t \<in> set sample_transitions. \<forall>u \<in> set (ct_transaction_undos t). undo_wf u"
  "\<forall>t \<in> set sample_transitions. \<forall>r \<in> set (ct_created t). row_ok r"
  by (simp_all add: sample_transitions_def sample_undo_def undo_wf_def)

theorem batch_commit_correct_witness:
  "\<exists>s'. commit_connect_batch (\<lambda>_. replicate 32 0) sample_transitions sample_chain = Some (Inr (), s')
    \<and> chain_get s' (sample_key 4) = Inr (Some (sample_coin 102 2)) \<and> chain_get s' (sample_key 1) = Inr None
    \<and> read_tip (db_meta (cs_db s')) = Inr \<lparr>tip_height = 2, tip_hash = 6\<rparr>
    \<and> batch_bookkeeping sample_transitions sample_chain"
proof -
  have "map_option fst (commit_connect_batch (\<lambda>_. replicate 32 0) sample_transitions sample_chain) = Some (Inr ())"
    by code_simp
  then obtain s' where s': "commit_connect_batch (\<lambda>_. replicate 32 0) sample_transitions sample_chain = Some (Inr (), s')"
    by auto
  from batch_commit_correct [OF sample_chain_ok(1) sample_transitions_run [folded sample_chain_ok(4)] sample_transitions_wf,
      of "\<lambda>_. replicate 32 0"] s'
  have "(\<forall>k. chain_get s' k = Inr ([sample_key 2 \<mapsto> sample_coin 100 9, sample_key 4 \<mapsto> sample_coin 102 2] k))
    \<and> read_tip (db_meta (cs_db s')) = Inr (ct_next (last sample_transitions))
    \<and> batch_bookkeeping sample_transitions sample_chain" by (simp add: sample_chain_def)
  with s' show ?thesis by (simp add: sample_transitions_def)
qed

theorem journal_lookup_correct_witness:
  "chain_get sample_journal_chain (sample_key 2) = Inr (Some (sample_coin 100 9))
   \<and> chain_get sample_journal_chain (sample_key 5) = Inr None"
proof -
  have j: "cs_journal sample_journal_chain = Some sample_journal" by (simp add: sample_journal_chain_def)
  show ?thesis
    using journal_lookup_correct [OF sample_chain_ok(2) j] sample_store_ok(2)
    by (simp add: sample_journal_def sample_journal_chain_def sample_chain_def sample_chain_db_def)
qed

theorem materialize_completes_witness:
  "\<exists>n s'. materialize_validation_deltas sample_journal_chain = (Inr n, s')
    \<and> store_view (db_utxos (cs_db s')) (sample_key 2) = Some (sample_coin 100 9)"
  using materialize_completes [OF sample_chain_ok(2) [of "\<lambda>_. []"]] by (auto simp: sample_chain_ok(5) sample_store_ok(2))

lemma sample_tip: "read_tip sample_meta = Inr \<lparr>tip_height = 0, tip_hash = 7\<rparr>"
  using sample_meta_state by (auto simp: exec_state_def)

theorem connect_disconnect_roundtrip_witness:
  "\<exists>undo s1 undo' t. commit_connect 7 \<lparr>tip_height = 1, tip_hash = 5\<rparr> [sample_key 1] [(sample_key 3, sample_coin 101 1)] [sample_undo]
        sample_chain = (Inr undo, s1)
    \<and> commit_disconnect \<lparr>tip_height = 1, tip_hash = 5\<rparr> \<lparr>tip_height = 0, tip_hash = 7\<rparr> (undo_created undo) (undo_spent undo)
        [sample_undo] s1 = (Inr undo', sample_chain\<lparr>cs_db := sample_chain_db\<lparr>db_utxos := t\<rparr>\<rparr>)
    \<and> store_view t = store_view sample_store"
proof -
  have "\<not> isl (fst (commit_connect 7 \<lparr>tip_height = 1, tip_hash = 5\<rparr> [sample_key 1] [(sample_key 3, sample_coin 101 1)]
      [sample_undo] sample_chain))" by code_simp
  then obtain undo s1 where run: "commit_connect 7 \<lparr>tip_height = 1, tip_hash = 5\<rparr> [sample_key 1]
      [(sample_key 3, sample_coin 101 1)] [sample_undo] sample_chain = (Inr undo, s1)"
    by (metis isl_def prod.collapse sum.exhaust_sel)
  have c: "cs_db sample_chain = sample_chain_db" "db_utxos sample_chain_db = sample_store" "db_meta sample_chain_db = sample_meta"
    by (simp_all add: sample_chain_def sample_chain_db_def)
  have "ages_ok (cs_db sample_chain)" using sample_chain_ok(1) by (simp add: chain_inv_def)
  moreover have "opt_retain_block_undo (cs_options sample_chain)" by (simp add: sample_chain_def)
  ultimately show ?thesis
    using connect_disconnect_roundtrip [of sample_chain "[(sample_key 3, sample_coin 101 1)]" "\<lparr>tip_height = 0, tip_hash = 7\<rparr>"
        "\<lparr>tip_height = 1, tip_hash = 5\<rparr>" "[sample_key 1]" "[sample_undo]" undo s1] run sample_store_ok(1) sample_tip
    by (auto simp: c)
qed

theorem reopen_recovers_witness:
  "chain_from_database (\<lambda>_. replicate 32 0) 7 \<lparr>opt_quick_repair = True, opt_retain_block_undo = True,
       opt_cache_size_bytes = 0, opt_validation_delta_journal = True\<rparr> sample_chain_db
     = Some (Inr (sample_journal_chain\<lparr>cs_options := \<lparr>opt_quick_repair = True, opt_retain_block_undo = True,
         opt_cache_size_bytes = 0, opt_validation_delta_journal = True\<rparr>\<rparr>), sample_chain_db)"
proof -
  have j: "cs_journal sample_journal_chain = Some sample_journal" "cs_db sample_journal_chain = sample_chain_db"
    by (simp_all add: sample_journal_chain_def sample_chain_def)
  have u: "db_utxos sample_chain_db = sample_store" "db_meta sample_chain_db = sample_meta" by (simp_all add: sample_chain_db_def)
  have "card (dom (store_view sample_store)) < 2 ^ 64" by (simp add: sample_store_ok(2) card_insert_if)
  moreover have "metadata_exists sample_meta" "exec_from_database 7 sample_meta = (Inr False, sample_meta)"
    by (simp_all add: sample_meta_def exec_from_database_def write_transaction_def metadata_exists_def exec_decode_hash_def)
  ultimately show ?thesis
    using reopen_recovers [OF sample_chain_ok(2,3) j(1), of "\<lambda>_. replicate 32 0" 7 False]
    by (simp add: j(2) u) (simp add: sample_journal_chain_def sample_journal_def)
qed

text \<open>The sample store after a block that spends one coin, and the same tables opened with a journal.\<close>

definition sample_spend :: connect_transition where
  "sample_spend = \<lparr>ct_expected_parent = 7, ct_next = \<lparr>tip_height = 1, tip_hash = 5\<rparr>, ct_spent = [sample_key 1],
     ct_created = [], ct_transaction_undos = [\<lparr>undo_spent = [(sample_key 1, sample_coin 10 1)], undo_created = []\<rparr>]\<rparr>"

definition sample_spent_chain :: chain_store where
  "sample_spent_chain = (case commit_connect_batch (\<lambda>_. []) [sample_spend] sample_chain of
     Some (_, s) \<Rightarrow> s\<lparr>cs_journal := Some (sample_journal\<lparr>jn_utxo_count := 1\<rparr>)\<rparr> | None \<Rightarrow> sample_chain)"

lemma sample_spent_ok:
  "chain_inv sha sample_spent_chain" "count_exact sample_spent_chain"
  "chain_view sample_spent_chain = [sample_key 2 \<mapsto> sample_coin 100 9]"
  "cs_journal sample_spent_chain = Some (sample_journal\<lparr>jn_utxo_count := 1\<rparr>)"
proof -
  have "map_option fst (commit_connect_batch (\<lambda>_. []) [sample_spend] sample_chain) = Some (Inr ())" by code_simp
  then obtain s where s: "commit_connect_batch (\<lambda>_. []) [sample_spend] sample_chain = Some (Inr (), s)" by auto
  have run: "run_transitions (chain_view sample_chain) [sample_spend] = Inr [sample_key 2 \<mapsto> sample_coin 100 9]"
    by (auto simp: sample_chain_ok(4) sample_spend_def coins_apply_def sample_store_ok(2) coins_after_def restrict_map_def
        map_add_def fun_eq_iff)
  have "commits_to sample_chain (\<lambda>_. batch_committed sha [sample_spend] sample_chain [sample_key 2 \<mapsto> sample_coin 100 9])
      (commit_connect_batch sha [sample_spend])" for sha
    by (rule commit_connect_batch_ok [OF sample_chain_ok(1) run]) (simp_all add: sample_spend_def undo_wf_def)
  from this [of "\<lambda>_. []"] s have inv: "chain_inv (\<lambda>_. []) s" and view: "chain_view s = [sample_key 2 \<mapsto> sample_coin 100 9]"
    by (simp_all add: commits_to_def all_or_nothing_def batch_committed_def)
  have "case commit_connect_batch (\<lambda>_. []) [sample_spend] sample_chain of Some (_, s) \<Rightarrow> Option.is_none (cs_journal s) | None \<Rightarrow> False"
    by code_simp
  then have j: "cs_journal s = None" by (simp add: s Option.is_none_def split: option.splits)
  have spent: "sample_spent_chain = s\<lparr>cs_journal := Some (sample_journal\<lparr>jn_utxo_count := 1\<rparr>)\<rparr>"
    by (simp add: sample_spent_chain_def s)
  show "cs_journal sample_spent_chain = Some (sample_journal\<lparr>jn_utxo_count := 1\<rparr>)" by (simp add: spent)
  have "db_deltas (cs_db sample_spent_chain) = fmempty" by code_simp
  then have "journal_inv sha (cs_db s) (sample_journal\<lparr>jn_utxo_count := 1\<rparr>)"
    by (intro journal_inv_empty) (simp_all add: sample_journal_def spent)
  then show "chain_inv sha sample_spent_chain" using inv j by (simp add: chain_inv_def spent)
  show v: "chain_view sample_spent_chain = [sample_key 2 \<mapsto> sample_coin 100 9]"
    using view by (simp add: chain_view_def spent j sample_journal_def)
  show "count_exact sample_spent_chain" unfolding count_exact_def v by (simp add: spent)
qed

abbreviation sample_disconnect :: "(chain_store_error + utxo_undo) \<times> chain_store" where
  "sample_disconnect \<equiv> commit_disconnect \<lparr>tip_height = 1, tip_hash = 5\<rparr> \<lparr>tip_height = 0, tip_hash = 7\<rparr> []
     [(sample_key 1, sample_coin 10 1)] [\<lparr>undo_spent = [(sample_key 1, sample_coin 10 1)], undo_created = []\<rparr>] sample_spent_chain"

lemma sample_disconnect_spec:
  "coins_apply (chain_view sample_spent_chain) [] [(sample_key 1, sample_coin 10 1)]
    = Inr (\<lparr>undo_spent = [], undo_created = [sample_key 1]\<rparr>,
        [sample_key 1 \<mapsto> sample_coin 10 1, sample_key 2 \<mapsto> sample_coin 100 9])"
  by (auto simp: sample_spent_ok(3) coins_apply_def coins_after_def restrict_map_def map_add_def fun_eq_iff)

lemma sample_disconnect_ok: "\<exists>undo s'. sample_disconnect = (Inr undo, s')"
proof -
  have "\<not> isl (fst sample_disconnect)" by code_simp
  then show ?thesis by (metis prod.collapse sum.collapse(2))
qed

theorem disconnect_correct_witness:
  "\<exists>s'. sample_disconnect = (Inr \<lparr>undo_spent = [], undo_created = [sample_key 1]\<rparr>, s')
     \<and> chain_view s' = [sample_key 1 \<mapsto> sample_coin 10 1, sample_key 2 \<mapsto> sample_coin 100 9]
     \<and> read_tip (db_meta (cs_db s')) = Inr \<lparr>tip_height = 0, tip_hash = 7\<rparr>"
  using disconnect_correct [OF sample_spent_ok(1) sample_disconnect_spec, of "\<lambda>_. []" "\<lparr>tip_height = 1, tip_hash = 5\<rparr>"
      "\<lparr>tip_height = 0, tip_hash = 7\<rparr>" "[\<lparr>undo_spent = [(sample_key 1, sample_coin 10 1)], undo_created = []\<rparr>]"]
    sample_disconnect_ok
  by (auto simp: disconnected_def)

theorem disconnect_leaves_count_stale_witness:
  "\<exists>undo s'. sample_disconnect = (Inr undo, s') \<and> count_exact sample_spent_chain \<and> \<not> count_exact s'"
proof -
  obtain undo s' where out: "sample_disconnect = (Inr undo, s')" using sample_disconnect_ok by blast
  have "dom [sample_key 1 \<mapsto> sample_coin 10 1, sample_key 2 \<mapsto> sample_coin 100 9] = {sample_key 1, sample_key 2}"
    by auto
  then have "card (dom [sample_key 1 \<mapsto> sample_coin 10 1, sample_key 2 \<mapsto> sample_coin 100 9]) \<noteq> card (dom (chain_view sample_spent_chain))"
    by (simp add: sample_spent_ok(3))
  from disconnect_leaves_count_stale [OF sample_spent_ok(1) [of "\<lambda>_. []"] sample_spent_ok(2,4) _ sample_disconnect_spec out this] out
  show ?thesis using sample_spent_ok(2) by auto
qed

theorem chain_store_error_atomic_witness:
  "\<exists>e. commit_connect 7 \<lparr>tip_height = 1, tip_hash = 5\<rparr> [sample_key 9] [] [] sample_chain = (Inl e, sample_chain)"
proof -
  have "isl (fst (commit_connect 7 \<lparr>tip_height = 1, tip_hash = 5\<rparr> [sample_key 9] [] [] sample_chain))" by code_simp
  then obtain e s' where run: "commit_connect 7 \<lparr>tip_height = 1, tip_hash = 5\<rparr> [sample_key 9] [] [] sample_chain = (Inl e, s')"
    by (metis isl_def prod.collapse)
  from chain_store_error_atomic [THEN conjunct1, rule_format, OF run] run show ?thesis by simp
qed

end
