(* ===== verification/Block_Views.thy ===== *)
theory Block_Views
  imports Utxo_Overlay_Refine Blockchain_Refine Chain_Store
begin

text \<open>
  The read views of \<open>src/src/block_execution.rs\<close> through which the blocks of a batch are
  prepared at once: what one block has recorded so far (\<open>PreparedDelta\<close>,
  \<open>BlockPrepareView\<close>), and what the blocks before it leave (\<open>BatchVersionView\<close>).
  Both refuse every mutation.
\<close>

section \<open>The delta of one block\<close>

datatype delta_answer = Coin utxo | Spent | Unknown

record prepared_delta =
  pd_state :: "(out_point_key, utxo option) fmap"
  pd_spent_from_base :: "out_point_key fset"

definition pd_new :: prepared_delta where
  "pd_new = \<lparr>pd_state = fmempty, pd_spent_from_base = {||}\<rparr>"

definition pd_lookup :: "prepared_delta \<Rightarrow> out_point_key \<Rightarrow> delta_answer" where
  "pd_lookup d k =
     (case fmlookup (pd_state d) k of Some (Some u) \<Rightarrow> Coin u | Some None \<Rightarrow> Spent | None \<Rightarrow> Unknown)"

definition pd_spend :: "out_point_key \<Rightarrow> prepared_delta \<Rightarrow> prepared_delta" where
  "pd_spend k d =
     d\<lparr>pd_state := fmupd k None (pd_state d),
       pd_spent_from_base :=
         (if fmlookup (pd_state d) k = None then finsert k (pd_spent_from_base d) else pd_spent_from_base d)\<rparr>"

definition pd_create :: "coin_row \<Rightarrow> prepared_delta \<Rightarrow> prepared_delta" where
  "pd_create row d = d\<lparr>pd_state := fmupd (fst row) (Some (snd row)) (pd_state d)\<rparr>"

definition pd_record :: "prepared_transaction \<Rightarrow> prepared_delta \<Rightarrow> prepared_delta" where
  "pd_record p d = fold pd_create (prepared_transaction.pt_created p) (fold pd_spend (pt_spent p) d)"

text \<open>The rows of the state in key order, as the source sorts them.\<close>

definition pd_created_rows :: "prepared_delta \<Rightarrow> coin_row list" where
  "pd_created_rows d = List.map_filter (\<lambda>(k, v). map_option (Pair k) v) (current_rows (pd_state d))"

definition pd_net_changes :: "prepared_delta \<Rightarrow> utxo_changes" where
  "pd_net_changes d =
     \<lparr>ch_spent = sorted_list_of_fset (pd_spent_from_base d), ch_created = pd_created_rows d,
      ch_undo = \<lparr>undo_spent = [], undo_created = []\<rparr>\<rparr>"

section \<open>The view a block is prepared on\<close>

record 'st prepare_view =
  pv_base :: 'st
  pv_delta :: prepared_delta

definition pv_new :: "'st \<Rightarrow> 'st prepare_view" where
  "pv_new base = \<lparr>pv_base = base, pv_delta = pd_new\<rparr>"

definition read_only :: "string \<Rightarrow> ('st, utxo_error, 'a) st" where
  "read_only message = st_err (Malformed message)"

definition pv_get :: "'st utxo_ops \<Rightarrow> out_point_key \<Rightarrow> ('st prepare_view, utxo_error, utxo option) st" where
  "pv_get base k w =
     (case pd_lookup (pv_delta w) k of
        Coin u \<Rightarrow> (Inr (Some u), w)
      | Spent \<Rightarrow> (Inr None, w)
      | Unknown \<Rightarrow> (case ops_get base k (pv_base w) of (r, b) \<Rightarrow> (r, w\<lparr>pv_base := b\<rparr>)))"

definition prepare_ops :: "'st utxo_ops \<Rightarrow> 'st prepare_view utxo_ops" where
  "prepare_ops base =
     \<lparr>ops_get = pv_get base,
      ops_apply_with_undo = (\<lambda>_ _. read_only ''prepare view is read-only''),
      ops_apply_with_undo_fresh_outputs = (\<lambda>_ _. read_only ''prepare view is read-only''),
      ops_apply_with_undo_fresh_outputs_from_prevouts = (\<lambda>_ _ _. read_only ''prepare view is read-only''),
      ops_undo = (\<lambda>_ _ _. read_only ''prepare view is read-only'')\<rparr>"

definition pv_record :: "prepared_transaction \<Rightarrow> 'st prepare_view \<Rightarrow> 'st prepare_view" where
  "pv_record p w = w\<lparr>pv_delta := pd_record p (pv_delta w)\<rparr>"

definition mark_spent :: "out_point_key list \<Rightarrow> 'st prepare_view \<Rightarrow> 'st prepare_view" where
  "mark_spent ks w = w\<lparr>pv_delta := fold pd_spend ks (pv_delta w)\<rparr>"

section \<open>The view of a whole batch\<close>

type_synonym coin_versions = "(out_point_key, (u32 \<times> utxo option) list) fmap"

fun latest_before :: "u32 \<Rightarrow> (u32 \<times> utxo option) list \<Rightarrow> delta_answer" where
  "latest_before before_index [] = Unknown"
| "latest_before before_index ((index, v) # entries) =
     (if index < before_index then (case v of Some u \<Rightarrow> Coin u | None \<Rightarrow> Spent) else latest_before before_index entries)"

definition version_lookup :: "coin_versions \<Rightarrow> u32 \<Rightarrow> out_point_key \<Rightarrow> delta_answer" where
  "version_lookup versions before_index k =
     (case fmlookup versions k of None \<Rightarrow> Unknown | Some entries \<Rightarrow> latest_before before_index (rev entries))"

definition version_get ::
  "coin_versions \<Rightarrow> u32 \<Rightarrow> 'st utxo_ops \<Rightarrow> out_point_key \<Rightarrow> ('st, utxo_error, utxo option) st" where
  "version_get versions before_index base k =
     (case version_lookup versions before_index k of
        Coin u \<Rightarrow> st_ret (Some u) | Spent \<Rightarrow> st_ret None | Unknown \<Rightarrow> ops_get base k)"

definition version_ops :: "coin_versions \<Rightarrow> u32 \<Rightarrow> 'st utxo_ops \<Rightarrow> 'st utxo_ops" where
  "version_ops versions before_index base =
     \<lparr>ops_get = version_get versions before_index base,
      ops_apply_with_undo = (\<lambda>_ _. read_only ''batch version view is read-only''),
      ops_apply_with_undo_fresh_outputs = (\<lambda>_ _. read_only ''batch version view is read-only''),
      ops_apply_with_undo_fresh_outputs_from_prevouts = (\<lambda>_ _ _. read_only ''batch version view is read-only''),
      ops_undo = (\<lambda>_ _ _. read_only ''batch version view is read-only'')\<rparr>"

text \<open>What the raw transactions of one block do: the coins they create and the keys they spend.\<close>

type_synonym tx_delta = "coin_row list \<times> out_point_key list"

definition tx_delta_step ::
  "bitcoin_lib \<Rightarrow> u32 \<Rightarrow> u64 \<Rightarrow> u32 \<Rightarrow> tx_delta \<Rightarrow> nat \<times> transaction \<times> hash256 \<Rightarrow> tx_delta option" where
  "tx_delta_step L height now mtp = (\<lambda>(created, spent) (position, tx, txid).
     map_option (\<lambda>rows.
       (created @ rows,
        if position \<noteq> 0 then spent @ map (\<lambda>input. key_of (previous_output input)) (tx_input tx) else spent))
       (created_outputs L tx txid height now mtp (position = 0)))"

fun option_fold :: "('b \<Rightarrow> 'a \<Rightarrow> 'b option) \<Rightarrow> 'b \<Rightarrow> 'a list \<Rightarrow> 'b option" where
  "option_fold f b [] = Some b"
| "option_fold f b (x # xs) = Option.bind (f b x) (\<lambda>b'. option_fold f b' xs)"

definition tx_delta :: "bitcoin_lib \<Rightarrow> block \<Rightarrow> hash256 list \<Rightarrow> u32 \<Rightarrow> u64 \<Rightarrow> u32 \<Rightarrow> tx_delta option" where
  "tx_delta L block ids height now mtp =
     option_fold (tx_delta_step L height now mtp) ([], []) (enumerate 0 (zip (txdata block) ids))"

definition push_version :: "out_point_key \<Rightarrow> u32 \<times> utxo option \<Rightarrow> coin_versions \<Rightarrow> coin_versions" where
  "push_version k entry versions =
     fmupd k ((case fmlookup versions k of Some entries \<Rightarrow> entries | None \<Rightarrow> []) @ [entry]) versions"

definition add_versions :: "nat \<times> tx_delta \<Rightarrow> coin_versions \<Rightarrow> coin_versions" where
  "add_versions = (\<lambda>(index, created, spent) versions.
     fold (\<lambda>k. push_version k (word_of_nat index, None)) spent
       (fold (\<lambda>(k, u). push_version k (word_of_nat index, Some u)) created versions))"

definition coin_versions :: "tx_delta list \<Rightarrow> coin_versions" where
  "coin_versions deltas = fold add_versions (enumerate 0 deltas) fmempty"

end
