(* ===== verification/Block_Execution.thy ===== *)
theory Block_Execution
  imports Block_Views Deployments
begin

text \<open>
  Active-chain block execution, \<open>src/src/block_execution.rs\<close>: recovery of a write-ahead
  transition, validation and connection of one block through an overlay, connection of a
  batch whose blocks are prepared at once, and disconnection of the tip. The chainstate
  behind the trait \<open>ExecutionChainStore\<close> is the unified store of \<open>Chain_Store\<close>.

  The worker threads of a batch claim block indices from a counter and leave one result per
  index in its slot; results are collected in index order. The only effect a worker has on what the
  others see is to fill the read cache of the batch overlay, so the blocks are prepared here in
  index order. Which worker verifies the scripts of which block is the parameter \<open>claims\<close>: for
  each worker, in the order in which they finish, the indices it claimed. Timings are left out.
\<close>

section \<open>Errors\<close>

datatype block_execution_error =
    TipNotActive u32 hash256
  | NoNextHeader u32
  | UnexpectedBlock hash256 hash256
  | MissingParentMtp hash256
  | Exec_Block block_error
  | Exec_ChainStore chain_store_error
  | Exec_Undo undo_store_error
  | Exec_Execution execution_store_error
  | Exec_Rollback utxo_error
  | MissingExecutedHeader hash256
  | DisconnectGenesis
  | DisconnectAssumedSnapshotBase u32 hash256
  | MissingUndo hash256
  | Bip30Collision out_point_key
  | DeploymentCount nat nat
  | TransactionIdCount
  | UtxoPrefetchMismatch
  | InconsistentTransition
  | TransitionTipMismatch u32 hash256

definition execution_is_peer_invalid :: "block_execution_error \<Rightarrow> bool" where
  "execution_is_peer_invalid e =
     (case e of UnexpectedBlock _ _ \<Rightarrow> True | Exec_Block err \<Rightarrow> block_is_peer_invalid err | _ \<Rightarrow> False)"

section \<open>Recovery of a write-ahead transition\<close>

datatype pending_utxo_state = Before | After | Either | Mixed

definition matches_before :: "pending_utxo_state \<Rightarrow> bool" where
  "matches_before state \<longleftrightarrow> state = Before \<or> state = Either"

definition matches_after :: "pending_utxo_state \<Rightarrow> bool" where
  "matches_after state \<longleftrightarrow> state = After \<or> state = Either"

text \<open>Collecting rows into a map keeps the last row of a key.\<close>

definition collect_map :: "coin_row list \<Rightarrow> out_point_key \<Rightarrow> utxo option" where
  "collect_map rows = map_of (rev rows)"

definition pending_match ::
  "'st utxo_ops \<Rightarrow> pending_transition \<Rightarrow> bool \<times> bool \<Rightarrow> out_point_key \<Rightarrow> ('st, utxo_error, bool \<times> bool) st" where
  "pending_match ops intent acc k =
     st_bind (ops_get ops k) (\<lambda>current.
       st_ret (fst acc \<and> current = collect_map (undo_spent (pt_undo intent)) k,
               snd acc \<and> current = collect_map (pending_transition.pt_created intent) k))"

definition pending_keys :: "pending_transition \<Rightarrow> out_point_key list" where
  "pending_keys intent =
     sorted_list_of_set (set (map fst (undo_spent (pt_undo intent)) @ undo_created (pt_undo intent)))"

definition pending_utxo_state ::
  "'st utxo_ops \<Rightarrow> pending_transition \<Rightarrow> ('st, utxo_error, pending_utxo_state) st" where
  "pending_utxo_state ops intent =
     st_bind (st_fold (pending_match ops intent) (True, True) (pending_keys intent)) (\<lambda>m.
       st_ret (case m of (True, True) \<Rightarrow> Either | (True, False) \<Rightarrow> Before
                       | (False, True) \<Rightarrow> After | (False, False) \<Rightarrow> Mixed))"

text \<open>The three databases that a recovery works on.\<close>

record 'st recovery_state =
  rs_coins :: 'st
  rs_undos :: undo_tables
  rs_meta :: meta

definition on_coins :: "('st, utxo_error, 'a) st \<Rightarrow> ('st recovery_state, block_execution_error, 'a) st" where
  "on_coins f s = (case f (rs_coins s) of (r, t) \<Rightarrow> (map_err Exec_Rollback r, s\<lparr>rs_coins := t\<rparr>))"

definition on_undos :: "(undo_tables, undo_store_error, 'a) st \<Rightarrow> ('st recovery_state, block_execution_error, 'a) st" where
  "on_undos f s = (case f (rs_undos s) of (r, t) \<Rightarrow> (map_err Exec_Undo r, s\<lparr>rs_undos := t\<rparr>))"

definition on_meta :: "(meta, execution_store_error, 'a) st \<Rightarrow> ('st recovery_state, block_execution_error, 'a) st" where
  "on_meta f s = (case f (rs_meta s) of (r, t) \<Rightarrow> (map_err Exec_Execution r, s\<lparr>rs_meta := t\<rparr>))"

definition forget_transition :: "pending_transition \<Rightarrow> ('st recovery_state, block_execution_error, bool) st" where
  "forget_transition intent =
     st_bind (on_undos (undo_remove (tip_hash (pt_next intent)))) (\<lambda>_.
     st_bind (on_undos (clear_transition (tip_hash (pt_next intent)))) (\<lambda>_. st_ret True))"

definition revert_coins ::
  "'st utxo_ops \<Rightarrow> pending_transition \<Rightarrow> pending_utxo_state \<Rightarrow> u64 \<Rightarrow> u64
     \<Rightarrow> ('st recovery_state, block_execution_error, unit) st" where
  "revert_coins ops intent state now window =
     (case state of
        After \<Rightarrow> on_coins (ops_undo ops (pt_undo intent) now window)
      | Mixed \<Rightarrow> st_err InconsistentTransition
      | _ \<Rightarrow> st_ret ())"

definition recover_pending_transition ::
  "'st utxo_ops \<Rightarrow> u64 \<Rightarrow> u64 \<Rightarrow> ('st recovery_state, block_execution_error, bool) st" where
  "recover_pending_transition ops now window =
     st_bind (\<lambda>s. (map_err Exec_Undo (read_pending_transition (rs_undos s)), s)) (\<lambda>found.
     case found of
       None \<Rightarrow> st_ret False
     | Some intent \<Rightarrow>
     st_bind (\<lambda>s. (map_err Exec_Execution (read_tip (rs_meta s)), s)) (\<lambda>execution_tip.
     st_bind (on_coins (pending_utxo_state ops intent)) (\<lambda>state.
       if pt_kind intent = Connect \<and> execution_tip = pt_parent intent
       then st_bind (revert_coins ops intent state now window) (\<lambda>_. forget_transition intent)
       else if pt_kind intent = Connect \<and> execution_tip = pt_next intent
       then if \<not> matches_after state then st_err InconsistentTransition
            else st_bind (\<lambda>s. (map_err Exec_Undo (undo_get (rs_undos s) (tip_hash (pt_next intent))), s)) (\<lambda>undos.
                 if undos = None then st_err (MissingUndo (tip_hash (pt_next intent)))
                 else st_bind (on_undos (clear_transition (tip_hash (pt_next intent)))) (\<lambda>_. st_ret True))
       else if pt_kind intent = Disconnect \<and> execution_tip = pt_next intent
       then st_bind (revert_coins ops intent state now window) (\<lambda>_.
            st_bind (on_meta (rewind (pt_next intent) (pt_parent intent))) (\<lambda>_. forget_transition intent))
       else if pt_kind intent = Disconnect \<and> execution_tip = pt_parent intent
       then if \<not> matches_before state then st_err InconsistentTransition else forget_transition intent
       else st_err (TransitionTipMismatch (tip_height execution_tip) (tip_hash execution_tip)))))"

section \<open>BIP30\<close>

definition collision_step ::
  "'st utxo_ops \<Rightarrow> bitcoin_lib \<Rightarrow> hash256 \<Rightarrow> out_point_key fset \<Rightarrow> nat \<times> txout
     \<Rightarrow> ('st, utxo_error, out_point_key fset) st" where
  "collision_step ops L txid collisions = (\<lambda>(vout, output).
     if is_unspendable L (txo_script output) then st_ret collisions
     else
     st_bind (st_lift (ok_or (u32_try_from vout) (Malformed ''output index''))) (\<lambda>vout.
     let outpoint = key_of \<lparr>op_txid = txid, op_vout = vout\<rparr> in
     st_bind (ops_get ops outpoint) (\<lambda>u.
       st_ret (if u \<noteq> None then finsert outpoint collisions else collisions))))"

definition block_output_collisions ::
  "'st utxo_ops \<Rightarrow> bitcoin_lib \<Rightarrow> block \<Rightarrow> ('st, utxo_error, out_point_key list) st" where
  "block_output_collisions ops L block =
     st_bind (st_fold (\<lambda>collisions tx.
         st_fold (collision_step ops L (compute_txid L tx)) collisions (enumerate 0 (tx_output tx)))
       {||} (txdata block)) (\<lambda>collisions. st_ret (sorted_list_of_fset collisions))"

definition apply_bip30_rules ::
  "'st utxo_ops \<Rightarrow> bitcoin_lib \<Rightarrow> block \<Rightarrow> block_deployment_context
     \<Rightarrow> ('st, block_execution_error, utxo_undo option) st" where
  "apply_bip30_rules ops L block deployments =
     (if \<not> ctx_bip30_enforced deployments \<and> \<not> bip30_overwrite deployments then st_ret None
      else
      st_bind (st_map_err Exec_Rollback (block_output_collisions ops L block)) (\<lambda>collisions.
        if collisions = [] then st_ret None
        else if bip30_overwrite deployments
        then st_bind (st_map_err Exec_Rollback (ops_apply_with_undo ops collisions [])) (\<lambda>undo. st_ret (Some undo))
        else st_err (Bip30Collision (hd collisions))))"

fun read_overwritten ::
  "'st utxo_ops \<Rightarrow> out_point_key list \<Rightarrow> ('st, utxo_error, coin_row list) st" where
  "read_overwritten ops [] = st_ret []"
| "read_overwritten ops (k # ks) =
     st_bind (ops_get ops k) (\<lambda>found.
     st_bind (st_lift (ok_or found (Missing k))) (\<lambda>u.
     st_bind (read_overwritten ops ks) (\<lambda>rows. st_ret ((k, u) # rows))))"

definition prepare_bip30_rules ::
  "'st utxo_ops \<Rightarrow> bitcoin_lib \<Rightarrow> block \<Rightarrow> block_deployment_context
     \<Rightarrow> ('st prepare_view, block_execution_error, utxo_undo option) st" where
  "prepare_bip30_rules base L block deployments =
     (if \<not> ctx_bip30_enforced deployments \<and> \<not> bip30_overwrite deployments then st_ret None
      else
      st_bind (st_map_err Exec_Rollback (block_output_collisions (prepare_ops base) L block)) (\<lambda>collisions.
        if collisions = [] then st_ret None
        else if \<not> bip30_overwrite deployments then st_err (Bip30Collision (hd collisions))
        else
        st_bind (st_map_err Exec_Rollback (read_overwritten (prepare_ops base) collisions)) (\<lambda>overwritten w.
          (Inr (Some \<lparr>undo_spent = overwritten, undo_created = []\<rparr>), mark_spent collisions w))))"

section \<open>Connecting one block\<close>

text \<open>The checks of a block against the active chain: its height and its parent's median time.\<close>

definition next_active_block ::
  "bitcoin_lib \<Rightarrow> header_dag \<Rightarrow> block \<Rightarrow> execution_tip \<Rightarrow> block_execution_error + (u32 \<times> u32)" where
  "next_active_block L headers block current =
     (if (case active_header_at headers (tip_height current) of
            None \<Rightarrow> True | Some header \<Rightarrow> hi_hash header \<noteq> tip_hash current)
      then Err (TipNotActive (tip_height current) (tip_hash current))
      else
      bind_res (ok_or (checked_add (tip_height current) 1) (NoNextHeader (tip_height current))) (\<lambda>next_height.
      bind_res (ok_or (active_header_at headers next_height) (NoNextHeader (tip_height current))) (\<lambda>expected.
      let actual = block_hash L (b_header block) in
      if actual \<noteq> hi_hash expected then Err (UnexpectedBlock (hi_hash expected) actual)
      else
      bind_res (ok_or (median_time_past headers (tip_hash current)) (MissingParentMtp (tip_hash current)))
        (\<lambda>parent_mtp. Ok (next_height, parent_mtp)))))"

text \<open>Running on a fresh overlay or view and taking it out afterwards.\<close>

definition with_overlay :: "('st overlay, 'e, 'a) pst \<Rightarrow> ('st, 'e, 'a \<times> 'st overlay) pst" where
  "with_overlay m s =
     map_option (\<lambda>(r, o'). (bind_res r (\<lambda>x. Ok (x, o')), ov_base o')) (m (ov_new s))"

definition with_prepare_view :: "('st prepare_view, 'e, 'a) pst \<Rightarrow> ('st, 'e, 'a \<times> prepared_delta) pst" where
  "with_prepare_view m s =
     map_option (\<lambda>(r, w). (bind_res r (\<lambda>x. Ok (x, pv_delta w)), pv_base w)) (m (pv_new s))"

definition pst_map_err :: "('e \<Rightarrow> 'f) \<Rightarrow> ('s, 'e, 'a) pst \<Rightarrow> ('s, 'f, 'a) pst" where
  "pst_map_err g m = pst_match m pst_ret (\<lambda>e. pst_err (g e))"

definition validate_structure ::
  "bitcoin_lib \<Rightarrow> block \<Rightarrow> u32 \<Rightarrow> block_deployment_context \<Rightarrow> ('st, block_execution_error, unit) pst" where
  "validate_structure L block next_height deployments =
     pst_map_err Exec_Block (pst_call (validate_block_structure_with_deployments L block next_height
       (bip34_active deployments) (segwit_active deployments) (signet_challenge deployments)))"

text \<open>The choice of the way a block is applied to its overlay.\<close>

definition apply_active_block ::
  "'st utxo_ops \<Rightarrow> bitcoin_lib \<Rightarrow> script_pool \<Rightarrow> block \<Rightarrow> u32 \<Rightarrow> u64 \<Rightarrow> u32 \<Rightarrow> u64
     \<Rightarrow> block_deployment_context \<Rightarrow> bool \<Rightarrow> bool \<Rightarrow> hash256 list option
     \<Rightarrow> ('st, block_execution_error, applied_block \<times> deferred_script_check list) pst" where
  "apply_active_block ops L P block next_height now parent_mtp window deployments
     structure_prevalidated defer_scripts transaction_ids =
     (if defer_scripts
      then pst_bind (if structure_prevalidated then pst_ret ()
                     else validate_structure L block next_height deployments) (\<lambda>_.
        pst_map_err Exec_Block
          (case transaction_ids of
             Some ids \<Rightarrow> apply_prevalidated_block_with_deferred_scripts_and_txids ops L P block ids next_height now
                 parent_mtp window (script_flags deployments) (csv_active deployments) (subsidy_sats deployments)
           | None \<Rightarrow> apply_prevalidated_block_with_deferred_scripts ops L P block next_height now
                 parent_mtp window (script_flags deployments) (csv_active deployments) (subsidy_sats deployments)))
      else if structure_prevalidated
      then pst_bind (pst_map_err Exec_Block (apply_prevalidated_block_with_deployments ops L P block next_height now
             parent_mtp window (script_flags deployments) (csv_active deployments) (subsidy_sats deployments)))
             (\<lambda>applied. pst_ret (applied, []))
      else pst_bind (pst_map_err Exec_Block (apply_block_with_deployments ops L P block next_height now
             parent_mtp window (script_flags deployments) (bip34_active deployments) (csv_active deployments)
             (segwit_active deployments) (signet_challenge deployments) (subsidy_sats deployments)))
             (\<lambda>applied. pst_ret (applied, [])))"

text \<open>A block on its overlay: the BIP30 rules, the transactions, and the undo of overwritten coins in front.\<close>

definition run_active_block ::
  "'st utxo_ops \<Rightarrow> bitcoin_lib \<Rightarrow> script_pool \<Rightarrow> block \<Rightarrow> u32 \<Rightarrow> u64 \<Rightarrow> u32 \<Rightarrow> u64
     \<Rightarrow> block_deployment_context \<Rightarrow> bool \<Rightarrow> bool \<Rightarrow> hash256 list option
     \<Rightarrow> ('st, block_execution_error, applied_block \<times> deferred_script_check list) pst" where
  "run_active_block ops L P block next_height now parent_mtp window deployments
     structure_prevalidated defer_scripts transaction_ids =
     pst_bind (pst_of id (apply_bip30_rules ops L block deployments)) (\<lambda>exception_undo.
     pst_bind (apply_active_block ops L P block next_height now parent_mtp window deployments
                 structure_prevalidated defer_scripts transaction_ids) (\<lambda>(applied, scripts).
       pst_ret (case exception_undo of
                  Some undo \<Rightarrow> applied\<lparr>ab_transaction_undos := undo # ab_transaction_undos applied\<rparr>
                | None \<Rightarrow> applied, scripts)))"

definition validate_active_block_inner ::
  "'st utxo_ops \<Rightarrow> bitcoin_lib \<Rightarrow> script_pool \<Rightarrow> header_dag \<Rightarrow> block \<Rightarrow> execution_tip \<Rightarrow> u64 \<Rightarrow> u64
     \<Rightarrow> block_deployment_context \<Rightarrow> bool \<Rightarrow> bool \<Rightarrow> hash256 list option
     \<Rightarrow> ('st, block_execution_error, (applied_block \<times> deferred_script_check list) \<times> 'st overlay) pst" where
  "validate_active_block_inner base L P headers block current now window deployments
     structure_prevalidated defer_scripts transaction_ids =
     pst_bind (pst_lift (next_active_block L headers block current)) (\<lambda>(next_height, parent_mtp).
       with_overlay (run_active_block (overlay_ops base) L P block next_height now parent_mtp window deployments
         structure_prevalidated defer_scripts transaction_ids))"

definition validate_active_block ::
  "'st utxo_ops \<Rightarrow> bitcoin_lib \<Rightarrow> script_pool \<Rightarrow> header_dag \<Rightarrow> block \<Rightarrow> execution_tip \<Rightarrow> u64 \<Rightarrow> u64
     \<Rightarrow> block_deployment_context \<Rightarrow> bool \<Rightarrow> ('st, block_execution_error, applied_block \<times> utxo_changes) pst" where
  "validate_active_block base L P headers block current now window deployments structure_prevalidated =
     pst_bind (validate_active_block_inner base L P headers block current now window deployments
                 structure_prevalidated False None) (\<lambda>((applied, _), delta).
     pst_bind (pst_lift (map_err Exec_Rollback (net_changes delta))) (\<lambda>changes.
       pst_ret (applied, changes)))"

text \<open>The unified chainstate as a store of coins.\<close>

definition chain_ops :: "chain_store utxo_ops" where
  "chain_ops =
     \<lparr>ops_get = (\<lambda>k s. (chain_get s k, s)),
      ops_apply_with_undo = chain_apply_with_undo,
      ops_apply_with_undo_fresh_outputs = chain_apply_with_undo,
      ops_apply_with_undo_fresh_outputs_from_prevouts = (\<lambda>spent prevouts. chain_apply_with_undo spent),
      ops_undo = chain_undo\<rparr>"

definition chain_tip :: "chain_store \<Rightarrow> chain_store_error + execution_tip" where
  "chain_tip s = map_err Chain_Execution (read_tip (db_meta (cs_db s)))"

definition read_chain_tip :: "(chain_store, block_execution_error, execution_tip) pst" where
  "read_chain_tip s = Some (map_err Exec_ChainStore (chain_tip s), s)"

definition connect_active_block ::
  "bitcoin_lib \<Rightarrow> script_pool \<Rightarrow> header_dag \<Rightarrow> block \<Rightarrow> u64 \<Rightarrow> u64 \<Rightarrow> block_deployment_context
     \<Rightarrow> (chain_store, block_execution_error, applied_block) pst" where
  "connect_active_block L P headers block now window deployments =
     pst_bind read_chain_tip (\<lambda>current.
     pst_bind (validate_active_block chain_ops L P headers block current now window deployments False)
       (\<lambda>(applied, transition).
     let next_tip = \<lparr>tip_height = tip_height current + 1, tip_hash = ab_hash applied\<rparr> in
     pst_bind (pst_of Exec_ChainStore (commit_connect (tip_hash current) next_tip (ch_spent transition)
                 (ch_created transition) (ab_transaction_undos applied))) (\<lambda>_.
       pst_ret applied)))"

section \<open>Disconnecting the tip\<close>

definition disconnect_execution_tip ::
  "header_dag \<Rightarrow> u64 \<Rightarrow> u64 \<Rightarrow> (chain_store, block_execution_error, execution_tip) pst" where
  "disconnect_execution_tip headers now window =
     pst_bind read_chain_tip (\<lambda>current.
     if tip_height current = 0 then pst_err DisconnectGenesis
     else
     pst_bind (\<lambda>s. Some (map_err (\<lambda>e. Exec_ChainStore (Chain_Execution e))
         (assumed_snapshot_base (db_meta (cs_db s))), s)) (\<lambda>snapshot.
     if snapshot = Some current
     then pst_err (DisconnectAssumedSnapshotBase (tip_height current) (tip_hash current))
     else
     pst_bind (pst_lift (ok_or (dag_get headers (tip_hash current)) (MissingExecutedHeader (tip_hash current))))
       (\<lambda>current_header.
     let parent_hash = prev_blockhash (hi_header current_header) in
     pst_bind (pst_lift (ok_or (dag_get headers parent_hash) (MissingExecutedHeader parent_hash))) (\<lambda>parent.
     if checked_add (hi_height parent) 1 \<noteq> Some (tip_height current)
     then pst_err (MissingExecutedHeader parent_hash)
     else
     pst_bind (\<lambda>s. Some (map_err (\<lambda>e. Exec_ChainStore (Chain_Undo e))
         (undo_get (db_undos (cs_db s)) (tip_hash current)), s)) (\<lambda>undos.
     pst_bind (pst_lift (ok_or undos (MissingUndo (tip_hash current)))) (\<lambda>transaction_undos.
     let applied = \<lparr>ab_hash = tip_hash current, ab_transaction_undos = transaction_undos\<rparr>;
         parent_tip = \<lparr>tip_height = hi_height parent, tip_hash = hi_hash parent\<rparr> in
     pst_bind (with_overlay (pst_of Exec_Rollback (disconnect_block (overlay_ops chain_ops) applied now window)))
       (\<lambda>(_, delta).
     pst_bind (pst_lift (map_err Exec_Rollback (net_changes delta))) (\<lambda>transition.
     pst_bind (pst_of Exec_ChainStore (commit_disconnect current parent_tip (ch_spent transition)
         (ch_created transition) transaction_undos)) (\<lambda>_.
       pst_ret parent_tip)))))))))"

section \<open>Preparing one block of a batch\<close>

record prepared_active_block =
  pa_block :: prepared_block
  pa_exception_undo :: "utxo_undo option"

definition prepare_active_block_inner ::
  "'st utxo_ops \<Rightarrow> bitcoin_lib \<Rightarrow> script_pool \<Rightarrow> header_dag \<Rightarrow> block \<Rightarrow> execution_tip \<Rightarrow> u64
     \<Rightarrow> block_deployment_context \<Rightarrow> bool \<Rightarrow> hash256 list option
     \<Rightarrow> ('st, block_execution_error,
          (prepared_active_block \<times> deferred_script_check list) \<times> prepared_delta) pst" where
  "prepare_active_block_inner base L P headers block current now deployments structure_prevalidated
     transaction_ids =
     pst_bind (pst_lift (next_active_block L headers block current)) (\<lambda>(next_height, parent_mtp).
     with_prepare_view
       (pst_bind (pst_of id (prepare_bip30_rules base L block deployments)) (\<lambda>exception_undo.
        pst_bind (if structure_prevalidated then pst_ret ()
                  else validate_structure L block next_height deployments) (\<lambda>_.
        let ids = (case transaction_ids of Some ids \<Rightarrow> ids | None \<Rightarrow> map (compute_txid L) (txdata block)) in
        pst_bind (pst_map_err Exec_Block (prepare_prevalidated_block_with_deferred_scripts (prepare_ops base) L P
            pv_record block ids next_height now parent_mtp (script_flags deployments) (csv_active deployments)
            (subsidy_sats deployments))) (\<lambda>(prepared, scripts).
          pst_ret (\<lparr>pa_block = prepared, pa_exception_undo = exception_undo\<rparr>, scripts))))))"

definition into_applied :: "prepared_active_block \<Rightarrow> bool \<Rightarrow> applied_block" where
  "into_applied prepared retains_undo =
     \<lparr>ab_hash = pb_hash (pa_block prepared),
      ab_transaction_undos =
        (if retains_undo
         then (case pa_exception_undo prepared of Some undo \<Rightarrow> [undo] | None \<Rightarrow> [])
            @ map (\<lambda>p. \<lparr>undo_spent = zip (pt_spent p) (pt_prevouts p),
                         undo_created = map fst (prepared_transaction.pt_created p)\<rparr>)
                (pb_transactions (pa_block prepared))
         else [])\<rparr>"

section \<open>Connecting a batch\<close>

text \<open>Spent coins that the batch does not create itself.\<close>

definition batch_inputs_step ::
  "bitcoin_lib \<Rightarrow> out_point_key list \<times> out_point_key fset \<Rightarrow> nat \<times> transaction \<times> hash256
     \<Rightarrow> out_point_key list \<times> out_point_key fset" where
  "batch_inputs_step L = (\<lambda>(inputs, created) (index, tx, txid).
     (if index \<noteq> 0
      then inputs @ filter (\<lambda>k. k |\<notin>| created) (map (\<lambda>input. key_of (previous_output input)) (tx_input tx))
      else inputs,
      fold (\<lambda>(vout, output) created.
          if is_unspendable L (txo_script output) then created
          else finsert (key_of \<lparr>op_txid = txid, op_vout = word_of_nat vout\<rparr>) created)
        (enumerate 0 (tx_output tx)) created))"

definition external_input_outpoints_with_ids ::
  "bitcoin_lib \<Rightarrow> (block \<times> hash256 list) list \<Rightarrow> out_point_key list" where
  "external_input_outpoints_with_ids L blocks =
     fst (fold (\<lambda>(block, ids) acc. fold (\<lambda>p acc. batch_inputs_step L acc p) (enumerate 0 (zip (txdata block) ids)) acc)
            blocks ([], {||}))"

definition external_batch_input_outpoints ::
  "bitcoin_lib \<Rightarrow> block list \<Rightarrow> hash256 list list option \<Rightarrow> out_point_key list" where
  "external_batch_input_outpoints L blocks transaction_ids =
     (case transaction_ids of
        Some ids \<Rightarrow> external_input_outpoints_with_ids L (zip blocks ids)
      | None \<Rightarrow> sorted_list_of_set (set
          (concat (map (\<lambda>block. concat (map (\<lambda>tx. map (\<lambda>input. key_of (previous_output input)) (tx_input tx))
             (tl (txdata block)))) blocks))))"

text \<open>The tips of a batch and the median times of their parents, checked against the active chain.\<close>

definition tip_step ::
  "bitcoin_lib \<Rightarrow> header_dag \<Rightarrow> execution_tip \<Rightarrow> execution_tip list \<times> u32 list \<times> hash256 \<Rightarrow> nat \<times> block
     \<Rightarrow> block_execution_error + (execution_tip list \<times> u32 list \<times> hash256)" where
  "tip_step L headers base = (\<lambda>(tips, parent_mtps, parent_hash) (offset, block).
     bind_res (ok_or (Option.bind (checked_add (tip_height base) (word_of_nat offset)) (\<lambda>height. checked_add height 1))
         (NoNextHeader (tip_height base))) (\<lambda>height.
     bind_res (ok_or (active_header_at headers height) (NoNextHeader (saturating_sub height 1))) (\<lambda>expected.
     let actual = block_hash L (b_header block) in
     if actual \<noteq> hi_hash expected then Err (UnexpectedBlock (hi_hash expected) actual)
     else
     bind_res (ok_or (median_time_past headers parent_hash) (MissingParentMtp parent_hash)) (\<lambda>parent_mtp.
       Ok (tips @ [\<lparr>tip_height = height, tip_hash = actual\<rparr>], parent_mtps @ [parent_mtp], actual)))))"

definition batch_tips ::
  "bitcoin_lib \<Rightarrow> header_dag \<Rightarrow> execution_tip \<Rightarrow> block list
     \<Rightarrow> block_execution_error + (execution_tip list \<times> u32 list)" where
  "batch_tips L headers base blocks =
     (if (case active_header_at headers (tip_height base) of
            None \<Rightarrow> True | Some header \<Rightarrow> hi_hash header \<noteq> tip_hash base)
      then Err (TipNotActive (tip_height base) (tip_hash base))
      else bind_res (try_fold (tip_step L headers base) ([], [], tip_hash base) (enumerate 0 blocks))
             (\<lambda>(tips, parent_mtps, _). Ok (tips, parent_mtps)))"

text \<open>The slots of the second phase, in index order; a failed block leaves its error in its slot.\<close>

type_synonym prepared_slot =
  "block_execution_error + ((prepared_active_block \<times> deferred_script_check list) \<times> prepared_delta)"

fun prepare_slots ::
  "(nat \<Rightarrow> ('st, block_execution_error, (prepared_active_block \<times> deferred_script_check list) \<times> prepared_delta) pst)
     \<Rightarrow> nat list \<Rightarrow> 'st \<Rightarrow> (prepared_slot list \<times> 'st) option" where
  "prepare_slots prepare [] s = Some ([], s)"
| "prepare_slots prepare (i # is') s =
     Option.bind (prepare i s) (\<lambda>(r, s').
       map_option (\<lambda>(slots, s''). (r # slots, s'')) (prepare_slots prepare is' s'))"

definition slot_scripts :: "prepared_slot list \<Rightarrow> nat \<Rightarrow> deferred_script_check list" where
  "slot_scripts slots i =
     (case slots ! i of Inl _ \<Rightarrow> [] | Inr ((_, scripts), _) \<Rightarrow> map (set_block_order i) scripts)"

definition worker_batch :: "prepared_slot list \<Rightarrow> nat list \<Rightarrow> script_batch" where
  "worker_batch slots indices = fold (\<lambda>i batch. batch_submit batch (slot_scripts slots i)) indices []"

definition earlier_failure :: "script_result \<Rightarrow> script_result \<Rightarrow> script_result" where
  "earlier_failure found first =
     (case found of
        None \<Rightarrow> first
      | Some f \<Rightarrow> (case first of None \<Rightarrow> Some f | Some g \<Rightarrow> if before f g then Some f else Some g))"

definition drain_script_batches ::
  "bitcoin_lib \<Rightarrow> script_pool \<Rightarrow> script_batch list \<Rightarrow> deferred_script_check list \<Rightarrow> script_result" where
  "drain_script_batches L P batches serial =
     earlier_failure (map_option (\<lambda>(index, source). (0, index, source)) (verify_deferred_scripts L P serial))
       (fold (\<lambda>batch. earlier_failure (finish_with_order L P batch)) batches None)"

fun first_failure :: "nat \<Rightarrow> prepared_slot list \<Rightarrow> (nat \<times> block_execution_error) option" where
  "first_failure index [] = None"
| "first_failure index (slot # slots) =
     (case slot of Inl e \<Rightarrow> Some (index, e) | Inr _ \<Rightarrow> first_failure (Suc index) slots)"

definition script_error :: "nat \<Rightarrow> consensus_error \<Rightarrow> block_execution_error" where
  "script_error index source = Exec_Block (Block_Transaction index (Chain_Script source))"

datatype applied_undos = Keep | Drop

definition finish_slot ::
  "bool \<Rightarrow> applied_undos \<Rightarrow> hash256 \<Rightarrow> execution_tip \<Rightarrow> prepared_active_block \<times> prepared_delta
     \<Rightarrow> connect_transition \<times> applied_block" where
  "finish_slot retains_undo applied_undos expected_parent next_tip = (\<lambda>(prepared, delta).
     let changes = pd_net_changes delta;
         applied = into_applied prepared retains_undo in
     (\<lparr>ct_expected_parent = expected_parent, ct_next = next_tip, ct_spent = ch_spent changes,
       ct_created = ch_created changes,
       ct_transaction_undos = (if retains_undo then ab_transaction_undos applied else [])\<rparr>,
      if retains_undo \<and> applied_undos = Drop then applied\<lparr>ab_transaction_undos := []\<rparr> else applied))"

text \<open>The coins the batch reads, seeded from a prefetch or read now.\<close>

definition batch_overlay ::
  "(out_point_key \<times> utxo option) list option \<Rightarrow> out_point_key list \<Rightarrow> chain_store
     \<Rightarrow> (block_execution_error + unit) \<times> chain_store overlay" where
  "batch_overlay prefetched inputs s =
     (case prefetched of
        Some entries \<Rightarrow>
          if map fst entries \<noteq> inputs then (Inl UtxoPrefetchMismatch, ov_new s)
          else (Inr (), seed_prefetched entries (ov_new s))
      | None \<Rightarrow> st_map_err Exec_Rollback (ov_prefetch chain_ops inputs) (ov_new s))"

definition batch_deltas ::
  "bitcoin_lib \<Rightarrow> block list \<Rightarrow> hash256 list list \<Rightarrow> execution_tip list \<Rightarrow> u64 \<Rightarrow> u32 list \<Rightarrow> tx_delta list option" where
  "batch_deltas L blocks ids tips now parent_mtps =
     those (map (\<lambda>i. tx_delta L (blocks ! i) (ids ! i) (tip_height (tips ! i)) now (parent_mtps ! i))
       [0..<length blocks])"

definition tip_before :: "execution_tip \<Rightarrow> execution_tip list \<Rightarrow> nat \<Rightarrow> execution_tip" where
  "tip_before base tips i = (if i = 0 then base else tips ! (i - 1))"

definition prepare_batch ::
  "bitcoin_lib \<Rightarrow> script_pool \<Rightarrow> header_dag \<Rightarrow> block list \<Rightarrow> hash256 list list \<Rightarrow> execution_tip
     \<Rightarrow> execution_tip list \<Rightarrow> u64 \<Rightarrow> block_deployment_context list \<Rightarrow> bool \<Rightarrow> coin_versions
     \<Rightarrow> chain_store overlay \<Rightarrow> (prepared_slot list \<times> chain_store overlay) option" where
  "prepare_batch L P headers blocks ids base tips now deployments structure_prevalidated versions =
     prepare_slots (\<lambda>i. prepare_active_block_inner (version_ops versions (word_of_nat i) (overlay_ops chain_ops))
         L P headers (blocks ! i) (tip_before base tips i) now (deployments ! i) structure_prevalidated (Some (ids ! i)))
       [0..<length blocks]"

definition prepared_blocks :: "prepared_slot list \<Rightarrow> (prepared_active_block \<times> prepared_delta) list" where
  "prepared_blocks slots =
     List.map_filter (\<lambda>slot. case slot of Inl _ \<Rightarrow> None | Inr ((prepared, _), delta) \<Rightarrow> Some (prepared, delta)) slots"

definition batch_transitions ::
  "bool \<Rightarrow> applied_undos \<Rightarrow> execution_tip \<Rightarrow> execution_tip list \<Rightarrow> prepared_slot list
     \<Rightarrow> (connect_transition \<times> applied_block) list" where
  "batch_transitions retains_undo applied_undos base tips slots =
     map (\<lambda>(i, prepared). finish_slot retains_undo applied_undos (tip_hash (tip_before base tips i)) (tips ! i) prepared)
       (enumerate 0 (prepared_blocks slots))"

text \<open>
  The end of a batch: the verdict of the first failing block and of the scripts, or the commit.
  The state carries the script batches a caller left over from earlier blocks.
\<close>

type_synonym execution_state = "chain_store \<times> script_batch list option"

definition finish_batch ::
  "bitcoin_lib \<Rightarrow> script_pool \<Rightarrow> (bytes \<Rightarrow> bytes) \<Rightarrow> nat list list \<Rightarrow> applied_undos \<Rightarrow> execution_tip
     \<Rightarrow> execution_tip list \<Rightarrow> prepared_slot list \<Rightarrow> (execution_state, block_execution_error, applied_block list) pst" where
  "finish_batch L P sha256 claims applied_undos base tips slots = (\<lambda>(s, carry).
     let own = (if 1 < length slots then map (worker_batch slots) claims else []);
         serial = (if 1 < length slots then [] else slot_scripts slots 0);
         carried = (case carry of Some batches \<Rightarrow> batches | None \<Rightarrow> []);
         emptied = map_option (\<lambda>_. []) carry in
     case first_failure 0 slots of
       Some (failed_index, error) \<Rightarrow>
         Some (Inl (case drain_script_batches L P carried [] of
             Some (_, index, source) \<Rightarrow> script_error index source
           | None \<Rightarrow> (case drain_script_batches L P own serial of
                Some (block_order, index, source) \<Rightarrow>
                  if block_order < failed_index then script_error index source else error
              | None \<Rightarrow> error)), (s, emptied))
     | None \<Rightarrow>
         let finished = batch_transitions (opt_retain_block_undo (cs_options s)) applied_undos base tips slots in
         (case drain_script_batches L P (carried @ own) serial of
            Some (_, index, source) \<Rightarrow> Some (Inl (script_error index source), (s, emptied))
          | None \<Rightarrow>
              map_option (\<lambda>(r, s'). (bind_res (map_err Exec_ChainStore r) (\<lambda>_. Ok (map snd finished)), (s', emptied)))
                (commit_connect_batch sha256 (map fst finished) s)))"

definition ids_mismatch :: "block list \<Rightarrow> hash256 list list option \<Rightarrow> bool" where
  "ids_mismatch blocks transaction_ids =
     (case transaction_ids of
        None \<Rightarrow> False
      | Some ids \<Rightarrow> length ids \<noteq> length blocks
          \<or> list_ex (\<lambda>(ids, block). length ids \<noteq> length (txdata block)) (zip ids blocks))"

definition connect_active_blocks_inner ::
  "bitcoin_lib \<Rightarrow> script_pool \<Rightarrow> (bytes \<Rightarrow> bytes) \<Rightarrow> nat list list \<Rightarrow> header_dag \<Rightarrow> block list \<Rightarrow> u64
     \<Rightarrow> block_deployment_context list \<Rightarrow> bool \<Rightarrow> hash256 list list option
     \<Rightarrow> (out_point_key \<times> utxo option) list option \<Rightarrow> applied_undos
     \<Rightarrow> (execution_state, block_execution_error, applied_block list) pst" where
  "connect_active_blocks_inner L P sha256 claims headers blocks now deployments structure_prevalidated
     transaction_ids prefetched applied_undos = (\<lambda>(s, carry).
     if length blocks \<noteq> length deployments
     then Some (Inl (DeploymentCount (length blocks) (length deployments)), (s, carry))
     else if blocks = [] then Some (Inr [], (s, carry))
     else if ids_mismatch blocks transaction_ids then Some (Inl TransactionIdCount, (s, carry))
     else
     case map_err Exec_ChainStore (chain_tip s) of
       Inl e \<Rightarrow> Some (Inl e, (s, carry))
     | Inr base \<Rightarrow>
     (case batch_overlay prefetched (external_batch_input_outpoints L blocks transaction_ids) s of
       (Inl e, cumulative) \<Rightarrow> Some (Inl e, (ov_base cumulative, carry))
     | (Inr _, cumulative) \<Rightarrow>
     (case batch_tips L headers base blocks of
       Inl e \<Rightarrow> Some (Inl e, (ov_base cumulative, carry))
     | Inr (tips, parent_mtps) \<Rightarrow>
     let ids = (case transaction_ids of Some ids \<Rightarrow> ids
                | None \<Rightarrow> map (\<lambda>block. map (compute_txid L) (txdata block)) blocks) in
     Option.bind (batch_deltas L blocks ids tips now parent_mtps) (\<lambda>deltas.
     Option.bind (prepare_batch L P headers blocks ids base tips now deployments structure_prevalidated
         (coin_versions deltas) cumulative) (\<lambda>(slots, cumulative).
       finish_batch L P sha256 claims applied_undos base tips slots (ov_base cumulative, carry))))))"

definition connect_active_blocks ::
  "bitcoin_lib \<Rightarrow> script_pool \<Rightarrow> (bytes \<Rightarrow> bytes) \<Rightarrow> nat list list \<Rightarrow> header_dag \<Rightarrow> block list \<Rightarrow> u64
     \<Rightarrow> block_deployment_context list \<Rightarrow> (chain_store, block_execution_error, applied_block list) pst" where
  "connect_active_blocks L P sha256 claims headers blocks now deployments s =
     map_option (\<lambda>(r, s', _). (r, s'))
       (connect_active_blocks_inner L P sha256 claims headers blocks now deployments False None None Keep (s, None))"

definition connect_prevalidated_active_blocks ::
  "bitcoin_lib \<Rightarrow> script_pool \<Rightarrow> (bytes \<Rightarrow> bytes) \<Rightarrow> nat list list \<Rightarrow> header_dag \<Rightarrow> block list \<Rightarrow> u64
     \<Rightarrow> block_deployment_context list \<Rightarrow> (chain_store, block_execution_error, applied_block list) pst" where
  "connect_prevalidated_active_blocks L P sha256 claims headers blocks now deployments s =
     map_option (\<lambda>(r, s', _). (r, s'))
       (connect_active_blocks_inner L P sha256 claims headers blocks now deployments True None None Keep (s, None))"

definition connect_prevalidated_active_blocks_with_txids ::
  "bitcoin_lib \<Rightarrow> script_pool \<Rightarrow> (bytes \<Rightarrow> bytes) \<Rightarrow> nat list list \<Rightarrow> header_dag \<Rightarrow> block list
     \<Rightarrow> hash256 list list \<Rightarrow> u64 \<Rightarrow> block_deployment_context list
     \<Rightarrow> (chain_store, block_execution_error, applied_block list) pst" where
  "connect_prevalidated_active_blocks_with_txids L P sha256 claims headers blocks transaction_ids now deployments s =
     map_option (\<lambda>(r, s', _). (r, s'))
       (connect_active_blocks_inner L P sha256 claims headers blocks now deployments True (Some transaction_ids)
          None Keep (s, None))"

definition prefetch_prevalidated_active_block_utxos ::
  "bitcoin_lib \<Rightarrow> block list \<Rightarrow> hash256 list list
     \<Rightarrow> (chain_store, block_execution_error, (out_point_key \<times> utxo option) list) st" where
  "prefetch_prevalidated_active_block_utxos L blocks transaction_ids =
     (if ids_mismatch blocks (Some transaction_ids) then st_err TransactionIdCount
      else st_map_err Exec_Rollback
        (ops_get_many chain_ops (external_batch_input_outpoints L blocks (Some transaction_ids))))"

definition prefetch_active_block_utxos_from ::
  "bitcoin_lib \<Rightarrow> (block \<times> hash256 list) list
     \<Rightarrow> (chain_store, block_execution_error, (out_point_key \<times> utxo option) list) st" where
  "prefetch_active_block_utxos_from L blocks =
     (if list_ex (\<lambda>(block, ids). length ids \<noteq> length (txdata block)) blocks then st_err TransactionIdCount
      else st_map_err Exec_Rollback (ops_get_many chain_ops (external_input_outpoints_with_ids L blocks)))"

text \<open>Refreshing prefetched coins: the default of the trait.\<close>

definition reconcile_prefetch ::
  "(out_point_key \<times> utxo option) list \<Rightarrow> (chain_store, utxo_error, (out_point_key \<times> utxo option) list) st" where
  "reconcile_prefetch entries =
     st_bind (ops_get_many chain_ops (map fst entries)) (\<lambda>current.
       if length current \<noteq> length entries \<or> map fst current \<noteq> map fst entries
       then st_err (Malformed ''prefetch refresh returned misaligned coins'')
       else st_ret current)"

definition connect_prevalidated_active_blocks_with_breakdown ::
  "bitcoin_lib \<Rightarrow> script_pool \<Rightarrow> (bytes \<Rightarrow> bytes) \<Rightarrow> nat list list \<Rightarrow> header_dag \<Rightarrow> block list
     \<Rightarrow> hash256 list list \<Rightarrow> (out_point_key \<times> utxo option) list \<Rightarrow> u64 \<Rightarrow> block_deployment_context list
     \<Rightarrow> applied_undos \<Rightarrow> (execution_state, block_execution_error, applied_block list) pst" where
  "connect_prevalidated_active_blocks_with_breakdown L P sha256 claims headers blocks transaction_ids prefetched
     now deployments applied_undos =
     connect_active_blocks_inner L P sha256 claims headers blocks now deployments True (Some transaction_ids)
       (Some prefetched) applied_undos"

definition connect_prevalidated_active_blocks_with_txids_and_utxos ::
  "bitcoin_lib \<Rightarrow> script_pool \<Rightarrow> (bytes \<Rightarrow> bytes) \<Rightarrow> nat list list \<Rightarrow> header_dag \<Rightarrow> block list
     \<Rightarrow> hash256 list list \<Rightarrow> (out_point_key \<times> utxo option) list \<Rightarrow> u64 \<Rightarrow> block_deployment_context list
     \<Rightarrow> (chain_store, block_execution_error, applied_block list) pst" where
  "connect_prevalidated_active_blocks_with_txids_and_utxos L P sha256 claims headers blocks transaction_ids prefetched
     now deployments s =
     map_option (\<lambda>(r, s', _). (r, s'))
       (connect_prevalidated_active_blocks_with_breakdown L P sha256 claims headers blocks transaction_ids prefetched
          now deployments Keep (s, None))"

end
