(* ===== verification/Block_Execution_Refine.thy ===== *)
theory Block_Execution_Refine
  imports Block_Execution Chain_Store_Properties Blockchain_Properties Headers_Properties
begin

text \<open>
  Execution of single blocks, \<open>src/src/block_execution.rs\<close>: a block validated on an overlay of the chainstate
  runs as it would on the coins alone, its commit publishes exactly that result, and disconnecting the
  tip leads back.
\<close>

section \<open>The chainstate as a reader\<close>

text \<open>Reading through the chainstate does not change it.\<close>

interpretation chain_reader: utxo_reader chain_ops "\<lambda>t. t = s \<and> chain_inv sha t" chain_view "\<lambda>_. UNIV" for s sha
  by unfold_locales (auto simp: chain_view_ok chain_ops_def chain_get_ok)

interpretation chain_overlay: utxo_store "overlay_ops chain_ops" "ov_sound (\<lambda>t. t = s \<and> chain_inv sha t) chain_view v"
  "ov_view chain_view" ov_known for s sha v
  by (rule chain_reader.overlay_utxo_store)

section \<open>Committing one block\<close>

definition block_committed ::
  "(bytes \<Rightarrow> bytes) \<Rightarrow> execution_tip \<Rightarrow> utxo_undo list \<Rightarrow> chain_store \<Rightarrow> coins \<Rightarrow> chain_store \<Rightarrow> bool" where
  "block_committed sha n undos s v s' \<longleftrightarrow> chain_inv sha s' \<and> chain_view s' = v
     \<and> read_tip (db_meta (cs_db s')) = Inr n \<and> cs_options s' = cs_options s \<and> cs_journal s' = None
     \<and> (opt_retain_block_undo (cs_options s) \<longrightarrow> undo_get (db_undos (cs_db s')) (tip_hash n) = Inr (Some undos))"

lemma undo_insert_get:
  assumes "undo_insert_transaction h undos u = Inr ((), u')" "\<forall>w \<in> set undos. undo_wf w"
  shows "undo_get u' h = Inr (Some undos)"
  using assms by (auto simp: undo_insert_transaction_def undo_get_def transpose_res_def res_simps decode_encode_block_undo
      split: if_splits)

lemma commit_connect_ok:
  assumes inv: "chain_inv sha s" and spec: "coins_apply (chain_view s) spent created = Inr (undo, v)"
    and rows: "\<forall>r \<in> set created. row_ok r" and wf: "\<forall>w \<in> set undos. undo_wf w"
    and run: "commit_connect parent n spent created undos s = (r, s')"
  shows "case r of Inl _ \<Rightarrow> s' = s | Inr undo' \<Rightarrow> undo' = undo \<and> block_committed sha n undos s v s'"
proof (cases r)
  case (Inl e)
  then show ?thesis using commit_connect_error run by auto
next
  case (Inr undo')
  from commit_connect_parts [OF run [unfolded Inr]] obtain t counts ages age_meta u1 m1 where
    P: "cs_journal s = None" "apply_with_undo_transaction spent created (db_utxos (cs_db s)) = Inr (undo', t)"
    "spent_age_counts [(tip_height n, undos)] = Inr counts"
    "connect_spent_ages_transaction counts (tip_height n) (tip_height n) (cs_db s)
       = Inr ((), (cs_db s)\<lparr>db_spent_ages := ages, db_spent_age_meta := age_meta\<rparr>)"
    "advance_transaction parent n (db_meta (cs_db s)) = Inr ((), m1)"
    "if opt_retain_block_undo (cs_options s)
     then undo_insert_transaction (tip_hash n) undos (db_undos (cs_db s)) = Inr ((), u1)
     else u1 = db_undos (cs_db s)"
    and s': "s' = s\<lparr>cs_db := (cs_db s)\<lparr>db_utxos := t, db_undos := u1,
        db_meta := m1, db_spent_ages := ages, db_spent_age_meta := age_meta\<rparr>\<rparr>" .
  have base: "store_inv (db_utxos (cs_db s))" "ages_ok (cs_db s)" "chain_view s = store_view (db_utxos (cs_db s))"
    using inv P(1) by (simp_all add: chain_inv_def chain_view_def)
  note T = apply_with_undo_transaction_Inr [OF base(1) rows P(2)]
  have ages: "ages_ok (cs_db s')"
    by (rule ages_ok_frame [OF connect_ages_ok [OF base(2) _ P(4)]])
       (use spent_age_counts_positive [OF P(3)] in \<open>simp_all add: s'\<close>)
  have "read_tip m1 = Inr n" using P(5) by (auto simp: advance_transaction_def res_simps split: if_splits)
  moreover have "opt_retain_block_undo (cs_options s) \<longrightarrow> undo_get u1 (tip_hash n) = Inr (Some undos)"
    using P(6) undo_insert_get wf by auto
  ultimately show ?thesis
    using T ages P(1) spec Inr by (simp add: block_committed_def chain_inv_def chain_view_def s' base(3))
qed

section \<open>Simulation of the steps of a block\<close>

lemma pst_of_simps [simp]:
  "pst_of g (st_ret x) = pst_ret x"
  "pst_of g (st_err e) = pst_err (g e)"
  "pst_of g (st_lift r) = pst_lift (map_err g r)"
  "pst_of g (st_map_err h n) = pst_of (g \<circ> h) n"
  "pst_of g (st_bind m f) = pst_bind (pst_of g m) (\<lambda>x. pst_of g (f x))"
proof -
  show "pst_of g (st_bind m f) = pst_bind (pst_of g m) (\<lambda>x. pst_of g (f x))"
    by (auto simp: pst_of_def pst_bind_def st_bind_def fun_eq_iff split: prod.splits sum.splits)
  show "pst_of g (st_map_err h n) = pst_of (g \<circ> h) n"
    by (auto simp: pst_of_def st_map_err_def map_err_def fun_eq_iff split: prod.splits sum.splits)
qed (auto simp: pst_of_def fun_eq_iff)

lemma sim_fold:
  assumes step: "\<And>b x s. sound s \<Longrightarrow> sim sound view known (pst_of g (f b x)) (pst_of g (f' b x)) s" and s: "sound s"
  shows "sim sound view known (pst_of g (st_fold f b xs)) (pst_of g (st_fold f' b xs)) s"
  using s
proof (induction xs arbitrary: b s)
  case (Cons x xs)
  show ?case by (simp, rule sim_bind [OF step [OF Cons.prems]]) (rule Cons.IH)
qed simp

lemma sim_map_err: "sim sound view known m a s \<Longrightarrow> sim sound view known (pst_map_err g m) (pst_map_err g a) s"
  unfolding pst_map_err_def by (rule sim_match) simp_all

context utxo_reader
begin

lemma get_sim: "sound s \<Longrightarrow> sim sound view known (pst_of g (ops_get ops k)) (pst_of g (ops_get coins_ops k)) s"
  using get_law [of s k] by (auto simp: sim_def pst_of_def coins_ops_def)

lemma collisions_sim:
  assumes "sound s"
  shows "sim sound view known (pst_of g (block_output_collisions ops L block)) (pst_of g (block_output_collisions coins_ops L block)) s"
proof -
  have step: "sim sound view known (pst_of g (collision_step ops L txid cs p)) (pst_of g (collision_step coins_ops L txid cs p)) s"
    if "sound s" for s txid cs p
    using that by (cases p) (auto simp: collision_step_def Let_def intro!: sim_bind get_sim)
  show ?thesis unfolding block_output_collisions_def pst_of_simps
    by (intro sim_bind sim_fold step assms) simp_all
qed

end

context utxo_store
begin

lemma apply_sim:
  assumes "sound s" "\<forall>r \<in> set created. row_ok r"
  shows "sim sound view known (pst_of g (ops_apply_with_undo ops spent created)) (pst_of g (ops_apply_with_undo coins_ops spent created)) s"
  using apply_law [OF assms, of spent]
  by (auto simp: sim_def implements_def pst_of_def coins_ops_def coins_mutate_def split: sum.splits prod.splits)

lemma bip30_sim:
  assumes "sound s"
  shows "sim sound view known (pst_of g (apply_bip30_rules ops L block d)) (pst_of g (apply_bip30_rules coins_ops L block d)) s"
  using assms unfolding apply_bip30_rules_def
  by (auto intro!: sim_bind collisions_sim apply_sim)

end

section \<open>One block on a view of coins\<close>

lemma st_fold_keeps:
  assumes "\<And>b x v. snd (f b x v) = v"
  shows "snd (st_fold f b xs v) = v"
proof (induction xs arbitrary: b)
  case (Cons x xs)
  show ?case using assms [of b x v] Cons.IH by (auto simp: st_bind_def split: prod.splits sum.splits)
qed simp

lemma collisions_keep: "snd (block_output_collisions coins_ops L block v) = v"
proof -
  have step: "snd (collision_step coins_ops L txid cs p v) = v" for txid cs p v
    by (cases p) (auto simp: collision_step_def Let_def st_bind_def coins_ops_def ok_or_def split: option.splits)
  have "snd (st_fold (\<lambda>collisions tx. st_fold (collision_step coins_ops L (compute_txid L tx)) collisions
      (enumerate 0 (tx_output tx))) {||} (txdata block) v) = v"
    by (intro st_fold_keeps step)
  then show ?thesis by (auto simp: block_output_collisions_def st_bind_def split: prod.splits sum.splits)
qed

definition bip30_outcome :: "coins \<Rightarrow> (block_execution_error + utxo_undo option) \<times> coins \<Rightarrow> bool" where
  "bip30_outcome v out \<longleftrightarrow> (case fst out of
     Inr (Some undo) \<Rightarrow> \<exists>ks. coins_apply v ks [] = Inr (undo, snd out) \<and> snd out = v |` (- set ks)
   | _ \<Rightarrow> snd out = v)"

lemma bip30_coins: "bip30_outcome v (apply_bip30_rules coins_ops L block d v)"
proof -
  have mutate: "coins_mutate ks [] v = (r, v') \<Longrightarrow> (case r of Inl _ \<Rightarrow> v' = v
      | Inr undo \<Rightarrow> coins_apply v ks [] = Inr (undo, v') \<and> v' = v |` (- set ks))" for ks r v'
    by (auto simp: coins_mutate_def coins_apply_Inr_iff coins_after_def split: sum.splits)
  obtain r v1 where run: "block_output_collisions coins_ops L block v = (r, v1)" by force
  then have v1: "v1 = v" using collisions_keep [of L block v] by simp
  show ?thesis
  proof (cases r)
    case (Inl e)
    then show ?thesis using run v1
      by (auto simp: bip30_outcome_def apply_bip30_rules_def st_bind_def st_map_err_def)
  next
    case (Inr ks)
    then show ?thesis using run v1 mutate [of ks]
      by (cases "coins_mutate ks [] v") (auto simp: bip30_outcome_def apply_bip30_rules_def st_bind_def st_map_err_def
          coins_ops_def split: sum.splits)
  qed
qed

text \<open>The transactions of a block are new once the BIP30 rules have run.\<close>

definition new_block :: "bitcoin_lib \<Rightarrow> block \<Rightarrow> block_deployment_context \<Rightarrow> coins \<Rightarrow> bool" where
  "new_block L block d v \<longleftrightarrow> (case apply_bip30_rules coins_ops L block d v of
     (Inl _, _) \<Rightarrow> True | (Inr _, v') \<Rightarrow> fresh_txids v' (map (compute_txid L) (txdata block)))"

lemma sim_bind_call:
  assumes "sound s" "\<And>x. sim sound view known (f x) (g x) s"
  shows "sim sound view known (pst_bind (pst_call call) f) (pst_bind (pst_call call) g) s"
proof (cases call)
  case None
  then show ?thesis by (simp add: sim_def pst_bind_def)
next
  case (Some r)
  then show ?thesis using assms by (cases r) (auto simp: sim_def pst_bind_def)
qed

lemma pst_call_eq: "pst_call call s = Some (r, s') \<longleftrightarrow> call = Some r \<and> s' = s"
  by (auto simp: pst_call_def)

context utxo_store
begin

lemma run_active_block_sim:
  assumes s: "sound s" and new: "new_block L block d (view s)"
  shows "sim sound view known (run_active_block ops L P block h now mtp window d pre False None)
    (run_active_block coins_ops L P block h now mtp window d pre False None) s"
  unfolding run_active_block_def
proof (rule sim_bind [OF bip30_sim [OF s]])
  fix undo s'
  assume "pst_of id (apply_bip30_rules coins_ops L block d) (view s) = Some (Inr undo, view s')" and s': "sound s'"
  then have fresh: "fresh_txids (view s') (ids_from L None 0 (txdata block))"
    using new by (simp add: pst_of_id new_block_def ids_from_computed)
  have pre: "sim sound view known
    (apply_prevalidated_block_with_deployments ops L P block h now mtp window flags csv' subsidy)
    (apply_prevalidated_block_with_deployments coins_ops L P block h now mtp window flags csv' subsidy) s'" for flags csv' subsidy
    unfolding apply_prevalidated_block_with_deployments_def
    by (rule sim_bind [OF apply_block_sim [OF s' fresh]]) (auto split: prod.splits)
  have "sim sound view known (apply_block_with_deployments ops L P block h now mtp window flags b csv' w ch subsidy)
    (apply_block_with_deployments coins_ops L P block h now mtp window flags b csv' w ch subsidy) s'" for flags b csv' w ch subsidy
    unfolding apply_block_with_deployments_def by (rule sim_bind_call [OF s' pre])
  then have "sim sound view known (apply_active_block ops L P block h now mtp window d pre False None)
    (apply_active_block coins_ops L P block h now mtp window d pre False None) s'"
    using pre by (auto simp: apply_active_block_def intro!: sim_bind sim_map_err)
  then show "sim sound view known
    (pst_bind (apply_active_block ops L P block h now mtp window d pre False None) (\<lambda>(applied, scripts).
       pst_ret (case undo of Some undo \<Rightarrow> applied\<lparr>ab_transaction_undos := undo # ab_transaction_undos applied\<rparr>
          | None \<Rightarrow> applied, scripts)))
    (pst_bind (apply_active_block coins_ops L P block h now mtp window d pre False None) (\<lambda>(applied, scripts).
       pst_ret (case undo of Some undo \<Rightarrow> applied\<lparr>ab_transaction_undos := undo # ab_transaction_undos applied\<rparr>
          | None \<Rightarrow> applied, scripts))) s'"
    by (rule sim_bind) (auto split: prod.splits)
qed

end

text \<open>What a block that ran on coins leaves behind.\<close>

lemma coin_supply_restrict:
  assumes "finite (dom v)"
  shows "coin_supply (v |` K) \<le> coin_supply v" "finite (dom (v |` K))"
proof -
  have "coin_supply (v |` K) = (\<Sum>k \<in> dom v \<inter> K. unat (value_sats (the (v k))))"
    unfolding coin_supply_def by (rule sum.cong) (auto simp: dom_restrict)
  also have "\<dots> \<le> coin_supply v" unfolding coin_supply_def by (rule sum_mono2 [OF assms]) auto
  finally show "coin_supply (v |` K) \<le> coin_supply v" .
  show "finite (dom (v |` K))" using assms by (simp add: dom_restrict)
qed

definition block_ran :: "bitcoin_lib \<Rightarrow> block \<Rightarrow> u64 \<Rightarrow> coins \<Rightarrow> block_execution_error + (applied_block \<times> deferred_script_check list)
    \<Rightarrow> coins \<Rightarrow> bool" where
  "block_ran L block subsidy v r v' \<longleftrightarrow> (case r of
     Inl e \<Rightarrow> \<forall>u. e \<noteq> Exec_Block (Rollback u)
   | Inr (applied, checks) \<Rightarrow> checks = [] \<and> ab_hash applied = block_hash L (b_header block)
       \<and> undo_chain v (ab_transaction_undos applied) v' \<and> coins_ok v'
       \<and> (finite (dom v) \<longrightarrow> coin_supply v' \<le> coin_supply v + unat subsidy))"

lemma not_Inl_unit: "(\<forall>e. r \<noteq> Inl e) \<longleftrightarrow> r = Inr ()"
  by (cases r) auto

lemma apply_block_hash:
  "apply_prevalidated_block_with_deployments_inner ops L P block ids h now mtp window flags csv' subsidy def v
     = Some (Inr (applied, checks), v') \<Longrightarrow> ab_hash applied = block_hash L (b_header block)"
  by (auto simp: apply_prevalidated_block_with_deployments_inner_def finish_block_def Let_def pst_bind_eq_Inr pst_match_def not_Inl_unit
      split: prod.splits option.splits sum.splits list.splits if_splits)

lemma pst_map_err_eq_Inr [res_simps]: "pst_map_err g m s = Some (Inr x, s') \<longleftrightarrow> m s = Some (Inr x, s')"
  by (auto simp: pst_map_err_def pst_match_def split: option.splits sum.splits)

lemma pst_map_err_eq_Inl [res_simps]:
  "pst_map_err g m s = Some (Inl e, s') \<longleftrightarrow> (\<exists>e'. m s = Some (Inl e', s') \<and> e = g e')"
  by (auto simp: pst_map_err_def pst_match_def split: option.splits sum.splits)

text \<open>The applied block of a non-deferred run comes from the loop over its transactions.\<close>

lemma apply_active_block_Inr:
  assumes "apply_active_block ops L P block h now mtp window d pre False None s = Some (Inr (applied, checks), s')"
  shows "checks = [] \<and> (\<exists>checks'. apply_prevalidated_block_with_deployments_inner ops L P block None h now mtp window
      (script_flags d) (csv_active d) (subsidy_sats d) False s = Some (Inr (applied, checks'), s'))"
  using assms
  by (auto simp: apply_active_block_def apply_block_with_deployments_def apply_prevalidated_block_with_deployments_def
      res_simps pst_call_eq split: if_splits)

lemma apply_active_block_Inl:
  assumes "apply_active_block ops L P block h now mtp window d pre False None s = Some (Inl e, s')"
  shows "(\<exists>e'. validate_block_structure_with_deployments L block h (bip34_active d) (segwit_active d)
        (signet_challenge d) = Some (Inl e') \<and> e = Exec_Block e' \<and> \<not> pre)
    \<or> (\<exists>e'. apply_prevalidated_block_with_deployments_inner ops L P block None h now mtp window
      (script_flags d) (csv_active d) (subsidy_sats d) False s = Some (Inl e', s') \<and> e = Exec_Block e')"
  using assms
  by (auto simp: apply_active_block_def apply_block_with_deployments_def apply_prevalidated_block_with_deployments_def
      res_simps pst_call_eq split: if_splits)

lemma structure_not_rollback:
  "validate_block_structure_with_deployments L block h b w ch = Some (Inl e) \<Longrightarrow> e \<noteq> Rollback u"
  by (auto simp: validate_block_structure_with_deployments_def validate_block_structure_with_deployments_and_txids_def
      check_block_signet_def check_witness_commitment_def res_simps Let_def
      split: option.splits list.splits if_splits prod.splits)

lemma apply_active_block_coins:
  assumes run: "apply_active_block coins_ops L P block h now mtp window d pre False None v = Some (r, v')"
    and ok: "coins_ok v" and fresh: "fresh_txids v (map (compute_txid L) (txdata block))"
  shows "block_ran L block (subsidy_sats d) v r v'"
proof (cases r)
  case (Inl e)
  from apply_active_block_Inl [OF run [unfolded Inl]] structure_not_rollback
    apply_block_coins [OF _ ok, of L P block None h now mtp window "script_flags d" "csv_active d" "subsidy_sats d" False]
    fresh
  show ?thesis by (fastforce simp: block_ran_def Inl ids_from_computed)
next
  case (Inr p)
  obtain applied checks where p: "p = (applied, checks)" by (cases p)
  from apply_active_block_Inr [OF run [unfolded Inr p]] obtain checks' where
    r: "apply_prevalidated_block_with_deployments_inner coins_ops L P block None h now mtp window
      (script_flags d) (csv_active d) (subsidy_sats d) False v = Some (Inr (applied, checks'), v')" "checks = []" by blast
  from apply_block_coins [OF r(1) ok] fresh apply_block_hash [OF r(1)]
  have "undo_chain v (ab_transaction_undos applied) v'" "ab_hash applied = block_hash L (b_header block)"
    "finite (dom v) \<longrightarrow> coin_supply v' \<le> coin_supply v + unat (subsidy_sats d)" by (auto simp: ids_from_computed)
  moreover have "coins_ok v'"
    using ref_store.apply_block_sim [OF ok, of L None block P h now mtp window "script_flags d" "csv_active d"
        "subsidy_sats d" False] fresh r(1) by (auto simp: sim_def ids_from_computed)
  ultimately show ?thesis by (simp add: block_ran_def Inr p r(2))
qed

lemma run_active_block_coins:
  assumes run: "run_active_block coins_ops L P block h now mtp window d pre False None v = Some (r, v')"
    and ok: "coins_ok v" and new: "new_block L block d v"
  shows "block_ran L block (subsidy_sats d) v r v'"
proof -
  obtain r1 v1 where b: "apply_bip30_rules coins_ops L block d v = (r1, v1)" by force
  note out = bip30_coins [of v L block d, unfolded b bip30_outcome_def fst_conv snd_conv]
  show ?thesis
  proof (cases r1)
    case (Inl e)
    then have r: "r = Inl e" using run by (auto simp: run_active_block_def pst_bind_def pst_of_id b)
    have "e \<noteq> Exec_Block x" for x
      using b Inl by (auto simp: apply_bip30_rules_def res_simps split: if_splits)
    with r show ?thesis by (simp add: block_ran_def)
  next
    case (Inr x)
    have fresh: "fresh_txids v1 (map (compute_txid L) (txdata block))"
      using new by (simp add: new_block_def b Inr)
    have v1: "v1 = v \<or> (\<exists>ks undo. x = Some undo \<and> coins_apply v ks [] = Inr (undo, v1) \<and> v1 = v |` (- set ks))"
      using out Inr by (auto split: option.splits)
    then have ok1: "coins_ok v1" using ok by (auto simp: coins_ok_def restrict_map_def split: if_splits)
    let ?put = "\<lambda>applied. case x of Some undo \<Rightarrow> applied\<lparr>ab_transaction_undos := undo # ab_transaction_undos applied\<rparr>
        | None \<Rightarrow> applied"
    from run Inr b obtain r2 where
      a: "apply_active_block coins_ops L P block h now mtp window d pre False None v1 = Some (r2, v')"
      and r: "r = bind_res r2 (\<lambda>(applied, checks). Ok (?put applied, checks))"
      by (auto simp: run_active_block_def pst_bind_def pst_of_id split: option.splits sum.splits)
    note ran = apply_active_block_coins [OF a ok1 fresh]
    show ?thesis
    proof (cases r2)
      case (Inl e)
      then show ?thesis using ran r by (simp add: block_ran_def)
    next
      case r2: (Inr q)
      have "undo_chain v (ab_transaction_undos (?put applied)) v'" if "undo_chain v1 (ab_transaction_undos applied) v'" for applied
      proof (cases x)
        case None
        then show ?thesis using that v1 by auto
      next
        case (Some undo)
        with out Inr obtain ks where "coins_apply v ks [] = Inr (undo, v1)" by auto
        then have "\<exists>spent created w. coins_apply v spent created = Inr (undo, w) \<and> set spent \<inter> fst ` set created = {}
            \<and> undo_chain w (ab_transaction_undos applied) v'"
          using that by (intro exI [of _ ks] exI [of _ "[]"] exI [of _ v1]) simp
        with Some ok show ?thesis by simp
      qed
      moreover have "coin_supply v1 \<le> coin_supply v" "finite (dom v1)" if "finite (dom v)"
        using v1 coin_supply_restrict [OF that] that by auto
      ultimately show ?thesis using ran r r2
        by (cases q) (fastforce simp: block_ran_def split: option.splits)
    qed
  qed
qed

section \<open>Connecting one block\<close>

text \<open>The reference: the next active block on a view of coins.\<close>

definition execute_block ::
  "bitcoin_lib \<Rightarrow> script_pool \<Rightarrow> header_dag \<Rightarrow> block \<Rightarrow> execution_tip \<Rightarrow> u64 \<Rightarrow> u64 \<Rightarrow> block_deployment_context
     \<Rightarrow> (coins, block_execution_error, applied_block) pst" where
  "execute_block L P headers block current now window d =
     pst_bind (pst_lift (next_active_block L headers block current)) (\<lambda>(h, mtp).
     pst_bind (run_active_block coins_ops L P block h now mtp window d False False None) (\<lambda>(applied, _). pst_ret applied))"

definition validated :: "chain_store \<Rightarrow> ((block_execution_error + applied_block) \<times> coins) option
    \<Rightarrow> ((block_execution_error + (applied_block \<times> utxo_changes)) \<times> chain_store) option \<Rightarrow> bool" where
  "validated s spec out \<longleftrightarrow> (case spec of
     None \<Rightarrow> out = None
   | Some (Inl e, _) \<Rightarrow> out = Some (Inl e, s)
   | Some (Inr applied, v) \<Rightarrow> \<exists>ch. out = Some (Inr (applied, ch), s)
       \<and> coins_apply (chain_view s) (ch_spent ch) (ch_created ch) = Inr (ch_undo ch, v)
       \<and> (\<forall>r \<in> set (ch_created ch). row_ok r))"

lemma validate_active_block_ok:
  assumes inv: "chain_inv sha s" and new: "new_block L block d (chain_view s)"
  shows "validated s (execute_block L P headers block current now window d (chain_view s))
    (validate_active_block chain_ops L P headers block current now window d False s)"
proof (cases "next_active_block L headers block current")
  case (Inl e)
  then show ?thesis
    by (simp add: validated_def execute_block_def validate_active_block_def validate_active_block_inner_def pst_bind_def)
next
  case (Inr p)
  obtain h mtp where p: "p = (h, mtp)" by (cases p)
  let ?sound = "ov_sound (\<lambda>t. t = s \<and> chain_inv sha t) chain_view (chain_view s)"
  let ?run = "\<lambda>ops. run_active_block ops L P block h now mtp window d False False None"
  have start: "?sound (ov_new s)" "ov_view chain_view (ov_new s) = chain_view s"
    by (rule chain_reader.ov_new_sound(1)) (simp add: inv, rule chain_reader.ov_new_sound(2))
  have sim: "sim ?sound (ov_view chain_view) ov_known (?run (overlay_ops chain_ops)) (?run coins_ops) (ov_new s)"
    by (rule chain_overlay.run_active_block_sim [OF start(1)]) (simp add: start(2) new)
  show ?thesis
  proof (cases "?run coins_ops (chain_view s)")
    case None
    then show ?thesis using sim
      by (simp add: sim_def start(2) validated_def execute_block_def validate_active_block_def
          validate_active_block_inner_def pst_bind_def Inr p with_overlay_def)
  next
    case (Some q)
    obtain r v where q: "q = (r, v)" by (cases q)
    from sim Some q obtain o' where o: "?run (overlay_ops chain_ops) (ov_new s) = Some (r, o')" "?sound o'"
      "ov_view chain_view o' = v" by (auto simp: sim_def start(2))
    have base: "ov_base o' = s" using o(2) by (simp add: ov_sound_def)
    from net_changes_ok [OF o(2)] obtain ch where ch: "net_changes o' = Inr ch"
      "coins_apply (chain_view s) (ch_spent ch) (ch_created ch) = Inr (ch_undo ch, v)" "\<forall>r \<in> set (ch_created ch). row_ok r"
      by (auto simp: o(3))
    show ?thesis
    proof (cases r)
      case (Inl e)
      then show ?thesis using o(1) Some q base Inr p
        by (simp add: validated_def execute_block_def validate_active_block_def
          validate_active_block_inner_def pst_bind_def with_overlay_def)
    next
      case r: (Inr x)
      then show ?thesis using o(1) Some q base Inr p ch
        by (cases x) (simp add: validated_def execute_block_def validate_active_block_def
          validate_active_block_inner_def pst_bind_def with_overlay_def)
    qed
  qed
qed

lemma undo_chain_wf:
  assumes "undo_chain v us v'" "coins_ok v'"
  shows "\<forall>u \<in> set us. undo_wf u"
  using assms(1)
proof (induction us arbitrary: v)
  case (Cons u us)
  from Cons.prems obtain spent created v1 where c: "coins_ok v" "coins_apply v spent created = Inr (u, v1)"
    "undo_chain v1 us v'" by auto
  have v1: "coins_ok v1" using c(3) assms(2) by (cases us) auto
  note a = c(2) [unfolded coins_apply_Inr_iff]
  have "valid_key k" if "k \<in> set (undo_created u)" for k
  proof -
    from that a have "v1 k \<noteq> None"
      by (auto simp: coins_after_def map_add_def map_of_eq_None_iff split: option.splits)
    then show ?thesis using v1 by (auto simp: coins_ok_def row_ok_def)
  qed
  moreover have "valid_key (fst e)" if "e \<in> set (undo_spent u)" for e
  proof -
    obtain k w where e: "e = (k, w)" by (cases e)
    have "v k = Some w" using a that e by auto
    then show ?thesis using c(1) e by (auto simp: coins_ok_def row_ok_def)
  qed
  ultimately show ?case using Cons.IH [OF c(3)] by (simp add: undo_wf_def)
qed simp

text \<open>Structural validation of the block does not panic.\<close>

definition structure_returns :: "bitcoin_lib \<Rightarrow> block \<Rightarrow> block_deployment_context \<Rightarrow> bool" where
  "structure_returns L block d \<longleftrightarrow> (\<forall>h. validate_block_structure_with_deployments L block h (bip34_active d)
     (segwit_active d) (signet_challenge d) \<noteq> None)"

lemma structure_returns_no_signet:
  assumes "tx_lib_ok L" "signet_challenge d = None"
  shows "structure_returns L block d"
  using assms
  by (auto simp: structure_returns_def validate_block_structure_with_deployments_def
      validate_block_structure_with_deployments_and_txids_def check_block_signet_def check_witness_commitment_def
      coinbase_has_height_def tx_lib_ok_def bind_call_None expect_eq Let_def split: list.splits if_splits prod.splits option.splits)

lemma run_active_block_total:
  assumes lib: "tx_lib_ok L" and ok: "coins_ok v" and new: "new_block L block d v" and str: "structure_returns L block d"
  shows "run_active_block coins_ops L P block h now mtp window d False False None v \<noteq> None"
proof -
  obtain r1 v1 where b: "apply_bip30_rules coins_ops L block d v = (r1, v1)" by force
  have ok1: "coins_ok v1"
    using bip30_coins [of v L block d, unfolded b bip30_outcome_def fst_conv snd_conv] ok
    by (auto simp: coins_ok_def restrict_map_def split: sum.splits option.splits if_splits)
  obtain r where r: "validate_block_structure_with_deployments L block h (bip34_active d) (segwit_active d)
      (signet_challenge d) = Some r" using str by (auto simp: structure_returns_def)
  have "apply_active_block coins_ops L P block h now mtp window d False False None v1 \<noteq> None" if "r1 = Inr x" for x
  proof (cases r)
    case (Inl e)
    with r show ?thesis by (simp add: apply_active_block_def apply_block_with_deployments_def pst_bind_def pst_map_err_def
        pst_match_def)
  next
    case (Inr u)
    then have shape: "block_shape L block"
      using r structure_shape by (fastforce simp: validate_block_structure_with_deployments_def bind_call_Inr)
    have "fresh_txids v1 (ids_from L None 0 (txdata block))"
      using new b that by (simp add: new_block_def ids_from_computed)
    from apply_block_total [OF lib shape ok1 this, of P h now mtp window "script_flags d" "csv_active d" "subsidy_sats d" False]
    show ?thesis using Inr r
      by (auto simp: apply_active_block_def apply_block_with_deployments_def apply_prevalidated_block_with_deployments_def
          pst_bind_def pst_map_err_def pst_match_def ids_from_computed split: option.splits sum.splits)
  qed
  then show ?thesis
    using b by (auto simp: run_active_block_def pst_bind_def pst_of_id split: option.splits sum.splits)
qed

text \<open>
  The bookkeeping of a block: its spent ages count up, and the undo table, the histogram and the tip
  accept it. A block that applies to the coins of a store without a journal is refused for
  no other reason.
\<close>

definition block_bookkeeping :: "hash256 \<Rightarrow> execution_tip \<Rightarrow> utxo_undo list \<Rightarrow> chain_store \<Rightarrow> bool" where
  "block_bookkeeping parent n undos s \<longleftrightarrow> cs_journal s = None
     \<and> (case spent_age_counts [(tip_height n, undos)] of Inl _ \<Rightarrow> False
        | Inr counts \<Rightarrow> (case tx_bind (if opt_retain_block_undo (cs_options s)
                    then in_undos (undo_insert_transaction (tip_hash n) undos) else tx_ret ()) (\<lambda>_.
             tx_bind (connect_spent_ages_transaction counts (tip_height n) (tip_height n)) (\<lambda>_.
             in_execution (advance_transaction parent n))) (cs_db s) of Inl _ \<Rightarrow> False | Inr _ \<Rightarrow> True))"

lemma tx_bind_ret: "tx_bind m (\<lambda>_. tx_ret x) db = map_sum id (\<lambda>(_, db'). (x, db')) (m db)"
  by (cases "m db") (auto simp: tx_bind_def)

lemma tx_bind_assoc: "tx_bind (tx_bind m f) g = tx_bind m (\<lambda>x. tx_bind (f x) g)"
  by (auto simp: tx_bind_def fun_eq_iff bind_res_def split: sum.splits prod.splits)

lemma commit_connect_iff:
  assumes inv: "chain_inv sha s" and spec: "coins_apply (chain_view s) spent created = Inr (undo, v)"
    and rows: "\<forall>r \<in> set created. row_ok r"
  shows "(\<exists>u s'. commit_connect parent n spent created undos s = (Inr u, s')) \<longleftrightarrow> block_bookkeeping parent n undos s"
proof (cases "cs_journal s")
  case (Some j)
  then show ?thesis by (simp add: commit_connect_def block_bookkeeping_def)
next
  case None
  have view: "chain_view s = store_view (db_utxos (cs_db s))" and st: "store_inv (db_utxos (cs_db s))"
    using inv None by (simp_all add: chain_inv_def chain_view_def)
  from apply_with_undo_transaction_spec [OF st rows, of spent] spec view obtain t where
    t: "apply_with_undo_transaction spent created (db_utxos (cs_db s)) = Inr (undo, t)" by auto
  show ?thesis
  proof (cases "spent_age_counts [(tip_height n, undos)]")
    case (Inl e)
    then show ?thesis using None by (simp add: commit_connect_def block_bookkeeping_def)
  next
    case (Inr counts)
    let ?rest = "tx_bind (if opt_retain_block_undo (cs_options s)
                    then in_undos (undo_insert_transaction (tip_hash n) undos) else tx_ret ()) (\<lambda>_.
             tx_bind (connect_spent_ages_transaction counts (tip_height n) (tip_height n)) (\<lambda>_.
             in_execution (advance_transaction parent n)))"
    have free: "coin_free ?rest" by auto
    have "commit_connect parent n spent created undos s
      = commit_tx (tx_bind (in_utxos (apply_with_undo_transaction spent created)) (\<lambda>undo. tx_bind ?rest (\<lambda>_. tx_ret undo))) s"
      using None Inr by (simp add: commit_connect_def tx_bind_assoc)
    moreover have "tx_bind (in_utxos (apply_with_undo_transaction spent created)) (\<lambda>undo. tx_bind ?rest (\<lambda>_. tx_ret undo)) (cs_db s)
      = tx_bind ?rest (\<lambda>_. tx_ret undo) ((cs_db s)\<lparr>db_utxos := t\<rparr>)"
      by (subst tx_bind_def) (simp add: in_utxos_def t)
    moreover have "?rest ((cs_db s)\<lparr>db_utxos := t\<rparr>) = map_sum id (\<lambda>(x, db'). (x, db'\<lparr>db_utxos := t\<rparr>)) (?rest (cs_db s))"
      using free by (simp add: coin_free_def)
    ultimately show ?thesis
      using None Inr by (cases "?rest (cs_db s)") (auto simp: commit_tx_def tx_bind_ret block_bookkeeping_def)
  qed
qed

lemma next_active_block_Inr:
  assumes "next_active_block L headers block current = Inr (h, mtp)"
  obtains info where "h = tip_height current + 1" "active_header_at headers h = Some info"
    "hi_hash info = block_hash L (b_header block)"
  using assms that
  by (auto simp: next_active_block_def Let_def res_simps checked_add_def split: if_splits)

lemma execute_block_ran:
  assumes run: "execute_block L P headers block current now window d v = Some (r, v')"
    and ok: "coins_ok v" and new: "new_block L block d v"
  shows "case r of Inl e \<Rightarrow> \<forall>u. e \<noteq> Exec_Block (Rollback u)
    | Inr applied \<Rightarrow> ab_hash applied = block_hash L (b_header block)
       \<and> undo_chain v (ab_transaction_undos applied) v' \<and> coins_ok v'
       \<and> (finite (dom v) \<longrightarrow> coin_supply v' \<le> coin_supply v + unat (subsidy_sats d))
       \<and> (\<exists>info. active_header_at headers (tip_height current + 1) = Some info \<and> hi_hash info = ab_hash applied)"
proof (cases "next_active_block L headers block current")
  case (Inl e)
  then show ?thesis using run
    by (auto simp: execute_block_def next_active_block_def Let_def res_simps split: if_splits)
next
  case (Inr p)
  obtain h mtp where p: "p = (h, mtp)" by (cases p)
  from run Inr p obtain r2 where
    a: "run_active_block coins_ops L P block h now mtp window d False False None v = Some (r2, v')"
    and r: "r = bind_res r2 (\<lambda>(applied, _). Ok applied)"
    by (auto simp: execute_block_def pst_bind_def split: option.splits sum.splits)
  obtain info where "h = tip_height current + 1" "active_header_at headers h = Some info"
    "hi_hash info = block_hash L (b_header block)" by (rule next_active_block_Inr [OF Inr [unfolded p]]) (rule that)
  with run_active_block_coins [OF a ok new] r show ?thesis
    by (cases r2) (auto simp: block_ran_def)
qed

lemma execute_block_total:
  assumes "tx_lib_ok L" "coins_ok v" "new_block L block d v" "structure_returns L block d"
  shows "execute_block L P headers block current now window d v \<noteq> None"
proof (cases "next_active_block L headers block current")
  case (Inr p)
  obtain h mtp where p: "p = (h, mtp)" by (cases p)
  obtain q where "run_active_block coins_ops L P block h now mtp window d False False None v = Some q"
    using run_active_block_total [OF assms] by blast
  then show ?thesis using Inr p
    by (cases q) (auto simp: execute_block_def pst_bind_def split: sum.splits)
qed (simp add: execute_block_def)

lemma connect_active_block_ok:
  assumes inv: "chain_inv sha s" and lib: "tx_lib_ok L" and str: "structure_returns L block d"
    and new: "new_block L block d (chain_view s)" and tip: "chain_tip s = Inr current"
  shows "\<exists>r s'. connect_active_block L P headers block now window d s = Some (r, s')
    \<and> (case r of
         Inl e \<Rightarrow> s' = s \<and> (\<forall>u. e \<noteq> Exec_Block (Rollback u))
       | Inr applied \<Rightarrow> \<exists>v. execute_block L P headers block current now window d (chain_view s) = Some (Inr applied, v)
           \<and> block_committed sha \<lparr>tip_height = tip_height current + 1, tip_hash = ab_hash applied\<rparr>
               (ab_transaction_undos applied) s v s')
    \<and> ((\<exists>applied. r = Inr applied) \<longleftrightarrow>
         (\<exists>applied v. execute_block L P headers block current now window d (chain_view s) = Some (Inr applied, v)
            \<and> block_bookkeeping (tip_hash current) \<lparr>tip_height = tip_height current + 1, tip_hash = ab_hash applied\<rparr>
                (ab_transaction_undos applied) s))"
proof -
  note ok = chain_view_ok(1) [OF inv]
  obtain r1 v where run: "execute_block L P headers block current now window d (chain_view s) = Some (r1, v)"
    using execute_block_total [OF lib ok new str] by fast
  note val = validate_active_block_ok [OF inv new, of P headers current now window, unfolded run validated_def]
  note ran = execute_block_ran [OF run ok new]
  have start: "read_chain_tip s = Some (Inr current, s)" using tip by (simp add: read_chain_tip_def)
  show ?thesis
  proof (cases r1)
    case (Inl e)
    then show ?thesis using val ran start run by (simp add: connect_active_block_def pst_bind_def)
  next
    case (Inr applied)
    let ?n = "\<lparr>tip_height = tip_height current + 1, tip_hash = ab_hash applied\<rparr>"
    from val Inr obtain ch where
      ch: "validate_active_block chain_ops L P headers block current now window d False s = Some (Inr (applied, ch), s)"
      "coins_apply (chain_view s) (ch_spent ch) (ch_created ch) = Inr (ch_undo ch, v)" "\<forall>r \<in> set (ch_created ch). row_ok r"
      by auto
    have wf: "\<forall>u \<in> set (ab_transaction_undos applied). undo_wf u"
      using ran Inr undo_chain_wf by (simp, blast)
    obtain r2 s' where c: "commit_connect (tip_hash current) ?n (ch_spent ch) (ch_created ch) (ab_transaction_undos applied) s
      = (r2, s')" by force
    note out = commit_connect_ok [OF inv ch(2,3) wf c]
    note iff = commit_connect_iff [OF inv ch(2,3), of "tip_hash current" ?n "ab_transaction_undos applied", unfolded c]
    show ?thesis
    proof (cases r2)
      case (Inl e)
      then show ?thesis using start ch(1) c out iff run Inr
        by (simp add: connect_active_block_def pst_bind_def pst_of_def Let_def)
    next
      case r2: (Inr u)
      then show ?thesis using start ch(1) c out iff run Inr
        by (simp add: connect_active_block_def pst_bind_def pst_of_def Let_def)
    qed
  qed
qed

section \<open>Disconnecting the tip\<close>

lemma active_parent:
  assumes g: "dag_graph L headers" and run: "next_active_block L headers block current = Inr (h, mtp)"
  obtains info pinfo where "dag_get headers (block_hash L (b_header block)) = Some info"
    "prev_blockhash (hi_header info) = tip_hash current" "dag_get headers (tip_hash current) = Some pinfo"
    "hi_height pinfo = tip_height current" "hi_hash pinfo = tip_hash current"
proof -
  have lk: "linked (dag_headers headers) (dag_active_chain headers)" using g by (simp add: dag_graph_def)
  from run obtain pinfo info where
    p: "active_header_at headers (tip_height current) = Some pinfo" "hi_hash pinfo = tip_hash current"
    and i: "active_header_at headers h = Some info" "hi_hash info = block_hash L (b_header block)"
    and h: "checked_add (tip_height current) 1 = Some h"
    by (auto simp: next_active_block_def Let_def res_simps split: if_splits option.splits)
  let ?xs = "dag_active_chain headers" and ?i = "unat (tip_height current)"
  have hn: "unat h = Suc ?i" using h by (auto simp: checked_add_eq_iff)
  from p(1) have pl: "?i < length ?xs" "fmlookup (dag_headers headers) (?xs ! ?i) = Some pinfo"
    by (auto simp: active_header_at_def nth_opt_def bind_eq_Some_conv split: if_splits)
  from i(1) have il: "Suc ?i < length ?xs" "fmlookup (dag_headers headers) (?xs ! Suc ?i) = Some info"
    by (auto simp: active_header_at_def nth_opt_def bind_eq_Some_conv hn split: if_splits)
  have keys: "?xs ! ?i = tip_hash current" "?xs ! Suc ?i = block_hash L (b_header block)"
    using graph_entry [OF g pl(2)] graph_entry [OF g il(2)] p(2) i(2) by (simp_all add: entry_ok_def)
  from linkedD [OF lk pl(1)] pl(2) have "unat (hi_height pinfo) = ?i" by force
  then have "hi_height pinfo = tip_height current" by (simp add: word_unat_eq_iff)
  moreover from linkedD [OF lk il(1)] il(2) have "prev_blockhash (hi_header info) = tip_hash current"
    by (metis diff_Suc_1 keys(1) option.inject zero_less_Suc)
  ultimately show thesis using that pl(2) il(2) p(2) by (simp add: dag_get_def keys)
qed

lemma assumed_snapshot_base_tip: "assumed_snapshot_base (fmupd tip_key x m) = assumed_snapshot_base m"
  by (simp add: assumed_snapshot_base_def decode_assumed_snapshot_def Let_def tip_key_def assumed_snapshot_base_key_def
      assumed_snapshot_records_key_def assumed_snapshot_count_key_def assumed_snapshot_bytes_key_def
      assumed_snapshot_utxo_set_key_def)

text \<open>Undoing the block on an overlay gives the change that leads back to the coins before it.\<close>

lemma undo_block_overlay:
  assumes inv: "chain_inv sha s" and chain: "undo_chain v (ab_transaction_undos applied) (chain_view s)"
  shows "\<exists>o' ch. with_overlay (pst_of g (disconnect_block (overlay_ops chain_ops) applied now window)) s
      = Some (Inr ((), o'), s) \<and> net_changes o' = Inr ch
    \<and> coins_apply (chain_view s) (ch_spent ch) (ch_created ch) = Inr (ch_undo ch, v)
    \<and> (\<forall>r \<in> set (ch_created ch). row_ok r)"
proof -
  let ?sound = "ov_sound (\<lambda>t. t = s \<and> chain_inv sha t) chain_view (chain_view s)"
  have start: "?sound (ov_new s)" "ov_view chain_view (ov_new s) = chain_view s"
    by (rule chain_reader.ov_new_sound(1)) (simp add: inv, rule chain_reader.ov_new_sound(2))
  from chain_overlay.undo_all_ok [OF start(1), of v "ab_transaction_undos applied" now window] chain obtain o' where
    o: "undo_all (overlay_ops chain_ops) (rev (ab_transaction_undos applied)) now window (ov_new s) = (Inr (), o')"
    "?sound o'" "ov_view chain_view o' = v" by (auto simp: start(2))
  from net_changes_ok [OF o(2)] obtain ch where "net_changes o' = Inr ch"
    "coins_apply (chain_view s) (ch_spent ch) (ch_created ch) = Inr (ch_undo ch, v)" "\<forall>r \<in> set (ch_created ch). row_ok r"
    by (auto simp: o(3))
  moreover have "ov_base o' = s" using o(2) by (simp add: ov_sound_def)
  ultimately show ?thesis using o(1) by (auto simp: with_overlay_def pst_of_def disconnect_block_def)
qed

lemma pst_of_eq_Inr [res_simps]: "pst_of g m s = Some (Inr x, s') \<longleftrightarrow> m s = (Inr x, s')"
  by (cases "m s") (auto simp: pst_of_def res_simps)

lemma validated_Inr:
  assumes "validated s spec (Some (Inr (applied, ch), s0))"
  shows "\<exists>v. spec = Some (Inr applied, v) \<and> s0 = s
    \<and> coins_apply (chain_view s) (ch_spent ch) (ch_created ch) = Inr (ch_undo ch, v) \<and> (\<forall>r \<in> set (ch_created ch). row_ok r)"
proof (cases spec)
  case None
  with assms show ?thesis by (simp add: validated_def)
next
  case (Some q)
  obtain r v where "q = (r, v)" by (cases q)
  with assms Some show ?thesis by (cases r) (simp_all add: validated_def)
qed

lemma connect_active_block_Inr:
  assumes inv: "chain_inv sha s" and new: "new_block L block d (chain_view s)" and tip: "chain_tip s = Inr current"
    and run: "connect_active_block L P headers block now window d s = Some (Inr applied, s1)"
  obtains h mtp ch u v where "next_active_block L headers block current = Inr (h, mtp)"
    "commit_connect (tip_hash current) \<lparr>tip_height = tip_height current + 1, tip_hash = ab_hash applied\<rparr>
       (ch_spent (ch :: utxo_changes)) (ch_created ch) (ab_transaction_undos applied) s = (Inr u, s1)"
    "coins_apply (chain_view s) (ch_spent ch) (ch_created ch) = Inr (ch_undo ch, v)" "\<forall>r \<in> set (ch_created ch). row_ok r"
    "execute_block L P headers block current now window d (chain_view s) = Some (Inr applied, v)"
proof -
  from run tip obtain ch s0 u where
    val: "validate_active_block chain_ops L P headers block current now window d False s = Some (Inr (applied, ch), s0)"
    and c: "commit_connect (tip_hash current) \<lparr>tip_height = tip_height current + 1, tip_hash = ab_hash applied\<rparr>
       (ch_spent ch) (ch_created ch) (ab_transaction_undos applied) s0 = (Inr u, s1)"
    by (auto simp: connect_active_block_def read_chain_tip_def pst_of_eq_Inr res_simps Let_def)
  have "validated s (execute_block L P headers block current now window d (chain_view s)) (Some (Inr (applied, ch), s0))"
    using validate_active_block_ok [OF inv new, of P headers current now window] by (simp only: val)
  from validated_Inr [OF this] obtain v where
    e: "execute_block L P headers block current now window d (chain_view s) = Some (Inr applied, v)" "s0 = s"
    "coins_apply (chain_view s) (ch_spent ch) (ch_created ch) = Inr (ch_undo ch, v)" "\<forall>r \<in> set (ch_created ch). row_ok r"
    by blast
  from e(1) obtain h mtp where n: "next_active_block L headers block current = Inr (h, mtp)"
    by (auto simp: execute_block_def res_simps)
  show thesis by (rule that [OF n c [unfolded e(2)] e(3,4,1)])
qed

text \<open>Reading through the prefix of a disconnect.\<close>

lemma disconnect_execution_tip_steps:
  assumes "chain_tip s = Inr n" "tip_height n \<noteq> 0" "assumed_snapshot_base (db_meta (cs_db s)) = Inr b" "b \<noteq> Some n"
    and "dag_get headers (tip_hash n) = Some info" "dag_get headers (prev_blockhash (hi_header info)) = Some pinfo"
    and "checked_add (hi_height pinfo) 1 = Some (tip_height n)"
    and "undo_get (db_undos (cs_db s)) (tip_hash n) = Inr (Some undos)"
    and "with_overlay (pst_of Exec_Rollback (disconnect_block (overlay_ops chain_ops)
          \<lparr>ab_hash = tip_hash n, ab_transaction_undos = undos\<rparr> now window)) s = Some (Inr ((), o'), s)"
    and "net_changes o' = Inr ch"
    and "commit_disconnect n \<lparr>tip_height = hi_height pinfo, tip_hash = hi_hash pinfo\<rparr> (ch_spent ch) (ch_created ch) undos s
      = (r, s')"
  shows "disconnect_execution_tip headers now window s
    = Some (bind_res (map_err Exec_ChainStore r) (\<lambda>_. Ok \<lparr>tip_height = hi_height pinfo, tip_hash = hi_hash pinfo\<rparr>), s')"
proof -
  have start: "read_chain_tip s = Some (Inr n, s)" using assms(1) by (simp add: read_chain_tip_def)
  show ?thesis
    using assms(2-) start
    by (cases r) (simp_all add: disconnect_execution_tip_def pst_bind_def pst_of_def Let_def)
qed

lemma connect_disconnect_ok:
  assumes inv: "chain_inv sha s" and lib: "tx_lib_ok L" and g: "dag_graph L headers"
    and new: "new_block L block d (chain_view s)" and tip: "chain_tip s = Inr current"
    and retain: "opt_retain_block_undo (cs_options s)"
    and snap: "assumed_snapshot_base (db_meta (cs_db s)) = Inr b" "\<forall>t. b = Some t \<longrightarrow> tip_height t \<le> tip_height current"
    and run: "connect_active_block L P headers block now window d s = Some (Inr applied, s1)"
  shows "\<exists>t. disconnect_execution_tip headers now' window' s1 = Some (Inr current, s\<lparr>cs_db := (cs_db s)\<lparr>db_utxos := t\<rparr>\<rparr>)
    \<and> store_inv t \<and> store_view t = chain_view s"
proof -
  let ?n = "\<lparr>tip_height = tip_height current + 1, tip_hash = ab_hash applied\<rparr>"
  obtain h mtp ch u v where n: "next_active_block L headers block current = Inr (h, mtp)"
    and c: "commit_connect (tip_hash current) ?n (ch_spent (ch :: utxo_changes)) (ch_created ch) (ab_transaction_undos applied) s = (Inr u, s1)"
    and ch: "coins_apply (chain_view s) (ch_spent ch) (ch_created ch) = Inr (ch_undo ch, v)" "\<forall>r \<in> set (ch_created ch). row_ok r"
    and e: "execute_block L P headers block current now window d (chain_view s) = Some (Inr applied, v)"
    by (rule connect_active_block_Inr [OF inv new tip run]) (rule that)
  note ran = execute_block_ran [OF e chain_view_ok(1) [OF inv] new]
  have wf: "\<forall>u \<in> set (ab_transaction_undos applied). undo_wf u" using ran undo_chain_wf by (simp, blast)
  from commit_connect_ok [OF inv ch wf c] have
    fin: "chain_inv sha s1" "chain_view s1 = v" "read_tip (db_meta (cs_db s1)) = Inr ?n"
      "undo_get (db_undos (cs_db s1)) (ab_hash applied) = Inr (Some (ab_transaction_undos applied))" "cs_journal s1 = None"
    using retain by (simp_all add: block_committed_def)
  obtain info pinfo where p: "dag_get headers (block_hash L (b_header block)) = Some info"
    "prev_blockhash (hi_header info) = tip_hash current" "dag_get headers (tip_hash current) = Some pinfo"
    "hi_height pinfo = tip_height current" "hi_hash pinfo = tip_hash current"
    by (rule active_parent [OF g n]) (rule that)
  have hash: "ab_hash applied = block_hash L (b_header block)" using ran by simp
  have h: "checked_add (tip_height current) 1 = Some (tip_height current + 1)"
  proof -
    have "checked_add (tip_height current) 1 = Some h"
      using n by (auto simp: next_active_block_def Let_def res_simps split: if_splits)
    moreover have "h = tip_height current + 1" by (rule next_active_block_Inr [OF n])
    ultimately show ?thesis by simp
  qed
  then have bound: "tip_height current < tip_height current + 1" by (auto simp: checked_add_eq_iff word_less_nat_alt)
  obtain m1 where m1: "advance_transaction (tip_hash current) ?n (db_meta (cs_db s)) = Inr ((), m1)" "db_meta (cs_db s1) = m1"
    and j: "cs_journal s = None" by (rule commit_connect_parts [OF c]) (rule that, simp_all)
  from m1(1) obtain x where "m1 = fmupd tip_key x (db_meta (cs_db s))"
    by (auto simp: advance_transaction_def res_simps split: if_splits)
  then have snap1: "assumed_snapshot_base (db_meta (cs_db s1)) = Inr b" by (simp add: m1(2) assumed_snapshot_base_tip snap(1))
  have base: "store_inv (db_utxos (cs_db s))" "ages_ok (cs_db s)" "chain_view s = store_view (db_utxos (cs_db s))"
    "chain_view s1 = store_view (db_utxos (cs_db s1))"
    using inv j fin(5) by (simp_all add: chain_inv_def chain_view_def)
  have chain: "undo_chain (chain_view s) (ab_transaction_undos applied) (chain_view s1)" using ran fin(2) by simp
  from undo_block_overlay [OF fin(1), of "chain_view s" "\<lparr>ab_hash = ab_hash applied, ab_transaction_undos = ab_transaction_undos applied\<rparr>"
      Exec_Rollback now' window'] chain obtain o' ch' where
    o: "with_overlay (pst_of Exec_Rollback (disconnect_block (overlay_ops chain_ops)
        \<lparr>ab_hash = ab_hash applied, ab_transaction_undos = ab_transaction_undos applied\<rparr> now' window')) s1 = Some (Inr ((), o'), s1)"
      "net_changes o' = Inr ch'"
    and ch': "coins_apply (chain_view s1) (ch_spent ch') (ch_created ch') = Inr (ch_undo ch', chain_view s)"
      "\<forall>r \<in> set (ch_created ch'). row_ok r" by auto
  have read: "read_tip (db_meta (cs_db s)) = Inr current" using tip by (simp add: chain_tip_def res_simps)
  from disconnect_restores [OF base(1,2) ch(2) retain read c _ ch'(2)] ch'(1) obtain t where
    t: "commit_disconnect ?n current (ch_spent ch') (ch_created ch') (ab_transaction_undos applied) s1
      = (Inr (ch_undo ch'), s\<lparr>cs_db := (cs_db s)\<lparr>db_utxos := t\<rparr>\<rparr>)" "store_inv t" "store_view t = chain_view s"
    unfolding base(3,4) by blast
  have parent: "\<lparr>tip_height = hi_height pinfo, tip_hash = hi_hash pinfo\<rparr> = current" by (simp add: p)
  have "disconnect_execution_tip headers now' window' s1 = Some (bind_res (map_err Exec_ChainStore (Inr (ch_undo ch')))
      (\<lambda>_. Ok \<lparr>tip_height = hi_height pinfo, tip_hash = hi_hash pinfo\<rparr>), s\<lparr>cs_db := (cs_db s)\<lparr>db_utxos := t\<rparr>\<rparr>)"
  proof (rule disconnect_execution_tip_steps [where n = ?n and b = b and info = info and ch = ch' and o' = o'
        and undos = "ab_transaction_undos applied"])
    show "b \<noteq> Some ?n" using snap(2) bound by auto
    show "tip_height ?n \<noteq> 0" using bound by auto
    show "commit_disconnect ?n \<lparr>tip_height = hi_height pinfo, tip_hash = hi_hash pinfo\<rparr> (ch_spent ch') (ch_created ch')
      (ab_transaction_undos applied) s1 = (Inr (ch_undo ch'), s\<lparr>cs_db := (cs_db s)\<lparr>db_utxos := t\<rparr>\<rparr>)"
      unfolding parent by (rule t(1))
  qed (use fin o p snap1 h hash in \<open>simp_all add: chain_tip_def\<close>)
  then have "disconnect_execution_tip headers now' window' s1 = Some (Inr current, s\<lparr>cs_db := (cs_db s)\<lparr>db_utxos := t\<rparr>\<rparr>)"
    by (simp add: parent)
  then show ?thesis using t(2,3) by blast
qed

end
