(* ===== verification/Block_Recovery.thy ===== *)
theory Block_Recovery
  imports Block_Execution_Refine
begin

text \<open>
  Recovery of an interrupted transition, \<open>src/src/block_execution.rs\<close>: which states of the databases the
  write-ahead order allows, and what \<open>recover_pending_transition\<close> makes of them on any store that keeps
  the contract \<open>utxo_store\<close>.
\<close>

section \<open>Recovery\<close>

text \<open>
  An interrupted transition. The intent is recorded, \<open>v0\<close> and \<open>v1\<close> are the coins before and after the
  block, and the databases are at one of the points the write-ahead order allows: a connect changes the
  coins, stores the undo and then advances the tip; a disconnect reverts the coins, rewinds the tip and
  then removes the undo.
\<close>

definition interrupted ::
  "coins \<Rightarrow> coins \<Rightarrow> pending_transition \<Rightarrow> coins \<Rightarrow> undo_tables \<Rightarrow> meta \<Rightarrow> bool" where
  "interrupted v0 v1 p v u m \<longleftrightarrow> read_pending_transition u = Inr (Some p) \<and> coins_ok v0
     \<and> coins_apply v0 (map fst (undo_spent (pt_undo p))) (pending_transition.pt_created p) = Inr (pt_undo p, v1)
     \<and> fst ` set (undo_spent (pt_undo p)) \<inter> fst ` set (pending_transition.pt_created p) = {}
     \<and> checked_add (tip_height (pt_parent p)) 1 = Some (tip_height (pt_next p))
     \<and> (read_tip m = Inr (pt_parent p) \<and> (v = v0 \<or> pt_kind p = Connect \<and> v = v1)
        \<or> read_tip m = Inr (pt_next p) \<and> (v = v1 \<or> pt_kind p = Disconnect \<and> v = v0)
          \<and> (pt_kind p = Connect \<longrightarrow> (\<exists>undos. undo_get u (tip_hash (pt_next p)) = Inr (Some undos))))"

text \<open>A connect whose tip was advanced is kept; everything else is rolled back to the parent.\<close>

definition recovered ::
  "coins \<Rightarrow> coins \<Rightarrow> pending_transition \<Rightarrow> undo_tables \<Rightarrow> meta \<Rightarrow> coins \<Rightarrow> undo_tables \<Rightarrow> meta \<Rightarrow> bool" where
  "recovered v0 v1 p u m v' u' m' \<longleftrightarrow> read_pending_transition u' = Inr None
     \<and> (if pt_kind p = Connect \<and> read_tip m = Inr (pt_next p)
        then v' = v1 \<and> m' = m \<and> block_undos u' = block_undos u
        else v' = v0 \<and> read_tip m' = Inr (pt_parent p) \<and> undo_get u' (tip_hash (pt_next p)) = Inr None
          \<and> (\<forall>h. h \<noteq> tip_hash (pt_next p) \<longrightarrow> undo_get u' h = undo_get u h))"

lemma collect_map_distinct: "distinct (map fst rows) \<Longrightarrow> collect_map rows = map_of rows"
  by (simp add: collect_map_def map_of_inject_set rev_map [symmetric])

lemma pending_keys_set:
  "set (pending_keys p) = fst ` set (undo_spent (pt_undo p)) \<union> set (undo_created (pt_undo p))"
  by (simp add: pending_keys_def)

context utxo_reader
begin

lemma pending_matches:
  assumes "sound s"
  shows "\<exists>s'. st_fold (pending_match ops p) (a, b) ks s
      = (Inr (a \<and> (\<forall>k \<in> set ks. view s k = collect_map (undo_spent (pt_undo p)) k),
              b \<and> (\<forall>k \<in> set ks. view s k = collect_map (pending_transition.pt_created p) k)), s')
    \<and> sound s' \<and> view s' = view s"
  using assms
proof (induction ks arbitrary: a b s)
  case (Cons k ks)
  obtain s1 where s1: "ops_get ops k s = (Inr (view s k), s1)" "sound s1" "view s1 = view s"
    using getE [OF Cons.prems] by blast
  let ?a = "a \<and> view s k = collect_map (undo_spent (pt_undo p)) k"
  let ?b = "b \<and> view s k = collect_map (pending_transition.pt_created p) k"
  have "pending_match ops p (a, b) k s = (Inr (?a, ?b), s1)"
    using s1(1) by (simp add: pending_match_def st_bind_def)
  then have "st_fold (pending_match ops p) (a, b) (k # ks) s = st_fold (pending_match ops p) (?a, ?b) ks s1"
    by (simp add: st_bind_def)
  with Cons.IH [OF s1(2), of ?a ?b] s1(3) show ?case by (auto simp: conj_assoc)
qed simp

lemma pending_state_ok:
  assumes "sound s"
  shows "\<exists>s'. pending_utxo_state ops p s =
      (Inr (case (\<forall>k \<in> set (pending_keys p). view s k = collect_map (undo_spent (pt_undo p)) k,
                  \<forall>k \<in> set (pending_keys p). view s k = collect_map (pending_transition.pt_created p) k) of
              (True, True) \<Rightarrow> Either | (True, False) \<Rightarrow> Before | (False, True) \<Rightarrow> After | (False, False) \<Rightarrow> Mixed), s')
    \<and> sound s' \<and> view s' = view s"
  using pending_matches [OF assms, of p True True "pending_keys p"]
  by (auto simp: pending_utxo_state_def st_bind_def)

end

text \<open>On the coins before or after the transition the comparison tells which they are.\<close>

lemma transition_coins:
  assumes "coins_apply v0 (map fst (undo_spent (pt_undo p))) (pending_transition.pt_created p) = Inr (pt_undo p, v1)"
    and "fst ` set (undo_spent (pt_undo p)) \<inter> fst ` set (pending_transition.pt_created p) = {}"
  shows "v = v0 \<or> v = v1 \<Longrightarrow>
      (\<forall>k \<in> set (pending_keys p). v k = collect_map (undo_spent (pt_undo p)) k) \<longleftrightarrow> v = v0"
    and "v = v0 \<or> v = v1 \<Longrightarrow>
      (\<forall>k \<in> set (pending_keys p). v k = collect_map (pending_transition.pt_created p) k) \<longleftrightarrow> v = v1"
proof -
  let ?spent = "undo_spent (pt_undo p)" and ?created = "pending_transition.pt_created p"
  note a = assms(1) [unfolded coins_apply_Inr_iff]
  have keys: "set (pending_keys p) = fst ` set ?spent \<union> fst ` set ?created" using a by (simp add: pending_keys_set)
  have d: "distinct (map fst ?spent)" "distinct (map fst ?created)" using a by auto
  have out: "v1 k = v0 k" if "k \<notin> set (pending_keys p)" for k
    using that a by (simp add: keys coins_after_def map_add_def restrict_map_def map_of_eq_None_iff)
       (metis (no_types, lifting) image_eqI map_of_SomeD fst_conv option.exhaust option.simps(4))
  have before: "v0 k = collect_map ?spent k" if "k \<in> set (pending_keys p)" for k
  proof -
    have "v0 k = None" if "k \<notin> fst ` set ?spent" using that \<open>k \<in> _\<close> a keys by auto
    moreover have "collect_map ?spent k = (if k \<in> fst ` set ?spent then v0 k else None)"
      using a map_of_spent [of ?spent v0 k] by (simp add: collect_map_distinct [OF d(1)])
    ultimately show ?thesis by auto
  qed
  have after: "v1 k = collect_map ?created k" if "k \<in> set (pending_keys p)" for k
  proof -
    have "v1 k = coins_after v0 (map fst ?spent) ?created k" using a by simp
    also have "\<dots> = map_of ?created k"
    proof (cases "map_of ?created k")
      case None
      then have "k \<in> fst ` set ?spent" using that keys by (auto simp: map_of_eq_None_iff)
      with None show ?thesis by (simp add: coins_after_def map_add_def restrict_map_def)
    qed (simp add: coins_after_def map_add_def)
    finally show ?thesis by (simp add: collect_map_distinct [OF d(2)])
  qed
  have same: "v1 = v0" if "\<forall>k \<in> set (pending_keys p). v1 k = v0 k" using that out by auto
  show "v = v0 \<or> v = v1 \<Longrightarrow> (\<forall>k \<in> set (pending_keys p). v k = collect_map ?spent k) \<longleftrightarrow> v = v0"
    using before same by metis
  show "v = v0 \<or> v = v1 \<Longrightarrow> (\<forall>k \<in> set (pending_keys p). v k = collect_map ?created k) \<longleftrightarrow> v = v1"
    using after same by metis
qed

lemma hash_to_bytes_eq [simp]: "hash_to_bytes a = hash_to_bytes b \<longleftrightarrow> a = b"
  by (metis hash_from_to_bytes)

lemma pending_cleared [simp]: "read_pending_transition (u\<lparr>pending_row := None\<rparr>) = Inr None"
  by (simp add: read_pending_transition_def transpose_res_def)

lemma clear_transition_ok:
  assumes "read_pending_transition u = Inr (Some p)"
  shows "clear_transition (tip_hash (pt_next p)) u = (Inr (), u\<lparr>pending_row := None\<rparr>)"
  using assms by (simp add: clear_transition_def write_transaction_def read_pending_transition_def)

lemma forget_transition_ok:
  assumes "read_pending_transition (rs_undos s) = Inr (Some p)"
  shows "\<exists>u'. forget_transition p s = (Inr True, s\<lparr>rs_undos := u'\<rparr>) \<and> read_pending_transition u' = Inr None
    \<and> undo_get u' (tip_hash (pt_next p)) = Inr None
    \<and> (\<forall>h. h \<noteq> tip_hash (pt_next p) \<longrightarrow> undo_get u' h = undo_get (rs_undos s) h)"
proof -
  let ?u = "(rs_undos s)\<lparr>block_undos := fmdrop (hash_to_bytes (tip_hash (pt_next p))) (block_undos (rs_undos s))\<rparr>"
  have r: "undo_remove (tip_hash (pt_next p)) (rs_undos s)
      = (Inr (fmlookup (block_undos (rs_undos s)) (hash_to_bytes (tip_hash (pt_next p))) \<noteq> None), ?u)"
    by (simp add: undo_remove_def undo_remove_transaction_def write_transaction_def)
  have p: "read_pending_transition ?u = Inr (Some p)" using assms by (simp add: read_pending_transition_def)
  have "forget_transition p s = (Inr True, s\<lparr>rs_undos := ?u\<lparr>pending_row := None\<rparr>\<rparr>)"
    using r clear_transition_ok [OF p] by (simp add: forget_transition_def on_undos_def st_bind_def)
  moreover have "undo_get (?u\<lparr>pending_row := None\<rparr>) h = (if h = tip_hash (pt_next p) then Inr None else undo_get (rs_undos s) h)" for h
    by (simp add: undo_get_def transpose_res_def)
  ultimately show ?thesis using pending_cleared [of ?u] by auto
qed

context utxo_store
begin

lemma revert_coins_ok:
  assumes "sound (rs_coins s)" "coins_ok v0" "view (rs_coins s) = v0 \<or> view (rs_coins s) = v1"
    and "coins_apply v0 (map fst (undo_spent (pt_undo p))) (pending_transition.pt_created p) = Inr (pt_undo p, v1)"
    and "fst ` set (undo_spent (pt_undo p)) \<inter> fst ` set (pending_transition.pt_created p) = {}"
    and "state = (case (view (rs_coins s) = v0, view (rs_coins s) = v1) of
      (True, True) \<Rightarrow> Either | (True, False) \<Rightarrow> Before | (False, True) \<Rightarrow> After | (False, False) \<Rightarrow> Mixed)"
  shows "\<exists>t. revert_coins ops p state now window s = (Inr (), s\<lparr>rs_coins := t\<rparr>) \<and> sound t \<and> view t = v0"
proof (cases "view (rs_coins s) = v0")
  case True
  then have "revert_coins ops p state now window s = (Inr (), s\<lparr>rs_coins := rs_coins s\<rparr>)"
    using assms(6) by (cases "v0 = v1") (auto simp: revert_coins_def)
  with True assms(1) show ?thesis by blast
next
  case False
  then have v: "view (rs_coins s) = v1" "state = After" using assms(3,6) by auto
  note a = assms(4) [unfolded coins_apply_Inr_iff]
  have rows: "\<forall>r \<in> set (undo_spent (pt_undo p)). row_ok r" using a assms(2) by (auto simp: coins_ok_def)
  have gone: "\<forall>k \<in> fst ` set (undo_spent (pt_undo p)). view (rs_coins s) k = None"
    using coins_apply_spent_gone [OF assms(4)] assms(5) v(1) by auto
  obtain t where "ops_undo ops (pt_undo p) now window (rs_coins s) = (Inr (), t)" "sound t"
    "view t = coins_undo (view (rs_coins s)) (pt_undo p)"
    using undo_law [OF assms(1) rows coins_apply_undo_distinct [OF assms(4)] gone] by blast
  then show ?thesis using v coins_undo_apply [OF assms(4)] by (auto simp: revert_coins_def on_coins_def)
qed

lemma recover_ok:
  assumes "sound (rs_coins s)" "interrupted v0 v1 p (view (rs_coins s)) (rs_undos s) (rs_meta s)"
  shows "\<exists>s'. recover_pending_transition ops now window s = (Inr True, s') \<and> sound (rs_coins s')
    \<and> recovered v0 v1 p (rs_undos s) (rs_meta s) (view (rs_coins s')) (rs_undos s') (rs_meta s')"
proof -
  note i = assms(2) [unfolded interrupted_def]
  have ap: "coins_apply v0 (map fst (undo_spent (pt_undo p))) (pending_transition.pt_created p) = Inr (pt_undo p, v1)"
    and dj: "fst ` set (undo_spent (pt_undo p)) \<inter> fst ` set (pending_transition.pt_created p) = {}"
    and rp: "read_pending_transition (rs_undos s) = Inr (Some p)" and v0: "coins_ok v0"
    and next_height: "checked_add (tip_height (pt_parent p)) 1 = Some (tip_height (pt_next p))"
    and v: "view (rs_coins s) = v0 \<or> view (rs_coins s) = v1" using i by blast+
  have ne: "pt_parent p \<noteq> pt_next p" using next_height by (auto simp: checked_add_eq_iff)
  let ?state = "case (view (rs_coins s) = v0, view (rs_coins s) = v1) of
      (True, True) \<Rightarrow> Either | (True, False) \<Rightarrow> Before | (False, True) \<Rightarrow> After | (False, False) \<Rightarrow> Mixed"
  obtain c where c: "pending_utxo_state ops p (rs_coins s) = (Inr ?state, c)" "sound c" "view c = view (rs_coins s)"
    using pending_state_ok [OF assms(1), of p] transition_coins [OF ap dj v] by auto
  let ?s = "s\<lparr>rs_coins := c\<rparr>"
  have "\<exists>t. revert_coins ops p ?state now window ?s = (Inr (), ?s\<lparr>rs_coins := t\<rparr>) \<and> sound t \<and> view t = v0"
    using revert_coins_ok [of ?s, OF _ v0 _ ap dj] c(2,3) v by simp
  then obtain t where t: "revert_coins ops p ?state now window ?s = (Inr (), s\<lparr>rs_coins := t\<rparr>)" "sound t" "view t = v0"
    by auto
  note run = recover_pending_transition_def st_bind_def rp on_coins_def c(1)
  consider (connect) "pt_kind p = Connect" "read_tip (rs_meta s) = Inr (pt_parent p)"
    | (connected) "pt_kind p = Connect" "read_tip (rs_meta s) = Inr (pt_next p)"
    | (disconnect) "pt_kind p = Disconnect" "read_tip (rs_meta s) = Inr (pt_next p)"
    | (disconnected) "pt_kind p = Disconnect" "read_tip (rs_meta s) = Inr (pt_parent p)"
    using i by (cases "pt_kind p") auto
  then show ?thesis
  proof cases
    case connect
    with t forget_transition_ok [of "s\<lparr>rs_coins := t\<rparr>" p] rp show ?thesis
      using ne by (auto simp: run recovered_def)
  next
    case connected
    then obtain undos where "undo_get (rs_undos s) (tip_hash (pt_next p)) = Inr (Some undos)" "view (rs_coins s) = v1"
      using i ne by auto
    with connected show ?thesis
      using ne c by (auto simp: run recovered_def matches_after_def on_undos_def clear_transition_ok [OF rp]
          split: bool.splits)
  next
    case disconnect
    have "rewind (pt_next p) (pt_parent p) (rs_meta s) = (Inr (), fmupd tip_key (exec_encode_tip (pt_parent p)) (rs_meta s))"
      using disconnect next_height by (simp add: rewind_def rewind_transaction_def write_transaction_def)
    with disconnect t ne forget_transition_ok
        [of "s\<lparr>rs_coins := t, rs_meta := fmupd tip_key (exec_encode_tip (pt_parent p)) (rs_meta s)\<rparr>" p] rp
    show ?thesis by (auto simp: run on_meta_def recovered_def)
  next
    case disconnected
    then have "view (rs_coins s) = v0" using i ne by auto
    with disconnected c forget_transition_ok [of ?s p] rp ne show ?thesis
      by (auto simp: run recovered_def matches_before_def split: bool.splits)
  qed
qed

text \<open>Coins that are neither those before nor those after the transition are refused; nothing is written.\<close>

lemma recover_refuses:
  assumes "sound (rs_coins s)" "read_pending_transition (rs_undos s) = Inr (Some p)"
    and "read_tip (rs_meta s) = Inr (pt_parent p) \<or> read_tip (rs_meta s) = Inr (pt_next p)"
    and "\<exists>k \<in> set (pending_keys p). view (rs_coins s) k \<noteq> collect_map (undo_spent (pt_undo p)) k"
    and "\<exists>k \<in> set (pending_keys p). view (rs_coins s) k \<noteq> collect_map (pending_transition.pt_created p) k"
  shows "\<exists>s'. recover_pending_transition ops now window s = (Inl InconsistentTransition, s')
    \<and> view (rs_coins s') = view (rs_coins s) \<and> rs_undos s' = rs_undos s \<and> rs_meta s' = rs_meta s"
proof -
  have mixed: "(\<forall>k \<in> set (pending_keys p). view (rs_coins s) k = collect_map (undo_spent (pt_undo p)) k) = False"
    "(\<forall>k \<in> set (pending_keys p). view (rs_coins s) k = collect_map (pending_transition.pt_created p) k) = False"
    using assms(4,5) by blast+
  obtain c where "pending_utxo_state ops p (rs_coins s) = (Inr Mixed, c)" "view c = view (rs_coins s)"
    using pending_state_ok [OF assms(1), of p, unfolded simp_thms mixed prod.case bool.case] by blast
  then show ?thesis using assms(2,3)
    by (cases "pt_kind p") (auto simp: recover_pending_transition_def st_bind_def on_coins_def revert_coins_def
        matches_after_def matches_before_def)
qed

end

text \<open>
  Every state between two writes of a recovery is interrupted in the same way, so a recovery that is cut
  off is completed by the next one.
\<close>

lemma recovery_resumes:
  assumes "interrupted v0 v1 p v u m" "\<not> (pt_kind p = Connect \<and> read_tip m = Inr (pt_next p))"
  shows "interrupted v0 v1 p v0 u m"
    and "read_tip m = Inr (pt_next p) \<Longrightarrow> rewind (pt_next p) (pt_parent p) m = (Inr (), m') \<Longrightarrow> interrupted v0 v1 p v0 u m'"
    and "interrupted v0 v1 p v (snd (undo_remove (tip_hash (pt_next p)) u)) m"
  using assms
  by - (cases "pt_kind p"; auto simp: interrupted_def rewind_def rewind_transaction_def write_transaction_def undo_remove_def
      undo_remove_transaction_def read_pending_transition_def)+

lemma recovery_done: "read_pending_transition (rs_undos s) = Inr None \<Longrightarrow>
    recover_pending_transition ops now window s = (Inr False, s)"
  by (simp add: recover_pending_transition_def st_bind_def)

end
