(* ===== verification/Block_Execution_Properties.thy ===== *)
theory Block_Execution_Properties
  imports Block_Recovery
begin

text \<open>
  The properties of block execution, with a small regtest chain as the witness: connecting a block,
  disconnecting the tip, and recovering an interrupted transition.
\<close>

definition sample_exec_block :: block where
  "sample_exec_block =
     \<lparr>b_header = \<lparr>h_version = 4, prev_blockhash = 1, merkle_root = 8, h_time = 1001, h_bits = 5, h_nonce = 1\<rparr>,
      txdata = [\<lparr>tx_version = 1, tx_lock_time = 7,
          tx_input = [\<lparr>previous_output = null_outpoint, script_sig = [0x51, 0x51], in_sequence = - 1, witness = []\<rparr>],
          tx_output = [\<lparr>txo_value = 5000000000, txo_script = [0x51]\<rparr>]\<rparr>]\<rparr>"

definition sample_exec_dag :: header_dag where
  "sample_exec_dag = (case insert_contextual sample_lib (b_header sample_exec_block) 5000 sample_dag of
     Some (Inr (_, d)) \<Rightarrow> d | _ \<Rightarrow> sample_dag)"

definition sample_exec_chain :: chain_store where
  "sample_exec_chain = sample_chain\<lparr>cs_db := sample_chain_db\<lparr>db_meta := snd (exec_from_database 1 fmempty)\<rparr>\<rparr>"

definition sample_exec_context :: block_deployment_context where
  "sample_exec_context = \<lparr>script_flags = 0, bip34_active = False, csv_active = False, segwit_active = False,
     signet_challenge = None, ctx_bip30_enforced = True, bip30_overwrite = False, subsidy_sats = 5000000000\<rparr>"

lemma sample_exec_run:
  "(case connect_active_block sample_lib sample_pool sample_exec_dag sample_exec_block 60 10 sample_exec_context sample_exec_chain of
      Some (Inr applied, s) \<Rightarrow> ab_hash applied = 2 \<and> chain_tip s = Inr \<lparr>tip_height = 1, tip_hash = 2\<rparr>
    | _ \<Rightarrow> False)"
  by code_simp

lemma sample_exec_connects:
  obtains applied s where "connect_active_block sample_lib sample_pool sample_exec_dag sample_exec_block 60 10
      sample_exec_context sample_exec_chain = Some (Inr applied, s)"
    "ab_hash applied = 2" "chain_tip s = Inr \<lparr>tip_height = 1, tip_hash = 2\<rparr>"
  using sample_exec_run
  by (cases "connect_active_block sample_lib sample_pool sample_exec_dag sample_exec_block 60 10 sample_exec_context sample_exec_chain")
    (force split: sum.splits)+

lemma sample_exec_ok:
  "chain_inv sha sample_exec_chain" "chain_view sample_exec_chain = store_view sample_store"
  "chain_tip sample_exec_chain = Inr \<lparr>tip_height = 0, tip_hash = 1\<rparr>"
  "structure_returns sample_lib sample_exec_block sample_exec_context"
  "opt_retain_block_undo (cs_options sample_exec_chain)"
  "assumed_snapshot_base (db_meta (cs_db sample_exec_chain)) = Inr None"
  "dag_graph sample_lib sample_exec_dag"
proof -
  have "ages_ok (sample_chain_db\<lparr>db_meta := snd (exec_from_database 1 fmempty)\<rparr>)"
    by (simp add: ages_ok_def sample_chain_db_def)
  then show "chain_inv sha sample_exec_chain" 
    using sample_store_ok(1) by (simp add: chain_inv_def sample_exec_chain_def sample_chain_def) (simp add: sample_chain_db_def)
  show "chain_view sample_exec_chain = store_view sample_store"
    by (simp add: chain_view_def sample_exec_chain_def sample_chain_def sample_chain_db_def)
  show "chain_tip sample_exec_chain = Inr \<lparr>tip_height = 0, tip_hash = 1\<rparr>" by code_simp
  show "structure_returns sample_lib sample_exec_block sample_exec_context"
    by (rule structure_returns_no_signet [OF sample_lib_tx_ok]) (simp add: sample_exec_context_def)
  show "opt_retain_block_undo (cs_options sample_exec_chain)" by (simp add: sample_exec_chain_def sample_chain_def)
  show "assumed_snapshot_base (db_meta (cs_db sample_exec_chain)) = Inr None" by code_simp
  show "dag_graph sample_lib sample_exec_dag"
    using sample_dag_inv dag_insert_inv(1) [OF sample_dag_inv]
    by (auto simp: sample_exec_dag_def dag_inv_def split: option.splits sum.splits dest!: insert_contextual_Inr)
qed

lemma sample_exec_new: "new_block sample_lib sample_exec_block sample_exec_context (chain_view sample_exec_chain)"
proof -
  have "fst (apply_bip30_rules coins_ops sample_lib sample_exec_block sample_exec_context
      [tx_key 1 0 \<mapsto> sample_coin 10 1, tx_key 2 0 \<mapsto> sample_coin 100 9]) = Inr None" by code_simp
  with bip30_coins [of "store_view sample_store" sample_lib sample_exec_block sample_exec_context]
  have tip: "apply_bip30_rules coins_ops sample_lib sample_exec_block sample_exec_context (store_view sample_store)
    = (Inr None, store_view sample_store)"
    unfolding sample_view by (auto simp: bip30_outcome_def prod_eq_iff)
  have ids: "map (compute_txid sample_lib) (txdata sample_exec_block) = [8]" by code_simp
  have "fresh_txids (store_view sample_store) [8]"
    by (auto simp: fresh_txids_def unused_txid_def sample_view dest!: tx_key_txid)
  with tip ids show ?thesis by (simp add: new_block_def sample_exec_ok(2))
qed

text \<open>
  C1. Connecting a block to the execution chain (\<open>connect_active_block\<close>). On a chain store in a
  sound state the call returns. On an error the store is exactly as it was, and the
  error is never a failed rollback. The transactions are assumed to be new once the BIP30 rules have run. On success the block is the next one of the active header chain, the
  execution tip is that block, the coins of the store and the returned data are exactly those of executing the
  block on the coins alone, the coins are the old ones changed by the block's transaction
  undos in order (so they can be reverted), their supply grew by at most the subsidy, and the undo data is
  retained when the options ask for it. The call succeeds exactly if the block is valid on the
  coins of the store and the bookkeeping tables accept it.
\<close>

theorem connect_block_correct:
  assumes "chain_inv sha s" "tx_lib_ok L" "structure_returns L block d"
    and "new_block L block d (chain_view s)" "chain_tip s = Inr current"
  shows "\<exists>r s'. connect_active_block L P headers block now window d s = Some (r, s')
    \<and> (case r of
         Inl e \<Rightarrow> s' = s \<and> (\<forall>u. e \<noteq> Exec_Block (Rollback u))
       | Inr applied \<Rightarrow> chain_inv sha s'
           \<and> execute_block L P headers block current now window d (chain_view s) = Some (Inr applied, chain_view s')
           \<and> (\<exists>info. active_header_at headers (tip_height current + 1) = Some info \<and> hi_hash info = ab_hash applied)
           \<and> ab_hash applied = block_hash L (b_header block)
           \<and> chain_tip s' = Inr \<lparr>tip_height = tip_height current + 1, tip_hash = ab_hash applied\<rparr>
           \<and> undo_chain (chain_view s) (ab_transaction_undos applied) (chain_view s')
           \<and> (finite (dom (chain_view s)) \<longrightarrow>
                coin_supply (chain_view s') \<le> coin_supply (chain_view s) + unat (subsidy_sats d))
           \<and> (opt_retain_block_undo (cs_options s) \<longrightarrow>
                undo_get (db_undos (cs_db s')) (ab_hash applied) = Inr (Some (ab_transaction_undos applied))))
    \<and> ((\<exists>applied. r = Inr applied) \<longleftrightarrow>
         (\<exists>applied v. execute_block L P headers block current now window d (chain_view s) = Some (Inr applied, v)
            \<and> block_bookkeeping (tip_hash current) \<lparr>tip_height = tip_height current + 1, tip_hash = ab_hash applied\<rparr>
                (ab_transaction_undos applied) s))"
proof -
  obtain r s' where R: "connect_active_block L P headers block now window d s = Some (r, s')"
    "case r of Inl e \<Rightarrow> s' = s \<and> (\<forall>u. e \<noteq> Exec_Block (Rollback u))
       | Inr applied \<Rightarrow> \<exists>v. execute_block L P headers block current now window d (chain_view s) = Some (Inr applied, v)
           \<and> block_committed sha \<lparr>tip_height = tip_height current + 1, tip_hash = ab_hash applied\<rparr>
               (ab_transaction_undos applied) s v s'"
    and iff: "(\<exists>applied. r = Inr applied) \<longleftrightarrow>
         (\<exists>applied v. execute_block L P headers block current now window d (chain_view s) = Some (Inr applied, v)
            \<and> block_bookkeeping (tip_hash current) \<lparr>tip_height = tip_height current + 1, tip_hash = ab_hash applied\<rparr>
                (ab_transaction_undos applied) s)"
    using connect_active_block_ok [OF assms] by blast
  show ?thesis
  proof (cases r)
    case (Inl e)
    with R iff show ?thesis by simp
  next
    case (Inr applied)
    then obtain v where v: "execute_block L P headers block current now window d (chain_view s) = Some (Inr applied, v)"
      "block_committed sha \<lparr>tip_height = tip_height current + 1, tip_hash = ab_hash applied\<rparr>
         (ab_transaction_undos applied) s v s'" using R(2) by auto
    have e: "v = chain_view s'" using v(2) by (simp add: block_committed_def)
    note ran = execute_block_ran [OF v(1) chain_view_ok(1) [OF assms(1)] assms(4), unfolded sum.case]
    show ?thesis using R(1) iff Inr ran v unfolding e by (auto simp: block_committed_def chain_tip_def)
  qed
qed

theorem connect_block_correct_witness:
  "\<exists>applied s'. connect_active_block sample_lib sample_pool sample_exec_dag sample_exec_block 60 10 sample_exec_context sample_exec_chain
      = Some (Inr applied, s')
    \<and> chain_tip s' = Inr \<lparr>tip_height = 1, tip_hash = 2\<rparr>
    \<and> coin_supply (chain_view s') \<le> coin_supply (chain_view sample_exec_chain) + 5000000000"
proof -
  obtain applied s' where run: "connect_active_block sample_lib sample_pool sample_exec_dag sample_exec_block 60 10
      sample_exec_context sample_exec_chain = Some (Inr applied, s')" and h: "ab_hash applied = 2"
    by (rule sample_exec_connects)
  have "finite (dom (chain_view sample_exec_chain))" by (simp add: sample_exec_ok(2) sample_view)
  with connect_block_correct [OF sample_exec_ok(1) sample_lib_tx_ok sample_exec_ok(4) sample_exec_new sample_exec_ok(3),
      of sample_pool sample_exec_dag 60 10 "\<lambda>_. []"] run h
  show ?thesis by (simp add: sample_exec_context_def)
qed

text \<open>
  C9. Disconnecting the execution tip (\<open>disconnect_execution_tip\<close>) undoes connecting it: after a
  successful \<open>connect_active_block\<close> whose undo data was retained, on a well-formed header DAG and above
  any assumed snapshot, it succeeds, returns the previous tip, and leaves a store that differs from the
  one before the connect in nothing but the tiers of its coins, which are the same coins.
\<close>

theorem execution_tip_roundtrip:
  assumes "chain_inv sha s" "tx_lib_ok L" "dag_graph L headers"
    and "new_block L block d (chain_view s)" "chain_tip s = Inr current"
    and "opt_retain_block_undo (cs_options s)"
    and "assumed_snapshot_base (db_meta (cs_db s)) = Inr b" "\<forall>t. b = Some t \<longrightarrow> tip_height t \<le> tip_height current"
    and "connect_active_block L P headers block now window d s = Some (Inr applied, s1)"
  shows "\<exists>t. disconnect_execution_tip headers now' window' s1 = Some (Inr current, s\<lparr>cs_db := (cs_db s)\<lparr>db_utxos := t\<rparr>\<rparr>)
    \<and> store_inv t \<and> store_view t = chain_view s"
  by (rule connect_disconnect_ok [OF assms])

theorem execution_tip_roundtrip_witness:
  "\<exists>s1 s2. map_option snd (connect_active_block sample_lib sample_pool sample_exec_dag sample_exec_block 60 10
        sample_exec_context sample_exec_chain) = Some s1
    \<and> chain_tip s1 = Inr \<lparr>tip_height = 1, tip_hash = 2\<rparr>
    \<and> disconnect_execution_tip sample_exec_dag 70 10 s1 = Some (Inr \<lparr>tip_height = 0, tip_hash = 1\<rparr>, s2)
    \<and> chain_view s2 = chain_view sample_exec_chain"
proof -
  obtain applied s1 where run: "connect_active_block sample_lib sample_pool sample_exec_dag sample_exec_block 60 10
      sample_exec_context sample_exec_chain = Some (Inr applied, s1)" "chain_tip s1 = Inr \<lparr>tip_height = 1, tip_hash = 2\<rparr>"
    by (rule sample_exec_connects)
  from execution_tip_roundtrip [OF sample_exec_ok(1) sample_lib_tx_ok sample_exec_ok(7) sample_exec_new
      sample_exec_ok(3,5,6) _ run(1), where now' = 70 and window' = 10]
  obtain t where "disconnect_execution_tip sample_exec_dag 70 10 s1 = Some (Inr \<lparr>tip_height = 0, tip_hash = 1\<rparr>,
      sample_exec_chain\<lparr>cs_db := (cs_db sample_exec_chain)\<lparr>db_utxos := t\<rparr>\<rparr>)" "store_view t = chain_view sample_exec_chain" by auto
  moreover from this have "chain_view (sample_exec_chain\<lparr>cs_db := (cs_db sample_exec_chain)\<lparr>db_utxos := t\<rparr>\<rparr>)
      = chain_view sample_exec_chain" by (simp add: chain_view_def sample_exec_chain_def sample_chain_def)
  ultimately show ?thesis using run by auto
qed

text \<open>
  C10. Recovery (\<open>recover_pending_transition\<close>) completes every interrupted transition. When
  the databases are at any point the write-ahead order of a connect or disconnect allows, recovery returns
  true, the record of the transition is gone, and the databases agree again: a
  connect whose tip was advanced keeps the block, its coins and its undo data; in all
  other cases the coins and the tip are those of the parent and the block's undo row is removed. Coins
  that match neither side of the transition are refused and nothing is written. Each state between two
  writes of a recovery is again an interrupted one, so a recovery that is cut off is completed by the
  next, and a recovery with no record left does nothing.
\<close>

theorem recovery_correct:
  assumes "store_inv (rs_coins s)"
  shows "(\<forall>v0 v1 p. interrupted v0 v1 p (store_view (rs_coins s)) (rs_undos s) (rs_meta s) \<longrightarrow>
      (\<exists>s'. recover_pending_transition store_ops now window s = (Inr True, s') \<and> store_inv (rs_coins s')
        \<and> recovered v0 v1 p (rs_undos s) (rs_meta s) (store_view (rs_coins s')) (rs_undos s') (rs_meta s')
        \<and> recover_pending_transition store_ops now window s' = (Inr False, s'))
      \<and> (\<not> (pt_kind p = Connect \<and> read_tip (rs_meta s) = Inr (pt_next p)) \<longrightarrow>
          interrupted v0 v1 p v0 (rs_undos s) (rs_meta s)
          \<and> (\<forall>m. read_tip (rs_meta s) = Inr (pt_next p) \<longrightarrow> rewind (pt_next p) (pt_parent p) (rs_meta s) = (Inr (), m) \<longrightarrow>
               interrupted v0 v1 p v0 (rs_undos s) m)
          \<and> interrupted v0 v1 p (store_view (rs_coins s)) (snd (undo_remove (tip_hash (pt_next p)) (rs_undos s))) (rs_meta s)))
    \<and> (\<forall>p. read_pending_transition (rs_undos s) = Inr (Some p) \<longrightarrow>
        (read_tip (rs_meta s) = Inr (pt_parent p) \<or> read_tip (rs_meta s) = Inr (pt_next p)) \<longrightarrow>
        (\<exists>k \<in> set (pending_keys p). store_view (rs_coins s) k \<noteq> collect_map (undo_spent (pt_undo p)) k) \<longrightarrow>
        (\<exists>k \<in> set (pending_keys p). store_view (rs_coins s) k \<noteq> collect_map (pending_transition.pt_created p) k) \<longrightarrow>
        (\<exists>s'. recover_pending_transition store_ops now window s = (Inl InconsistentTransition, s')
          \<and> store_view (rs_coins s') = store_view (rs_coins s) \<and> rs_undos s' = rs_undos s \<and> rs_meta s' = rs_meta s))"
proof (intro conjI allI impI)
  fix v0 v1 p assume i: "interrupted v0 v1 p (store_view (rs_coins s)) (rs_undos s) (rs_meta s)"
  from redb.recover_ok [OF assms i, of now window] obtain s' where
    s': "recover_pending_transition store_ops now window s = (Inr True, s')" "store_inv (rs_coins s')"
    "recovered v0 v1 p (rs_undos s) (rs_meta s) (store_view (rs_coins s')) (rs_undos s') (rs_meta s')" by blast
  from s'(3) have "recover_pending_transition store_ops now window s' = (Inr False, s')"
    by (intro recovery_done) (simp add: recovered_def)
  with s' show "\<exists>s'. recover_pending_transition store_ops now window s = (Inr True, s') \<and> store_inv (rs_coins s')
        \<and> recovered v0 v1 p (rs_undos s) (rs_meta s) (store_view (rs_coins s')) (rs_undos s') (rs_meta s')
        \<and> recover_pending_transition store_ops now window s' = (Inr False, s')" by blast
qed (blast intro: recovery_resumes redb.recover_refuses [OF assms])+

definition sample_pending :: pending_transition where
  "sample_pending = \<lparr>pt_kind = Connect, pt_parent = \<lparr>tip_height = 0, tip_hash = 7\<rparr>, pt_next = \<lparr>tip_height = 1, tip_hash = 5\<rparr>,
     pt_undo = sample_undo, pt_created = [(sample_key 3, sample_coin 101 1)]\<rparr>"

definition sample_interrupted :: "utxo_tables recovery_state" where
  "sample_interrupted = \<lparr>
     rs_coins = snd (ops_apply_with_undo store_ops [sample_key 1] [(sample_key 3, sample_coin 101 1)] sample_store),
     rs_undos = snd (prepare_transition sample_pending \<lparr>block_undos = fmempty, pending_row = None\<rparr>),
     rs_meta = sample_meta\<rparr>"

lemma sample_interrupted_ok:
  "store_inv (rs_coins sample_interrupted)"
  "interrupted (store_view sample_store) [sample_key 2 \<mapsto> sample_coin 100 9, sample_key 3 \<mapsto> sample_coin 101 1] sample_pending
     (store_view (rs_coins sample_interrupted)) (rs_undos sample_interrupted) (rs_meta sample_interrupted)"
  "store_view (rs_coins sample_interrupted) (sample_key 1) = None"
proof -
  let ?v = "[sample_key 2 \<mapsto> sample_coin 100 9, sample_key 3 \<mapsto> sample_coin 101 1]"
  have ap: "coins_apply (store_view sample_store) [sample_key 1] [(sample_key 3, sample_coin 101 1)] = Inr (sample_undo, ?v)"
    by (auto simp: coins_apply_def sample_store_ok(2) coins_after_def restrict_map_def map_add_def fun_eq_iff sample_undo_def)
  have im: "implements store_inv store_view (\<lambda>_. UNIV) sample_store (Inr (sample_undo, ?v))
      (ops_apply_with_undo store_ops [sample_key 1] [(sample_key 3, sample_coin 101 1)] sample_store)"
    using redb.apply_law [OF sample_store_ok(1), of "[(sample_key 3, sample_coin 101 1)]" "[sample_key 1]"] ap by simp
  then show "store_inv (rs_coins sample_interrupted)" by (simp add: implements_def sample_interrupted_def)
  have v: "store_view (rs_coins sample_interrupted) = ?v" using im by (simp add: implements_def sample_interrupted_def)
  then show "store_view (rs_coins sample_interrupted) (sample_key 1) = None" by simp
  have "read_pending_transition (rs_undos sample_interrupted) = Inr (Some sample_pending)" by code_simp
  then show "interrupted (store_view sample_store) ?v sample_pending
     (store_view (rs_coins sample_interrupted)) (rs_undos sample_interrupted) (rs_meta sample_interrupted)"
    using ap redb.view_ok [OF sample_store_ok(1)] sample_tip
    by (simp add: interrupted_def v) (simp add: sample_pending_def sample_undo_def sample_interrupted_def checked_add_eq_iff)
qed

theorem recovery_correct_witness:
  "\<exists>s'. recover_pending_transition store_ops 60 10 sample_interrupted = (Inr True, s')
    \<and> store_view (rs_coins sample_interrupted) (sample_key 1) = None
    \<and> store_view (rs_coins s') (sample_key 1) = Some (sample_coin 10 1)
    \<and> read_tip (rs_meta s') = Inr \<lparr>tip_height = 0, tip_hash = 7\<rparr>
    \<and> recover_pending_transition store_ops 60 10 s' = (Inr False, s')"
proof -
  from recovery_correct [OF sample_interrupted_ok(1), of 60 10] sample_interrupted_ok(2) obtain s' where
    s': "recover_pending_transition store_ops 60 10 sample_interrupted = (Inr True, s')"
    "recover_pending_transition store_ops 60 10 s' = (Inr False, s')"
    "recovered (store_view sample_store) [sample_key 2 \<mapsto> sample_coin 100 9, sample_key 3 \<mapsto> sample_coin 101 1]
       sample_pending (rs_undos sample_interrupted) (rs_meta sample_interrupted)
       (store_view (rs_coins s')) (rs_undos s') (rs_meta s')" by blast
  have "read_tip (rs_meta sample_interrupted) \<noteq> Inr (pt_next sample_pending)"
    using sample_tip by (simp add: sample_interrupted_def sample_pending_def)
  with s'(3) have "store_view (rs_coins s') = store_view sample_store" "read_tip (rs_meta s') = Inr (pt_parent sample_pending)"
    by (simp_all add: recovered_def)
  then show ?thesis using s'(1,2) sample_interrupted_ok(3) by (simp add: sample_store_ok(2) sample_pending_def)
qed

end
