(* ===== verification/Spec2Isabelle.thy ===== *)
theory Spec2Isabelle
  imports Utxo_Store_Refine Execution_Invariant Undo_Store Deployments_Properties Signet Merkle Blockchain_Properties Utxo_Overlay_Refine Validation_Delta_Properties Chain_Store_Properties Block_Execution_Properties
begin

text \<open>
  Verification of the consensus and chainstate core of rBTC, a Bitcoin full node in Rust.

  \<^bold>\<open>The program.\<close> Headers arrive in a DAG that picks the chain with the most work
  (\<open>headers.rs\<close>), under the rules that each network and each BIP9 deployment activates
  (\<open>deployments.rs\<close>, \<open>signet.rs\<close>). The blocks of that chain are checked
  (\<open>blockchain.rs\<close>, \<open>merkle_proof.rs\<close>), their transactions are checked and applied one after
  another (\<open>chainstate.rs\<close>) to a set of unspent coins behind the trait \<open>UtxoStore\<close>
  (\<open>utxo.rs\<close>), either directly or through the overlay of a batch
  (\<open>block_execution.rs\<close>), and the result is committed with its undo data
  (\<open>undo_store.rs\<close>) and the tip (\<open>execution_store.rs\<close>) in one database transaction
  (\<open>chain_store.rs\<close>).

  \<^bold>\<open>Conventions.\<close> A \<open>Result\<close> is a sum with the error on the left (\<open>Ok\<close>, \<open>Err\<close>,
  \<^const>\<open>bind_res\<close>); a call that may panic is an option of a result. Fixed-width integers are
  words, and checked and saturating operations are written out. Code with \<open>&self\<close> over a shared
  table takes the table and returns it with the result (type \<open>st\<close>, or \<open>pst\<close> when it may
  panic). A redb write transaction is a function from the tables to an error or the new tables: an
  error drops every change, as redb does for an uncommitted transaction. Locks are not modelled, since every
  operation holds its lock from the first read to the commit. The external crates are parameters:
  the record \<open>bitcoin_lib\<close> of the script interpreter, the encodings and the digests it takes from
  \<open>bitcoin\<close>, and \<open>sha256\<close>. A theorem that relies on their behaviour says so in its hypotheses.

  \<^bold>\<open>Theories, in the order of dependence.\<close>

  \<^item> \<open>Rbtc_Prelude\<close>: results, state passing, checked arithmetic, little-endian records, slices.
  \<^item> \<open>Utxo\<close>, \<open>Utxo_Codec\<close> (\<open>utxo.rs\<close>): keys and the fixed-width and compact coin records, undo
    records and re-tiering progress; every decoder inverts its encoder.
  \<^item> \<open>Utxo_Interface\<close>: the trait \<open>UtxoStore\<close> as the locales \<open>utxo_reader\<close> and
    \<open>utxo_store\<close>: what reads return and what every mutation does to the view of the coins.
  \<^item> \<open>Utxo_Store\<close>, \<open>Utxo_Store_Refine\<close> (\<open>utxo.rs\<close>, \<open>RedbUtxoStore\<close>): the hot and cold tables
    with every operation on them, the invariant, and the interpretation \<open>redb\<close> of the locale.
    Ageing, re-tiering, snapshots, bulk loads and the merge of a validated change keep or
    produce exactly the coins they should.
  \<^item> \<open>Utxo_Overlay\<close>, \<open>Utxo_Overlay_Refine\<close> (\<open>block_execution.rs\<close>, \<open>UtxoOverlay\<close>): a cache of
    reads and writes over any store; the interpretation \<open>overlay\<close>, and the net change.
  \<^item> \<open>Execution_Store\<close>, \<open>Execution_Invariant\<close> (\<open>execution_store.rs\<close>): the metadata rows, the tip,
    assumed snapshots with their history; the invariant holds in every reachable state, and a snapshot
    is assumed once in the life of a database, whatever operations follow.
  \<^item> \<open>Undo_Store\<close> (\<open>undo_store.rs\<close>): the undo records of blocks and the pending transition.
  \<^item> \<open>Deployment_Config\<close>, \<open>Deployments\<close>, \<open>Deployments_Properties\<close> (\<open>deployments.rs\<close>): the
    configuration with its digest, issuance, the rules of a block with the exact mainnet schedule, and
    the BIP9 states with their cache, equal to the definition by periods.
  \<^item> \<open>Headers\<close>, \<open>Headers_Graph\<close>, \<open>Headers_Transactions\<close>, \<open>Headers_Properties\<close>
    (\<open>headers.rs\<close>, \<open>headers/retention.rs\<close>): the header DAG with insertion, retargeting, checkpoints,
    staged batches and eviction; the invariant of every reachable DAG says that the active chain is a
    path from the root with the most work.
  \<^item> \<open>Signet\<close>, \<open>Merkle\<close>, \<open>Bitcoin_Lib\<close> and \<open>Consensus\<close>: signet solutions, Merkle roots with
    what a proof of each depth shows, the data of blocks and transactions, the script interpreter adapter.
  \<^item> \<open>Chainstate\<close>, \<open>Chainstate_Properties\<close> (\<open>chainstate.rs\<close>): checking and applying one
    transaction on any store, which is simulated by the reference store \<open>ref_store\<close>.
  \<^item> \<open>Blockchain\<close>, \<open>Blockchain_Refine\<close>, \<open>Blockchain_Properties\<close> (\<open>blockchain.rs\<close>): a whole
    block is applied or rolled back, never creates money, and deferred scripts are verified
    with the same outcome for every scheduling of the workers.
  \<^item> \<open>Validation_Delta\<close>, \<open>Validation_Delta_Properties\<close> (\<open>chain_store.rs\<close>): the filters and delta
    records of the validation journal, with their searches.
  \<^item> \<open>Chain_Store\<close>, \<open>Chain_Store_Ages\<close>, \<open>Chain_Journal\<close>, \<open>Chain_Journal_Maintenance\<close>,
    \<open>Chain_Store_Properties\<close> (\<open>chain_store.rs\<close>, \<open>RedbChainStore\<close>): the unified database with
    single and batched commits, the journal, materialization, disconnects, reopening. The view of
    a journal-backed store is the coin tables with every row folded in; each operation is proved
    against it.
  \<^item> \<open>Block_Views\<close>, \<open>Block_Execution\<close> (\<open>block_execution.rs\<close>): the read views of a batch, connecting
    one block or a batch, disconnecting the tip, recovering an interrupted transition. A worker thread
    appears as the list of block indices it claims.
  \<^item> \<open>Block_Execution_Refine\<close>, \<open>Block_Recovery\<close>, \<open>Block_Execution_Properties\<close>: the whole
    path from a block to the database. Connecting publishes what executing the block on the coins
    alone gives, disconnecting leads back, and recovery completes every interrupted transition.

  \<^bold>\<open>Recursion.\<close> Loops over lists and byte strings are structural or have a termination measure
  (the remaining bytes, the size of the search interval). The walks along parents in the
  header DAG and the locator loop are partial functions: not returning is \<open>None\<close>, and the properties
  of the DAG prove that they return under its invariant. No definition carries fuel.

  \<^bold>\<open>Not modelled.\<close> Networking, the mempool with its policy, fees and linearization, the wallet,
  the API, index and snapshot files, the alternative backends (\<open>mdbx_utxo.rs\<close>,
  \<open>write_back_chainstate.rs\<close>) and the wiring of the daemon are outside. Of \<open>block_execution.rs\<close>
  the timing breakdown, the sharding of the overlay behind its locks and the table-wide operations of
  the overlay are left out. Of \<open>chain_store.rs\<close> the batched reader \<open>get_many\<close> with its shard workers, the paging and
  streaming snapshot readers, \<open>finalize_assumed_snapshot\<close> and file compaction are left out.
  Process profiling, logging and lock poisoning have no counterpart.
\<close>

end
